(* ===== verification/Chat_Prelude.thy ===== *)
theory Chat_Prelude
  imports Main "HOL-Library.AList" "HOL-Library.Word" "HOL-Library.Sublist"
begin

text \<open>
  Shared vocabulary of the development.

  Go strings are byte sequences: they are HOL strings (lists of bytes).  Case
  mapping and white space follow the ASCII rules of the Go packages strings and
  unicode, so the model is exact for strings whose bytes are below 128.  A Go
  map from string to string is an association list (its keys are kept distinct
  by AList.update); the zero value of a missing key is the empty string.

  int64 and int32 are HOL integers together with the wrap functions of this
  theory, so that every place where the code can wrap says so.
\<close>

named_theorems go_simps
named_theorems vars_simps

section \<open>Integers of Go\<close>

definition to_int64 :: "int \<Rightarrow> int" where
  "to_int64 x = signed_take_bit 63 x"

definition to_int32 :: "int \<Rightarrow> int" where
  "to_int32 x = signed_take_bit 31 x"

definition is_int64 :: "int \<Rightarrow> bool" where
  "is_int64 x \<longleftrightarrow> - (2 ^ 63) \<le> x \<and> x < 2 ^ 63"

definition is_int32 :: "int \<Rightarrow> bool" where
  "is_int32 x \<longleftrightarrow> - (2 ^ 31) \<le> x \<and> x < 2 ^ 31"

lemma to_int64_id [simp, go_simps]: "is_int64 x \<Longrightarrow> to_int64 x = x"
  by (simp add: to_int64_def is_int64_def signed_take_bit_int_eq_self)

lemma to_int32_id [simp, go_simps]: "is_int32 x \<Longrightarrow> to_int32 x = x"
  by (simp add: to_int32_def is_int32_def signed_take_bit_int_eq_self)

lemma is_int64_to_int64 [simp, go_simps]: "is_int64 (to_int64 x)"
  using signed_take_bit_int_greater_eq_minus_exp [of 63 x]
    signed_take_bit_int_less_exp [of 63 x]
  by (simp add: to_int64_def is_int64_def)

lemma is_int32_to_int32 [simp, go_simps]: "is_int32 (to_int32 x)"
  using signed_take_bit_int_greater_eq_minus_exp [of 31 x]
    signed_take_bit_int_less_exp [of 31 x]
  by (simp add: to_int32_def is_int32_def)

text \<open>Integer division of Go truncates towards zero.\<close>

definition go_div :: "int \<Rightarrow> int \<Rightarrow> int" where
  "go_div a b = sgn a * sgn b * (\<bar>a\<bar> div \<bar>b\<bar>)"

definition go_mod :: "int \<Rightarrow> int \<Rightarrow> int" where
  "go_mod a b = a - b * go_div a b"

lemma go_div_nonneg: "0 \<le> a \<Longrightarrow> 0 < b \<Longrightarrow> go_div a b = a div b"
  by (cases "a = 0") (simp_all add: go_div_def sgn_if)

lemma go_div_neg: "a < 0 \<Longrightarrow> 0 < b \<Longrightarrow> go_div a b = - ((- a) div b)"
  by (simp add: go_div_def sgn_if)

lemma go_mod_nonneg: "0 \<le> a \<Longrightarrow> 0 < b \<Longrightarrow> go_mod a b = a mod b"
  by (simp add: go_mod_def go_div_nonneg minus_mult_div_eq_mod)

lemma go_mod_neg: "a < 0 \<Longrightarrow> 0 < b \<Longrightarrow> go_mod a b = - ((- a) mod b)"
  by (simp add: go_mod_def go_div_neg minus_mult_div_eq_mod [symmetric])

section \<open>Strings\<close>

definition lower_char :: "char \<Rightarrow> char" where
  "lower_char c = (let n = (of_char c :: nat) in
     if 65 \<le> n \<and> n \<le> 90 then char_of (n + 32) else c)"

text \<open>The strings on which the byte-wise case mapping of this theory is that of
  the packages strings and unicode: Unicode maps a byte below 128 within the
  bytes below 128, and no other letter folds to one of them unless its own bytes
  are above.\<close>

definition ascii :: "string \<Rightarrow> bool" where
  "ascii s \<longleftrightarrow> list_all (\<lambda>c. of_char c < (128 :: nat)) s"

definition to_lower :: "string \<Rightarrow> string" where
  "to_lower s = map lower_char s"

definition equal_fold :: "string \<Rightarrow> string \<Rightarrow> bool" where
  "equal_fold s t \<longleftrightarrow> to_lower s = to_lower t"

definition is_space :: "char \<Rightarrow> bool" where
  "is_space c \<longleftrightarrow> (let n = (of_char c :: nat) in n = 32 \<or> 9 \<le> n \<and> n \<le> 13)"

definition trim_space :: "string \<Rightarrow> string" where
  "trim_space s = rev (dropWhile is_space (rev (dropWhile is_space s)))"

definition has_prefix :: "string \<Rightarrow> string \<Rightarrow> bool" where
  "has_prefix s p \<longleftrightarrow> take (length p) s = p"

definition trim_prefix :: "string \<Rightarrow> string \<Rightarrow> string" where
  "trim_prefix s p = (if has_prefix s p then drop (length p) s else s)"

text \<open>strings.Index (and IndexByte on a singleton): None is the code's -1.\<close>

fun index_of :: "string \<Rightarrow> string \<Rightarrow> nat option" where
  "index_of s p = (if has_prefix s p then Some 0 else
     (case s of [] \<Rightarrow> None | _ # s' \<Rightarrow> map_option Suc (index_of s' p)))"

declare index_of.simps [simp del]

text \<open>strings.Split with a separator of one byte.\<close>

fun split_on :: "char \<Rightarrow> string \<Rightarrow> string list" where
  "split_on d [] = [[]]"
| "split_on d (c # s) =
     (if c = d then [] # split_on d s
      else (case split_on d s of w # ws \<Rightarrow> (c # w) # ws | [] \<Rightarrow> [[c]]))"

fun join_with :: "string \<Rightarrow> string list \<Rightarrow> string" where
  "join_with sep [] = []"
| "join_with sep [w] = w"
| "join_with sep (w # v # ws) = w @ sep @ join_with sep (v # ws)"

text \<open>strings.FieldsFunc: the maximal non-empty runs of bytes that are no separator.\<close>

fun fields_by :: "(char \<Rightarrow> bool) \<Rightarrow> string \<Rightarrow> string \<Rightarrow> string list" where
  "fields_by p acc [] = (if acc = [] then [] else [acc])"
| "fields_by p acc (c # s) =
     (if p c then (if acc = [] then fields_by p [] s else acc # fields_by p [] s)
      else fields_by p (acc @ [c]) s)"

text \<open>strings.ReplaceAll where the old string is one byte.\<close>

definition replace_char :: "char \<Rightarrow> string \<Rightarrow> string \<Rightarrow> string" where
  "replace_char c r s = concat (map (\<lambda>x. if x = c then r else [x]) s)"

lemma lower_char_idem [simp]: "lower_char (lower_char c) = lower_char c"
proof (cases "65 \<le> (of_char c :: nat) \<and> (of_char c :: nat) \<le> 90")
  case True
  then have "(of_char (lower_char c) :: nat) = of_char c + 32"
    by (simp add: lower_char_def)
  with True show ?thesis by (simp add: lower_char_def [of "lower_char c"])
next
  case False
  then show ?thesis by (auto simp: lower_char_def Let_def)
qed

lemma to_lower_Nil [simp]: "to_lower [] = []"
  and to_lower_Cons [simp]: "to_lower (c # s) = lower_char c # to_lower s"
  and length_to_lower [simp]: "length (to_lower s) = length s"
  and to_lower_append [simp]: "to_lower (s @ t) = to_lower s @ to_lower t"
  and to_lower_take: "to_lower (take n s) = take n (to_lower s)"
  and to_lower_drop: "to_lower (drop n s) = drop n (to_lower s)"
  by (simp_all add: to_lower_def take_map drop_map)

lemma to_lower_idem [simp]: "to_lower (to_lower s) = to_lower s"
  by (simp add: to_lower_def)

lemma to_lower_eq_Nil [simp]: "to_lower s = [] \<longleftrightarrow> s = []"
  by (cases s) simp_all

lemma equal_fold_refl [simp]: "equal_fold s s"
  and equal_fold_sym: "equal_fold s t \<longleftrightarrow> equal_fold t s"
  and equal_fold_trans: "equal_fold s t \<Longrightarrow> equal_fold t u \<Longrightarrow> equal_fold s u"
  by (auto simp: equal_fold_def)

lemma equal_fold_length: "equal_fold s t \<Longrightarrow> length s = length t"
  unfolding equal_fold_def by (metis length_to_lower)

lemma equal_fold_Nil [simp]: "equal_fold s [] \<longleftrightarrow> s = []" "equal_fold [] s \<longleftrightarrow> s = []"
  by (simp_all add: equal_fold_def) (metis to_lower_eq_Nil)

lemma has_prefix_conv: "has_prefix s p \<longleftrightarrow> prefix p s"
  by (auto simp: has_prefix_def prefix_def) (metis append_take_drop_id)

lemma has_prefix_Nil [simp]: "has_prefix s []"
  by (simp add: has_prefix_def)

lemma has_prefix_append [simp]: "has_prefix (p @ s) p"
  by (simp add: has_prefix_def)

lemma has_prefixD: "has_prefix s p \<Longrightarrow> s = p @ drop (length p) s"
  unfolding has_prefix_def by (metis append_take_drop_id)

lemma trim_prefix_append [simp]: "trim_prefix (p @ s) p = s"
  by (simp add: trim_prefix_def)

text \<open>strings.Index finds the first occurrence.\<close>

lemma index_of_SomeD:
  "index_of s p = Some i \<Longrightarrow> i + length p \<le> length s \<and> take (length p) (drop i s) = p"
proof (induction s arbitrary: i)
  case Nil
  then show ?case by (auto simp: index_of.simps [of "[]"] has_prefix_def split: if_splits)
next
  case (Cons c s)
  show ?case
  proof (cases "has_prefix (c # s) p")
    case True
    then have "i = 0" using Cons.prems by (simp add: index_of.simps [of "c # s"])
    moreover have "length p \<le> length (c # s)" using has_prefixD [OF True] by (metis le_add1 length_append)
    ultimately show ?thesis using True by (simp add: has_prefix_def)
  next
    case False
    then obtain j where "index_of s p = Some j" "i = Suc j"
      using Cons.prems by (auto simp: index_of.simps [of "c # s"])
    with Cons.IH show ?thesis by auto
  qed
qed

lemma index_of_NoneD:
  "index_of s p = None \<Longrightarrow> \<not> has_prefix (drop i s) p"
proof (induction s arbitrary: i)
  case Nil
  then show ?case by (auto simp: index_of.simps [of "[]"] split: if_splits)
next
  case (Cons c s)
  then have "\<not> has_prefix (c # s) p" "index_of s p = None"
    by (auto simp: index_of.simps [of "c # s"] split: if_splits)
  with Cons.IH show ?case by (cases i) auto
qed

lemma index_of_first:
  "index_of s p = Some i \<Longrightarrow> j < i \<Longrightarrow> \<not> has_prefix (drop j s) p"
proof (induction s arbitrary: i j)
  case Nil
  then show ?case by (auto simp: index_of.simps [of "[]"] split: if_splits)
next
  case (Cons c s)
  then have np: "\<not> has_prefix (c # s) p" by (auto simp: index_of.simps [of "c # s"])
  with Cons.prems obtain k where "index_of s p = Some k" "i = Suc k"
    by (auto simp: index_of.simps [of "c # s"])
  with np Cons.IH [of k "j - 1"] Cons.prems show ?case by (cases j) auto
qed

lemma split_on_neq_Nil [simp]: "split_on d s \<noteq> []"
  by (induction s) (auto split: list.splits)

lemma length_split_on: "length (split_on d s) = Suc (count_list s d)"
  by (induction s) (auto split: list.splits)

lemma split_on_no_sep: "d \<notin> set s \<Longrightarrow> split_on d s = [s]"
  by (induction s) auto

lemma split_on_append: "d \<notin> set s \<Longrightarrow> split_on d (s @ d # t) = s # split_on d t"
  by (induction s) (auto split: list.splits)

lemma split_on_no_sep_parts: "w \<in> set (split_on d s) \<Longrightarrow> d \<notin> set w"
proof (induction s arbitrary: w)
  case (Cons c s)
  then show ?case by (cases "split_on d s") (auto split: if_splits)
qed simp

lemma join_with_Cons: "ws \<noteq> [] \<Longrightarrow> join_with sep (w # ws) = w @ sep @ join_with sep ws"
  by (cases ws) simp_all

lemma join_split [simp]: "join_with [d] (split_on d s) = s"
proof (induction s)
  case (Cons c s)
  show ?case
  proof (cases "c = d")
    case True
    then show ?thesis using Cons by (simp add: join_with_Cons)
  next
    case False
    obtain w ws where w: "split_on d s = w # ws" by (cases "split_on d s") auto
    with Cons False show ?thesis by (cases ws) auto
  qed
qed simp

lemma split_join:
  "ws \<noteq> [] \<Longrightarrow> \<forall>w \<in> set ws. d \<notin> set w \<Longrightarrow> split_on d (join_with [d] ws) = ws"
proof (induction ws)
  case (Cons w ws)
  then show ?case
    by (cases ws) (auto simp: split_on_no_sep split_on_append)
qed simp

lemma fields_by_parts:
  "\<forall>c \<in> set acc. \<not> p c \<Longrightarrow> w \<in> set (fields_by p acc s) \<Longrightarrow> w \<noteq> [] \<and> (\<forall>c \<in> set w. \<not> p c)"
proof (induction s arbitrary: acc)
  case Nil
  then show ?case by (cases "acc = []") auto
next
  case (Cons c s)
  show ?case
  proof (cases "p c")
    case True
    with Cons.prems have "w = acc \<and> acc \<noteq> [] \<or> w \<in> set (fields_by p [] s)"
      by (cases "acc = []") auto
    with Cons.IH [of "[]"] Cons.prems(1) show ?thesis by auto
  next
    case False
    with Cons.prems have "w \<in> set (fields_by p (acc @ [c]) s)" by simp
    with Cons.IH [of "acc @ [c]"] Cons.prems(1) False show ?thesis by simp
  qed
qed

section \<open>Decimal numbers\<close>

definition is_digit :: "char \<Rightarrow> bool" where
  "is_digit c \<longleftrightarrow> (let n = (of_char c :: nat) in 48 \<le> n \<and> n \<le> 57)"

definition digit_val :: "char \<Rightarrow> int" where
  "digit_val c = int (of_char c) - 48"

definition digit_char :: "nat \<Rightarrow> char" where
  "digit_char d = char_of (48 + d)"

fun nat_digits :: "nat \<Rightarrow> string" where
  "nat_digits n = (if n < 10 then [digit_char n] else nat_digits (n div 10) @ [digit_char (n mod 10)])"

declare nat_digits.simps [simp del]

text \<open>strconv.FormatInt of base 10.\<close>

definition itoa :: "int \<Rightarrow> string" where
  "itoa i = (if i < 0 then CHR ''-'' # nat_digits (nat (- i)) else nat_digits (nat i))"

datatype num_error = ErrSyntax | ErrRange

text \<open>strconv.ParseUint of base 10 and 64 bits, digit by digit: a byte that is no
  digit is a syntax error, a value that leaves 64 bits a range error, whichever
  comes first.\<close>

fun parse_digits :: "int \<Rightarrow> string \<Rightarrow> num_error + int" where
  "parse_digits n [] = Inr n"
| "parse_digits n (c # s) =
     (if \<not> is_digit c then Inl ErrSyntax
      else let m = 10 * n + digit_val c in
        if m \<ge> 2 ^ 64 then Inl ErrRange else parse_digits m s)"

definition parse_uint :: "string \<Rightarrow> num_error + int" where
  "parse_uint s = (if s = [] then Inl ErrSyntax else parse_digits 0 s)"

text \<open>strconv.ParseInt of base 10 and 64 bits returns a value besides the error:
  zero for a syntax error, the nearest bound for a range error.\<close>

definition parse_int :: "string \<Rightarrow> int \<times> num_error option" where
  "parse_int s =
     (if s = [] then (0, Some ErrSyntax)
      else let neg = (hd s = CHR ''-'');
               body = (if hd s = CHR ''-'' \<or> hd s = CHR ''+'' then tl s else s)
           in case parse_uint body of
                Inl ErrSyntax \<Rightarrow> (0, Some ErrSyntax)
              | Inl ErrRange \<Rightarrow> (if neg then (- (2 ^ 63), Some ErrRange) else (2 ^ 63 - 1, Some ErrRange))
              | Inr un \<Rightarrow>
                  if \<not> neg \<and> un \<ge> 2 ^ 63 then (2 ^ 63 - 1, Some ErrRange)
                  else if neg \<and> un > 2 ^ 63 then (- (2 ^ 63), Some ErrRange)
                  else (if neg then - un else un, None))"

lemma is_digit_digit_char [simp]: "d < 10 \<Longrightarrow> is_digit (digit_char d)"
  and digit_val_digit_char [simp]: "d < 10 \<Longrightarrow> digit_val (digit_char d) = int d"
  by (simp_all add: is_digit_def digit_val_def digit_char_def Let_def of_char_of)

lemma nat_digits_neq_Nil [simp]: "nat_digits n \<noteq> []"
  by (subst nat_digits.simps) simp

lemma nat_digits_digits: "c \<in> set (nat_digits n) \<Longrightarrow> is_digit c"
proof (induction n rule: nat_digits.induct)
  case (1 n)
  show ?case
  proof (cases "n < 10")
    case True
    then show ?thesis using 1(2) by (simp add: nat_digits.simps [of n])
  next
    case False
    then show ?thesis using 1 by (auto simp: nat_digits.simps [of n])
  qed
qed

lemma parse_digits_append:
  "parse_digits a s = Inr m \<Longrightarrow> parse_digits a (s @ t) = parse_digits m t"
  by (induction a s rule: parse_digits.induct) (auto simp: Let_def split: if_splits)

lemma parse_digits_nat_digits:
  "int n < 2 ^ 64 \<Longrightarrow> parse_digits 0 (nat_digits n) = Inr (int n)"
proof (induction n rule: nat_digits.induct)
  case (1 n)
  show ?case
  proof (cases "n < 10")
    case True
    then show ?thesis by (simp add: nat_digits.simps [of n] Let_def)
  next
    case False
    then have "parse_digits 0 (nat_digits (n div 10)) = Inr (int (n div 10))"
      using 1 by simp
    then show ?thesis
      using 1(2) False by (simp add: nat_digits.simps [of n] parse_digits_append Let_def zdiv_int zmod_int)
  qed
qed

lemma hd_nat_digits_no_sign [simp]:
  "hd (nat_digits n) \<noteq> CHR ''-''" "hd (nat_digits n) \<noteq> CHR ''+''"
  using nat_digits_digits [of "hd (nat_digits n)" n]
  by (auto simp: is_digit_def)

theorem parse_int_itoa: "is_int64 i \<Longrightarrow> parse_int (itoa i) = (i, None)"
proof (cases "i < 0")
  case True
  assume "is_int64 i"
  with True have "parse_digits 0 (nat_digits (nat (- i))) = Inr (- i)"
    using parse_digits_nat_digits [of "nat (- i)"] by (simp add: is_int64_def)
  with True \<open>is_int64 i\<close> show ?thesis
    by (simp add: itoa_def parse_int_def parse_uint_def is_int64_def)
next
  case False
  assume "is_int64 i"
  with False have "parse_digits 0 (nat_digits (nat i)) = Inr i"
    using parse_digits_nat_digits [of "nat i"] by (simp add: is_int64_def)
  with False \<open>is_int64 i\<close> show ?thesis
    by (simp add: itoa_def parse_int_def parse_uint_def is_int64_def)
qed

lemma itoa_neq_Nil [simp]: "itoa i \<noteq> []"
  by (simp add: itoa_def)

lemma itoa_chars: "c \<in> set (itoa i) \<Longrightarrow> is_digit c \<or> c = CHR ''-''"
  using nat_digits_digits by (auto simp: itoa_def split: if_splits)

section \<open>Maps from string to string\<close>

type_synonym vars = "(string \<times> string) list"

definition vget :: "vars \<Rightarrow> string \<Rightarrow> string" where
  "vget m k = (case map_of m k of Some v \<Rightarrow> v | None \<Rightarrow> [])"

definition vset :: "string \<Rightarrow> string \<Rightarrow> vars \<Rightarrow> vars" where
  "vset k v m = AList.update k v m"

definition vdel :: "string \<Rightarrow> vars \<Rightarrow> vars" where
  "vdel k m = AList.delete k m"

definition vars_ok :: "vars \<Rightarrow> bool" where
  "vars_ok m \<longleftrightarrow> distinct (map fst m)"

lemma map_of_vset [simp, vars_simps]: "map_of (vset k v m) = (map_of m)(k \<mapsto> v)"
  by (simp add: vset_def update_conv')

lemma map_of_vdel [simp, vars_simps]: "map_of (vdel k m) = (map_of m)(k := None)"
  by (simp add: vdel_def delete_conv')

lemma vget_vset [simp, vars_simps]: "vget (vset k v m) k' = (if k' = k then v else vget m k')"
  by (simp add: vget_def)

lemma vget_vdel [simp, vars_simps]: "vget (vdel k m) k' = (if k' = k then [] else vget m k')"
  by (simp add: vget_def)

lemma vget_Nil [simp, vars_simps]: "vget [] k = []"
  by (simp add: vget_def)

lemma vset_neq_Nil [simp, vars_simps]: "vset k v m \<noteq> []"
  unfolding vset_def by (cases m) auto

lemma vars_ok_Nil [simp, vars_simps]: "vars_ok []"
  and vars_ok_vset [simp, vars_simps]: "vars_ok m \<Longrightarrow> vars_ok (vset k v m)"
  and vars_ok_vdel [simp, vars_simps]: "vars_ok m \<Longrightarrow> vars_ok (vdel k m)"
  by (simp_all add: vars_ok_def vset_def vdel_def distinct_update distinct_delete)

text \<open>The entries of a map that may be nil.\<close>

definition env_of :: "'a list option \<Rightarrow> 'a list" where
  "env_of e = (case e of None \<Rightarrow> [] | Some e \<Rightarrow> e)"

lemma env_of_simps [simp]: "env_of None = []" "env_of (Some e) = e"
  by (simp_all add: env_of_def)

text \<open>A two-valued result: the error of the code, or its value.\<close>

type_synonym ('e, 'a) result = "'e + 'a"

abbreviation Fail :: "'e \<Rightarrow> ('e, 'a) result" where "Fail \<equiv> Inl"
abbreviation Ok :: "'a \<Rightarrow> ('e, 'a) result" where "Ok \<equiv> Inr"

fun is_ok :: "('e, 'a) result \<Rightarrow> bool" where
  "is_ok (Inl _) = False"
| "is_ok (Inr _) = True"

end
