(* ===== verification/App_Strings.thy ===== *)
theory App_Strings
  imports Chat_Prelude
begin

text \<open>
  app/strings.go: the substring patterns of the search filters.

  A pattern is split at its any-byte into a Substrings value; Match compares a
  text with it in memory, Value turns it into an operand of LIKE for PostgreSQL.
  The two are related to one specification, glob, in which a star stands for any
  text and a question mark for one byte, up to ASCII case.

  strings.EqualFold and strings.ToLower are modelled on ASCII strings (predicate
  ascii of the prelude).  Beyond ASCII the code folds decoded runes, and ToLower
  may change the length of a text in bytes, so nothing is claimed there.
\<close>

section \<open>Comparisons\<close>

definition case_ignore_match :: "string \<Rightarrow> string \<Rightarrow> bool" where
  "case_ignore_match s t \<longleftrightarrow> equal_fold s t"

definition case_exact_match :: "string \<Rightarrow> string \<Rightarrow> bool" where
  "case_exact_match s t \<longleftrightarrow> s = t"

definition case_exact_match_n :: "string \<Rightarrow> string \<Rightarrow> int \<Rightarrow> bool" where
  "case_exact_match_n s t n \<longleftrightarrow>
     (if n \<le> 0 then case_exact_match s t
      else int (length s) \<ge> n \<and> int (length t) \<ge> n \<and>
        case_exact_match (take (nat n) s) (take (nat n) t))"

definition case_ignore_match_n :: "string \<Rightarrow> string \<Rightarrow> int \<Rightarrow> bool" where
  "case_ignore_match_n s t n \<longleftrightarrow>
     (if n \<le> 0 then case_ignore_match s t
      else int (length s) \<ge> n \<and> int (length t) \<ge> n \<and>
        case_ignore_match (take (nat n) s) (take (nat n) t))"

section \<open>Substrings\<close>

type_synonym substrings = "string list"

abbreviation substring_any :: char where "substring_any \<equiv> CHR ''*''"
abbreviation substring_one :: char where "substring_one \<equiv> CHR ''?''"

text \<open>The loop of SubstringMask, its index running from len(sv)-2 down to 1, with
  the cut of an empty element written as the code's append of two slices.\<close>

fun omit_empty :: "nat \<Rightarrow> substrings \<Rightarrow> substrings" where
  "omit_empty 0 sv = sv"
| "omit_empty (Suc i) sv =
     omit_empty i (if sv ! Suc i = [] then take (Suc i) sv @ drop (Suc (Suc i)) sv else sv)"

text \<open>The zero rune selects the default; the second mask byte is not used.\<close>

definition substring_mask :: "string \<Rightarrow> char \<Rightarrow> char \<Rightarrow> substrings" where
  "substring_mask s any one =
     (let any = (if any = CHR 0x00 then substring_any else any);
          sv = split_on any s
      in omit_empty (length sv - 2) sv)"

definition substring :: "string \<Rightarrow> substrings" where
  "substring s = substring_mask s (CHR 0x00) (CHR 0x00)"

definition is_present_term :: "string \<Rightarrow> bool" where
  "is_present_term s \<longleftrightarrow> s = [substring_any]"

fun is_present_from :: "nat \<Rightarrow> substrings \<Rightarrow> bool" where
  "is_present_from n [] = True"
| "is_present_from n (part # subs) =
     (if n > 1 \<or> part \<noteq> [] then False else is_present_from (Suc n) subs)"

definition is_present :: "substrings \<Rightarrow> bool" where
  "is_present subs = is_present_from 0 subs"

definition subs_string :: "substrings \<Rightarrow> string" where
  "subs_string subs = join_with [substring_any] subs"

definition initial :: "substrings \<Rightarrow> string \<times> bool" where
  "initial subs = (let pfx = (if subs \<noteq> [] then hd subs else []) in (pfx, [] \<noteq> pfx))"

definition final :: "substrings \<Rightarrow> string \<times> bool" where
  "final subs = (let sfx = (if length subs > 1 then last subs else []) in (sfx, [] \<noteq> sfx))"

definition any_parts :: "substrings \<Rightarrow> string list" where
  "any_parts subs = (if length subs > 2 then butlast (tl subs) else [])"

section \<open>Match\<close>

text \<open>
  matchText consumes the captured variable s from the left: one round matches
  the text before the next question mark at the index that indexFunc gives, and
  then one byte for the question mark.  None is the result false, Some s the
  result true with the rest of s that is left in the captured variable.
\<close>

function match_text :: "(string \<Rightarrow> string \<Rightarrow> nat option) \<Rightarrow> string \<Rightarrow> string \<Rightarrow> string option" where
  "match_text idx term s =
     (let text = takeWhile (\<lambda>c. c \<noteq> substring_one) term;
          rest = dropWhile (\<lambda>c. c \<noteq> substring_one) term
      in case idx s text of
           None \<Rightarrow> None
         | Some i \<Rightarrow>
             (let s1 = drop (i + length text) s in
              if rest = [] then Some s1
              else if s1 = [] then None
              else match_text idx (tl rest) (tl s1)))"
  by pat_completeness auto

lemma length_dropWhile_less:
  "x \<in> set xs \<Longrightarrow> length (dropWhile P xs) - Suc 0 < length xs"
  using length_dropWhile_le [of P xs] by (cases xs) auto

termination match_text
  by (relation "measure (\<lambda>(idx, term, s). length term)") (auto simp: length_dropWhile_less)

declare match_text.simps [simp del]

definition index_anchored :: "string \<Rightarrow> string \<Rightarrow> nat option" where
  "index_anchored s term =
     (if term = [] then Some 0
      else if case_ignore_match_n s term (int (length term)) then Some 0 else None)"

definition index_anywhere :: "string \<Rightarrow> string \<Rightarrow> nat option" where
  "index_anywhere s term =
     (if term = [] then Some 0 else index_of (to_lower s) (to_lower term))"

fun match_any :: "string list \<Rightarrow> string \<Rightarrow> string option" where
  "match_any [] s = Some s"
| "match_any (any # rest) s =
     (case match_text index_anywhere any s of
        None \<Rightarrow> None
      | Some s' \<Rightarrow> match_any rest s')"

definition match_final :: "substrings \<Rightarrow> string \<Rightarrow> string option" where
  "match_final m s =
     (let (suffix, ok) = final m in
      if ok \<and> length s \<ge> length suffix
      then match_text index_anchored suffix (drop (length s - length suffix) s)
      else Some s)"

definition match_subs :: "substrings \<Rightarrow> string \<Rightarrow> bool" where
  "match_subs m s =
     (if is_present m then [] \<noteq> s
      else
        (let prefix = fst (initial m) in
         case (if prefix \<noteq> [] then match_text index_anchored prefix s else Some s) of
           None \<Rightarrow> False
         | Some s1 \<Rightarrow>
             (case match_any (any_parts m) s1 of
                None \<Rightarrow> False
              | Some s2 \<Rightarrow>
                  (case match_final m s2 of
                     None \<Rightarrow> False
                   | Some s3 \<Rightarrow> s3 = []))))"

definition substring_match :: "string \<Rightarrow> string \<Rightarrow> bool" where
  "substring_match pattern v = match_subs (substring_mask pattern substring_any substring_one) v"

section \<open>Value\<close>

definition like_part :: "string \<Rightarrow> string" where
  "like_part v =
     replace_char CHR ''%'' (CHR 0x5C # ''%'')
       (replace_char CHR ''?'' ''_''
         (replace_char CHR ''_'' (CHR 0x5C # ''_'') v))"

definition subs_value :: "substrings \<Rightarrow> string" where
  "subs_value m = (if m = [] then [] else join_with ''%'' (map like_part m))"

section \<open>Specifications\<close>

definition char_fold :: "char \<Rightarrow> char \<Rightarrow> bool" where
  "char_fold c d \<longleftrightarrow> lower_char c = lower_char d"

fun star :: "(string \<Rightarrow> bool) \<Rightarrow> string \<Rightarrow> bool" where
  "star P [] = P []"
| "star P (c # s) = (P (c # s) \<or> star P s)"

text \<open>What a filter pattern means.\<close>

fun glob :: "string \<Rightarrow> string \<Rightarrow> bool" where
  "glob [] s = (s = [])"
| "glob (p # ps) s =
     (if p = substring_any then star (glob ps) s
      else if p = substring_one then s \<noteq> [] \<and> glob ps (tl s)
      else s \<noteq> [] \<and> char_fold p (hd s) \<and> glob ps (tl s))"

text \<open>The ILIKE operator of PostgreSQL with its default escape byte: a percent
  sign is any text, an underscore one byte, a backslash quotes the next byte.  A
  pattern that ends in a backslash is an error there; it matches nothing here.\<close>

fun ilike :: "string \<Rightarrow> string \<Rightarrow> bool" where
  "ilike [] s = (s = [])"
| "ilike (p # ps) s =
     (if p = CHR ''%'' then star (ilike ps) s
      else if p = CHR ''_'' then s \<noteq> [] \<and> ilike ps (tl s)
      else if p = CHR 0x5C then
        (case ps of [] \<Rightarrow> False
         | q # qs \<Rightarrow> s \<noteq> [] \<and> char_fold q (hd s) \<and> ilike qs (tl s))
      else s \<noteq> [] \<and> char_fold p (hd s) \<and> ilike ps (tl s))"

lemma star_iff: "star P s \<longleftrightarrow> (\<exists>k \<le> length s. P (drop k s))"
proof (induction s)
  case (Cons c s)
  have "(\<exists>k \<le> length (c # s). P (drop k (c # s))) \<longleftrightarrow> P (c # s) \<or> (\<exists>k \<le> length s. P (drop k s))"
  proof
    assume "\<exists>k \<le> length (c # s). P (drop k (c # s))"
    then obtain k where "k \<le> length (c # s)" "P (drop k (c # s))" by auto
    then show "P (c # s) \<or> (\<exists>k \<le> length s. P (drop k s))" by (cases k) auto
  next
    assume "P (c # s) \<or> (\<exists>k \<le> length s. P (drop k s))"
    then show "\<exists>k \<le> length (c # s). P (drop k (c # s))"
      by (auto intro: exI [of _ 0] exI [of _ "Suc _"])
  qed
  with Cons show ?case by simp
qed simp

lemma star_star: "star (star P) s = star P s"
  by (induction s) auto

lemma star_cong: "(\<And>s. P s = Q s) \<Longrightarrow> star P s = star Q s"
  by (induction s) auto


section \<open>The anchored matcher\<close>

text \<open>A pattern byte that is no star, against one byte of the text.\<close>

definition one_match :: "char \<Rightarrow> char \<Rightarrow> bool" where
  "one_match p c \<longleftrightarrow> p = substring_one \<or> char_fold p c"

lemma equal_fold_list_all2: "equal_fold s t \<longleftrightarrow> list_all2 char_fold s t"
proof (induction s arbitrary: t)
  case Nil
  then show ?case by (cases t) auto
next
  case (Cons c s)
  then show ?case by (cases t) (auto simp: equal_fold_def char_fold_def)
qed

lemma char_fold_sym: "char_fold c d \<longleftrightarrow> char_fold d c"
  by (auto simp: char_fold_def)

lemma list_all2_take_append:
  "list_all2 P (a @ b) (take (length a + length b) s) \<longleftrightarrow>
     list_all2 P a (take (length a) s) \<and> list_all2 P b (take (length b) (drop (length a) s))"
proof (cases "length a \<le> length s")
  case True
  then show ?thesis by (simp add: take_add list_all2_append)
next
  case False
  then have "\<not> list_all2 P a (take (length a) s)" by (auto dest: list_all2_lengthD)
  moreover from False have "\<not> list_all2 P (a @ b) (take (length a + length b) s)"
    by (auto dest: list_all2_lengthD)
  ultimately show ?thesis by simp
qed

lemma glob_no_star: "substring_any \<notin> set p \<Longrightarrow> glob p s \<longleftrightarrow> list_all2 one_match p s"
proof (induction p arbitrary: s)
  case (Cons a p)
  then show ?case by (cases s) (auto simp: one_match_def)
qed simp

lemma one_match_text:
  "substring_one \<notin> set p \<Longrightarrow> list_all2 one_match p s \<longleftrightarrow> list_all2 char_fold p s"
proof (induction p arbitrary: s)
  case (Cons a p)
  then show ?case by (cases s) (auto simp: one_match_def)
qed simp

lemma index_anchored_conv:
  assumes "substring_one \<notin> set p"
  shows "index_anchored s p =
    (if list_all2 one_match p (take (length p) s) then Some 0 else None)"
proof (cases "p = []")
  case False
  have "case_ignore_match_n s p (int (length p)) \<longleftrightarrow> list_all2 char_fold p (take (length p) s)"
    using False equal_fold_length [of p "take (length p) s"]
    by (auto simp: case_ignore_match_n_def case_ignore_match_def equal_fold_sym [of _ p]
        equal_fold_list_all2 [symmetric] dest: equal_fold_length)
  with False assms show ?thesis by (simp add: index_anchored_def one_match_text)
qed (simp add: index_anchored_def)

lemma match_text_anchored:
  "match_text index_anchored p s =
     (if list_all2 one_match p (take (length p) s) then Some (drop (length p) s) else None)"
proof (induction "length p" arbitrary: p s rule: less_induct)
  case less
  define t where "t = takeWhile (\<lambda>c. c \<noteq> substring_one) p"
  define r where "r = dropWhile (\<lambda>c. c \<noteq> substring_one) p"
  have p: "p = t @ r" by (simp add: t_def r_def)
  have nt: "substring_one \<notin> set t" by (auto simp: t_def dest: set_takeWhileD)
  have unf: "match_text index_anchored p s =
    (if list_all2 one_match t (take (length t) s)
     then (let s1 = drop (length t) s in
       if r = [] then Some s1 else if s1 = [] then None
       else match_text index_anchored (tl r) (tl s1)) else None)"
    by (simp add: match_text.simps [of index_anchored p s] Let_def flip: t_def r_def)
      (simp add: index_anchored_conv [OF nt])
  show ?case
  proof (cases r)
    case Nil
    then show ?thesis unfolding unf by (simp add: p)
  next
    case (Cons q r')
    then have q: "q = substring_one"
      using hd_dropWhile [of "\<lambda>c. c \<noteq> substring_one" p] by (simp add: r_def)
    have "length r' < length p" by (simp add: p Cons)
    note IH = less [OF this]
    have step: "list_all2 one_match r (take (length r) d) \<longleftrightarrow>
        d \<noteq> [] \<and> list_all2 one_match r' (take (length r') (tl d))" for d
      by (cases d) (simp_all add: Cons q one_match_def)
    have all: "list_all2 one_match p (take (length p) s) \<longleftrightarrow>
        list_all2 one_match t (take (length t) s) \<and> drop (length t) s \<noteq> [] \<and>
        list_all2 one_match r' (take (length r') (tl (drop (length t) s)))"
      unfolding p length_append list_all2_take_append step ..
    have rest: "drop (length p) s = drop (length r') (tl (drop (length t) s))"
      by (simp add: p Cons drop_Suc [symmetric] add.commute flip: drop_drop) (simp add: drop_Suc)
    show ?thesis
      unfolding unf all rest using IH [of "tl (drop (length t) s)"] by (simp add: Cons Let_def)
  qed
qed

section \<open>Masks\<close>

lemma omit_empty_conv:
  "omit_empty (length m) (x # m @ z) = x # filter (\<lambda>w. w \<noteq> []) m @ z"
proof (induction m arbitrary: z rule: rev_induct)
  case (snoc w m)
  have nth: "(x # (m @ [w]) @ z) ! Suc (length m) = w" by (simp add: nth_append)
  show ?case
  proof (cases "w = []")
    case True
    then show ?thesis using snoc [of z] nth by simp
  next
    case False
    then show ?thesis using snoc [of "w # z"] nth by simp
  qed
qed simp

lemma substring_mask_one:
  "substring_any \<notin> set p \<Longrightarrow> substring_mask p substring_any one = [p]"
  by (simp add: substring_mask_def split_on_no_sep)

lemma substring_mask_two:
  assumes "substring_any \<notin> set p" "substring_any \<notin> set q"
  shows "substring_mask (p @ substring_any # q) substring_any one = [p, q]"
  by (simp add: substring_mask_def split_on_append [OF assms(1)] split_on_no_sep [OF assms(2)])

lemma glob_append_star:
  assumes "substring_any \<notin> set p"
  shows "glob (p @ substring_any # q) s \<longleftrightarrow>
    list_all2 one_match p (take (length p) s) \<and> star (glob q) (drop (length p) s)"
  using assms
proof (induction p arbitrary: s)
  case (Cons a p)
  then show ?case by (cases s) (auto simp: one_match_def)
qed simp

lemma star_glob_no_star:
  assumes "substring_any \<notin> set q"
  shows "star (glob q) s \<longleftrightarrow>
    length q \<le> length s \<and> list_all2 one_match q (drop (length s - length q) s)"
proof -
  have "star (glob q) s \<longleftrightarrow> (\<exists>k \<le> length s. list_all2 one_match q (drop k s))"
    by (simp add: star_iff glob_no_star [OF assms])
  also have "\<dots> \<longleftrightarrow> length q \<le> length s \<and> list_all2 one_match q (drop (length s - length q) s)"
  proof
    assume "\<exists>k \<le> length s. list_all2 one_match q (drop k s)"
    then obtain k where k: "k \<le> length s" "list_all2 one_match q (drop k s)" by auto
    then have "length q = length s - k" by (auto dest: list_all2_lengthD)
    with k have "k = length s - length q" "length q \<le> length s" by simp_all
    with k show "length q \<le> length s \<and> list_all2 one_match q (drop (length s - length q) s)" by simp
  qed (auto intro: exI [of _ "length s - length q"])
  finally show ?thesis .
qed

lemma list_all2_take_Nil: "list_all2 P p (take (length p) s) \<and> drop (length p) s = [] \<longleftrightarrow> list_all2 P p s"
  by (metis append_Nil2 append_take_drop_id drop_all list_all2_lengthD order_refl)

lemma is_present_Cons: "is_present (p # ps) \<longleftrightarrow> p = [] \<and> (ps = [] \<or> ps = [[]])"
proof (cases ps)
  case (Cons q qs)
  then show ?thesis by (cases qs) (auto simp: is_present_def)
qed (simp add: is_present_def)

lemma match_two:
  assumes "substring_any \<notin> set p" "substring_any \<notin> set q" "q \<noteq> [] \<or> p \<noteq> []"
  shows "match_subs [p, q] s \<longleftrightarrow>
    glob p s \<or> (q \<noteq> [] \<and> glob (p @ substring_any # q) s)"
proof -
  let ?t = "drop (length p) s"
  have fin: "(case match_final [p, q] t of None \<Rightarrow> False | Some s3 \<Rightarrow> s3 = []) \<longleftrightarrow>
      t = [] \<or> q \<noteq> [] \<and> star (glob q) t" for t
    using assms(2)
    by (auto simp: match_final_def final_def match_text_anchored star_glob_no_star Let_def
        dest: list_all2_lengthD)
  have "match_subs [p, q] s \<longleftrightarrow> list_all2 one_match p (take (length p) s) \<and>
      (?t = [] \<or> q \<noteq> [] \<and> star (glob q) ?t)"
    using assms(3) fin
    by (auto simp: match_subs_def is_present_Cons initial_def any_parts_def match_text_anchored Let_def)
  also have "\<dots> \<longleftrightarrow> glob p s \<or> (q \<noteq> [] \<and> glob (p @ substring_any # q) s)"
    using list_all2_take_Nil [of one_match p s]
    by (auto simp: glob_append_star [OF assms(1)] glob_no_star [OF assms(1)])
  finally show ?thesis .
qed

section \<open>Match against its specification\<close>

text \<open>An ASCII pattern without a star matches exactly the texts of its length whose
  bytes agree, up to case, where the pattern has no question mark.\<close>

theorem substring_match_no_star:
  assumes "substring_any \<notin> set p" "p \<noteq> []"
  shows "substring_match p s \<longleftrightarrow> glob p s"
  using assms list_all2_take_Nil [of one_match p s]
  by (auto simp: substring_match_def substring_mask_one match_subs_def is_present_Cons initial_def
      any_parts_def match_final_def final_def match_text_anchored glob_no_star Let_def)

theorem substring_match_no_star_witness:
  "substring_match ''a?c'' ''ABC'' \<longleftrightarrow> glob ''a?c'' ''ABC''"
  by (rule substring_match_no_star) simp_all

text \<open>C39: for an ASCII pattern with one star (and not the star alone), Match is not
  the specification.  When something follows the star it accepts the texts of
  the specification and, besides them, the texts that match the part before the
  star alone, as if the rest of the pattern were not there; when the star is the
  last byte it accepts the texts that match the part before it and no others, so
  that it rejects texts of the specification.\<close>

theorem substring_match_one_star:
  assumes "substring_any \<notin> set p" "substring_any \<notin> set q" "q \<noteq> [] \<or> p \<noteq> []"
    and "ascii p" "ascii q" "ascii s"
  shows "substring_match (p @ substring_any # q) s \<longleftrightarrow>
    glob p s \<or> (q \<noteq> [] \<and> glob (p @ substring_any # q) s)"
  by (simp add: substring_match_def substring_mask_two [OF assms(1,2)] match_two [OF assms(1-3)])

theorem substring_match_one_star_witness:
  "substring_match ''a*b'' ''a'' \<and> \<not> glob ''a*b'' ''a'' \<and>
   \<not> substring_match ''a*'' ''ab'' \<and> glob ''a*'' ''ab''"
  using substring_match_one_star [of "''a''" "''b''" "''a''"]
    substring_match_one_star [of "''a''" "''''" "''ab''"]
  by (simp add: char_fold_def ascii_def)

section \<open>The LIKE operand against its specification\<close>

definition like_char :: "char \<Rightarrow> string" where
  "like_char c =
     (if c = CHR ''_'' then CHR 0x5C # ''_'' else if c = CHR ''?'' then ''_''
      else if c = CHR ''%'' then CHR 0x5C # ''%'' else [c])"

lemma like_part_conv: "like_part v = concat (map like_char v)"
  by (induction v) (auto simp: like_part_def replace_char_def like_char_def)

definition like_glob :: "string \<Rightarrow> string" where
  "like_glob p = concat (map (\<lambda>c. if c = substring_any then ''%'' else like_char c) p)"

lemma ilike_like_glob: "CHR 0x5C \<notin> set p \<Longrightarrow> ilike (like_glob p) s \<longleftrightarrow> glob p s"
proof (induction p arbitrary: s)
  case (Cons a p)
  then have IH: "ilike (like_glob p) s \<longleftrightarrow> glob p s" for s by simp
  have cons: "like_glob (a # p) = (if a = substring_any then ''%'' else like_char a) @ like_glob p"
    by (simp add: like_glob_def)
  show ?case
    using Cons.prems by (auto simp add: cons IH star_cong [OF IH] like_char_def)
qed (simp add: like_glob_def)

lemma like_glob_join:
  "\<forall>w \<in> set ws. substring_any \<notin> set w \<Longrightarrow>
     join_with ''%'' (map like_part ws) = like_glob (join_with [substring_any] ws)"
proof (induction ws)
  case (Cons w ws)
  have w: "like_part w = like_glob w"
    using Cons.prems unfolding like_part_conv like_glob_def
    by (intro arg_cong [where f = concat] map_cong) auto
  show ?case
  proof (cases ws)
    case Nil
    then show ?thesis by (simp add: w)
  next
    case (Cons v vs)
    then have "ws \<noteq> []" by simp
    then show ?thesis
      using Cons.IH Cons.prems by (simp add: join_with_Cons w) (simp add: like_glob_def)
  qed
qed (simp add: like_glob_def)

text \<open>Leaving out the empty inner parts does not change what a pattern means.\<close>

lemma glob_cong_append: "(\<And>s. glob p s = glob p' s) \<Longrightarrow> glob (w @ p) s = glob (w @ p') s"
proof (induction w arbitrary: s)
  case (Cons c w)
  then have "glob (w @ p) s = glob (w @ p') s" for s by simp
  then show ?case by (simp add: star_cong [of "glob (w @ p)" "glob (w @ p')"])
qed simp

lemma glob_star_star: "glob (substring_any # substring_any # p) s = glob (substring_any # p) s"
proof -
  have "star (glob (substring_any # p)) s = star (star (glob p)) s"
    by (rule star_cong) simp
  then show ?thesis by (simp add: star_star)
qed

lemma glob_omit:
  "glob (join_with [substring_any] (x # filter (\<lambda>w. w \<noteq> []) m @ [y])) s =
   glob (join_with [substring_any] (x # m @ [y])) s"
proof (induction m arbitrary: x s)
  case (Cons w m)
  let ?J = "join_with [substring_any]"
  show ?case
  proof (cases "w = []")
    case True
    have "glob (x @ substring_any # ?J (m @ [y])) s =
        glob (x @ substring_any # substring_any # ?J (m @ [y])) s"
      by (rule glob_cong_append) (simp only: glob_star_star)
    then show ?thesis using True Cons.IH [of x s] by (simp add: join_with_Cons)
  next
    case False
    have "glob (x @ substring_any # ?J (w # filter (\<lambda>w. w \<noteq> []) m @ [y])) s =
        glob (x @ substring_any # ?J (w # m @ [y])) s"
    proof (rule glob_cong_append)
      fix s
      show "glob (substring_any # ?J (w # filter (\<lambda>w. w \<noteq> []) m @ [y])) s =
          glob (substring_any # ?J (w # m @ [y])) s"
        using star_cong [of "glob (?J (w # filter (\<lambda>w. w \<noteq> []) m @ [y]))" "glob (?J (w # m @ [y]))" s]
          Cons.IH [of w] by simp
    qed
    then show ?thesis using False by (simp add: join_with_Cons)
  qed
qed simp

lemma two_or_more: "length ws \<ge> 2 \<Longrightarrow> \<exists>x m y. ws = x # m @ [y]"
proof -
  assume "length ws \<ge> 2"
  then obtain x ws' where "ws = x # ws'" "ws' \<noteq> []" by (cases ws) (auto simp: Suc_le_eq)
  then show ?thesis by (cases ws' rule: rev_cases) auto
qed

lemma substring_parts:
  obtains "split_on substring_any p = [p]" "substring p = [p]" "substring_any \<notin> set p"
  | x m y where "split_on substring_any p = x # m @ [y]"
      "substring p = x # filter (\<lambda>w. w \<noteq> []) m @ [y]"
proof (cases "substring_any \<in> set p")
  case False
  then show ?thesis using that(1) by (simp add: substring_def substring_mask_def split_on_no_sep)
next
  case True
  then have "length (split_on substring_any p) \<ge> 2"
    by (simp add: length_split_on Suc_le_eq) (metis count_list_0_iff gr0I)
  then obtain x m y where s: "split_on substring_any p = x # m @ [y]" using two_or_more by blast
  then have "substring p = x # filter (\<lambda>w. w \<noteq> []) m @ [y]"
    using omit_empty_conv [of m x "[y]"] by (simp add: substring_def substring_mask_def)
  with s show ?thesis by (rule that(2))
qed

lemma glob_subs_string: "glob (subs_string (substring p)) s = glob p s"
proof (cases rule: substring_parts [of p])
  case (2 x m y)
  have "p = join_with [substring_any] (x # m @ [y])" by (simp flip: 2(1))
  with 2(2) show ?thesis by (simp add: subs_string_def glob_omit)
qed (simp add: subs_string_def)

lemma substring_no_star: "w \<in> set (substring p) \<Longrightarrow> substring_any \<notin> set w"
proof (cases rule: substring_parts [of p])
  case (2 x m y)
  assume "w \<in> set (substring p)"
  with 2 have "w \<in> set (split_on substring_any p)" by auto
  then show ?thesis by (rule split_on_no_sep_parts)
qed simp

lemma substring_neq_Nil: "substring p \<noteq> []"
  by (cases rule: substring_parts [of p]) auto

lemma substring_chars: "w \<in> set (substring p) \<Longrightarrow> c \<in> set w \<Longrightarrow> c \<in> set p"
proof -
  have split: "w \<in> set (split_on d p) \<Longrightarrow> c \<in> set w \<Longrightarrow> c \<in> set p" for w d
  proof (induction p arbitrary: w)
    case (Cons a p)
    show ?case
    proof (cases "a = d")
      case True
      with Cons show ?thesis by auto
    next
      case False
      obtain v vs where "split_on d p = v # vs" by (cases "split_on d p") auto
      with Cons.prems Cons.IH [of v] Cons.IH [of w] False show ?thesis by auto
    qed
  qed simp
  assume "w \<in> set (substring p)" "c \<in> set w"
  then show ?thesis using split [of w substring_any]
    by (cases rule: substring_parts [of p]) auto
qed

lemma join_chars: "c \<in> set (join_with sep ws) \<Longrightarrow> c \<in> set sep \<or> (\<exists>w \<in> set ws. c \<in> set w)"
  by (induction sep ws rule: join_with.induct) auto

text \<open>The operand that Value hands to PostgreSQL selects exactly the texts that
  the pattern means, for every pattern without a backslash: percent signs and
  underscores of the pattern stand for themselves.\<close>

theorem subs_value_refines_glob:
  assumes "CHR 0x5C \<notin> set p"
  shows "ilike (subs_value (substring p)) s \<longleftrightarrow> glob p s"
proof -
  have "CHR 0x5C \<notin> set (subs_string (substring p))"
    using assms by (auto simp: subs_string_def dest!: join_chars substring_chars)
  moreover have "subs_value (substring p) = like_glob (subs_string (substring p))"
    using substring_no_star like_glob_join [of "substring p"] substring_neq_Nil [of p]
    by (simp add: subs_value_def subs_string_def)
  ultimately show ?thesis by (simp add: ilike_like_glob glob_subs_string)
qed

theorem subs_value_refines_glob_witness:
  "ilike (subs_value (substring ''a**_%?'')) ''AB_%c'' \<longleftrightarrow> glob ''a**_%?'' ''AB_%c''"
  by (rule subs_value_refines_glob) simp

text \<open>a backslash of the pattern is not escaped, so it quotes the next byte of
  the operand: a star after a backslash becomes a literal percent sign, and the
  filter finds only texts that end in one.\<close>

theorem subs_value_backslash:
  assumes "substring_any \<notin> set p" "CHR 0x5C \<notin> set p"
  shows "ilike (subs_value (substring (p @ [CHR 0x5C, substring_any]))) s \<longleftrightarrow>
    glob (p @ ''%'') s"
proof -
  have "substring_any \<notin> set (p @ [CHR 0x5C])" "substring_any \<notin> set ([] :: string)"
    using assms by simp_all
  from substring_mask_two [OF this]
  have "substring (p @ [CHR 0x5C, substring_any]) = [p @ [CHR 0x5C], []]"
    by (simp add: substring_def substring_mask_def)
  then have "subs_value (substring (p @ [CHR 0x5C, substring_any])) = like_part p @ [CHR 0x5C, CHR ''%'']"
    by (simp add: subs_value_def like_part_conv like_char_def)
  also have "\<dots> = like_glob (p @ ''%'')"
    using like_glob_join [of "[p]"] assms by (simp add: like_glob_def like_char_def)
  finally show ?thesis using assms by (simp add: ilike_like_glob)
qed

theorem subs_value_backslash_witness:
  "ilike (subs_value (substring ([CHR ''a''] @ [CHR 0x5C, substring_any]))) ''a%'' \<and>
   \<not> ilike (subs_value (substring ([CHR ''a''] @ [CHR 0x5C, substring_any]))) [CHR ''a'', CHR 0x5C, CHR ''b'']"
  using subs_value_backslash [of "[CHR ''a'']" "''a%''"]
    subs_value_backslash [of "[CHR ''a'']" "[CHR ''a'', CHR 0x5C, CHR ''b'']"]
  by (simp add: char_fold_def lower_char_def)

end
