(* ===== verification/App_Fields.thy ===== *)
theory App_Fields
  imports Chat_Prelude
begin

text \<open>
  app/fields.go and app/search.go: the selection lists of the search operations.

  Slices are HOL lists: the functions of this file copy before they append, so
  that no caller sees a change of a shared array (MergeFields receives slices
  whose capacity is cut, or extends the array of a slice that is overwritten at
  once).  Duplicates are found with the ASCII case folding of the prelude, where
  the code folds Unicode: the two agree on ASCII names.
\<close>

section \<open>Scopes\<close>

definition canon_name :: "string \<Rightarrow> string" where
  "canon_name s = to_lower (trim_space s)"

definition has_scope :: "string list \<Rightarrow> string \<Rightarrow> bool" where
  "has_scope scope key =
     (if scope = [] then False
      else if key = [] then True
      else key \<in> set scope)"

fun add_scope :: "string list \<Rightarrow> string list \<Rightarrow> string list" where
  "add_scope scope [] = scope"
| "add_scope scope (key # keys) =
     (if key = [] then add_scope scope keys
      else if \<not> has_scope scope key then add_scope (scope @ [key]) keys
      else add_scope scope keys)"

definition fields_copy :: "string list \<Rightarrow> string list" where
  "fields_copy fields = add_scope [] fields"

definition split_fields :: "char \<Rightarrow> bool" where
  "split_fields r \<longleftrightarrow> CHR '','' = r \<or> is_space r"

definition inline_fields :: "string \<Rightarrow> string list" where
  "inline_fields selector = fields_by split_fields [] (to_lower selector)"

section \<open>MergeFields\<close>

text \<open>The labelled loop of MergeFields: an attribute is appended when it is not
  empty and no field of the output equals it up to case.\<close>

fun merge_fields :: "string list \<Rightarrow> string list \<Rightarrow> string list" where
  "merge_fields dst [] = dst"
| "merge_fields dst (attr # src) =
     (if attr = [] then merge_fields dst src
      else if list_ex (\<lambda>d. equal_fold d attr) dst then merge_fields dst src
      else merge_fields (dst @ [attr]) src)"

section \<open>SelectFields\<close>

text \<open>
  The loop over the fields while its index runs; expanding a selector rebuilds
  the list and may move the index.  With attributes that contain a selector
  themselves the loop need not end: None is a run that does not return.
\<close>

partial_function (option) select_loop ::
    "string list \<Rightarrow> string list \<Rightarrow> nat \<Rightarrow> string list \<Rightarrow> string list option" where
  "select_loop attributes operational i fields =
     (if i \<ge> length fields then Some fields
      else if fields ! i = ''*'' then
        (let n = length fields;
             fs = merge_fields (take i fields) (merge_fields attributes (drop (Suc i) fields))
         in select_loop attributes operational
              (Suc (if length fs > n then length fs - n - 1 else i)) fs)
      else if fields ! i = ''+'' then
        (let n = length fields;
             fs = merge_fields (take i fields)
                    (merge_fields (merge_fields operational attributes) (drop (Suc i) fields))
         in select_loop attributes operational
              (Suc (if length fs > n then length fs - n - 1 else i)) fs)
      else select_loop attributes operational (Suc i) fields)"

definition select_fields :: "string list \<Rightarrow> string list \<Rightarrow> string \<Rightarrow> string list option" where
  "select_fields attributes operational selector =
     (let fields = fields_by split_fields [] selector in
      if fields = [] then Some attributes
      else select_loop attributes operational 0 fields)"

section \<open>FieldsFunc\<close>

definition remove_at :: "nat \<Rightarrow> 'a list \<Rightarrow> 'a list" where
  "remove_at i xs = take i xs @ drop (Suc i) xs"

lemma length_remove_at [simp]: "i < length xs \<Longrightarrow> length (remove_at i xs) = length xs - 1"
  by (simp add: remove_at_def)

text \<open>The loop of FieldsFunc; None is the nil of the output slice, which the code
  keeps as long as every element of the input gave at most one field.\<close>

function fields_loop ::
    "(string \<Rightarrow> string list) \<Rightarrow> nat \<Rightarrow> string list \<Rightarrow> string list option \<Rightarrow> string list" where
  "fields_loop fn i src dst =
     (if i \<ge> length src then (case dst of None \<Rightarrow> src | Some d \<Rightarrow> d)
      else (case fn (src ! i) of
          [] \<Rightarrow> fields_loop fn i (remove_at i src) dst
        | [x] \<Rightarrow>
            if x = [] then fields_loop fn i (remove_at i src) dst
            else (case dst of
                None \<Rightarrow> fields_loop fn (Suc i) (src[i := x]) None
              | Some d \<Rightarrow> fields_loop fn (Suc i) src (Some (merge_fields d [x])))
        | fs \<Rightarrow>
            (let d = (case dst of None \<Rightarrow> take i src | Some d \<Rightarrow> d)
             in fields_loop fn (Suc i) src (Some (merge_fields d fs)))))"
  by pat_completeness auto

termination fields_loop
  by (relation "measure (\<lambda>(fn, i, src, dst). length src - i)") auto

declare fields_loop.simps [simp del]

definition fields_func :: "string list \<Rightarrow> (string \<Rightarrow> string list) \<Rightarrow> string list" where
  "fields_func src fn = (if src = [] then fn [] else fields_loop fn 0 src None)"

section \<open>FieldsMask\<close>

text \<open>The outer loop over the paths that are left; the inner loop skips the paths
  after the current one that start with its section.  None is the panic of the
  slice with a negative level.\<close>

function fields_mask_loop :: "string \<Rightarrow> int \<Rightarrow> string list \<Rightarrow> string list option" where
  "fields_mask_loop pattern level [] = Some []"
| "fields_mask_loop pattern level (p # ps) =
     (if pattern \<noteq> [] \<and> length p < length pattern \<or> take (length pattern) p \<noteq> pattern
      then fields_mask_loop pattern level ps
      else
        (let path = drop (length pattern) p in
         if path = [] then fields_mask_loop pattern level ps
         else
           (let parts = split_on CHR ''.'' path in
            if int (length parts) \<le> level
            then map_option ((#) path) (fields_mask_loop pattern level ps)
            else if level < 0 then None
            else
              (let path = join_with ''.'' (take (nat level) parts)
               in map_option ((#) path)
                    (fields_mask_loop pattern level
                      (dropWhile (\<lambda>q. has_prefix q (pattern @ path)) ps))))))"
  by pat_completeness auto

termination fields_mask_loop
  by (relation "measure (\<lambda>(pattern, level, ps). length ps)")
    (auto simp: less_Suc_eq_le length_dropWhile_le)

definition fields_mask :: "string list \<Rightarrow> int \<Rightarrow> string list \<Rightarrow> string list option" where
  "fields_mask paths level base =
     (let pattern = join_with ''.'' base;
          pattern = (if pattern \<noteq> [] then pattern @ ''.'' else pattern)
      in fields_mask_loop pattern level paths)"

section \<open>Search options\<close>

record search_options =
  so_ids :: "int list"
  so_term :: string
  so_filter :: "(string \<times> string) list option"
  so_access :: nat
  so_fields :: "string list"
  so_order :: "string list"
  so_size :: int
  so_page :: int

definition default_search_size :: int where
  "default_search_size = 16"

definition get_size :: "search_options option \<Rightarrow> int" where
  "get_size rpc =
     (case rpc of None \<Rightarrow> default_search_size
      | Some r \<Rightarrow>
          if so_size r < 0 then - 1
          else if so_size r > 0 then so_size r
          else default_search_size)"

definition get_page :: "search_options option \<Rightarrow> int" where
  "get_page rpc =
     (if get_size rpc < 0 then 0
      else (case rpc of
          None \<Rightarrow> 1
        | Some r \<Rightarrow> if so_page r > 0 then so_page r else 1))"

definition filter_and :: "string \<Rightarrow> string \<Rightarrow> search_options \<Rightarrow> search_options" where
  "filter_and name cond rpc =
     rpc\<lparr>so_filter := Some (AList.update name cond (case so_filter rpc of None \<Rightarrow> [] | Some f \<Rightarrow> f))\<rparr>"

section \<open>The result of MergeFields\<close>

text \<open>A set of names is covered by a list when each of its non-empty names is in the
  list up to case.\<close>

definition covers :: "string list \<Rightarrow> string set \<Rightarrow> bool" where
  "covers ys X \<longleftrightarrow> (\<forall>x \<in> X. x \<noteq> [] \<longrightarrow> (\<exists>y \<in> set ys. equal_fold y x))"

definition fold_distinct :: "string list \<Rightarrow> bool" where
  "fold_distinct xs \<longleftrightarrow> distinct (map to_lower xs)"

lemma coversI_subset [intro]: "X \<subseteq> set ys \<Longrightarrow> covers ys X"
  unfolding covers_def using equal_fold_refl by blast

lemma covers_mono: "covers ys X \<Longrightarrow> set ys \<subseteq> set zs \<Longrightarrow> covers zs X"
  by (auto simp: covers_def)

lemma covers_Un [simp]: "covers ys (X \<union> Y) \<longleftrightarrow> covers ys X \<and> covers ys Y"
  by (auto simp: covers_def)

lemma covers_trans:
  "covers ys X \<Longrightarrow> covers zs (set ys) \<Longrightarrow> covers zs X"
  unfolding covers_def by (metis equal_fold_Nil(2) equal_fold_trans)

lemma merge_fields_subset: "set (merge_fields dst src) \<subseteq> set dst \<union> set src"
  by (induction dst src rule: merge_fields.induct) auto

lemma merge_fields_prefix: "set dst \<subseteq> set (merge_fields dst src)"
  by (induction dst src rule: merge_fields.induct) auto

lemma merge_fields_take: "take (length dst) (merge_fields dst src) = dst"
proof (induction dst src rule: merge_fields.induct)
  case (2 dst attr src)
  have "take (length dst) (merge_fields (dst @ [attr]) src) = dst"
    if "take (length (dst @ [attr])) (merge_fields (dst @ [attr]) src) = dst @ [attr]"
    using arg_cong [OF that, of "take (length dst)"] by (simp add: min_def)
  with 2 show ?case by auto
qed simp

lemma merge_fields_covers: "covers (merge_fields dst src) (set src)"
proof (induction dst src rule: merge_fields.induct)
  case (2 dst attr src)
  have "attr \<noteq> [] \<Longrightarrow> \<exists>y \<in> set (merge_fields dst (attr # src)). equal_fold y attr"
  proof (cases "list_ex (\<lambda>d. equal_fold d attr) dst")
    case True
    then obtain d where "d \<in> set dst" "equal_fold d attr" by (auto simp: list_ex_iff)
    moreover have "set dst \<subseteq> set (merge_fields dst (attr # src))" by (rule merge_fields_prefix)
    ultimately show ?thesis by blast
  next
    case False
    assume "attr \<noteq> []"
    with False show ?thesis
      using merge_fields_prefix [of "dst @ [attr]" src] by (auto intro!: bexI [of _ attr])
  qed
  with 2 show ?case by (auto simp: covers_def)
qed (simp add: covers_def)

lemma merge_fields_covers_dst: "covers (merge_fields dst src) (set dst)"
  by (rule coversI_subset) (rule merge_fields_prefix)

lemma merge_fields_fold_distinct:
  "fold_distinct dst \<Longrightarrow> fold_distinct (merge_fields dst src)"
  by (induction dst src rule: merge_fields.induct)
    (auto simp: fold_distinct_def equal_fold_def list_ex_iff image_iff eq_commute)

text \<open>MergeFields keeps the output it is given as a prefix, adds only names of
  the source, holds every non-empty name of the source up to case, and adds no
  name twice.\<close>

theorem merge_fields_correct:
  "take (length dst) (merge_fields dst src) = dst \<and>
   set (merge_fields dst src) \<subseteq> set dst \<union> set src \<and>
   covers (merge_fields dst src) (set dst \<union> set src) \<and>
   fold_distinct (merge_fields dst src) = fold_distinct dst"
proof -
  have "fold_distinct dst" if "fold_distinct (merge_fields dst src)"
    using that merge_fields_take [of dst src]
    unfolding fold_distinct_def by (metis distinct_take take_map)
  then show ?thesis
    using merge_fields_take merge_fields_subset merge_fields_covers merge_fields_covers_dst
      merge_fields_fold_distinct by auto
qed

section \<open>The result of SelectFields\<close>

definition is_selector :: "string \<Rightarrow> bool" where
  "is_selector f \<longleftrightarrow> f = ''*'' \<or> f = ''+''"

definition selectors :: "string list \<Rightarrow> nat" where
  "selectors fs = length (filter is_selector fs)"

lemma selectors_append [simp]: "selectors (xs @ ys) = selectors xs + selectors ys"
  by (simp add: selectors_def)

lemma selectors_merge: "selectors (merge_fields dst src) \<le> selectors dst + selectors src"
proof (induction dst src rule: merge_fields.induct)
  case (2 dst attr src)
  have "selectors (attr # src) = selectors [attr] + selectors src"
    by (simp add: selectors_def)
  with 2 show ?case by auto
qed (simp add: selectors_def)

lemma selectors_split:
  "i < length fs \<Longrightarrow> is_selector (fs ! i) \<Longrightarrow>
     selectors (take i fs) + selectors (drop (Suc i) fs) < selectors fs"
proof -
  assume "i < length fs" "is_selector (fs ! i)"
  then have "selectors fs = selectors (take i fs @ fs ! i # drop (Suc i) fs)"
    by (simp add: id_take_nth_drop [symmetric])
  also have "\<dots> = selectors (take i fs) + Suc (selectors (drop (Suc i) fs))"
    using \<open>is_selector (fs ! i)\<close> by (simp add: selectors_def)
  finally show ?thesis by simp
qed

lemma selectors_0: "selectors fs = 0 \<longleftrightarrow> (\<forall>f \<in> set fs. \<not> is_selector f)"
  by (auto simp: selectors_def filter_empty_conv)

lemma set_remove: "i < length fs \<Longrightarrow> set fs = insert (fs ! i) (set (take i fs) \<union> set (drop (Suc i) fs))"
  by (metis id_take_nth_drop set_append list.simps(15) Un_insert_right)

text \<open>One expansion: a list E of names without selectors replaces the selector at
  index i.\<close>

lemma expand_step:
  assumes "i < length fs" "is_selector (fs ! i)" "selectors E = 0"
  defines "gs \<equiv> merge_fields (take i fs) (merge_fields E (drop (Suc i) fs))"
  shows "selectors gs < selectors fs"
    and "covers gs (set E)"
    and "covers gs (set fs - {fs ! i})"
    and "set gs \<subseteq> set fs \<union> set E"
proof -
  have "selectors gs \<le> selectors (take i fs) + (selectors E + selectors (drop (Suc i) fs))"
    unfolding gs_def using selectors_merge [of "take i fs"] selectors_merge [of E]
    by (meson add_left_mono order_trans)
  with selectors_split [OF assms(1,2)] assms(3) show "selectors gs < selectors fs" by simp
  let ?m = "merge_fields E (drop (Suc i) fs)"
  have m: "covers ?m (set E)" "covers ?m (set (drop (Suc i) fs))"
    by (rule merge_fields_covers_dst merge_fields_covers)+
  have g: "covers gs (set ?m)" "covers gs (set (take i fs))"
    unfolding gs_def by (rule merge_fields_covers_dst merge_fields_covers)+
  show "covers gs (set E)" using covers_trans [OF m(1) g(1)] .
  show "covers gs (set fs - {fs ! i})"
    using covers_trans [OF m(2) g(1)] g(2) set_remove [OF assms(1)] by (auto simp: covers_def)
  show "set gs \<subseteq> set fs \<union> set E"
    unfolding gs_def
    using merge_fields_subset [of "take i fs" ?m] merge_fields_subset [of E "drop (Suc i) fs"]
      set_remove [OF assms(1)] by blast
qed

definition fields_of :: "string list \<Rightarrow> string set" where
  "fields_of fs = {f \<in> set fs. \<not> is_selector f}"

lemma equal_fold_selector: "equal_fold a b \<Longrightarrow> is_selector a \<longleftrightarrow> is_selector b"
proof -
  have star: "equal_fold f [c] \<longleftrightarrow> f = [c]" if "c = CHR ''*'' \<or> c = CHR ''+''" for f c
  proof (cases f)
    case (Cons x xs)
    have "lower_char x = c \<longleftrightarrow> x = c"
    proof
      assume l: "lower_char x = c"
      show "x = c"
      proof (rule ccontr)
        assume "x \<noteq> c"
        with l have "65 \<le> (of_char x :: nat)" "(of_char x :: nat) \<le> 90"
          "c = char_of (of_char x + 32 :: nat)"
          by (auto simp: lower_char_def Let_def split: if_splits)
        then have "(of_char c :: nat) \<ge> 97" by (simp add: of_char_of)
        with that show False by auto
      qed
    qed (use that in \<open>auto simp: lower_char_def\<close>)
    moreover have "lower_char c = c" using that by (auto simp: lower_char_def)
    ultimately show ?thesis by (auto simp: Cons equal_fold_def)
  qed simp
  assume "equal_fold a b"
  then show ?thesis unfolding is_selector_def by (metis star equal_fold_sym)
qed

lemma covers_fields_of: "covers gs (set fs) \<Longrightarrow> covers gs (fields_of fs)"
  by (auto simp: covers_def fields_of_def)

lemma covers_fields_trans:
  assumes "covers gs X" "\<forall>x \<in> X. \<not> is_selector x" "covers zs (fields_of gs)"
  shows "covers zs X"
  unfolding covers_def
proof (intro ballI impI)
  fix x assume x: "x \<in> X" "x \<noteq> []"
  with assms(1) obtain y where y: "y \<in> set gs" "equal_fold y x" by (auto simp: covers_def)
  with x assms(2) have "y \<in> fields_of gs" "y \<noteq> []"
    using equal_fold_selector by (auto simp: fields_of_def)
  with assms(3) obtain z where "z \<in> set zs" "equal_fold z y" by (auto simp: covers_def)
  with y show "\<exists>z \<in> set zs. equal_fold z x" by (auto intro: equal_fold_trans)
qed

text \<open>The run of the loop from index i on: it ends, keeps the plain fields, covers
  the attributes when a star is still to come, and the operational ones too when
  a plus is to come and no star is in the list.\<close>

definition select_good ::
    "string list \<Rightarrow> string list \<Rightarrow> nat \<Rightarrow> string list \<Rightarrow> string list \<Rightarrow> bool" where
  "select_good A P i fs ys \<longleftrightarrow>
     covers ys (fields_of fs) \<and> set ys \<subseteq> set fs \<union> set A \<union> set P \<and>
     (''*'' \<in> set (drop i fs) \<longrightarrow> covers ys (set A)) \<and>
     (''*'' \<notin> set fs \<and> ''+'' \<in> set (drop i fs) \<longrightarrow> covers ys (set A \<union> set P))"

lemma select_good_skip:
  assumes "i < length fs" "\<not> is_selector (fs ! i)" "select_good A P (Suc i) fs ys"
  shows "select_good A P i fs ys"
proof -
  have "drop i fs = fs ! i # drop (Suc i) fs" using assms(1) by (rule Cons_nth_drop_Suc [symmetric])
  with assms(2,3) show ?thesis by (auto simp: select_good_def is_selector_def)
qed

lemma select_good_expand:
  assumes i: "i < length fs" "is_selector (fs ! i)" and AP: "selectors A = 0" "selectors P = 0"
    and E: "selectors E = 0" "set E \<subseteq> set A \<union> set P" "covers E (set A)"
    and plus: "fs ! i = ''+'' \<Longrightarrow> covers E (set P)"
    and ys: "select_good A P j (merge_fields (take i fs) (merge_fields E (drop (Suc i) fs))) ys"
  shows "select_good A P i fs ys"
proof -
  let ?gs = "merge_fields (take i fs) (merge_fields E (drop (Suc i) fs))"
  note st = expand_step [OF i E(1)]
  have y: "covers ys (fields_of ?gs)" "set ys \<subseteq> set ?gs \<union> set A \<union> set P"
    using ys by (auto simp: select_good_def)
  have "covers ?gs (fields_of fs)"
    using st(3) i(2) by (auto simp: covers_def fields_of_def)
  then have 1: "covers ys (fields_of fs)"
    by (rule covers_fields_trans [OF _ _ y(1)]) (auto simp: fields_of_def)
  have 2: "covers ys (set E)"
    by (rule covers_fields_trans [OF st(2) _ y(1)]) (use E(1) in \<open>auto simp: selectors_0\<close>)
  have 3: "covers ys (set A)" using covers_trans [OF E(3) 2] .
  have 4: "covers ys (set P)" if "fs ! i = ''+''"
    using covers_trans [OF plus [OF that] 2] .
  have "fs ! i = ''+''" if "''*'' \<notin> set fs"
    using i that by (metis is_selector_def nth_mem)
  then show ?thesis using 1 3 4 y(2) st(4) E(2) by (auto simp: select_good_def)
qed

lemma select_loop_total:
  assumes "selectors A = 0" "selectors P = 0"
  shows "\<exists>ys. select_loop A P i fs = Some ys \<and> select_good A P i fs ys"
proof (induction "(selectors fs, length fs - i)" arbitrary: i fs
    rule: wf_induct_rule [OF wf_lex_prod [OF wf_less_than wf_less_than]])
  case (1 i fs)
  show ?case
  proof (cases "i < length fs")
    case False
    then show ?thesis
      by (subst select_loop.simps) (auto simp: select_good_def fields_of_def)
  next
    case i: True
    have PA: "selectors (merge_fields P A) = 0"
      using selectors_merge [of P A] assms by simp
    have expand: "\<exists>ys. select_loop A P j (merge_fields (take i fs) (merge_fields E (drop (Suc i) fs))) = Some ys
        \<and> select_good A P j (merge_fields (take i fs) (merge_fields E (drop (Suc i) fs))) ys"
      if "is_selector (fs ! i)" "selectors E = 0" for E j
      using 1 expand_step(1) [OF i that] by auto
    consider "fs ! i = ''*''" | "fs ! i = ''+''" | "\<not> is_selector (fs ! i)"
      by (auto simp: is_selector_def)
    then show ?thesis
    proof cases
      case 1
      then have sel: "is_selector (fs ! i)" by (simp add: is_selector_def)
      have "select_good A P i fs ys"
        if "select_good A P j (merge_fields (take i fs) (merge_fields A (drop (Suc i) fs))) ys" for j ys
        by (rule select_good_expand [OF i sel assms assms(1) _ _ _ that]) (use 1 in auto)
      then have "\<exists>ys. select_loop A P j (merge_fields (take i fs) (merge_fields A (drop (Suc i) fs))) = Some ys
          \<and> select_good A P i fs ys" for j
        using expand [OF sel assms(1), of j] by blast
      then show ?thesis using i 1 by (subst select_loop.simps) (simp add: Let_def)
    next
      case 2
      then have sel: "is_selector (fs ! i)" by (simp add: is_selector_def)
      have E: "covers (merge_fields P A) (set A)" "covers (merge_fields P A) (set P)"
        "set (merge_fields P A) \<subseteq> set A \<union> set P"
        using merge_fields_covers merge_fields_covers_dst merge_fields_subset [of P A] by auto
      have "select_good A P i fs ys"
        if "select_good A P j (merge_fields (take i fs) (merge_fields (merge_fields P A) (drop (Suc i) fs))) ys" for j ys
        by (rule select_good_expand [OF i sel assms PA E(3) E(1) E(2) that])
      then have "\<exists>ys. select_loop A P j (merge_fields (take i fs) (merge_fields (merge_fields P A) (drop (Suc i) fs))) = Some ys
          \<and> select_good A P i fs ys" for j
        using expand [OF sel PA, of j] by blast
      then show ?thesis using i 2 by (subst select_loop.simps) (simp add: Let_def)
    next
      case 3
      then have "fs ! i \<noteq> ''*''" "fs ! i \<noteq> ''+''" by (auto simp: is_selector_def)
      moreover have "\<exists>ys. select_loop A P (Suc i) fs = Some ys \<and> select_good A P (Suc i) fs ys"
        using 1 i by auto
      ultimately show ?thesis
        using i select_good_skip [OF i 3] by (subst select_loop.simps) auto
    qed
  qed
qed

text \<open>C40: with lists of attributes and of operational fields that hold no selector
  themselves, all of them ASCII, a selection ends for every selector text.  Up to
  case it returns every plain field that was named, all the attributes when
  nothing or a star is named, the attributes and the operational fields when a
  plus and no star is named, and no other names.  Of the operational fields
  nothing is promised when a star stands beside the plus: they can be lost
  (select_fields_plus_lost).\<close>

theorem select_fields_total:
  assumes "selectors attributes = 0" "selectors operational = 0"
    and "fields_by split_fields [] selector = named"
    and "list_all ascii attributes" "list_all ascii operational" "ascii selector"
  shows "\<exists>ys. select_fields attributes operational selector = Some ys \<and>
    covers ys (fields_of named) \<and>
    set ys \<subseteq> set named \<union> set attributes \<union> set operational \<and>
    (named = [] \<or> ''*'' \<in> set named \<longrightarrow> covers ys (set attributes)) \<and>
    (''*'' \<notin> set named \<and> ''+'' \<in> set named \<longrightarrow> covers ys (set attributes \<union> set operational))"
  using select_loop_total [OF assms(1,2), of 0 named] assms(3)
  by (auto simp: select_fields_def Let_def select_good_def fields_of_def)

theorem select_fields_total_witness:
  "\<exists>ys. select_fields [''id'', ''name''] [''dc''] ''*,chat'' = Some ys \<and> covers ys {''id'', ''name''}"
  using select_fields_total [of "[''id'', ''name'']" "[''dc'']" "''*,chat''" "[''*'', ''chat'']"]
  by (auto simp: selectors_def is_selector_def split_fields_def is_space_def ascii_def)

text \<open>a plus that follows a star is not expanded when the star adds nothing: the
  index steps over it and the result asks for a field named plus.\<close>

theorem select_fields_plus_lost:
  assumes "x \<noteq> []" "\<forall>c \<in> set x. \<not> split_fields c" "\<not> is_selector x"
  shows "select_fields [x] operational (x @ '',*,+'') = Some [x, ''+'']"
proof -
  have acc: "fields_by split_fields a (x @ CHR '','' # s) = (a @ x) # fields_by split_fields [] s"
    if "\<forall>c \<in> set x. \<not> split_fields c" "a \<noteq> [] \<or> x \<noteq> []" for a s x
    using that
  proof (induction x arbitrary: a)
    case Nil
    then show ?case by (simp add: split_fields_def)
  next
    case (Cons c x)
    then show ?case using Cons.IH [of "a @ [c]"] by simp
  qed
  have fields: "fields_by split_fields [] (x @ '',*,+'') = [x, ''*'', ''+'']"
    using acc [OF assms(2), of "[]" "''*,+''"] assms(1)
    by (simp add: split_fields_def is_space_def)
  have x: "x \<noteq> ''*''" "x \<noteq> ''+''" using assms(3) by (auto simp: is_selector_def)
  have "\<not> equal_fold x ''+''" using equal_fold_selector [of x "''+''"] assms(3)
    by (auto simp: is_selector_def)
  then have "merge_fields [x] [''+''] = [x, ''+'']" "merge_fields [x] [x, ''+''] = [x, ''+'']"
    using assms(1) by simp_all
  then show ?thesis
    using x by (simp add: select_fields_def fields) (simp add: select_loop.simps)
qed

theorem select_fields_plus_lost_witness:
  "select_fields [''id''] [''dc''] ''id,*,+'' = Some [''id'', ''+'']"
  using select_fields_plus_lost [of "''id''" "[''dc'']"]
  by (simp add: split_fields_def is_space_def is_selector_def)

section \<open>The result of FieldsFunc\<close>

lemma covers_self [simp]: "covers ys (set ys)" and covers_empty [simp]: "covers ys {}"
  by auto

definition outputs :: "(string \<Rightarrow> string list) \<Rightarrow> string list \<Rightarrow> string set" where
  "outputs fn xs = {f. f \<noteq> [] \<and> (\<exists>x \<in> set xs. f \<in> set (fn x))}"

lemma outputs_Cons: "outputs fn (x # xs) = {f \<in> set (fn x). f \<noteq> []} \<union> outputs fn xs"
  by (auto simp: outputs_def)

definition loop_base :: "nat \<Rightarrow> string list \<Rightarrow> string list option \<Rightarrow> string list" where
  "loop_base i src dst = (case dst of None \<Rightarrow> take i src | Some d \<Rightarrow> d)"

definition loop_good :: "string list \<Rightarrow> string set \<Rightarrow> string set \<Rightarrow> bool" where
  "loop_good r B X \<longleftrightarrow> set r \<subseteq> B \<union> X \<and> covers r B \<and> covers r X"

lemma merge_fields_subset_named: "set (merge_fields dst src) \<subseteq> set dst \<union> {f \<in> set src. f \<noteq> []}"
  by (induction dst src rule: merge_fields.induct) auto

lemma loop_good_merge:
  "loop_good r (set (merge_fields b fs)) X \<Longrightarrow> loop_good r (set b) ({f \<in> set fs. f \<noteq> []} \<union> X)"
  using merge_fields_subset_named [of b fs] covers_trans [of "merge_fields b fs" "set b" r]
    covers_trans [of "merge_fields b fs" "set fs" r]
  unfolding loop_good_def
  by (simp add: merge_fields_covers merge_fields_covers_dst) (auto simp: covers_def)

lemma fields_loop_good:
  "i \<le> length src \<Longrightarrow>
     loop_good (fields_loop fn i src dst) (set (loop_base i src dst)) (outputs fn (drop i src))"
proof (induction fn i src dst rule: fields_loop.induct)
  case (1 fn i src dst)
  let ?b = "loop_base i src dst" and ?Y = "{f \<in> set (fn (src ! i)). f \<noteq> []}"
  show ?case
  proof (cases "i < length src")
    case False
    with 1(5) show ?thesis
      by (subst fields_loop.simps)
        (auto simp: loop_good_def loop_base_def outputs_def split: option.splits)
  next
    case i: True
    have out: "outputs fn (drop i src) = ?Y \<union> outputs fn (drop (Suc i) src)"
      by (simp add: Cons_nth_drop_Suc [OF i, symmetric] outputs_Cons)
    have rem: "drop i (remove_at i src) = drop (Suc i) src" "take i (remove_at i src) = take i src"
      using i by (simp_all add: remove_at_def)
    have base: "loop_base i (remove_at i src) dst = ?b"
      by (simp add: loop_base_def rem split: option.splits)
    consider "fn (src ! i) = [] \<or> fn (src ! i) = [[]]"
      | x where "fn (src ! i) = [x]" "x \<noteq> []"
      | x y fs where "fn (src ! i) = x # y # fs"
      by (metis list.exhaust)
    then show ?thesis
    proof cases
      case 1
      have "?Y = {}" using 1 by auto
      moreover have "loop_good (fields_loop fn i (remove_at i src) dst) (set ?b)
          (outputs fn (drop (Suc i) src))"
        using "1.IH"(1,2) 1 i by (auto simp: rem base)
      ultimately show ?thesis using i 1 out by (subst fields_loop.simps) auto
    next
      case (2 x)
      then have Y: "?Y = {x}" by auto
      show ?thesis
      proof (cases dst)
        case None
        have "loop_good (fields_loop fn (Suc i) (src[i := x]) None)
            (insert x (set (take i src))) (outputs fn (drop (Suc i) src))"
          using "1.IH"(3) 2 i None by (simp add: loop_base_def take_Suc_conv_app_nth)
        then have "loop_good (fields_loop fn (Suc i) (src[i := x]) None) (set ?b)
            (outputs fn (drop i src))"
          unfolding out Y by (auto simp: loop_good_def loop_base_def None covers_def)
        then show ?thesis using i 2 None by (subst fields_loop.simps) simp
      next
        case (Some d)
        have "loop_good (fields_loop fn (Suc i) src (Some (merge_fields d [x])))
            (set (merge_fields d [x])) (outputs fn (drop (Suc i) src))"
          using "1.IH"(4) 2 i Some by (simp add: loop_base_def)
        then have "loop_good (fields_loop fn (Suc i) src (Some (merge_fields d [x]))) (set ?b)
            (outputs fn (drop i src))"
          unfolding out 2(1) by (simp only: loop_good_merge loop_base_def Some option.case)
        then show ?thesis using i 2 Some by (subst fields_loop.simps) simp
      qed
    next
      case (3 x y fs)
      have "loop_good (fields_loop fn (Suc i) src (Some (merge_fields ?b (x # y # fs))))
          (set (merge_fields ?b (x # y # fs))) (outputs fn (drop (Suc i) src))"
        using "1.IH"(5) 3 i by (simp add: loop_base_def)
      then have "loop_good (fields_loop fn (Suc i) src (Some (merge_fields ?b (x # y # fs)))) (set ?b)
          (outputs fn (drop i src))"
        unfolding out 3 by (rule loop_good_merge)
      then show ?thesis using i 3 by (subst fields_loop.simps) (simp add: loop_base_def Let_def)
    qed
  qed
qed

text \<open>FieldsFunc returns exactly the fields that the selector function gives for
  the elements of the list, up to case, and none that it does not give.\<close>

theorem fields_func_correct:
  assumes "src \<noteq> []"
  shows "set (fields_func src fn) \<subseteq> {f. f \<noteq> [] \<and> (\<exists>x \<in> set src. f \<in> set (fn x))} \<and>
    (\<forall>x \<in> set src. covers (fields_func src fn) (set (fn x)))"
proof -
  have "loop_good (fields_func src fn) {} (outputs fn src)"
    using fields_loop_good [of 0 src fn None] assms by (simp add: fields_func_def loop_base_def)
  then show ?thesis by (auto simp: loop_good_def outputs_def covers_def)
qed

theorem fields_func_correct_witness:
  "fields_func [''id,name'', ''ID'', ''''] inline_fields = [''id'', ''name''] \<and>
   covers [''id'', ''name''] (set (inline_fields ''ID''))"
proof -
  have e: "fields_func [''id,name'', ''ID'', ''''] inline_fields = [''id'', ''name'']"
    by code_simp
  have "[''id,name'', ''ID'', ''''] \<noteq> []" by simp
  from fields_func_correct [OF this, of inline_fields, unfolded e]
  show ?thesis by (auto simp only: e list.set insert_iff)
qed

section \<open>The result of FieldsMask\<close>

text \<open>FieldsMask drops a path of another section when its name extends the name
  of the section before: the look-ahead compares the section without the
  delimiter after it.\<close>

theorem fields_mask_sibling_lost:
  assumes "CHR ''.'' \<notin> set a"
  shows "fields_mask [a @ ''.'' @ x, a @ b @ ''.'' @ y] 1 [] = Some [a]"
proof -
  have "split_on CHR ''.'' (a @ ''.'' @ x) = a # split_on CHR ''.'' x"
    using split_on_append [OF assms] by simp
  then show ?thesis
    by (cases "split_on CHR ''.'' x") (auto simp: fields_mask_def Let_def)
qed

theorem fields_mask_sibling_lost_witness:
  "fields_mask [''flow.id'', ''flowx.id''] 1 [] = Some [''flow'']"
  using fields_mask_sibling_lost [of "''flow''" "''id''" "''x''" "''id''"] by simp

end
