(* ===== verification/App_Contact.thy ===== *)
theory App_Contact
  imports Chat_Prelude
begin

text \<open>
  internal/contact/contact.go: the text form oid@host of a service contact, which
  the chat channels keep in their connection column.
\<close>

datatype contact_error = IdZero | IdMissing | IdInvalid | IdNotInteger

text \<open>strings.LastIndexByte.\<close>

fun last_index :: "string \<Rightarrow> char \<Rightarrow> nat option" where
  "last_index [] c = None"
| "last_index (x # s) c =
     (case last_index s c of
        Some i \<Rightarrow> Some (Suc i)
      | None \<Rightarrow> if x = c then Some 0 else None)"

definition contact_service_node :: "string \<Rightarrow> string \<times> string" where
  "contact_service_node contact =
     (let oid = trim_space contact in
      case last_index oid CHR ''@'' of
        Some at \<Rightarrow> (if at > 0 then (take at oid, drop (Suc at) oid) else (oid, []))
      | None \<Rightarrow> (oid, []))"

definition contact_object_node :: "string \<Rightarrow> int \<times> string \<times> contact_error option" where
  "contact_object_node contact =
     (let (contact, host) = contact_service_node contact;
          (oid, perr) = parse_int contact;
          err = (if perr \<noteq> None then Some IdNotInteger else None);
          err = (if oid = 0 then Some IdZero else err)
      in (oid, host, err))"

definition host_char :: "char \<Rightarrow> bool" where
  "host_char c \<longleftrightarrow>
     (let n = (of_char c :: nat) in
        48 \<le> n \<and> n \<le> 57 \<or> 65 \<le> n \<and> n \<le> 90 \<or> 97 \<le> n \<and> n \<le> 122
        \<or> c = CHR ''-'' \<or> c = CHR ''_'' \<or> c = CHR ''['' \<or> c = CHR '']''
        \<or> c = CHR ''.'' \<or> c = CHR '':'')"

definition node_service_contact :: "string \<Rightarrow> string \<Rightarrow> string \<times> contact_error option" where
  "node_service_contact oid host =
     (let oid = trim_space oid; host = trim_space host in
      if host = [] then (oid, None)
      else if oid = [] then ([], None)
      else if \<not> list_all host_char host then ([], Some IdInvalid)
      else (oid @ ''@'' @ host, None))"

definition node_object_contact :: "int \<Rightarrow> string \<Rightarrow> string \<times> contact_error option" where
  "node_object_contact oid host =
     (if oid = 0 then ([], Some IdMissing)
      else node_service_contact (itoa oid) host)"

lemma last_index_None: "last_index s c = None \<longleftrightarrow> c \<notin> set s"
  by (induction s) (auto split: option.splits)

lemma last_index_append: "c \<notin> set t \<Longrightarrow> last_index (s @ c # t) c = Some (length s)"
  by (induction s) (auto simp: last_index_None [THEN iffD2] split: option.splits)

lemma trim_space_id:
  "s = [] \<or> \<not> is_space (hd s) \<and> \<not> is_space (last s) \<Longrightarrow> trim_space s = s"
proof -
  assume a: "s = [] \<or> \<not> is_space (hd s) \<and> \<not> is_space (last s)"
  have "dropWhile P xs = xs" if "xs = [] \<or> \<not> P (hd xs)" for P and xs :: string
    using that by (cases xs) auto
  from this [of s is_space] this [of "rev s" is_space] a show ?thesis
    by (auto simp: trim_space_def hd_rev)
qed

lemma trim_space_ends:
  "trim_space s \<noteq> [] \<Longrightarrow> \<not> is_space (hd (trim_space s)) \<and> \<not> is_space (last (trim_space s))"
proof -
  assume ne: "trim_space s \<noteq> []"
  let ?d = "dropWhile is_space s"
  let ?e = "dropWhile is_space (rev ?d)"
  have e: "?e \<noteq> []" "trim_space s = rev ?e" using ne by (auto simp: trim_space_def)
  then have "\<not> is_space (last (trim_space s))"
    using hd_dropWhile [OF e(1)] by (simp add: last_rev)
  moreover have "hd (trim_space s) = hd ?d"
  proof -
    have "rev ?d = takeWhile is_space (rev ?d) @ ?e" by simp
    then have "?d = rev ?e @ rev (takeWhile is_space (rev ?d))" by (metis rev_append rev_rev_ident)
    with e show ?thesis by (metis hd_append2 rev_is_Nil_conv)
  qed
  moreover have "?d \<noteq> []" using e(1) by (cases "?d") simp_all
  then have "\<not> is_space (hd ?d)" by (rule hd_dropWhile)
  ultimately show ?thesis by simp
qed

lemma trim_space_idem [simp]: "trim_space (trim_space s) = trim_space s"
  using trim_space_ends [of s] by (intro trim_space_id) auto

lemma host_no_at: "list_all host_char host \<Longrightarrow> CHR ''@'' \<notin> set host"
  by (auto simp: list_all_iff host_char_def)

text \<open>What NodeServiceContact prints for a host, ContactServiceNode reads back.\<close>

theorem contact_round_trip:
  assumes "node_service_contact oid host = (contact, None)"
    and "trim_space host \<noteq> []" "trim_space oid \<noteq> []"
  shows "contact_service_node contact = (trim_space oid, trim_space host)"
proof -
  let ?o = "trim_space oid" and ?h = "trim_space host"
  have h: "list_all host_char ?h" and c: "contact = ?o @ CHR ''@'' # ?h"
    using assms by (auto simp: node_service_contact_def Let_def split: if_splits)
  have "trim_space contact = contact"
    using trim_space_ends [OF assms(2)] trim_space_ends [OF assms(3)] assms(2,3)
    unfolding c by (intro trim_space_id) auto
  then show ?thesis
    using last_index_append [OF host_no_at [OF h], of ?o] assms(3)
    by (simp add: contact_service_node_def c)
qed

theorem contact_round_trip_witness:
  "contact_service_node '' 7@a@web-1 '' = (''7@a'', ''web-1'')"
  using contact_round_trip [of "''7@a''" "''web-1''" "''7@a@web-1''"]
  by (simp add: node_service_contact_def trim_space_def is_space_def host_char_def contact_service_node_def)

lemma itoa_no_space: "c \<in> set (itoa i) \<Longrightarrow> \<not> is_space c \<and> c \<noteq> CHR ''@''"
  using itoa_chars [of c i] by (auto simp: is_digit_def is_space_def Let_def)

lemma trim_space_itoa [simp]: "trim_space (itoa i) = itoa i"
  using itoa_no_space [of "hd (itoa i)" i] itoa_no_space [of "last (itoa i)" i]
  by (intro trim_space_id) simp

text \<open>The contact of an object id is read back as this id and host, with no error.\<close>

theorem object_contact_round_trip:
  assumes "is_int64 oid" "oid \<noteq> 0" "node_object_contact oid host = (contact, None)"
  shows "contact_object_node contact = (oid, trim_space host, None)"
proof (cases "trim_space host = []")
  case True
  then have "contact = itoa oid"
    using assms by (simp add: node_object_contact_def node_service_contact_def)
  moreover have "last_index (itoa oid) CHR ''@'' = None"
    using itoa_no_space by (auto simp: last_index_None)
  ultimately show ?thesis
    using True assms(1,2)
    by (simp add: contact_object_node_def contact_service_node_def parse_int_itoa)
next
  case False
  then have "contact_service_node contact = (itoa oid, trim_space host)"
    using contact_round_trip [of "itoa oid" host contact] assms
    by (simp add: node_object_contact_def)
  then show ?thesis
    using assms(1,2) by (simp add: contact_object_node_def parse_int_itoa)
qed

theorem object_contact_round_trip_witness:
  "contact_object_node ''42@bot'' = (42, ''bot'', None)"
proof -
  have "node_object_contact 42 ''bot'' = (''42@bot'', None)" by code_simp
  moreover have "trim_space ''bot'' = ''bot''" by code_simp
  ultimately show ?thesis
    using object_contact_round_trip [of 42 "''bot''" "''42@bot''"] by (simp add: is_int64_def)
qed

lemma parse_int_syntax: "parse_int s = (v, Some ErrSyntax) \<Longrightarrow> v = 0"
  unfolding parse_int_def Let_def by (simp split: if_splits sum.splits num_error.splits)

lemma parse_int_range: "parse_int s = (v, Some ErrRange) \<Longrightarrow> v \<noteq> 0"
  unfolding parse_int_def Let_def by (auto split: if_splits sum.splits num_error.splits)

text \<open>an id that is no number is reported as the zero id: the test of the value
  overwrites the error of the conversion, so that the error of a non-integer
  is left for the numbers that do not fit 64 bits.\<close>

theorem object_node_error:
  "snd (snd (contact_object_node contact)) =
     (case parse_int (fst (contact_service_node contact)) of
        (_, Some ErrSyntax) \<Rightarrow> Some IdZero
      | (_, Some ErrRange) \<Rightarrow> Some IdNotInteger
      | (oid, None) \<Rightarrow> if oid = 0 then Some IdZero else None)"
proof -
  obtain oid host where c: "contact_service_node contact = (oid, host)" by fastforce
  obtain v e where p: "parse_int oid = (v, e)" by fastforce
  show ?thesis
    using parse_int_syntax [of oid v] parse_int_range [of oid v]
    by (auto simp: contact_object_node_def c p split: option.splits num_error.splits)
qed

end
