(* ===== verification/Repo_Cache.thy ===== *)
theory Repo_Cache
  imports App_Contact
begin

text \<open>
  internal/repo/sqlx: the channel row (models.go), the key-value tables of the
  workflow channels (cache.go) and the variables of a chat (BindChannel of
  channel.go), over a state that holds the rows of the tables.

  Every operation is one SQL statement, so it happens as a whole or fails
  without an effect; the list of faults of the state says which of the coming
  statements fail.
\<close>

section \<open>Rows\<close>

record null_string =
  ns_string :: string
  ns_valid :: bool

definition null_string :: null_string where
  "null_string = \<lparr>ns_string = [], ns_valid = False\<rparr>"

definition some_string :: "string \<Rightarrow> null_string" where
  "some_string s = \<lparr>ns_string = s, ns_valid = True\<rparr>"

record store_channel =
  sc_id :: string
  sc_type :: string
  sc_conversation_id :: string
  sc_user_id :: int
  sc_connection :: null_string
  sc_host :: null_string
  sc_created_at :: int
  sc_internal :: bool
  sc_closed_at :: "int option"
  sc_updated_at :: int
  sc_domain_id :: int
  sc_flow_bridge :: bool
  sc_name :: string
  sc_public_name :: null_string
  sc_closed_cause :: null_string
  sc_joined_at :: "int option"
  sc_vars :: "vars option"

text \<open>The zero value of the struct.\<close>

definition zero_channel :: store_channel where
  "zero_channel =
     \<lparr>sc_id = [], sc_type = [], sc_conversation_id = [], sc_user_id = 0,
      sc_connection = null_string, sc_host = null_string, sc_created_at = 0,
      sc_internal = False, sc_closed_at = None, sc_updated_at = 0, sc_domain_id = 0,
      sc_flow_bridge = False, sc_name = [], sc_public_name = null_string,
      sc_closed_cause = null_string, sc_joined_at = None, sc_vars = None\<rparr>"

definition full_name :: "store_channel \<Rightarrow> string" where
  "full_name m =
     (if ns_valid (sc_public_name m) \<and> ns_string (sc_public_name m) \<noteq> []
      then ns_string (sc_public_name m) else sc_name m)"

definition channel_contact :: "store_channel \<Rightarrow> string" where
  "channel_contact m =
     (case node_service_contact (ns_string (sc_host m)) (ns_string (sc_connection m)) of
        (contact, None) \<Rightarrow> contact
      | (_, Some _) \<Rightarrow> ns_string (sc_connection m))"

definition scan_contact :: "string option \<Rightarrow> store_channel \<Rightarrow> store_channel" where
  "scan_contact src m =
     (let m = m\<lparr>sc_connection := null_string\<rparr> in
      case src of None \<Rightarrow> m
      | Some s \<Rightarrow>
          (let (oid, host) = contact_service_node s
           in m\<lparr>sc_connection := \<lparr>ns_string = oid, ns_valid = (oid \<noteq> [])\<rparr>,
                sc_host := (sc_host m)\<lparr>ns_string := host\<rparr>\<rparr>))"

definition scan_hostname :: "string option \<Rightarrow> store_channel \<Rightarrow> store_channel" where
  "scan_hostname src m =
     (case src of None \<Rightarrow> m
      | Some s \<Rightarrow>
          m\<lparr>sc_host := some_string s,
            sc_connection := (sc_connection m)
              \<lparr>ns_string := fst (contact_service_node (ns_string (sc_connection m)))\<rparr>\<rparr>)"

section \<open>The tables\<close>

datatype db_error = DbFault | DbNotFound string

record cache_db =
  db_nodes :: vars
  db_confirms :: vars
  db_conv_props :: "(string \<times> vars option) list"
  db_chan_props :: "(string \<times> vars option) list"
  db_faults :: "bool list"

definition next_fault :: "cache_db \<Rightarrow> bool \<times> cache_db" where
  "next_fault db =
     (case db_faults db of
        [] \<Rightarrow> (False, db)
      | f # fs \<Rightarrow> (f, db\<lparr>db_faults := fs\<rparr>))"

definition write_conversation_node :: "string \<Rightarrow> string \<Rightarrow> cache_db \<Rightarrow> db_error option \<times> cache_db" where
  "write_conversation_node conv node db =
     (let (f, db) = next_fault db in
      if f then (Some DbFault, db)
      else (None, db\<lparr>db_nodes := vset conv node (db_nodes db)\<rparr>))"

definition read_conversation_node :: "string \<Rightarrow> cache_db \<Rightarrow> (db_error, string) result \<times> cache_db" where
  "read_conversation_node conv db =
     (let (f, db) = next_fault db in
      if f then (Fail DbFault, db)
      else (case map_of (db_nodes db) conv of
              None \<Rightarrow> (Ok [], db)
            | Some node \<Rightarrow> (Ok node, db)))"

definition delete_conversation_node :: "string \<Rightarrow> cache_db \<Rightarrow> db_error option \<times> cache_db" where
  "delete_conversation_node conv db =
     (let (f, db) = next_fault db in
      if f then (Some DbFault, db)
      else (None, db\<lparr>db_nodes := vdel conv (db_nodes db)\<rparr>))"

definition read_confirmation :: "string \<Rightarrow> cache_db \<Rightarrow> (db_error, string) result \<times> cache_db" where
  "read_confirmation conv db =
     (let (f, db) = next_fault db in
      if f then (Fail DbFault, db)
      else (case map_of (db_confirms db) conv of
              None \<Rightarrow> (Ok [], db)
            | Some token \<Rightarrow> (Ok token, db)))"

definition write_confirmation :: "string \<Rightarrow> string \<Rightarrow> cache_db \<Rightarrow> db_error option \<times> cache_db" where
  "write_confirmation conv token db =
     (let (f, db) = next_fault db in
      if f then (Some DbFault, db)
      else (None, db\<lparr>db_confirms := vset conv token (db_confirms db)\<rparr>))"

definition delete_confirmation :: "string \<Rightarrow> cache_db \<Rightarrow> db_error option \<times> cache_db" where
  "delete_confirmation conv db =
     (let (f, db) = next_fault db in
      if f then (Some DbFault, db)
      else (None, db\<lparr>db_confirms := vdel conv (db_confirms db)\<rparr>))"

section \<open>BindChannel\<close>

text \<open>The loop over the variables: the keys to remove and those to set, both in
  trimmed form.\<close>

fun bind_split :: "vars \<Rightarrow> string list \<Rightarrow> vars \<Rightarrow> string list \<times> vars" where
  "bind_split [] del upd = (del, upd)"
| "bind_split ((key, v) # vs) del upd =
     (let key = trim_space key in
      if key = [] then bind_split vs del upd
      else if v = [] then bind_split vs (del @ [key]) upd
      else bind_split vs del (vset key v upd))"

text \<open>The expression of the update: the props without the removed keys, then the set
  keys over them.\<close>

definition bind_expr :: "vars option \<Rightarrow> vars \<Rightarrow> vars" where
  "bind_expr props vs =
     (let (del, upd) = bind_split vs [] [];
          base = env_of props
      in foldl (\<lambda>p (k, v). vset k v p) (foldl (\<lambda>p k. vdel k p) base del) upd)"

definition bind_channel ::
    "string \<Rightarrow> vars option \<Rightarrow> cache_db \<Rightarrow> (db_error, vars option) result \<times> cache_db" where
  "bind_channel cid vs db =
     (case vs of
        None \<Rightarrow> (Ok None, db)
      | Some vs \<Rightarrow>
          (let vs = vdel [] vs in
           if vs = [] then (Ok None, db)
           else
             (let (f, db) = next_fault db in
              if f then (Fail DbFault, db)
              else (case map_of (db_conv_props db) cid of
                  Some props \<Rightarrow>
                    (let env = bind_expr props vs
                     in (Ok (Some env),
                         db\<lparr>db_conv_props := AList.update cid (Some env) (db_conv_props db)\<rparr>))
                | None \<Rightarrow>
                    (case map_of (db_chan_props db) cid of
                       Some props \<Rightarrow>
                         (let env = bind_expr props vs
                          in (Ok (Some env),
                              db\<lparr>db_chan_props := AList.update cid (Some env) (db_chan_props db)\<rparr>))
                     | None \<Rightarrow> (Fail (DbNotFound ''chat.channel.id.invalid''), db))))))"

definition setvar :: "string \<Rightarrow> vars option \<Rightarrow> cache_db \<Rightarrow> db_error option \<times> cache_db" where
  "setvar conv vs db =
     (case bind_channel conv vs db of
        (Fail e, db) \<Rightarrow> (Some e, db)
      | (Ok _, db) \<Rightarrow> (None, db))"

section \<open>The interface CacheRepository\<close>

text \<open>One table that maps a chat to a text: what a client of its three operations may
  rely on, statements that fail included.\<close>

locale text_table =
  fixes view :: "'db \<Rightarrow> string \<Rightarrow> string"
    and put :: "string \<Rightarrow> string \<Rightarrow> 'db \<Rightarrow> 'e option \<times> 'db"
    and get :: "string \<Rightarrow> 'db \<Rightarrow> ('e + string) \<times> 'db"
    and del :: "string \<Rightarrow> 'db \<Rightarrow> 'e option \<times> 'db"
  assumes write_ok: "put k v db = (None, db') \<Longrightarrow> view db' = (view db)(k := v)"
    and write_err: "put k v db = (Some e, db') \<Longrightarrow> view db' = view db"
    and read_ok: "get k db = (Inr v, db') \<Longrightarrow> v = view db k"
    and read_view: "get k db = (r, db') \<Longrightarrow> view db' = view db"
    and delete_ok: "del k db = (None, db') \<Longrightarrow> view db' = (view db)(k := [])"
    and delete_err: "del k db = (Some e, db') \<Longrightarrow> view db' = view db"
begin

lemma read_after_write:
  "put k v db = (None, db1) \<Longrightarrow> get k' db1 = (Inr w, db2) \<Longrightarrow> w = ((view db)(k := v)) k'"
  by (metis read_ok write_ok)

lemma read_after_delete:
  "del k db = (None, db1) \<Longrightarrow> get k db1 = (Inr w, db2) \<Longrightarrow> w = []"
  by (metis read_ok delete_ok fun_upd_same)

lemma write_other: "k' \<noteq> k \<Longrightarrow> view (snd (put k v db)) k' = view db k'"
  by (cases "put k v db"; cases "fst (put k v db)") (auto dest: write_ok write_err)

lemma delete_other: "k' \<noteq> k \<Longrightarrow> view (snd (del k db)) k' = view db k'"
  by (cases "del k db"; cases "fst (del k db)") (auto dest: delete_ok delete_err)

lemma delete_same: "view (snd (del k db)) k = [] \<or> view (snd (del k db)) k = view db k"
  by (cases "del k db"; cases "fst (del k db)") (auto dest: delete_ok delete_err)

lemma read_snd: "view (snd (get k db)) = view db"
  by (metis prod.collapse read_view)

end

text \<open>The repository: a table of nodes and a table of confirmation tokens that do not
  touch each other.\<close>

locale cache_repository =
  node: text_table nview nwrite nread ndelete + token: text_table tview twrite tread tdelete
  for nview :: "'db \<Rightarrow> string \<Rightarrow> string" and nwrite nread ndelete
    and tview :: "'db \<Rightarrow> string \<Rightarrow> string" and twrite tread tdelete +
  assumes token_frame_write: "tview (snd (nwrite k v db)) = tview db"
    and token_frame_read: "tview (snd (nread k db)) = tview db"
    and token_frame_delete: "tview (snd (ndelete k db)) = tview db"
    and node_frame_write: "nview (snd (twrite k v db)) = nview db"
    and node_frame_read: "nview (snd (tread k db)) = nview db"
    and node_frame_delete: "nview (snd (tdelete k db)) = nview db"
begin

text \<open>Forgetting a chat: both rows are gone unless a statement failed, and no other
  chat is touched.\<close>

lemma forget_other:
  "k' \<noteq> k \<Longrightarrow>
    tview (snd (ndelete k (snd (tdelete k db)))) k' = tview db k' \<and>
    nview (snd (ndelete k (snd (tdelete k db)))) k' = nview db k'"
  by (simp add: token_frame_delete node_frame_delete node.delete_other token.delete_other)

end

definition node_view :: "cache_db \<Rightarrow> string \<Rightarrow> string" where
  "node_view db k = vget (db_nodes db) k"

definition token_view :: "cache_db \<Rightarrow> string \<Rightarrow> string" where
  "token_view db k = vget (db_confirms db) k"

lemmas cache_ops = write_conversation_node_def read_conversation_node_def
  delete_conversation_node_def read_confirmation_def write_confirmation_def delete_confirmation_def

interpretation repo: cache_repository
  node_view write_conversation_node read_conversation_node delete_conversation_node
  token_view write_confirmation read_confirmation delete_confirmation
  by unfold_locales
    (auto simp: cache_ops next_fault_def node_view_def token_view_def vget_def fun_eq_iff Let_def
      split: list.splits if_splits option.splits prod.splits)

section \<open>The variables of a chat\<close>

lemma bind_split_conv:
  "distinct (map fst vs) \<Longrightarrow> \<forall>k \<in> fst ` set vs. trim_space k = k \<and> k \<noteq> [] \<Longrightarrow>
   set (fst (bind_split vs del acc)) = set del \<union> {k. map_of vs k = Some []} \<and>
   map_of (snd (bind_split vs del acc)) k =
      (case map_of vs k of Some v \<Rightarrow> if v = [] then map_of acc k else Some v | None \<Rightarrow> map_of acc k)"
proof (induction vs arbitrary: del acc)
  case (Cons kv vs)
  obtain j v where kv: "kv = (j, v)" by fastforce
  have j: "trim_space j = j" "j \<noteq> []" "map_of vs j = None"
    using Cons.prems(1,2) by (auto simp: kv map_of_eq_None_iff)
  have prems: "distinct (map fst vs)" "\<forall>k \<in> fst ` set vs. trim_space k = k \<and> k \<noteq> []"
    using Cons.prems by (auto simp: kv)
  show ?case
  proof (cases "v = []")
    case True
    then show ?thesis
      using Cons.IH [OF prems, of "del @ [j]" acc] j by (auto simp: kv Let_def split: option.splits)
  next
    case False
    then show ?thesis
      using Cons.IH [OF prems, of del "vset j v acc"] j by (auto simp: kv Let_def split: option.splits)
  qed
qed simp

lemma bind_split_ok: "vars_ok acc \<Longrightarrow> vars_ok (snd (bind_split vs del acc))"
  by (induction vs del acc rule: bind_split.induct) (auto simp: Let_def)

lemma map_of_foldl_vset:
  "distinct (map fst us) \<Longrightarrow>
   map_of (foldl (\<lambda>p (k, v). vset k v p) p us) k =
     (case map_of us k of Some v \<Rightarrow> Some v | None \<Rightarrow> map_of p k)"
proof (induction us arbitrary: p)
  case (Cons u us)
  obtain j v where u: "u = (j, v)" by fastforce
  then have "map_of us j = None" using Cons.prems by (simp add: map_of_eq_None_iff)
  with Cons.IH [of "vset j v p"] Cons.prems show ?case by (simp add: u split: option.splits)
qed simp

lemma map_of_foldl_vdel:
  "map_of (foldl (\<lambda>p k. vdel k p) p ks) k = (if k \<in> set ks then None else map_of p k)"
  by (induction ks arbitrary: p) auto

lemma vars_ok_foldl_vset: "vars_ok p \<Longrightarrow> vars_ok (foldl (\<lambda>p (k, v). vset k v p) p us)"
  by (induction us arbitrary: p) auto

lemma vars_ok_foldl_vdel: "vars_ok p \<Longrightarrow> vars_ok (foldl (\<lambda>p k. vdel k p) p ks)"
  by (induction ks arbitrary: p) auto

lemma bind_expr_conv:
  assumes "vars_ok vs" "\<forall>k \<in> fst ` set vs. trim_space k = k \<and> k \<noteq> []"
  shows "map_of (bind_expr props vs) k =
    (case map_of vs k of
       Some v \<Rightarrow> if v = [] then None else Some v
     | None \<Rightarrow> map_of (env_of props) k)"
proof -
  obtain del upd where du: "bind_split vs [] [] = (del, upd)" by fastforce
  have "distinct (map fst upd)"
    using bind_split_ok [of "[]" vs "[]"] by (simp add: du vars_ok_def)
  then show ?thesis
    using bind_split_conv [of vs "[]" "[]" k] assms
    by (auto simp: bind_expr_def du vars_ok_def map_of_foldl_vset map_of_foldl_vdel split: option.splits)
qed

lemma bind_expr_ok: "(\<And>p. props = Some p \<Longrightarrow> vars_ok p) \<Longrightarrow> vars_ok (bind_expr props vs)"
  by (cases props) (auto simp: bind_expr_def vars_ok_foldl_vset vars_ok_foldl_vdel split: prod.splits)

text \<open>Binding variables to a chat that exists returns, and stores, its variables
  with every given key replaced, and with the keys of an empty value removed;
  the variables of no other chat change.\<close>

theorem bind_channel_result:
  assumes "vars_ok vs" "\<forall>k \<in> fst ` set vs. trim_space k = k \<and> k \<noteq> []" "vs \<noteq> []"
    and "map_of (db_conv_props db) cid = Some props" "bind_channel cid (Some vs) db = (Ok env, db')"
  shows "\<exists>p. env = Some p \<and> map_of (db_conv_props db') = (map_of (db_conv_props db))(cid \<mapsto> Some p) \<and>
    db_chan_props db' = db_chan_props db \<and>
    (\<forall>k. map_of p k =
      (case map_of vs k of
         Some v \<Rightarrow> if v = [] then None else Some v
       | None \<Rightarrow> map_of (env_of props) k))"
proof -
  have "map_of vs [] = None" using assms(2) by (force simp: map_of_eq_None_iff)
  then have v: "vdel [] vs = vs" using assms(1)
    by (simp add: vdel_def delete_idem map_of_eq_None_iff)
  obtain f db1 where nf: "next_fault db = (f, db1)" by fastforce
  then have d1: "db_conv_props db1 = db_conv_props db" "db_chan_props db1 = db_chan_props db"
    by (auto simp: next_fault_def split: list.splits)
  have "env = Some (bind_expr props vs) \<and>
      db' = db1\<lparr>db_conv_props := AList.update cid (Some (bind_expr props vs)) (db_conv_props db1)\<rparr>"
    using assms(3-5) by (auto simp: bind_channel_def v nf d1 Let_def split: if_splits)
  then show ?thesis
    by (simp add: d1 update_conv' bind_expr_conv [OF assms(1,2)])
qed

theorem bind_channel_result_witness:
  "\<exists>p db'. bind_channel ''c1'' (Some [(''a'', ''''), (''b'', ''2'')])
       \<lparr>db_nodes = [], db_confirms = [], db_conv_props = [(''c1'', Some [(''a'', ''1'')])],
        db_chan_props = [], db_faults = []\<rparr> = (Ok (Some p), db') \<and>
     map_of p ''b'' = Some ''2'' \<and> map_of p ''a'' = None"
proof -
  let ?db = "\<lparr>db_nodes = [], db_confirms = [], db_conv_props = [(''c1'', Some [(''a'', ''1'')])],
        db_chan_props = [], db_faults = []\<rparr>"
  let ?vs = "[(''a'', ''''), (''b'', ''2'')]"
  obtain db' where e: "bind_channel ''c1'' (Some ?vs) ?db = (Ok (Some [(''b'', ''2'')]), db')"
    by (simp add: bind_channel_def next_fault_def bind_expr_def vdel_def vset_def trim_space_def
        is_space_def Let_def)
  have "vars_ok ?vs" "\<forall>k \<in> fst ` set ?vs. trim_space k = k \<and> k \<noteq> []" "?vs \<noteq> []"
    "map_of (db_conv_props ?db) ''c1'' = Some (Some [(''a'', ''1'')])"
    by (simp_all add: vars_ok_def trim_space_def is_space_def)
  from bind_channel_result [OF this e] obtain p
    where p: "Some [(''b'', ''2'')] = Some p" and k: "\<forall>k. map_of p k =
      (case map_of ?vs k of
         Some v \<Rightarrow> if v = [] then None else Some v
       | None \<Rightarrow> map_of (env_of (Some [(''a'', ''1'')])) k)" by blast
  show ?thesis using e k [rule_format, of "''a''"] k [rule_format, of "''b''"] p by auto
qed

end
