(* ===== verification/App_Model.thy ===== *)
theory App_Model
  imports Repo_Cache
begin

text \<open>
  The application's view of a chat: app/model.go, app/contact.go, app/channel.go
  and app/session.go.  The embedded pointers to Chat and User are records (the
  code dereferences them without a test); a nil channel is None.
\<close>

record app_user =
  au_id :: int
  au_channel :: string
  au_contact :: string
  au_first_name :: string
  au_last_name :: string
  au_user_name :: string
  au_language :: string

definition contact_bot :: string where "contact_bot = ''bot''"
definition contact_user :: string where "contact_user = ''user''"

definition is_bot :: "app_user \<Rightarrow> bool" where "is_bot e \<longleftrightarrow> au_channel e = contact_bot"
definition is_user :: "app_user \<Rightarrow> bool" where "is_user e \<longleftrightarrow> au_channel e = contact_user"

record app_chat =
  ch_id :: string
  ch_title :: string
  ch_channel :: string
  ch_contact :: string
  ch_username :: string
  ch_first_name :: string
  ch_last_name :: string
  ch_invite :: string

record app_channel =
  ac_chat :: app_chat
  ac_user :: app_user
  ac_domain_id :: int
  ac_status :: string
  ac_created :: int
  ac_updated :: int
  ac_joined :: int
  ac_closed :: int
  ac_vars :: "vars option"

definition zero_user :: app_user where
  "zero_user = \<lparr>au_id = 0, au_channel = [], au_contact = [], au_first_name = [],
     au_last_name = [], au_user_name = [], au_language = []\<rparr>"

definition zero_chat :: app_chat where
  "zero_chat = \<lparr>ch_id = [], ch_title = [], ch_channel = [], ch_contact = [], ch_username = [],
     ch_first_name = [], ch_last_name = [], ch_invite = []\<rparr>"

definition zero_app_channel :: app_channel where
  "zero_app_channel = \<lparr>ac_chat = zero_chat, ac_user = zero_user, ac_domain_id = 0, ac_status = [],
     ac_created = 0, ac_updated = 0, ac_joined = 0, ac_closed = 0, ac_vars = None\<rparr>"

definition channel_is_closed :: "app_channel option \<Rightarrow> bool" where
  "channel_is_closed c = (case c of None \<Rightarrow> True | Some c \<Rightarrow> ac_closed c \<noteq> 0)"

text \<open>The loop of SetVars over the given variables; None is the nil map.\<close>

fun set_vars_loop :: "vars \<Rightarrow> vars option \<Rightarrow> vars option" where
  "set_vars_loop [] env = env"
| "set_vars_loop ((key, val) # upd) env =
     (let key = trim_space key in
      if key = [] then set_vars_loop upd env
      else if val = [] then
        set_vars_loop upd
          (case env of None \<Rightarrow> None
           | Some e \<Rightarrow> if e \<noteq> [] then Some (vdel key e) else Some e)
      else set_vars_loop upd (Some (vset key val (env_of env))))"

definition set_vars :: "vars \<Rightarrow> app_channel \<Rightarrow> app_channel" where
  "set_vars upd c = c\<lparr>ac_vars := set_vars_loop upd (ac_vars c)\<rparr>"

record app_session =
  se_channel :: "app_channel option"
  se_members :: "app_channel option list"

text \<open>A nil session is None, and so is the result nil.\<close>

fun first_member :: "(app_channel \<Rightarrow> bool) \<Rightarrow> app_channel option list \<Rightarrow> app_channel option" where
  "first_member P [] = None"
| "first_member P (None # ms) = first_member P ms"
| "first_member P (Some sub # ms) = (if P sub then Some sub else first_member P ms)"

definition get_member :: "app_session option \<Rightarrow> string \<Rightarrow> app_channel option" where
  "get_member c mid =
     (case c of None \<Rightarrow> None
      | Some c \<Rightarrow>
          (let eq = (\<lambda>sub. equal_fold mid (ch_id (ac_chat sub))) in
           case se_channel c of
             Some chan \<Rightarrow> if eq chan then Some chan else first_member eq (se_members c)
           | None \<Rightarrow> first_member eq (se_members c)))"

definition get_user :: "app_session option \<Rightarrow> int \<Rightarrow> app_channel option" where
  "get_user c uid =
     (case c of None \<Rightarrow> None
      | Some c \<Rightarrow>
          (let eq = (\<lambda>sub. uid \<noteq> 0 \<and> uid = au_id (ac_user sub)) in
           case se_channel c of
             Some chan \<Rightarrow> if eq chan then Some chan else first_member eq (se_members c)
           | None \<Rightarrow> first_member eq (se_members c)))"

lemma first_member_SomeD: "first_member P ms = Some m \<Longrightarrow> Some m \<in> set ms \<and> P m"
  by (induction P ms rule: first_member.induct) (auto split: if_splits)

lemma first_member_NoneD: "first_member P ms = None \<Longrightarrow> Some m \<in> set ms \<Longrightarrow> \<not> P m"
  by (induction P ms rule: first_member.induct) (auto split: if_splits)

lemma set_vars_loop_conv:
  "distinct (map fst vs) \<Longrightarrow> \<forall>k \<in> fst ` set vs. trim_space k = k \<and> k \<noteq> [] \<Longrightarrow>
   map_of (env_of (set_vars_loop vs env)) k =
     (case map_of vs k of Some v \<Rightarrow> if v = [] then None else Some v | None \<Rightarrow> map_of (env_of env) k)"
proof (induction vs arbitrary: env)
  case (Cons kv vs)
  obtain j v where kv: "kv = (j, v)" by fastforce
  have j: "trim_space j = j" "j \<noteq> []" "map_of vs j = None"
    using Cons.prems(1,2) by (auto simp: kv map_of_eq_None_iff)
  have prems: "distinct (map fst vs)" "\<forall>k \<in> fst ` set vs. trim_space k = k \<and> k \<noteq> []"
    using Cons.prems by (auto simp: kv)
  show ?case
  proof (cases "v = []")
    case True
    let ?env = "case env of None \<Rightarrow> None | Some e \<Rightarrow> if e \<noteq> [] then Some (vdel j e) else Some e"
    have "map_of (env_of ?env) k = (if k = j then None else map_of (env_of env) k)"
      by (auto split: option.splits)
    then show ?thesis
      using Cons.IH [OF prems, of ?env] j True by (auto simp: kv Let_def split: option.splits)
  next
    case False
    then show ?thesis
      using Cons.IH [OF prems, of "Some (vset j v (env_of env))"] j
      by (auto simp: kv Let_def split: option.splits)
  qed
qed simp

text \<open>The variables that SetVars leaves in memory are those that BindChannel leaves
  in the table, for the same change of the same variables.\<close>

theorem set_vars_agrees_with_bind:
  assumes "vars_ok vs" "\<forall>k \<in> fst ` set vs. trim_space k = k \<and> k \<noteq> []"
  shows "map_of (env_of (ac_vars (set_vars vs c))) = map_of (bind_expr (ac_vars c) vs)"
  using assms set_vars_loop_conv [of vs] bind_expr_conv [OF assms]
  by (auto simp: set_vars_def vars_ok_def fun_eq_iff)

theorem set_vars_agrees_with_bind_witness:
  "map_of (env_of (ac_vars (set_vars [(''a'', ''1''), (''b'', '''')] zero_app_channel))) =
   map_of (bind_expr (ac_vars zero_app_channel) [(''a'', ''1''), (''b'', '''')])"
  by (rule set_vars_agrees_with_bind) (auto simp: vars_ok_def trim_space_def is_space_def)

text \<open>A member that a session finds carries the id that was asked for, up to case,
  and none is missed; the owner of the session comes first.\<close>

theorem get_member_correct:
  "(case get_member (Some s) mid of
      Some m \<Rightarrow> equal_fold mid (ch_id (ac_chat m)) \<and> (se_channel s = Some m \<or> Some m \<in> set (se_members s))
    | None \<Rightarrow> \<not> (\<exists>m. (se_channel s = Some m \<or> Some m \<in> set (se_members s)) \<and>
        equal_fold mid (ch_id (ac_chat m)))) \<and>
   (\<forall>m. se_channel s = Some m \<and> equal_fold mid (ch_id (ac_chat m)) \<longrightarrow> get_member (Some s) mid = Some m)"
  by (auto simp: get_member_def Let_def dest: first_member_SomeD first_member_NoneD split: option.splits)

theorem get_member_correct_witness:
  "get_member (Some \<lparr>se_channel = Some zero_app_channel, se_members = []\<rparr>) '''' = Some zero_app_channel"
  using get_member_correct [of "\<lparr>se_channel = Some zero_app_channel, se_members = []\<rparr>" "''''"]
  by (simp add: zero_app_channel_def zero_chat_def)

end
