(* ===== verification/Flow_Channel.thy ===== *)
theory Flow_Channel
  imports App_Model
begin

text \<open>
  internal/flow/channel.go: the channel between a chat and the workflow service
  that runs its schema.

  The client library is not part of the repository.  A call of the service is a
  list of attempts, one for each try the library makes; every attempt looks up
  the hosts, asks the selector of the channel for one of them, sends the request
  to it and passes the reply through the wrapper of the channel.  What the
  lookup, the fallback selector and the service answer is data of the attempt,
  so the theorems hold for all of it.
\<close>

section \<open>Data\<close>

datatype flow_error =
    RpcError string
  | StoreError db_error
  | NoneAvailable
  | NumError num_error
  | BadRequest string

text \<open>The Id field that errors.FromError gives an error.\<close>

fun error_id :: "flow_error \<Rightarrow> string" where
  "error_id (RpcError i) = i"
| "error_id (StoreError (DbNotFound i)) = i"
| "error_id (BadRequest i) = i"
| "error_id _ = []"

definition errno_session_not_found :: string where
  "errno_session_not_found = ''grpc.chat.conversation.not_found''"

definition err_confirmation_not_found :: string where
  "err_confirmation_not_found = ''chat.confirmation_message.not_found''"

record flow_message =
  fm_id :: int
  fm_type :: string
  fm_text :: string
  fm_postback :: "string option"
  fm_vars :: "vars option"
  fm_from :: "app_user option"
  fm_created :: int

datatype flow_request =
    ConfirmationRequest string string flow_message
  | StartRequest string int int int int flow_message "vars option"
  | BreakRequest string string
  | BreakBridgeRequest string string

record flow_channel =
  fc_host :: string
  fc_id :: string
  fc_chat :: store_channel
  fc_profile_id :: int
  fc_invite :: string
  fc_pending :: string
  fc_vars :: "vars option"

text \<open>What the operations share besides the channel: the repository and the requests
  that reached a host.\<close>

record flow_world =
  fw_db :: cache_db
  fw_sent :: "(string \<times> flow_request) list"

record attempt =
  at_hosts :: "string list"
  at_fallback :: "string option"
  at_reply :: "flow_error option"

definition new_channel :: flow_channel where
  "new_channel =
     \<lparr>fc_host = [], fc_id = [], fc_chat = zero_channel, fc_profile_id = 0, fc_invite = [],
      fc_pending = [], fc_vars = None\<rparr>"

section \<open>Identity\<close>

text \<open>The getters cache what they compute in the channel; the log lines of the code
  call them too.\<close>

definition chat_id :: "flow_channel \<Rightarrow> flow_channel" where
  "chat_id c = (if fc_id c = [] then c\<lparr>fc_id := sc_conversation_id (fc_chat c)\<rparr> else c)"

definition domain_id :: "flow_channel \<Rightarrow> int" where
  "domain_id c = sc_domain_id (fc_chat c)"

definition user_id :: "flow_channel \<Rightarrow> flow_channel" where
  "user_id c =
     (if fc_profile_id c = 0 \<and> ns_string (sc_connection (fc_chat c)) \<noteq> []
      then c\<lparr>fc_profile_id := fst (parse_int (ns_string (sc_connection (fc_chat c))))\<rparr>
      else c)"

definition log_ids :: "flow_channel \<Rightarrow> flow_channel" where
  "log_ids c = chat_id (user_id c)"

section \<open>Selection of the host\<close>

definition recover_host :: "flow_channel \<Rightarrow> cache_db \<Rightarrow> flow_channel \<times> cache_db" where
  "recover_host c db =
     (if fc_host c = ''lookup'' then (c\<lparr>fc_host := []\<rparr>, db)
      else if fc_host c = [] then
        (let c = chat_id c in
         if fc_id c \<noteq> [] then
           (case read_conversation_node (fc_id c) db of
              (Fail _, db) \<Rightarrow> (c\<lparr>fc_host := []\<rparr>, db)
            | (Ok node, db) \<Rightarrow> ((if node \<noteq> [] then c\<lparr>fc_host := node\<rparr> else c), db))
         else (c, db))
      else (c, db))"

text \<open>chatFlowSelector.Select: the host of the channel when it is on the list, else
  the choice of the fallback selector.\<close>

definition select_host ::
    "string list \<Rightarrow> string option \<Rightarrow> flow_channel \<Rightarrow> cache_db \<Rightarrow> string option \<times> flow_channel \<times> cache_db" where
  "select_host hosts fallback c db =
     (let (c, db) = recover_host c db in
      if fc_host c = [] then (fallback, c, db)
      else if fc_host c \<in> set hosts then (Some (fc_host c), log_ids c, db)
      else (fallback, log_ids c, db))"

text \<open>callWrap after the request: forget the host on an error, store a new one.\<close>

definition call_wrap ::
    "string \<Rightarrow> flow_error option \<Rightarrow> flow_channel \<Rightarrow> cache_db \<Rightarrow> flow_error option \<times> flow_channel \<times> cache_db" where
  "call_wrap addr reply c db =
     (let c = chat_id c in
      case reply of
        Some e \<Rightarrow>
          (let c = (if fc_host c \<noteq> [] then log_ids c else c)
           in (Some e, c\<lparr>fc_host := []\<rparr>, db))
      | None \<Rightarrow>
          if fc_host c = [] \<or> addr \<noteq> fc_host c then
            (let c = c\<lparr>fc_host := addr\<rparr> in
             case write_conversation_node (fc_id c) (fc_host c) db of
               (Some e, db) \<Rightarrow> (Some (StoreError e), c, db)
             | (None, db) \<Rightarrow> (None, log_ids c, db))
          else (None, c, db))"

text \<open>One call of the client with the options of the channel.\<close>

fun flow_call ::
    "attempt list \<Rightarrow> flow_request \<Rightarrow> flow_channel \<Rightarrow> flow_world \<Rightarrow>
     flow_error option \<times> flow_channel \<times> flow_world" where
  "flow_call [] req c w = (Some NoneAvailable, c, w)"
| "flow_call (a # ats) req c w =
     (case select_host (at_hosts a) (at_fallback a) c (fw_db w) of
        (None, c, db) \<Rightarrow>
          (let w = w\<lparr>fw_db := db\<rparr> in
           if ats = [] then (Some NoneAvailable, c, w) else flow_call ats req c w)
      | (Some addr, c, db) \<Rightarrow>
          (case call_wrap addr (at_reply a) c db of
             (None, c, db) \<Rightarrow> (None, c, \<lparr>fw_db = db, fw_sent = fw_sent w @ [(addr, req)]\<rparr>)
           | (Some e, c, db) \<Rightarrow>
               (let w = \<lparr>fw_db = db, fw_sent = fw_sent w @ [(addr, req)]\<rparr> in
                if ats = [] then (Some e, c, w) else flow_call ats req c w)))"

section \<open>The token of the waiting message\<close>

definition get_pending :: "flow_channel \<Rightarrow> string" where
  "get_pending c = fc_pending c"

definition set_pending :: "string \<Rightarrow> string \<Rightarrow> flow_channel \<Rightarrow> bool \<times> flow_channel" where
  "set_pending next_token last_token c =
     (if last_token \<noteq> ''*'' \<and> fc_pending c \<noteq> last_token then (False, c)
      else (True, c\<lparr>fc_pending := next_token\<rparr>))"

definition del_pending :: "string \<Rightarrow> flow_channel \<Rightarrow> flow_channel" where
  "del_pending used_token c = snd (set_pending [] used_token c)"

definition flow_message_of :: "flow_message \<Rightarrow> flow_message" where
  "flow_message_of m =
     (let code = (case fm_postback m of None \<Rightarrow> [] | Some code \<Rightarrow> code) in
      if code = [] then m
      else if fm_text m = code then m
      else m\<lparr>fm_text := code\<rparr>)"

section \<open>Start\<close>

text \<open>The variables of the channel go to the message, less the schema override, which
  becomes the schema of the request.\<close>

definition start_vars :: "flow_channel \<Rightarrow> flow_message \<Rightarrow> int \<times> flow_channel \<times> flow_message" where
  "start_vars c m =
     (case fc_vars c of
        None \<Rightarrow> (0, c, m)
      | Some envars \<Rightarrow>
          if envars = [] then (0, c, m)
          else
            (let schema = fst (parse_int (vget envars ''flow''));
                 envars = vdel ''flow'' envars;
                 metadata = foldl (\<lambda>d (k, v). vset k v d) (env_of (fm_vars m)) envars
             in (schema, c\<lparr>fc_vars := Some envars\<rparr>, m\<lparr>fm_vars := Some metadata\<rparr>)))"

definition channel_start ::
    "flow_message \<Rightarrow> attempt list \<Rightarrow> flow_channel \<Rightarrow> flow_world \<Rightarrow>
     flow_error option \<times> flow_message \<times> flow_channel \<times> flow_world" where
  "channel_start m ats c w =
     (let (schema, c, m) = start_vars c m;
          c = user_id (chat_id c);
          start = StartRequest (fc_id c) (domain_id c) (fc_profile_id c) (to_int32 schema) 0
                    (flow_message_of m) (fc_vars c);
          c = snd (set_pending [] ''*'' c);
          c = c\<lparr>fc_host := ''lookup''\<rparr>;
          (err, c, w) = flow_call ats start c w
      in (err, m, c, w))"

definition start_user ::
    "flow_message \<Rightarrow> int \<Rightarrow> attempt list \<Rightarrow> flow_channel \<Rightarrow> flow_world \<Rightarrow>
     flow_error option \<times> flow_channel \<times> flow_world" where
  "start_user m user_to_id ats c w =
     (let c = user_id (chat_id c);
          start = StartRequest (fc_id c) (domain_id c) (fc_profile_id c) 0 user_to_id m (fc_vars c);
          c = c\<lparr>fc_host := ''lookup''\<rparr>
      in flow_call ats start c w)"

section \<open>Send\<close>

text \<open>Send in three parts, in the order of the code: the token, the call, and what is
  done with the answer.  Another goroutine can run between them.\<close>

definition send_token :: "flow_channel \<Rightarrow> flow_world \<Rightarrow> (flow_error, string) result \<times> flow_world" where
  "send_token c w =
     (let pending = get_pending c in
      if pending = [] then
        (case read_confirmation (fc_id c) (fw_db w) of
           (Fail e, db) \<Rightarrow> (Fail (StoreError e), w\<lparr>fw_db := db\<rparr>)
         | (Ok token, db) \<Rightarrow> (Ok token, w\<lparr>fw_db := db\<rparr>))
      else (Ok pending, w))"

definition send_request :: "string \<Rightarrow> flow_message \<Rightarrow> flow_channel \<Rightarrow> flow_request" where
  "send_request pending m c = ConfirmationRequest (fc_id c) pending (flow_message_of m)"

definition send_finish ::
    "string \<Rightarrow> flow_error option \<Rightarrow> flow_message \<Rightarrow> attempt list \<Rightarrow> flow_channel \<Rightarrow> flow_world \<Rightarrow>
     flow_error option \<times> flow_message \<times> flow_channel \<times> flow_world" where
  "send_finish pending err m ats c w =
     (case err of
        Some e \<Rightarrow>
          if error_id e = errno_session_not_found then
            (let c = c\<lparr>fc_host := []\<rparr>;
                 c = snd (set_pending [] ''*'' c);
                 db = snd (delete_confirmation (fc_id c) (fw_db w));
                 db = snd (delete_conversation_node (fc_id c) db)
             in channel_start m ats (log_ids c) (w\<lparr>fw_db := db\<rparr>))
          else if error_id e = err_confirmation_not_found then
            (Some e, m, del_pending pending c, w)
          else (Some e, m, log_ids c, w)
      | None \<Rightarrow>
          (let c = del_pending pending c;
               c = chat_id c;
               db = snd (delete_confirmation (fc_id c) (fw_db w))
           in (None, m, c, w\<lparr>fw_db := db\<rparr>)))"

definition channel_send ::
    "flow_message \<Rightarrow> attempt list \<Rightarrow> attempt list \<Rightarrow> flow_channel \<Rightarrow> flow_world \<Rightarrow>
     flow_error option \<times> flow_message \<times> flow_channel \<times> flow_world" where
  "channel_send m ats restart c w =
     (case send_token c w of
        (Fail e, w) \<Rightarrow> (Some e, m, c, w)
      | (Ok pending, w) \<Rightarrow>
          if pending = [] then (None, m, c, w)
          else
            (let (err, c, w) = flow_call ats (send_request pending m c) c w
             in send_finish pending err m restart c w))"

section \<open>Close and BreakBridge\<close>

definition channel_close ::
    "string \<Rightarrow> attempt list \<Rightarrow> flow_channel \<Rightarrow> flow_world \<Rightarrow> flow_error option \<times> flow_channel \<times> flow_world" where
  "channel_close cause ats c w =
     (let (err, c, w) = flow_call ats (BreakRequest (fc_id c) cause) c w in
      case err of
        Some e \<Rightarrow>
          if error_id e = errno_session_not_found then
            (let c = chat_id (del_pending ''*'' c)
             in (None, log_ids c, w\<lparr>fw_db := snd (delete_confirmation (fc_id c) (fw_db w))\<rparr>))
          else (Some e, c, w)
      | None \<Rightarrow>
          (let c = chat_id (del_pending ''*'' c)
           in (None, log_ids c, w\<lparr>fw_db := snd (delete_confirmation (fc_id c) (fw_db w))\<rparr>)))"

definition channel_break_bridge ::
    "string \<Rightarrow> attempt list \<Rightarrow> flow_channel \<Rightarrow> flow_world \<Rightarrow> flow_error option \<times> flow_channel \<times> flow_world" where
  "channel_break_bridge cause ats c w =
     (let c = chat_id c;
          (err, c, w) = flow_call ats (BreakBridgeRequest (fc_id c) cause) c w in
      case err of
        Some e \<Rightarrow> if error_id e = errno_session_not_found then (None, c, w) else (Some e, c, w)
      | None \<Rightarrow> (None, log_ids c, w))"

section \<open>Transfer\<close>

definition xfer_entry :: "int \<Rightarrow> string \<Rightarrow> string \<Rightarrow> int \<Rightarrow> string" where
  "xfer_entry date from kind to = itoa date @ '':'' @ from @ '':'' @ kind @ '':'' @ itoa to"

definition xfer_push :: "string \<Rightarrow> string \<Rightarrow> string" where
  "xfer_push old entry = (if old \<noteq> [] then join_with '';'' [old, entry] else entry)"

definition xfer_message :: "app_channel \<Rightarrow> int \<Rightarrow> vars \<Rightarrow> flow_message" where
  "xfer_message originator date vs =
     \<lparr>fm_id = 0, fm_type = ''xfer'', fm_text = ''transfer'', fm_postback = None,
      fm_vars = Some vs, fm_from = Some (ac_user originator), fm_created = date\<rparr>"

definition transfer_to_user ::
    "app_channel \<Rightarrow> int \<Rightarrow> int \<Rightarrow> attempt list \<Rightarrow> attempt list \<Rightarrow> flow_channel \<Rightarrow> flow_world \<Rightarrow>
     flow_error option \<times> flow_channel \<times> flow_world" where
  "transfer_to_user originator user_to_id date stop start c w =
     (case channel_close ''transfer'' stop c w of
        (Some e, c, w) \<Rightarrow> (Some e, c, w)
      | (None, c, w) \<Rightarrow>
          (let chat_from = ch_id (ac_chat originator);
               xfer_next = xfer_entry date chat_from ''user'' user_to_id;
               xfer_this = vget (env_of (fc_vars c)) ''xfer'';
               xfer_full = xfer_push xfer_this xfer_next;
               c = c\<lparr>fc_vars := Some (vset ''xfer'' xfer_full (env_of (fc_vars c)))\<rparr>
           in case start_user (xfer_message originator date [(''xfer'', xfer_next)]) user_to_id start c w of
                (Some e, c, w) \<Rightarrow>
                  (Some e, c\<lparr>fc_vars := Some (vset ''xfer'' xfer_this (env_of (fc_vars c)))\<rparr>, w)
              | (None, c, w) \<Rightarrow>
                  (None, log_ids c,
                   w\<lparr>fw_db := snd (setvar (fc_id c) (Some (env_of (fc_vars c))) (fw_db w))\<rparr>)))"

text \<open>The variables of the channel when the new schema is started, those that are put
  back when this fails, and those that are saved when it succeeds.\<close>

definition xfer_vars :: "string \<Rightarrow> int \<Rightarrow> vars \<Rightarrow> vars" where
  "xfer_vars xfer_next schema_to_id vs =
     (let xfer_full = xfer_push (vget vs ''xfer'') xfer_next;
          vs = vset ''xfer'' xfer_full vs;
          schema_this = vget vs ''flow'';
          vs = (if schema_this \<noteq> [] \<and> vget vs ''old_flow'' = []
                then vset ''old_flow'' schema_this vs else vs)
      in vset ''flow'' (itoa schema_to_id) vs)"

definition xfer_restore :: "vars \<Rightarrow> vars \<Rightarrow> vars" where
  "xfer_restore before vs = vset ''flow'' (vget before ''flow'') (vset ''xfer'' (vget before ''xfer'') vs)"

definition xfer_save :: "string \<Rightarrow> int \<Rightarrow> vars \<Rightarrow> vars \<Rightarrow> vars" where
  "xfer_save xfer_next schema_to_id before vs =
     (let save = vset ''xfer'' (xfer_push (vget before ''xfer'') xfer_next)
            (vset ''flow'' (itoa schema_to_id) vs)
      in if vget before ''flow'' \<noteq> [] then vset ''old_flow'' (vget before ''flow'') save else save)"

definition transfer_to_schema ::
    "app_channel \<Rightarrow> int \<Rightarrow> int \<Rightarrow> attempt list \<Rightarrow> attempt list \<Rightarrow> flow_channel \<Rightarrow> flow_world \<Rightarrow>
     flow_error option \<times> flow_channel \<times> flow_world" where
  "transfer_to_schema originator schema_to_id date stop start c w =
     (case channel_close ''transfer'' stop c w of
        (Some e, c, w) \<Rightarrow> (Some e, c, w)
      | (None, c, w) \<Rightarrow>
          (let chat_from = ch_id (ac_chat originator);
               c = (if domain_id c = 0
                    then c\<lparr>fc_chat := (fc_chat c)\<lparr>sc_domain_id := ac_domain_id originator\<rparr>\<rparr>
                    else c);
               xfer_next = xfer_entry date chat_from ''schema'' schema_to_id;
               before = env_of (fc_vars c);
               c = c\<lparr>fc_vars := Some (xfer_vars xfer_next schema_to_id before)\<rparr>
           in case channel_start
                     (xfer_message originator date [(''flow'', itoa schema_to_id), (''xfer'', xfer_next)])
                     start c w of
                (Some e, m, c, w) \<Rightarrow>
                  (Some e, c\<lparr>fc_vars := Some (xfer_restore before (env_of (fc_vars c)))\<rparr>, w)
              | (None, m, c, w) \<Rightarrow>
                  (None, log_ids c,
                   w\<lparr>fw_db := snd (setvar (fc_id c)
                      (Some (xfer_save xfer_next schema_to_id before (env_of (fc_vars c)))) (fw_db w))\<rparr>)))"

section \<open>What a call leaves alone\<close>

named_theorems flow_frames

lemma chat_id_id [simp]: "fc_id c \<noteq> [] \<Longrightarrow> chat_id c = c"
  by (simp add: chat_id_def)

lemma ids_simps [simp, flow_frames]:
  "fc_host (chat_id c) = fc_host c" "fc_host (user_id c) = fc_host c"
  "fc_pending (chat_id c) = fc_pending c" "fc_pending (user_id c) = fc_pending c"
  "fc_vars (chat_id c) = fc_vars c" "fc_vars (user_id c) = fc_vars c"
  "fc_chat (chat_id c) = fc_chat c" "fc_chat (user_id c) = fc_chat c"
  "fc_id (user_id c) = fc_id c"
  "fc_profile_id (chat_id c) = fc_profile_id c"
  "fc_host (log_ids c) = fc_host c" "fc_pending (log_ids c) = fc_pending c"
  "fc_vars (log_ids c) = fc_vars c" "fc_chat (log_ids c) = fc_chat c"
  "fc_id c \<noteq> [] \<Longrightarrow> fc_id (chat_id c) = fc_id c"
  "fc_id c \<noteq> [] \<Longrightarrow> fc_id (log_ids c) = fc_id c"
  by (simp_all add: chat_id_def user_id_def log_ids_def)

text \<open>The channel keeps its token, its variables, its chat and, once it has one, its id;
  the repository its tokens and variables.\<close>

definition chan_frame :: "flow_channel \<Rightarrow> flow_channel \<Rightarrow> bool" where
  "chan_frame c c' \<longleftrightarrow>
     fc_pending c' = fc_pending c \<and> fc_vars c' = fc_vars c \<and> fc_chat c' = fc_chat c \<and>
     (fc_id c \<noteq> [] \<longrightarrow> fc_id c' = fc_id c)"

definition db_frame :: "cache_db \<Rightarrow> cache_db \<Rightarrow> bool" where
  "db_frame db db' \<longleftrightarrow>
     db_confirms db' = db_confirms db \<and> db_conv_props db' = db_conv_props db \<and>
     db_chan_props db' = db_chan_props db \<and> (db_faults db = [] \<longrightarrow> db_faults db' = [])"

lemma chan_frame_refl [simp]: "chan_frame c c"
  and chan_frame_trans: "chan_frame c c' \<Longrightarrow> chan_frame c' c'' \<Longrightarrow> chan_frame c c''"
  and db_frame_refl [simp]: "db_frame db db"
  and db_frame_trans: "db_frame db db' \<Longrightarrow> db_frame db' db'' \<Longrightarrow> db_frame db db''"
  by (auto simp: chan_frame_def db_frame_def)

lemma ids_frame [simp, flow_frames]:
  "chan_frame c (chat_id c)" "chan_frame c (user_id c)" "chan_frame c (log_ids c)"
  "chan_frame c (c\<lparr>fc_host := h\<rparr>)"
  by (auto simp: chan_frame_def log_ids_def chat_id_def)

lemma chan_frame_host [simp]: "chan_frame c (c'\<lparr>fc_host := h\<rparr>) = chan_frame c c'"
  by (auto simp: chan_frame_def)

lemma next_fault_frame: "next_fault db = (f, db') \<Longrightarrow> db_frame db db' \<and> db_nodes db' = db_nodes db \<and>
    (db_faults db = [] \<longrightarrow> \<not> f)"
  by (auto simp: next_fault_def db_frame_def split: list.splits)

lemma read_node_frame: "read_conversation_node k db = (r, db') \<Longrightarrow> db_frame db db'"
  by (auto simp: read_conversation_node_def Let_def split: prod.splits if_splits option.splits
      dest!: next_fault_frame)

lemma write_node_frame: "write_conversation_node k v db = (r, db') \<Longrightarrow> db_frame db db'"
  by (auto simp: write_conversation_node_def Let_def db_frame_def split: prod.splits if_splits option.splits
      dest!: next_fault_frame)

lemma recover_host_frame:
  "recover_host c db = (c', db') \<Longrightarrow> chan_frame c c' \<and> db_frame db db'"
  unfolding recover_host_def Let_def
  by (auto split: if_splits prod.splits sum.splits dest!: read_node_frame)

lemma select_host_frame [flow_frames]:
  "select_host hosts fb c db = (r, c', db') \<Longrightarrow> chan_frame c c' \<and> db_frame db db'"
  unfolding select_host_def Let_def
  by (auto split: if_splits prod.splits dest!: recover_host_frame intro: chan_frame_trans)

lemma call_wrap_frame [flow_frames]:
  "call_wrap addr reply c db = (r, c', db') \<Longrightarrow> chan_frame c c' \<and> db_frame db db'"
  unfolding call_wrap_def Let_def
  by (auto split: if_splits prod.splits option.splits dest!: write_node_frame
      intro: chan_frame_trans [OF ids_frame(1)] chan_frame_trans [OF _ ids_frame(3)])

lemma flow_call_frame [flow_frames]:
  "flow_call ats req c w = (r, c', w') \<Longrightarrow> chan_frame c c' \<and> db_frame (fw_db w) (fw_db w')"
proof (induction ats arbitrary: c w)
  case (Cons a ats)
  obtain s c1 db1 where sel: "select_host (at_hosts a) (at_fallback a) c (fw_db w) = (s, c1, db1)"
    using prod_cases3 by blast
  note f1 = select_host_frame [OF sel]
  show ?case
  proof (cases s)
    case None
    then show ?thesis
      using Cons.prems sel f1
      by (auto simp: Let_def split: if_splits dest!: Cons.IH intro: chan_frame_trans db_frame_trans)
  next
    case (Some addr)
    obtain e c2 db2 where cw: "call_wrap addr (at_reply a) c1 db1 = (e, c2, db2)"
      using prod_cases3 by blast
    note f2 = call_wrap_frame [OF cw]
    have f: "chan_frame c c2" "db_frame (fw_db w) db2"
      using f1 f2 by (auto intro: chan_frame_trans db_frame_trans)
    show ?thesis
      using Cons.prems sel cw f Some
      by (auto simp: Let_def split: if_splits option.splits dest!: Cons.IH intro: chan_frame_trans db_frame_trans)
  qed
qed simp

lemma flow_call_keeps:
  assumes "flow_call ats req c w = (r, c', w')"
  shows "fc_pending c' = fc_pending c" "fc_vars c' = fc_vars c" "fc_chat c' = fc_chat c"
    "fc_id c \<noteq> [] \<Longrightarrow> fc_id c' = fc_id c"
    "token_view (fw_db w') = token_view (fw_db w)"
    "db_conv_props (fw_db w') = db_conv_props (fw_db w)"
    "db_chan_props (fw_db w') = db_chan_props (fw_db w)"
    "db_faults (fw_db w) = [] \<Longrightarrow> db_faults (fw_db w') = []"
  using flow_call_frame [OF assms] by (auto simp: chan_frame_def db_frame_def token_view_def fun_eq_iff)

lemma flow_call_sent:
  "flow_call ats req c w = (r, c', w') \<Longrightarrow>
    \<exists>addrs. fw_sent w' = fw_sent w @ map (\<lambda>a. (a, req)) addrs \<and> length addrs \<le> length ats \<and>
      (r = None \<longrightarrow> addrs \<noteq> [] \<and> fc_host c' = last addrs)"
proof (induction ats arbitrary: c w)
  case (Cons a ats)
  obtain s c1 db1 where sel: "select_host (at_hosts a) (at_fallback a) c (fw_db w) = (s, c1, db1)"
    using prod_cases3 by blast
  show ?case
  proof (cases s)
    case None
    then have "(r, c', w') = (Some NoneAvailable, c1, w\<lparr>fw_db := db1\<rparr>) \<or>
        flow_call ats req c1 (w\<lparr>fw_db := db1\<rparr>) = (r, c', w') \<and> ats \<noteq> []"
      using Cons.prems sel by (auto simp: Let_def split: if_splits)
    then show ?thesis
    proof
      assume "flow_call ats req c1 (w\<lparr>fw_db := db1\<rparr>) = (r, c', w') \<and> ats \<noteq> []"
      then obtain addrs where "fw_sent w' = fw_sent w @ map (\<lambda>a. (a, req)) addrs" "length addrs \<le> length ats"
        "r = None \<longrightarrow> addrs \<noteq> [] \<and> fc_host c' = last addrs" using Cons.IH by fastforce
      then show ?thesis by (intro exI [of _ addrs]) auto
    qed auto
  next
    case (Some addr)
    obtain e c2 db2 where cw: "call_wrap addr (at_reply a) c1 db1 = (e, c2, db2)"
      using prod_cases3 by blast
    have host: "e = None \<Longrightarrow> fc_host c2 = addr"
      using cw by (auto simp: call_wrap_def Let_def split: option.splits if_splits prod.splits)
    let ?w = "\<lparr>fw_db = db2, fw_sent = fw_sent w @ [(addr, req)]\<rparr>"
    have "(r, c', w') = (e, c2, ?w) \<or> e \<noteq> None \<and> ats \<noteq> [] \<and> flow_call ats req c2 ?w = (r, c', w')"
      using Cons.prems sel cw Some by (auto simp: Let_def split: if_splits option.splits)
    then show ?thesis
    proof
      assume "(r, c', w') = (e, c2, ?w)"
      then show ?thesis using host by (auto intro!: exI [of _ "[addr]"])
    next
      assume rec: "e \<noteq> None \<and> ats \<noteq> [] \<and> flow_call ats req c2 ?w = (r, c', w')"
      then obtain addrs where "fw_sent w' = fw_sent ?w @ map (\<lambda>a. (a, req)) addrs" "length addrs \<le> length ats"
        "r = None \<longrightarrow> addrs \<noteq> [] \<and> fc_host c' = last addrs" using Cons.IH by blast
      then show ?thesis by (intro exI [of _ "addr # addrs"]) auto
    qed
  qed
qed force

end
