(* ===== verification/Flow_Delivery.thy ===== *)
theory Flow_Delivery
  imports "Flow_Channel"
begin

text \<open>
  What Channel.Send does with the token of the waiting schema: it is spent by one
  delivery, a lost session is started again with the message, and a token that
  the service does not know stays in the repository.
\<close>

definition no_faults :: "flow_world \<Rightarrow> bool" where
  "no_faults w \<longleftrightarrow> db_faults (fw_db w) = []"

text \<open>The token that the next message will be sent with.\<close>

definition current_token :: "flow_channel \<Rightarrow> flow_world \<Rightarrow> string" where
  "current_token c w =
     (if fc_pending c \<noteq> [] then fc_pending c else token_view (fw_db w) (fc_id c))"

lemma no_fault_ops:
  assumes "no_faults w"
  shows "read_confirmation k (fw_db w) = (Ok (token_view (fw_db w) k), fw_db w)"
    and "delete_confirmation k (fw_db w) = (None, (fw_db w)\<lparr>db_confirms := vdel k (db_confirms (fw_db w))\<rparr>)"
    and "delete_conversation_node k (fw_db w) = (None, (fw_db w)\<lparr>db_nodes := vdel k (db_nodes (fw_db w))\<rparr>)"
  using assms
  by (simp_all add: no_faults_def cache_ops next_fault_def token_view_def vget_def split: option.splits)

lemma send_token_no_faults: "no_faults w \<Longrightarrow> send_token c w = (Ok (current_token c w), w)"
  by (simp add: send_token_def get_pending_def current_token_def no_fault_ops Let_def)

lemma send_idle: "no_faults w \<Longrightarrow> current_token c w = [] \<Longrightarrow> channel_send m ats re c w = (None, m, c, w)"
  by (simp add: channel_send_def send_token_no_faults)

lemma fc_pending_del:
  "fc_pending c = [] \<or> fc_pending c = t \<Longrightarrow> fc_pending (del_pending t c) = []"
  by (auto simp: del_pending_def set_pending_def)

lemma del_pending_keeps [simp]:
  "fc_id (del_pending t c) = fc_id c" "fc_vars (del_pending t c) = fc_vars c"
  "fc_chat (del_pending t c) = fc_chat c" "fc_host (del_pending t c) = fc_host c"
  by (auto simp: del_pending_def set_pending_def)

text \<open>When the service takes a message, the token it was sent with is gone from
  memory and repository, the tokens of other chats are not touched, and the next
  message is not sent anywhere until the schema waits again.\<close>

theorem send_spends_token:
  assumes "no_faults w" "fc_id c \<noteq> []" "current_token c w \<noteq> []"
    and "flow_call ats (send_request (current_token c w) m c) c w = (None, c1, w1)"
    and "channel_send m ats re c w = (err, m', c', w')"
  shows "err = None \<and> fw_sent w' = fw_sent w1 \<and> current_token c' w' = [] \<and>
    (\<forall>k. k \<noteq> fc_id c \<longrightarrow> token_view (fw_db w') k = token_view (fw_db w) k) \<and>
    channel_send m2 ats2 re2 c' w' = (None, m2, c', w')"
proof -
  note k = flow_call_keeps [OF assms(4)]
  have id: "fc_id c1 = fc_id c" and nf: "no_faults w1"
    using k(4) [OF assms(2)] k(8) assms(1) by (auto simp: no_faults_def)
  have eq: "err = None" "c' = del_pending (current_token c w) c1"
    "w' = w1\<lparr>fw_db := (fw_db w1)\<lparr>db_confirms := vdel (fc_id c) (db_confirms (fw_db w1))\<rparr>\<rparr>"
    using assms(2,3,5) id no_fault_ops(2) [OF nf]
    by (auto simp: channel_send_def send_token_no_faults [OF assms(1)] assms(4) send_finish_def Let_def)
  have "fc_pending c1 = [] \<or> fc_pending c1 = current_token c w"
    by (simp add: k(1) current_token_def)
  then have p: "fc_pending c' = []" by (simp add: eq fc_pending_del)
  have nf': "no_faults w'" using nf by (simp add: eq no_faults_def)
  have t: "current_token c' w' = []" by (simp add: current_token_def p) (simp add: eq token_view_def id)
  have other: "token_view (fw_db w') j = token_view (fw_db w) j" if "j \<noteq> fc_id c" for j
    using that fun_cong [OF k(5), of j] by (simp add: eq token_view_def)
  show ?thesis using eq t other send_idle [OF nf' t] by simp
qed

definition sample_world :: flow_world where
  "sample_world =
     \<lparr>fw_db = \<lparr>db_nodes = [], db_confirms = [(''c1'', ''t1''), (''c2'', ''t2'')], db_conv_props = [],
        db_chan_props = [], db_faults = []\<rparr>, fw_sent = []\<rparr>"

definition sample_channel :: flow_channel where
  "sample_channel = new_channel\<lparr>fc_id := ''c1''\<rparr>"

definition sample_message :: flow_message where
  "sample_message = \<lparr>fm_id = 1, fm_type = ''text'', fm_text = ''hi'', fm_postback = None,
     fm_vars = None, fm_from = None, fm_created = 0\<rparr>"

definition answer :: "flow_error option \<Rightarrow> attempt" where
  "answer e = \<lparr>at_hosts = [''h1''], at_fallback = Some ''h1'', at_reply = e\<rparr>"

lemmas sample_defs = sample_world_def sample_channel_def sample_message_def answer_def
  new_channel_def zero_channel_def no_faults_def current_token_def token_view_def

lemmas flow_defs = flow_call.simps select_host_def recover_host_def call_wrap_def log_ids_def
  user_id_def chat_id_def cache_ops next_fault_def Let_def send_request_def flow_message_of_def

theorem send_spends_token_witness:
  "\<exists>err m' c' w'. channel_send sample_message [answer None] [] sample_channel sample_world = (err, m', c', w') \<and>
     err = None \<and> current_token c' w' = [] \<and> token_view (fw_db w') ''c2'' = ''t2'' \<and>
     fw_sent w' = [(''h1'', ConfirmationRequest ''c1'' ''t1'' sample_message)]"
proof -
  have t: "current_token sample_channel sample_world = ''t1''"
    by (simp add: sample_defs vget_def)
  obtain c1 w1 where call: "flow_call [answer None] (send_request ''t1'' sample_message sample_channel)
      sample_channel sample_world = (None, c1, w1)"
    and sent: "fw_sent w1 = [(''h1'', ConfirmationRequest ''c1'' ''t1'' sample_message)]"
    by (simp add: sample_defs flow_defs null_string_def)
  obtain err m' c' w' where send: "channel_send sample_message [answer None] [] sample_channel sample_world
      = (err, m', c', w')" using prod_cases4 by blast
  have "token_view (fw_db sample_world) ''c2'' = ''t2''" by (simp add: sample_defs vget_def)
  then show ?thesis
    using send_spends_token [OF _ _ _ _ send, unfolded t, OF _ _ _ call] send sent
    by (simp add: sample_defs)
qed

section \<open>A token that the service does not know\<close>

text \<open>Messages sent one after the other, each with its own attempts.\<close>

fun send_all ::
    "(flow_message \<times> attempt list \<times> attempt list) list \<Rightarrow> flow_channel \<Rightarrow> flow_world \<Rightarrow>
     flow_error option list \<times> flow_channel \<times> flow_world" where
  "send_all [] c w = ([], c, w)"
| "send_all ((m, ats, re) # ms) c w =
     (let (e, m', c, w) = channel_send m ats re c w;
          (es, c, w) = send_all ms c w
      in (e # es, c, w))"

definition unknown_token :: "attempt list \<Rightarrow> bool" where
  "unknown_token ats \<longleftrightarrow> ats \<noteq> [] \<and>
     (\<forall>a \<in> set ats. at_fallback a \<noteq> None \<and> at_reply a = Some (RpcError err_confirmation_not_found))"

lemma flow_call_unknown:
  "unknown_token ats \<Longrightarrow> fst (flow_call ats req c w) = Some (RpcError err_confirmation_not_found)"
proof (induction ats arbitrary: c w)
  case (Cons a ats)
  then obtain h where a: "at_fallback a = Some h" "at_reply a = Some (RpcError err_confirmation_not_found)"
    by (auto simp: unknown_token_def)
  obtain s c1 db1 where sel: "select_host (at_hosts a) (at_fallback a) c (fw_db w) = (s, c1, db1)"
    using prod_cases3 by blast
  then obtain addr where s: "s = Some addr"
    by (auto simp: select_host_def a Let_def split: prod.splits if_splits)
  obtain e c2 db2 where cw: "call_wrap addr (at_reply a) c1 db1 = (e, c2, db2)"
    using prod_cases3 by blast
  then have "e = Some (RpcError err_confirmation_not_found)" by (auto simp: call_wrap_def a Let_def)
  moreover have "ats \<noteq> [] \<Longrightarrow> unknown_token ats" using Cons.prems by (auto simp: unknown_token_def)
  ultimately show ?case using Cons.IH by (simp add: sel s cw Let_def)
qed (simp add: unknown_token_def)

text \<open>The state in which the repository holds a token and memory none or the same one.\<close>

definition stuck_with :: "string \<Rightarrow> flow_channel \<Rightarrow> flow_world \<Rightarrow> bool" where
  "stuck_with t c w \<longleftrightarrow> no_faults w \<and> fc_id c \<noteq> [] \<and> t \<noteq> [] \<and>
     token_view (fw_db w) (fc_id c) = t \<and> (fc_pending c = [] \<or> fc_pending c = t)"

lemma send_stuck:
  assumes "stuck_with t c w" "unknown_token ats" "channel_send m ats re c w = (e, m', c', w')"
  shows "e = Some (RpcError err_confirmation_not_found)" "stuck_with t c' w'" "fc_id c' = fc_id c"
    "\<exists>addrs. fw_sent w' = fw_sent w @ map (\<lambda>a. (a, send_request t m c)) addrs"
proof -
  have tok: "current_token c w = t" and nf: "no_faults w" and id: "fc_id c \<noteq> []" and t: "t \<noteq> []"
    using assms(1) by (auto simp: stuck_with_def current_token_def)
  obtain r c1 w1 where call: "flow_call ats (send_request t m c) c w = (r, c1, w1)"
    using prod_cases3 by blast
  then have r: "r = Some (RpcError err_confirmation_not_found)"
    using flow_call_unknown [OF assms(2), of "send_request t m c" c w] by simp
  have ne: "err_confirmation_not_found \<noteq> errno_session_not_found"
    by (simp add: err_confirmation_not_found_def errno_session_not_found_def)
  have eq: "e = r" "c' = del_pending t c1" "w' = w1"
    using assms(3) t ne by (auto simp: channel_send_def send_token_no_faults [OF nf] tok call r send_finish_def)
  note k = flow_call_keeps [OF call]
  show "e = Some (RpcError err_confirmation_not_found)" "fc_id c' = fc_id c"
    using k(4) [OF id] by (simp_all add: eq r)
  have "fc_pending c' = []" using k(1) assms(1) by (simp add: eq fc_pending_del stuck_with_def)
  then show "stuck_with t c' w'"
    using k(4) [OF id] k(8) fun_cong [OF k(5), of "fc_id c"] assms(1)
    by (auto simp: stuck_with_def eq no_faults_def)
  show "\<exists>addrs. fw_sent w' = fw_sent w @ map (\<lambda>a. (a, send_request t m c)) addrs"
    using flow_call_sent [OF call] by (auto simp: eq)
qed

text \<open>C31: once the repository holds a token that the service does not know, every later
  message of the chat fails with it: Send forgets the token in memory only, so
  that the next message reads the same token from the repository again.\<close>

theorem unknown_token_is_never_dropped:
  assumes "stuck_with t c w" "\<forall>(m, ats, re) \<in> set ms. unknown_token ats"
    and "send_all ms c w = (es, c', w')"
  shows "es = replicate (length ms) (Some (RpcError err_confirmation_not_found)) \<and> stuck_with t c' w' \<and>
    (\<exists>reqs. fw_sent w' = fw_sent w @ reqs \<and>
      (\<forall>(addr, req) \<in> set reqs. \<exists>m. req = ConfirmationRequest (fc_id c) t m))"
  using assms
proof (induction ms arbitrary: c w es c' w')
  case (Cons x ms)
  obtain m ats re where x: "x = (m, ats, re)" using prod_cases3 by blast
  obtain e m1 c1 w1 where s: "channel_send m ats re c w = (e, m1, c1, w1)" using prod_cases4 by blast
  obtain es1 c2 w2 where a: "send_all ms c1 w1 = (es1, c2, w2)" using prod_cases3 by blast
  have ok: "unknown_token ats" "\<forall>(m, ats, re) \<in> set ms. unknown_token ats"
    using Cons.prems(2) by (auto simp: x)
  note st = send_stuck [OF Cons.prems(1) ok(1) s]
  note IH = Cons.IH [OF st(2) ok(2) a]
  obtain addrs where "fw_sent w1 = fw_sent w @ map (\<lambda>a. (a, send_request t m c)) addrs" using st(4) by blast
  moreover obtain reqs where "fw_sent w2 = fw_sent w1 @ reqs"
    "\<forall>(addr, req) \<in> set reqs. \<exists>m. req = ConfirmationRequest (fc_id c) t m"
    using IH st(3) by auto
  ultimately have "\<exists>reqs. fw_sent w2 = fw_sent w @ reqs \<and>
      (\<forall>(addr, req) \<in> set reqs. \<exists>m. req = ConfirmationRequest (fc_id c) t m)"
    by (intro exI [of _ "map (\<lambda>a. (a, send_request t m c)) addrs @ reqs"])
      (auto simp: send_request_def)
  then show ?case using Cons.prems(3) IH st(1) by (simp add: x s a Let_def)
qed simp

theorem unknown_token_is_never_dropped_witness:
  "fst (send_all (replicate 3 (sample_message, [answer (Some (RpcError err_confirmation_not_found))], []))
     sample_channel sample_world) = replicate 3 (Some (RpcError err_confirmation_not_found))"
proof -
  let ?ms = "replicate 3 (sample_message, [answer (Some (RpcError err_confirmation_not_found))], [])"
  obtain es c' w' where s: "send_all ?ms sample_channel sample_world = (es, c', w')"
    using prod_cases3 by blast
  have st: "stuck_with ''t1'' sample_channel sample_world"
    by (simp add: stuck_with_def sample_defs vget_def)
  have u: "\<forall>(m, ats, re) \<in> set ?ms. unknown_token ats"
    by (simp add: unknown_token_def answer_def)
  show ?thesis using unknown_token_is_never_dropped [OF st u s] by (simp add: s)
qed

section \<open>A session that the service lost\<close>

lemma start_vars_keeps:
  "start_vars c m = (schema, c', m') \<Longrightarrow>
     fc_id c' = fc_id c \<and> fc_chat c' = fc_chat c \<and> fc_host c' = fc_host c \<and>
     fc_pending c' = fc_pending c \<and> fc_profile_id c' = fc_profile_id c"
  by (auto simp: start_vars_def Let_def split: option.splits if_splits)

lemma start_vars_cong:
  "fc_vars c = fc_vars d \<Longrightarrow>
     fst (start_vars c m) = fst (start_vars d m) \<and>
     snd (snd (start_vars c m)) = snd (snd (start_vars d m)) \<and>
     fc_vars (fst (snd (start_vars c m))) = fc_vars (fst (snd (start_vars d m)))"
  by (auto simp: start_vars_def Let_def split: option.splits)

lemma channel_start_effect:
  assumes "channel_start m ats c w = (err, m', c', w')" "fc_id c \<noteq> []"
  shows "fc_pending c' = []" "fc_id c' = fc_id c" "fc_chat c' = fc_chat c"
    and "m' = snd (snd (start_vars c m))" "fc_vars c' = fc_vars (fst (snd (start_vars c m)))"
    and "token_view (fw_db w') = token_view (fw_db w)"
    and "db_conv_props (fw_db w') = db_conv_props (fw_db w)"
    and "db_chan_props (fw_db w') = db_chan_props (fw_db w)"
    and "no_faults w \<Longrightarrow> no_faults w'"
    and "\<exists>addrs prof. fw_sent w' = fw_sent w @ map (\<lambda>a. (a, StartRequest (fc_id c) (domain_id c) prof
      (to_int32 (fst (start_vars c m))) 0 (flow_message_of m') (fc_vars c'))) addrs \<and>
      (err = None \<longrightarrow> addrs \<noteq> [])"
proof -
  obtain schema d m1 where sv: "start_vars c m = (schema, d, m1)" using prod_cases3 by blast
  note d = start_vars_keeps [OF sv]
  define u where "u = user_id d"
  have cd: "chat_id d = d" using d assms(2) by simp
  have u: "fc_id u = fc_id c" "fc_vars u = fc_vars d" "fc_chat u = fc_chat c"
    using d by (simp_all add: u_def)
  let ?req = "StartRequest (fc_id c) (domain_id c) (fc_profile_id u) (to_int32 schema) 0
      (flow_message_of m1) (fc_vars d)"
  let ?c = "(snd (set_pending [] ''*'' u))\<lparr>fc_host := ''lookup''\<rparr>"
  have call: "flow_call ats ?req ?c w = (err, c', w')" and m': "m' = m1"
    using assms(1)
    by (auto simp: channel_start_def sv cd u_def [symmetric] u d Let_def domain_id_def split: prod.splits)
  note k = flow_call_keeps [OF call]
  show "fc_pending c' = []" "fc_id c' = fc_id c" "fc_chat c' = fc_chat c"
    using k(1,3,4) assms(2) by (simp_all add: set_pending_def u)
  show v: "m' = snd (snd (start_vars c m))" "fc_vars c' = fc_vars (fst (snd (start_vars c m)))"
    using k(2) by (simp_all add: sv m' set_pending_def u)
  show "token_view (fw_db w') = token_view (fw_db w)"
    "db_conv_props (fw_db w') = db_conv_props (fw_db w)"
    "db_chan_props (fw_db w') = db_chan_props (fw_db w)"
    "no_faults w \<Longrightarrow> no_faults w'"
    using k(5-8) by (simp_all add: no_faults_def)
  obtain addrs where "fw_sent w' = fw_sent w @ map (\<lambda>a. (a, ?req)) addrs" "err = None \<longrightarrow> addrs \<noteq> []"
    using flow_call_sent [OF call] by auto
  then show "\<exists>addrs prof. fw_sent w' = fw_sent w @ map (\<lambda>a. (a, StartRequest (fc_id c) (domain_id c) prof
      (to_int32 (fst (start_vars c m))) 0 (flow_message_of m') (fc_vars c'))) addrs \<and>
      (err = None \<longrightarrow> addrs \<noteq> [])"
    using v(2) by (intro exI [of _ addrs] exI [of _ "fc_profile_id u"]) (simp add: sv m')
qed

text \<open>C32: when the service has lost the session of the chat, Send starts the schema
  again with the same message (the schema of the flow variable, the variables of
  the channel less this one), and no token is left.  If this start fails too,
  the messages after it are accepted and sent nowhere.\<close>

theorem lost_session_restarts:
  assumes "no_faults w" "fc_id c \<noteq> []" "current_token c w \<noteq> []"
    and "flow_call ats (send_request (current_token c w) m c) c w = (Some e, c1, w1)"
    and "error_id e = errno_session_not_found"
    and "channel_send m ats re c w = (err, m', c', w')"
  shows "current_token c' w' = [] \<and> m' = snd (snd (start_vars c m)) \<and>
    (\<exists>addrs prof. fw_sent w' = fw_sent w1 @ map (\<lambda>a. (a, StartRequest (fc_id c) (domain_id c) prof
      (to_int32 (fst (start_vars c m))) 0 (flow_message_of m') (fc_vars c'))) addrs \<and>
      (err = None \<longrightarrow> addrs \<noteq> [])) \<and>
    channel_send m2 ats2 re2 c' w' = (None, m2, c', w')"
proof -
  note k = flow_call_keeps [OF assms(4)]
  have nf: "no_faults w1" using k(8) assms(1) by (simp add: no_faults_def)
  define d where "d = log_ids (c1\<lparr>fc_host := [], fc_pending := []\<rparr>)"
  let ?db = "(fw_db w1)\<lparr>db_confirms := vdel (fc_id c) (db_confirms (fw_db w1)),
      db_nodes := vdel (fc_id c) (db_nodes (fw_db w1))\<rparr>"
  have id: "fc_id c1 = fc_id c" using k(4) [OF assms(2)] .
  have nfd: "no_faults (w1\<lparr>fw_db := (fw_db w1)\<lparr>db_confirms := x\<rparr>\<rparr>)" for x
    using nf by (simp add: no_faults_def)
  have start: "channel_start m re d (w1\<lparr>fw_db := ?db\<rparr>) = (err, m', c', w')"
    using assms(3,5,6) no_fault_ops(2) [OF nf, of "fc_id c"]
      no_fault_ops(3) [OF nfd, of "fc_id c" "vdel (fc_id c) (db_confirms (fw_db w1))"]
    by (simp add: channel_send_def send_token_no_faults [OF assms(1)] assms(4) send_finish_def
        set_pending_def id d_def Let_def)
  have d: "fc_id d = fc_id c" "fc_chat d = fc_chat c" "fc_vars d = fc_vars c"
    using k(2,3) id assms(2) by (simp_all add: d_def)
  note st = channel_start_effect [OF start]
  have sv: "fst (start_vars d m) = fst (start_vars c m)"
    "snd (snd (start_vars d m)) = snd (snd (start_vars c m))"
    using start_vars_cong [OF d(3), of m] by simp_all
  have tok: "current_token c' w' = []" and nf': "no_faults w'"
    using st(1,2,6,9) d(1) assms(2) nf by (simp_all add: current_token_def token_view_def no_faults_def)
  show ?thesis
    using st(4) st(10) sv d assms(2) tok send_idle [OF nf' tok] by (simp add: domain_id_def)
qed

theorem lost_session_restarts_witness:
  "\<exists>err m' c' w'. channel_send sample_message [answer (Some (RpcError errno_session_not_found))] [answer None]
       sample_channel sample_world = (err, m', c', w') \<and> current_token c' w' = []"
proof -
  have t: "current_token sample_channel sample_world = ''t1''"
    by (simp add: sample_defs vget_def)
  obtain c1 w1 where call: "flow_call [answer (Some (RpcError errno_session_not_found))]
      (send_request ''t1'' sample_message sample_channel) sample_channel sample_world =
      (Some (RpcError errno_session_not_found), c1, w1)"
    by (simp add: sample_defs flow_defs null_string_def)
  obtain err m' c' w' where send: "channel_send sample_message [answer (Some (RpcError errno_session_not_found))]
      [answer None] sample_channel sample_world = (err, m', c', w')" using prod_cases4 by blast
  show ?thesis
    using lost_session_restarts [OF _ _ _ _ _ send, unfolded t, OF _ _ _ call] send
    by (simp add: sample_defs)
qed

end
