(* ===== verification/Flow_Sticky.thy ===== *)
theory Flow_Sticky
  imports Flow_Delivery
begin

text \<open>
  Which host a chat is served by: the selector and the call wrapper of
  internal/flow/channel.go keep the channel on the host that answered last, in
  memory and in the repository.
\<close>

text \<open>The host in memory, if there is one, is the one in the repository.\<close>

definition host_synced :: "flow_channel \<Rightarrow> cache_db \<Rightarrow> bool" where
  "host_synced c db \<longleftrightarrow>
     fc_host c = [] \<or> fc_host c = ''lookup'' \<or> node_view db (fc_id c) = fc_host c"

lemma read_node_no_faults:
  "db_faults db = [] \<Longrightarrow> read_conversation_node k db = (Ok (node_view db k), db)"
  by (simp add: read_conversation_node_def next_fault_def node_view_def vget_def split: option.splits)

lemma write_node_no_faults:
  "db_faults db = [] \<Longrightarrow>
     write_conversation_node k v db = (None, db\<lparr>db_nodes := vset k v (db_nodes db)\<rparr>)"
  by (simp add: write_conversation_node_def next_fault_def)

lemma node_view_write [simp]:
  "node_view (db\<lparr>db_nodes := vset k v (db_nodes db)\<rparr>) j = (if j = k then v else node_view db j)"
  by (simp add: node_view_def)

text \<open>Without faults the selector only reads.\<close>

lemma recover_host_no_faults:
  assumes "db_faults db = []" "fc_id c \<noteq> []"
  shows "recover_host c db =
    (c\<lparr>fc_host := (if fc_host c = ''lookup'' then []
        else if fc_host c = [] then node_view db (fc_id c) else fc_host c)\<rparr>, db)"
proof -
  have "c\<lparr>fc_host := []\<rparr> = c" if "fc_host c = []" using that by simp
  then show ?thesis using assms by (auto simp: recover_host_def read_node_no_faults Let_def)
qed

lemma select_host_no_faults:
  assumes "db_faults db = []" "fc_id c \<noteq> []"
    and "select_host hosts fb c db = (s, c1, db1)"
  shows "db1 = db" "fc_id c1 = fc_id c" "host_synced c db \<Longrightarrow> host_synced c1 db"
    and "s = (if fc_host c1 \<noteq> [] \<and> fc_host c1 \<in> set hosts then Some (fc_host c1) else fb)"
    and "fc_host c1 = (if fc_host c = ''lookup'' then []
        else if fc_host c = [] then node_view db (fc_id c) else fc_host c)"
  using assms(2,3)
  by (auto simp: select_host_def recover_host_no_faults [OF assms(1,2)] host_synced_def Let_def
      split: if_splits)

lemma call_wrap_no_faults:
  assumes "db_faults db = []" "fc_id c \<noteq> []" "host_synced c db"
    and "call_wrap addr reply c db = (r, c1, db1)"
  shows "r = reply" "db_faults db1 = []" "fc_id c1 = fc_id c" "host_synced c1 db1"
    and "r = None \<Longrightarrow> fc_host c1 = addr"
  using assms
  by (auto simp: call_wrap_def write_node_no_faults host_synced_def Let_def
      split: option.splits if_splits)

lemma flow_call_synced:
  "flow_call ats req c w = (r, c', w') \<Longrightarrow> no_faults w \<Longrightarrow> fc_id c \<noteq> [] \<Longrightarrow>
    host_synced c (fw_db w) \<Longrightarrow> host_synced c' (fw_db w') \<and> no_faults w' \<and> fc_id c' = fc_id c"
proof (induction ats arbitrary: c w)
  case (Cons a ats)
  obtain s c1 db1 where sel: "select_host (at_hosts a) (at_fallback a) c (fw_db w) = (s, c1, db1)"
    using prod_cases3 by blast
  have nf: "db_faults (fw_db w) = []" using Cons.prems(2) by (simp add: no_faults_def)
  note s1 = select_host_no_faults [OF nf Cons.prems(3) sel]
  have id1: "fc_id c1 \<noteq> []" and sy: "host_synced c1 (fw_db w)" using s1 Cons.prems by auto
  show ?case
  proof (cases s)
    case None
    then have "(r, c', w') = (Some NoneAvailable, c1, w) \<or> flow_call ats req c1 w = (r, c', w')"
      using Cons.prems(1) sel s1(1) by (auto simp: Let_def split: if_splits)
    then show ?thesis using Cons.IH [of c1 w] Cons.prems(2) id1 sy s1(2) by auto
  next
    case (Some addr)
    obtain e c2 db2 where cw: "call_wrap addr (at_reply a) c1 (fw_db w) = (e, c2, db2)"
      using prod_cases3 by blast
    note s2 = call_wrap_no_faults [OF nf id1 sy cw]
    let ?w = "\<lparr>fw_db = db2, fw_sent = fw_sent w @ [(addr, req)]\<rparr>"
    have "(r, c', w') = (e, c2, ?w) \<or> flow_call ats req c2 ?w = (r, c', w')"
      using Cons.prems(1) sel cw Some s1(1) by (auto simp: Let_def split: if_splits option.splits)
    moreover have "no_faults ?w" using s2(2) by (simp add: no_faults_def)
    ultimately show ?thesis using Cons.IH [of c2 ?w] id1 s1(2) s2(3,4) by auto
  qed
qed simp

text \<open>The host that answered a call is the host of the channel afterwards, and the
  next call that finds it on the list goes to it, also when the channel was
  rebuilt from the repository in between.\<close>

theorem call_sticks_to_host:
  assumes "no_faults w" "fc_id c \<noteq> []" "host_synced c (fw_db w)"
    and "flow_call ats req c w = (None, c', w')"
  shows "\<exists>addrs addr. fw_sent w' = fw_sent w @ map (\<lambda>a. (a, req)) (addrs @ [addr]) \<and>
    fc_host c' = addr \<and> host_synced c' (fw_db w') \<and>
    (addr \<notin> {[], ''lookup''} \<longrightarrow> (\<forall>hosts fb. addr \<in> set hosts \<longrightarrow>
       fst (select_host hosts fb c' (fw_db w')) = Some addr \<and>
       fst (select_host hosts fb (c'\<lparr>fc_host := []\<rparr>) (fw_db w')) = Some addr))"
proof -
  obtain as where as: "fw_sent w' = fw_sent w @ map (\<lambda>a. (a, req)) as" "as \<noteq> []" "fc_host c' = last as"
    using flow_call_sent [OF assms(4)] by auto
  have sy: "host_synced c' (fw_db w')" "db_faults (fw_db w') = []" "fc_id c' \<noteq> []"
    using flow_call_synced [OF assms(4,1,2,3)] assms(2) by (auto simp: no_faults_def)
  let ?h = "fc_host c'"
  have pick: "fst (select_host hosts fb d (fw_db w')) = Some ?h"
    if h: "?h \<notin> {[], ''lookup''}" "?h \<in> set hosts" "fc_id d = fc_id c'" "fc_host d = ?h \<or> fc_host d = []"
    for hosts fb d
  proof -
    obtain s c1 db1 where sel: "select_host hosts fb d (fw_db w') = (s, c1, db1)"
      using prod_cases3 by blast
    have "fc_id d \<noteq> []" using h(3) sy(3) by simp
    note s1 = select_host_no_faults [OF sy(2) this sel]
    have "node_view (fw_db w') (fc_id d) = ?h" using sy(1) h(1,3) by (auto simp: host_synced_def)
    then have "fc_host c1 = ?h" using s1(5) h by auto
    then show ?thesis using s1(4) h by (simp add: sel)
  qed
  have "as = butlast as @ [?h]" using as(2,3) by simp
  then have "fw_sent w' = fw_sent w @ map (\<lambda>a. (a, req)) (butlast as @ [?h])" using as(1) by metis
  then show ?thesis
    using sy(1) pick by (intro exI [of _ "butlast as"] exI [of _ ?h]) auto
qed

theorem call_sticks_to_host_witness:
  "\<exists>c' w'. flow_call [answer None] (BreakRequest ''c1'' ''x'') sample_channel sample_world = (None, c', w') \<and>
     fst (select_host [''h0'', ''h1''] (Some ''h0'') (c'\<lparr>fc_host := []\<rparr>) (fw_db w')) = Some ''h1''"
proof -
  have e: "fst (flow_call [answer None] (BreakRequest ''c1'' ''x'') sample_channel sample_world) = None"
    "fw_sent (snd (snd (flow_call [answer None] (BreakRequest ''c1'' ''x'') sample_channel sample_world)))
      = [(''h1'', BreakRequest ''c1'' ''x'')]"
    by code_simp+
  then obtain c' w' where call: "flow_call [answer None] (BreakRequest ''c1'' ''x'') sample_channel sample_world
      = (None, c', w')" by (metis prod.collapse)
  obtain addrs addr where a: "fw_sent w' = fw_sent sample_world @ map (\<lambda>a. (a, BreakRequest ''c1'' ''x'')) (addrs @ [addr])"
    "addr \<notin> {[], ''lookup''} \<longrightarrow> (\<forall>hosts fb. addr \<in> set hosts \<longrightarrow>
       fst (select_host hosts fb (c'\<lparr>fc_host := []\<rparr>) (fw_db w')) = Some addr)"
    using call_sticks_to_host [OF _ _ _ call] by (auto simp: sample_defs host_synced_def)
  have "addr = ''h1''" using a(1) e(2) call by (simp add: sample_world_def)
  then show ?thesis using a(2) call by simp
qed

end
