(* ===== verification/Flow_Transfer.thy ===== *)
theory Flow_Transfer
  imports Flow_Delivery
begin

text \<open>
  The transfer of a chat to another schema or to a user: TransferToSchema and
  TransferToUser of internal/flow/channel.go, and what they leave in the
  variables of the channel and of the repository.
\<close>

text \<open>A call that does not end for want of a host has been sent.\<close>

lemma flow_call_answered:
  "flow_call ats req c w = (r, c', w') \<Longrightarrow> r \<noteq> Some NoneAvailable \<Longrightarrow> length (fw_sent w) < length (fw_sent w')"
proof (induction ats arbitrary: c w)
  case (Cons a ats)
  obtain s c1 db1 where sel: "select_host (at_hosts a) (at_fallback a) c (fw_db w) = (s, c1, db1)"
    using prod_cases3 by blast
  show ?case
  proof (cases s)
    case None
    then have "flow_call ats req c1 (w\<lparr>fw_db := db1\<rparr>) = (r, c', w')"
      using Cons.prems sel by (auto simp: Let_def split: if_splits)
    then show ?thesis using Cons.IH Cons.prems(2) by fastforce
  next
    case (Some addr)
    obtain e c2 db2 where cw: "call_wrap addr (at_reply a) c1 db1 = (e, c2, db2)"
      using prod_cases3 by blast
    let ?w = "\<lparr>fw_db = db2, fw_sent = fw_sent w @ [(addr, req)]\<rparr>"
    have "w' = ?w \<or> flow_call ats req c2 ?w = (r, c', w')"
      using Cons.prems sel cw Some by (auto simp: Let_def split: if_splits option.splits)
    then show ?thesis using Cons.IH [of c2 ?w] Cons.prems(2) by auto
  qed
qed simp

lemma channel_close_effect:
  assumes "channel_close cause ats c w = (r, c', w')" "fc_id c \<noteq> []"
  shows "fc_id c' = fc_id c" "fc_chat c' = fc_chat c" "fc_vars c' = fc_vars c"
    and "r = None \<Longrightarrow> fc_pending c' = []"
    and "no_faults w \<Longrightarrow> no_faults w'"
    and "no_faults w \<Longrightarrow> r = None \<Longrightarrow> token_view (fw_db w') (fc_id c) = []"
    and "db_conv_props (fw_db w') = db_conv_props (fw_db w)"
    and "db_chan_props (fw_db w') = db_chan_props (fw_db w)"
    and "\<exists>addrs. fw_sent w' = fw_sent w @ map (\<lambda>a. (a, BreakRequest (fc_id c) cause)) addrs \<and> (r = None \<longrightarrow> addrs \<noteq> [])"
proof -
  obtain e c1 w1 where call: "flow_call ats (BreakRequest (fc_id c) cause) c w = (e, c1, w1)"
    using prod_cases3 by blast
  note k = flow_call_keeps [OF call]
  have id: "fc_id c1 = fc_id c" using k(4) [OF assms(2)] .
  let ?db = "snd (delete_confirmation (fc_id c) (fw_db w1))"
  have "r = e \<and> r \<noteq> None \<and> c' = c1 \<and> w' = w1 \<or>
      r = None \<and> c' = log_ids (del_pending ''*'' c1) \<and> w' = w1\<lparr>fw_db := ?db\<rparr>"
    using assms id by (auto simp: channel_close_def call Let_def split: option.splits if_splits)
  then consider "r = e" "r \<noteq> None" "c' = c1" "w' = w1"
    | "r = None" "c' = log_ids (del_pending ''*'' c1)" "w' = w1\<lparr>fw_db := ?db\<rparr>" by blast
  note cs = this
  have db: "db_conv_props ?db = db_conv_props (fw_db w)" "db_chan_props ?db = db_chan_props (fw_db w)"
    using k(6,7) by (auto simp: delete_confirmation_def next_fault_def Let_def split: list.splits)
  show "fc_id c' = fc_id c" "fc_chat c' = fc_chat c" "fc_vars c' = fc_vars c"
    using cs k(2,3) id assms(2) by (cases; simp)+
  show "r = None \<Longrightarrow> fc_pending c' = []"
    using cs by cases (simp_all add: del_pending_def set_pending_def)
  show "no_faults w \<Longrightarrow> no_faults w'"
    using cs k(8) no_fault_ops(2) [of w1 "fc_id c"] by cases (simp_all add: no_faults_def)
  show "token_view (fw_db w') (fc_id c) = []" if "no_faults w" "r = None"
    using cs that k(8) no_fault_ops(2) [of w1 "fc_id c"]
    by cases (simp_all add: no_faults_def token_view_def)
  show "db_conv_props (fw_db w') = db_conv_props (fw_db w)" "db_chan_props (fw_db w') = db_chan_props (fw_db w)"
    using cs k(6,7) db by (cases; simp)+
  have sent: "fw_sent w' = fw_sent w1" using cs by cases simp_all
  have "e \<noteq> Some NoneAvailable" if "r = None"
    using assms(1) that by (auto simp: channel_close_def call Let_def errno_session_not_found_def split: option.splits if_splits)
  then have "length (fw_sent w) < length (fw_sent w')" if "r = None" using flow_call_answered [OF call] that sent by simp
  moreover obtain addrs where "fw_sent w' = fw_sent w @ map (\<lambda>a. (a, BreakRequest (fc_id c) cause)) addrs"
    using flow_call_sent [OF call] sent by auto
  ultimately show "\<exists>addrs. fw_sent w' = fw_sent w @ map (\<lambda>a. (a, BreakRequest (fc_id c) cause)) addrs \<and> (r = None \<longrightarrow> addrs \<noteq> [])"
    by (intro exI [of _ addrs]) auto
qed






lemma xfer_vars_get:
  "vget (xfer_vars entry schema vs) ''flow'' = itoa schema"
  "vget (xfer_vars entry schema vs) ''xfer'' = xfer_push (vget vs ''xfer'') entry"
  "vget (xfer_vars entry schema vs) ''old_flow'' =
     (if vget vs ''old_flow'' = [] then vget vs ''flow'' else vget vs ''old_flow'')"
  by (simp_all add: xfer_vars_def Let_def)

lemma xfer_vars_neq_Nil [simp]: "xfer_vars entry schema vs \<noteq> []"
  by (simp add: xfer_vars_def Let_def)



lemma xfer_save_neq_Nil [simp]: "xfer_save entry schema before vs \<noteq> []"
  by (simp add: xfer_save_def Let_def)

text \<open>TransferToSchema once the old schema was stopped.\<close>

lemma transfer_to_schema_cases:
  assumes "transfer_to_schema originator schema date stop start c w = (r, c', w')"
    and "fc_id c \<noteq> []" "is_int64 schema"
  defines "entry \<equiv> xfer_entry date (ch_id (ac_chat originator)) ''schema'' schema"
  defines "msg \<equiv> xfer_message originator date [(''flow'', itoa schema), (''xfer'', entry)]"
    and "vs \<equiv> env_of (fc_vars c)"
  obtains (stop_failed) e where "channel_close ''transfer'' stop c w = (Some e, c', w')" "r = Some e"
  | (started) c1 w1 c2 m c3 w2 where
      "channel_close ''transfer'' stop c w = (None, c1, w1)"
      "fc_id c2 = fc_id c" "fst (start_vars c2 msg) = schema"
      "channel_start msg start c2 w1 = (r, m, c3, w2)"
      "fc_vars c3 = Some (vdel ''flow'' (xfer_vars entry schema vs))" "fc_id c3 = fc_id c"
      "(c', w') = (case r of
         Some e \<Rightarrow> (c3\<lparr>fc_vars := Some (xfer_restore vs (vdel ''flow'' (xfer_vars entry schema vs)))\<rparr>, w2)
       | None \<Rightarrow> (log_ids c3, w2\<lparr>fw_db := snd (setvar (fc_id c)
           (Some (xfer_save entry schema vs (vdel ''flow'' (xfer_vars entry schema vs)))) (fw_db w2))\<rparr>))"
proof -
  obtain s c1 w1 where close: "channel_close ''transfer'' stop c w = (s, c1, w1)"
    using prod_cases3 by blast
  show thesis
  proof (cases s)
    case (Some e)
    then show thesis using assms(1) close stop_failed by (auto simp: transfer_to_schema_def)
  next
    case None
    note ce = channel_close_effect [OF close assms(2)]
    define d where "d = (if domain_id c1 = 0
       then c1\<lparr>fc_chat := (fc_chat c1)\<lparr>sc_domain_id := ac_domain_id originator\<rparr>\<rparr> else c1)"
    have d: "fc_id d = fc_id c" "fc_vars d = fc_vars c" using ce(1,3) by (simp_all add: d_def)
    define c2 where "c2 = d\<lparr>fc_vars := Some (xfer_vars entry schema vs)\<rparr>"
    have c2: "fc_id c2 = fc_id c" "fc_vars c2 = Some (xfer_vars entry schema vs)"
      by (simp_all add: c2_def d)
    have sv: "fst (start_vars c2 msg) = schema"
      "fc_vars (fst (snd (start_vars c2 msg))) = Some (vdel ''flow'' (xfer_vars entry schema vs))"
      using parse_int_itoa [OF assms(3)] by (simp_all add: start_vars_def c2(2) xfer_vars_get Let_def)
    obtain r2 m c3 w2 where start: "channel_start msg start c2 w1 = (r2, m, c3, w2)"
      using prod_cases4 by blast
    have "fc_id c2 \<noteq> []" using c2 assms(2) by simp
    note st = channel_start_effect [OF start this]
    have c3: "fc_vars c3 = Some (vdel ''flow'' (xfer_vars entry schema vs))" "fc_id c3 = fc_id c"
      using st(2,5) c2 sv(2) by simp_all
    have eq: "transfer_to_schema originator schema date stop start c w =
      (case channel_start msg start c2 w1 of
         (Some e, m, c, w) \<Rightarrow> (Some e, c\<lparr>fc_vars := Some (xfer_restore vs (env_of (fc_vars c)))\<rparr>, w)
       | (None, m, c, w) \<Rightarrow> (None, log_ids c, w\<lparr>fw_db := snd (setvar (fc_id c)
           (Some (xfer_save entry schema vs (env_of (fc_vars c)))) (fw_db w))\<rparr>))"
      unfolding transfer_to_schema_def close None c2_def d_def msg_def entry_def vs_def
      by (simp only: Let_def prod.case option.case d(2) [unfolded d_def])
    have "transfer_to_schema originator schema date stop start c w =
      (r2, case r2 of
         Some e \<Rightarrow> (c3\<lparr>fc_vars := Some (xfer_restore vs (vdel ''flow'' (xfer_vars entry schema vs)))\<rparr>, w2)
       | None \<Rightarrow> (log_ids c3, w2\<lparr>fw_db := snd (setvar (fc_id c)
           (Some (xfer_save entry schema vs (vdel ''flow'' (xfer_vars entry schema vs)))) (fw_db w2))\<rparr>))"
      unfolding eq start by (simp add: c3 split: option.split)
    then show thesis
      using started [OF close [unfolded None] c2(1) sv(1) _ c3] start assms(1) by auto
  qed
qed



text \<open>C35: when the new schema cannot be started, the transfer history and the schema of
  the channel are put back, but the record of the previous schema is not: it
  then names the schema that was never left.\<close>

theorem transfer_to_schema_undone:
  assumes "transfer_to_schema originator schema date stop start c w = (Some e, c', w')"
    and "channel_close ''transfer'' stop c w = (None, c1, w1)"
    and "fc_id c \<noteq> []" "is_int64 schema" "env_of (fc_vars c) = vs"
  shows "vget (env_of (fc_vars c')) ''flow'' = vget vs ''flow'' \<and>
    vget (env_of (fc_vars c')) ''xfer'' = vget vs ''xfer'' \<and>
    vget (env_of (fc_vars c')) ''old_flow'' =
      (if vget vs ''old_flow'' = [] then vget vs ''flow'' else vget vs ''old_flow'') \<and>
    (k \<notin> {''flow'', ''xfer'', ''old_flow''} \<longrightarrow> vget (env_of (fc_vars c')) k = vget vs k)"
proof (cases rule: transfer_to_schema_cases [OF assms(1,3,4), unfolded assms(5), consumes 0, case_names stop_failed started])
  case (started c1 w1 c2 m c3 w2)
  then show ?thesis by (auto simp: xfer_restore_def xfer_vars_get) (simp add: xfer_vars_def Let_def)
qed (use assms(2) in simp)

definition sample_flow_world :: flow_world where
  "sample_flow_world = sample_world\<lparr>fw_db := (fw_db sample_world)\<lparr>db_conv_props := [(''c1'', None)]\<rparr>\<rparr>"

definition sample_flow_channel :: flow_channel where
  "sample_flow_channel = sample_channel\<lparr>fc_vars := Some [(''flow'', ''5'')]\<rparr>"


theorem transfer_to_schema_undone_witness:
  "\<exists>e c' w'. transfer_to_schema zero_app_channel 7 0 [answer None] [answer (Some (RpcError ''down''))]
       sample_flow_channel sample_flow_world = (Some e, c', w') \<and>
     vget (env_of (fc_vars c')) ''flow'' = ''5'' \<and> vget (env_of (fc_vars c')) ''old_flow'' = ''5''"
proof -
  have "fst (transfer_to_schema zero_app_channel 7 0 [answer None] [answer (Some (RpcError ''down''))]
       sample_flow_channel sample_flow_world) = Some (RpcError ''down'')"
    "fst (channel_close ''transfer'' [answer None] sample_flow_channel sample_flow_world) = None"
    by code_simp+
  then obtain c' w' c1 w1 where t: "transfer_to_schema zero_app_channel 7 0 [answer None]
      [answer (Some (RpcError ''down''))] sample_flow_channel sample_flow_world = (Some (RpcError ''down''), c', w')"
    and c: "channel_close ''transfer'' [answer None] sample_flow_channel sample_flow_world = (None, c1, w1)"
    by (metis prod.collapse)
  show ?thesis
    using transfer_to_schema_undone [OF t c] t
    by (simp add: sample_flow_channel_def sample_defs is_int64_def vget_def)
qed

end
