(* ===== verification/Flow_Agent.thy ===== *)
theory Flow_Agent
  imports Flow_Sticky Flow_Transfer
begin

text \<open>
  internal/flow/client.go: the agent that keeps the channels of the chats in
  memory.  GetChannel returns a pointer: the channel in the map when there is one
  with the id of its key, else a new one, which enters the map only when the key
  is free.  An operation on a linked channel changes the map, an operation on a
  channel that is not linked does not.
\<close>

definition decline_invitation_cause :: string where "decline_invitation_cause = ''DECLINE_INVITATION''"
definition leave_conversation_cause :: string where "leave_conversation_cause = ''LEAVE_CONVERSATION''"
definition transfer_cause :: string where "transfer_cause = ''TRANSFER''"
definition timeout_cause :: string where "timeout_cause = ''TIMEOUT''"

record flow_agent =
  ag_channels :: "(string \<times> flow_channel) list"
  ag_world :: flow_world

definition new_agent :: "flow_world \<Rightarrow> flow_agent" where
  "new_agent w = \<lparr>ag_channels = [], ag_world = w\<rparr>"

text \<open>GetChannel holds the lock of the agent twice: to read the map, and to enter the
  new channel when it had found none.  The result is the channel, whether it is
  the one of the map, and the agent.\<close>

definition fresh_channel :: "string \<Rightarrow> flow_channel" where
  [simp]: "fresh_channel conv = new_channel\<lparr>fc_id := conv\<rparr>"

definition channel_lookup :: "string \<Rightarrow> flow_agent \<Rightarrow> flow_channel option" where
  [simp]: "channel_lookup conv ag = map_of (ag_channels ag) conv"

definition channel_enter :: "string \<Rightarrow> flow_agent \<Rightarrow> flow_agent" where
  [simp]: "channel_enter conv ag =
     ag\<lparr>ag_channels := AList.update conv (fresh_channel conv) (ag_channels ag)\<rparr>"

definition get_channel :: "string \<Rightarrow> flow_agent \<Rightarrow> flow_channel \<times> bool \<times> flow_agent" where
  "get_channel conv ag =
     (case channel_lookup conv ag of
        Some c \<Rightarrow> (if fc_id c = conv then (c, True, ag) else (fresh_channel conv, False, ag))
      | None \<Rightarrow> (fresh_channel conv, True, channel_enter conv ag))"

definition del_channel :: "string \<Rightarrow> flow_agent \<Rightarrow> bool \<times> flow_agent" where
  "del_channel conv ag =
     (if map_of (ag_channels ag) conv \<noteq> None
      then (True, ag\<lparr>ag_channels := AList.delete conv (ag_channels ag)\<rparr>)
      else (False, ag))"

text \<open>The state after an operation on the channel that GetChannel gave for a key.\<close>

definition put_back :: "string \<Rightarrow> bool \<Rightarrow> flow_channel \<Rightarrow> flow_world \<Rightarrow> flow_agent \<Rightarrow> flow_agent" where
  "put_back conv linked c w ag =
     (if linked then ag\<lparr>ag_channels := AList.update conv c (ag_channels ag), ag_world := w\<rparr>
      else ag\<lparr>ag_world := w\<rparr>)"

definition wait_message :: "string \<Rightarrow> string \<Rightarrow> flow_agent \<Rightarrow> flow_error option \<times> flow_agent" where
  "wait_message conv confirmation ag =
     (let (c, linked, ag) = get_channel conv ag;
          c = snd (set_pending confirmation ''*'' c);
          w = ag_world ag;
          (err, db) = write_confirmation conv confirmation (fw_db w)
      in (map_option StoreError err, put_back conv linked c (w\<lparr>fw_db := db\<rparr>) ag))"

text \<open>The end that SendMessage and SendMessageV1 share: a channel whose Send failed is
  dropped from the map.\<close>

definition agent_send ::
    "string \<Rightarrow> bool \<Rightarrow> flow_message \<Rightarrow> attempt list \<Rightarrow> attempt list \<Rightarrow> flow_channel \<Rightarrow> flow_agent \<Rightarrow>
     flow_error option \<times> flow_message \<times> flow_agent" where
  "agent_send conv linked m ats restart c ag =
     (let (err, m, c, w) = channel_send m ats restart c (ag_world ag);
          ag = put_back conv linked c w ag
      in case err of
           Some e \<Rightarrow> (Some e, m, snd (del_channel (fc_id c) ag))
         | None \<Rightarrow> (None, m, ag))"

definition send_message ::
    "store_channel \<Rightarrow> flow_message \<Rightarrow> attempt list \<Rightarrow> attempt list \<Rightarrow> flow_agent \<Rightarrow>
     flow_error option \<times> flow_message \<times> flow_agent" where
  "send_message sender m ats restart ag =
     (let conv = sc_conversation_id sender;
          (c, linked, ag) = get_channel conv ag;
          c = (if domain_id c = 0
               then c\<lparr>fc_chat := (fc_chat c)\<lparr>sc_domain_id := sc_domain_id sender\<rparr>\<rparr> else c)
      in if fc_profile_id c = 0 then
           (case parse_int (ns_string (sc_connection sender)) of
              (_, Some e) \<Rightarrow> (Some (NumError e), m, put_back conv linked c (ag_world ag) ag)
            | (pid, None) \<Rightarrow> agent_send conv linked m ats restart (c\<lparr>fc_profile_id := pid\<rparr>) ag)
         else agent_send conv linked m ats restart c ag)"

definition send_message_v1 ::
    "app_channel \<Rightarrow> flow_message \<Rightarrow> attempt list \<Rightarrow> attempt list \<Rightarrow> flow_agent \<Rightarrow>
     flow_error option \<times> flow_message \<times> flow_agent" where
  "send_message_v1 target m ats restart ag =
     (let conv = ch_id (ac_chat target);
          (c, linked, ag) = get_channel conv ag;
          c = (if domain_id c = 0
               then c\<lparr>fc_chat := (fc_chat c)\<lparr>sc_domain_id := ac_domain_id target\<rparr>\<rparr> else c);
          c = (if fc_profile_id c = 0
               then (let (oid, host, err) = contact_object_node (ch_contact (ac_chat target))
                     in c\<lparr>fc_profile_id := oid, fc_host := host\<rparr>)
               else c)
      in agent_send conv linked m ats restart c ag)"

text \<open>Init starts a new channel and puts it under the id of the chat.  The channel
  shares the variables of the sender, from which the start removes the schema;
  the sender is returned with them.\<close>

definition agent_init ::
    "store_channel \<Rightarrow> flow_message \<Rightarrow> attempt list \<Rightarrow> flow_agent \<Rightarrow>
     flow_error option \<times> store_channel \<times> flow_message \<times> flow_agent" where
  "agent_init sender m ats ag =
     (case parse_int (ns_string (sc_connection sender)) of
        (_, Some e) \<Rightarrow> (Some (NumError e), sender, m, ag)
      | (pid, None) \<Rightarrow>
          (let c = new_channel\<lparr>fc_id := sc_conversation_id sender, fc_chat := sender,
                     fc_profile_id := pid, fc_vars := sc_vars sender\<rparr>;
               (err, m, c, w) = channel_start m ats c (ag_world ag);
               sender = sender\<lparr>sc_vars := fc_vars c\<rparr>
           in case err of
                Some e \<Rightarrow> (Some e, sender, m, ag\<lparr>ag_world := w\<rparr>)
              | None \<Rightarrow>
                  (None, sender, m,
                   ag\<lparr>ag_channels := AList.update (fc_id c) c (ag_channels ag), ag_world := w\<rparr>)))"

definition close_conversation ::
    "string \<Rightarrow> string \<Rightarrow> attempt list \<Rightarrow> flow_agent \<Rightarrow> flow_error option \<times> flow_agent" where
  "close_conversation conv cause ats ag =
     (let (c, linked, ag) = get_channel conv ag;
          (err, c, w) = channel_close cause ats c (ag_world ag);
          ag = put_back conv linked c w ag
      in case err of
           Some e \<Rightarrow> (Some e, ag)
         | None \<Rightarrow> (None, snd (del_channel (fc_id c) ag)))"

definition break_bridge ::
    "string \<Rightarrow> string \<Rightarrow> attempt list \<Rightarrow> flow_agent \<Rightarrow> flow_error option \<times> flow_agent" where
  "break_bridge conv cause ats ag =
     (let (c, linked, ag) = get_channel conv ag;
          (err, c, w) = channel_break_bridge cause ats c (ag_world ag)
      in (err, put_back conv linked c w ag))"

definition merge_set_vars :: "vars option \<Rightarrow> flow_channel \<Rightarrow> flow_channel" where
  "merge_set_vars upd c =
     (case upd of
        None \<Rightarrow> c
      | Some vs \<Rightarrow>
          (let vs = vdel [] vs in
           if vs = [] then c
           else c\<lparr>fc_vars := Some (foldl (\<lambda>d (k, v). vset k v d) (env_of (fc_vars c)) vs)\<rparr>))"

definition transfer_to ::
    "string \<Rightarrow> app_channel \<Rightarrow> int \<Rightarrow> int \<Rightarrow> vars option \<Rightarrow> int \<Rightarrow> attempt list \<Rightarrow> attempt list \<Rightarrow> flow_agent \<Rightarrow>
     flow_error option \<times> flow_agent" where
  "transfer_to conv originator schema_to_id user_to_id upd date stop start ag =
     (let (c, linked, ag) = get_channel conv ag;
          c = merge_set_vars upd c;
          (err, c, w) =
            (if schema_to_id \<noteq> 0 then
               transfer_to_schema originator schema_to_id date stop start c (ag_world ag)
             else if user_to_id \<noteq> 0 then
               transfer_to_user originator user_to_id date stop start c (ag_world ag)
             else (Some (BadRequest ''chat.transfer.target.required''), c, ag_world ag))
      in (err, put_back conv linked c w ag))"

section \<open>The map and its channels\<close>

text \<open>Every channel of the map carries the id of its key, so that GetChannel never makes
  a second channel beside the one in the map.\<close>

definition agent_ok :: "flow_agent \<Rightarrow> bool" where
  "agent_ok ag \<longleftrightarrow>
     distinct (map fst (ag_channels ag)) \<and>
     (\<forall>k c. map_of (ag_channels ag) k = Some c \<longrightarrow> fc_id c = k)"

lemma new_agent_ok: "agent_ok (new_agent w)"
  by (simp add: agent_ok_def new_agent_def)

lemma agent_ok_world [simp]: "agent_ok (ag\<lparr>ag_world := w\<rparr>) = agent_ok ag"
  by (simp add: agent_ok_def)

lemma agent_ok_update:
  "agent_ok ag \<Longrightarrow> fc_id c = k \<Longrightarrow> agent_ok (ag\<lparr>ag_channels := AList.update k c (ag_channels ag)\<rparr>)"
  by (simp add: agent_ok_def update_conv' distinct_update)

lemma agent_ok_delete:
  "agent_ok ag \<Longrightarrow> agent_ok (ag\<lparr>ag_channels := AList.delete k (ag_channels ag)\<rparr>)"
  by (auto simp: agent_ok_def delete_conv' distinct_delete)

lemma del_channel_ok: "agent_ok ag \<Longrightarrow> agent_ok (snd (del_channel k ag))"
  by (simp add: del_channel_def agent_ok_delete)

lemma get_channel_ok:
  assumes "agent_ok ag" "get_channel k ag = (c, linked, ag')"
  shows "agent_ok ag'" "fc_id c = k" "linked" "ag_world ag' = ag_world ag"
    and "map_of (ag_channels ag') k = Some c"
    and "map_of (ag_channels ag) k = None \<Longrightarrow> c = new_channel\<lparr>fc_id := k\<rparr>"
    and "\<And>j. j \<noteq> k \<Longrightarrow> map_of (ag_channels ag') j = map_of (ag_channels ag) j"
proof -
  let ?new = "new_channel\<lparr>fc_id := k\<rparr>"
  have new: "agent_ok (ag\<lparr>ag_channels := AList.update k ?new (ag_channels ag)\<rparr>)"
    using assms(1) by (rule agent_ok_update) simp
  consider d where "map_of (ag_channels ag) k = Some d" "fc_id d = k" "c = d" "linked" "ag' = ag"
    | "map_of (ag_channels ag) k = None" "c = ?new" "linked"
      "ag' = ag\<lparr>ag_channels := AList.update k ?new (ag_channels ag)\<rparr>"
  proof (cases "map_of (ag_channels ag) k")
    case None
    then show thesis using assms(2) that(2) by (auto simp: get_channel_def Let_def)
  next
    case (Some d)
    then have d: "fc_id d = k" using assms(1) by (simp add: agent_ok_def)
    have "c = d" "linked" "ag' = ag"
      using assms(2) by (simp_all add: get_channel_def Some d)
    then show thesis by (rule that(1) [OF Some d])
  qed
  note cs = this
  show "agent_ok ag'" using cs by cases (simp_all only: assms(1) new)
  show "fc_id c = k" "linked" "ag_world ag' = ag_world ag" "map_of (ag_channels ag') k = Some c"
    using cs by (cases; simp add: update_conv')+
  show "map_of (ag_channels ag) k = None \<Longrightarrow> c = new_channel\<lparr>fc_id := k\<rparr>"
    using cs by cases simp_all
  show "j \<noteq> k \<Longrightarrow> map_of (ag_channels ag') j = map_of (ag_channels ag) j" for j
    using cs by cases (simp_all add: update_conv')
qed

lemma put_back_ok: "agent_ok ag \<Longrightarrow> fc_id c = k \<Longrightarrow> agent_ok (put_back k linked c w ag)"
  using agent_ok_update [of ag c k]
  by (auto simp: put_back_def agent_ok_def)

section \<open>An operation touches one chat\<close>

text \<open>The rows of all other chats are as before.\<close>

definition db_other :: "string \<Rightarrow> cache_db \<Rightarrow> cache_db \<Rightarrow> bool" where
  "db_other k db db' \<longleftrightarrow>
     (\<forall>j. j \<noteq> k \<longrightarrow> token_view db' j = token_view db j \<and> node_view db' j = node_view db j)"

lemma db_other_refl [simp]: "db_other k db db"
  and db_other_trans: "db_other k db db' \<Longrightarrow> db_other k db' db'' \<Longrightarrow> db_other k db db''"
  by (auto simp: db_other_def)

lemma db_other_ops:
  "db_other k db (snd (read_conversation_node j db))"
  "db_other k db (snd (read_confirmation j db))"
  "db_other k db (snd (write_conversation_node k v db))"
  "db_other k db (snd (delete_conversation_node k db))"
  "db_other k db (snd (write_confirmation k v db))"
  "db_other k db (snd (delete_confirmation k db))"
  using repo.node.write_other repo.node.delete_other repo.token.write_other repo.token.delete_other
  by (auto simp: db_other_def repo.token_frame_write repo.token_frame_read repo.token_frame_delete
      repo.node_frame_write repo.node_frame_read repo.node_frame_delete repo.node.read_snd repo.token.read_snd)

lemma setvar_views:
  "token_view (snd (setvar j vs db)) = token_view db" "node_view (snd (setvar j vs db)) = node_view db"
proof -
  have "db_confirms (snd (setvar j vs db)) = db_confirms db \<and> db_nodes (snd (setvar j vs db)) = db_nodes db"
    unfolding setvar_def bind_channel_def next_fault_def Let_def
    by (auto split: option.split list.split if_split prod.split sum.split)
  then show "token_view (snd (setvar j vs db)) = token_view db" "node_view (snd (setvar j vs db)) = node_view db"
    by (auto simp: token_view_def node_view_def)
qed

lemma db_other_setvar [simp]: "db_other k db (snd (setvar j vs db')) = db_other k db db'"
  by (simp add: db_other_def setvar_views)

lemma recover_host_local:
  "fc_id c = k \<Longrightarrow> k \<noteq> [] \<Longrightarrow> recover_host c db = (c', db') \<Longrightarrow> fc_id c' = k \<and> db_other k db db'"
  using db_other_ops(1) [of k db k]
  by (auto simp: recover_host_def Let_def split: if_splits prod.splits sum.splits)

lemma select_host_local:
  "fc_id c = k \<Longrightarrow> k \<noteq> [] \<Longrightarrow> select_host hosts fb c db = (s, c', db') \<Longrightarrow> fc_id c' = k \<and> db_other k db db'"
  using recover_host_local [of c k db]
  by (cases "recover_host c db") (auto simp: select_host_def Let_def split: if_splits)

lemma call_wrap_local:
  "fc_id c = k \<Longrightarrow> k \<noteq> [] \<Longrightarrow> call_wrap addr r c db = (s, c', db') \<Longrightarrow> fc_id c' = k \<and> db_other k db db'"
  using db_other_ops(3) [of k db addr]
  by (auto simp: call_wrap_def Let_def split: if_splits option.splits prod.splits)

lemma flow_call_local:
  "flow_call ats req c w = (r, c', w') \<Longrightarrow> fc_id c = k \<Longrightarrow> k \<noteq> [] \<Longrightarrow>
     fc_id c' = k \<and> db_other k (fw_db w) (fw_db w')"
proof (induction ats arbitrary: c w)
  case (Cons a ats)
  obtain s c1 db1 where sel: "select_host (at_hosts a) (at_fallback a) c (fw_db w) = (s, c1, db1)"
    using prod_cases3 by blast
  note f1 = select_host_local [OF Cons.prems(2,3) sel]
  show ?case
  proof (cases s)
    case None
    then show ?thesis
      using Cons.prems(1,3) sel f1
      by (auto simp: Let_def split: if_splits dest!: Cons.IH intro: db_other_trans)
  next
    case (Some addr)
    obtain e c2 db2 where cw: "call_wrap addr (at_reply a) c1 db1 = (e, c2, db2)"
      using prod_cases3 by blast
    note f2 = call_wrap_local [OF conjunct1 [OF f1] Cons.prems(3) cw]
    have f: "fc_id c2 = k" "db_other k (fw_db w) db2" using f1 f2 by (auto intro: db_other_trans)
    show ?thesis
      using Cons.prems(1,3) sel cw f Some
      by (auto simp: Let_def split: if_splits option.splits dest!: Cons.IH intro: db_other_trans)
  qed
qed auto
lemma channel_start_local:
  assumes "channel_start m ats c w = (r, m', c', w')" "fc_id c = k" "k \<noteq> []"
  shows "fc_id c' = k \<and> db_other k (fw_db w) (fw_db w')"
proof -
  obtain schema d m1 where sv: "start_vars c m = (schema, d, m1)" using prod_cases3 by blast
  obtain req where "flow_call ats req ((snd (set_pending [] ''*'' (user_id (chat_id d))))\<lparr>fc_host := ''lookup''\<rparr>) w
      = (r, c', w')"
    using assms(1) by (auto simp: channel_start_def sv Let_def split: prod.splits)
  from flow_call_local [OF this, of k] show ?thesis
    using start_vars_keeps [OF sv] assms(2,3) by (simp add: set_pending_def)
qed

lemma start_user_local:
  "start_user m u ats c w = (r, c', w') \<Longrightarrow> fc_id c = k \<Longrightarrow> k \<noteq> [] \<Longrightarrow>
     fc_id c' = k \<and> db_other k (fw_db w) (fw_db w')"
  by (auto simp: start_user_def Let_def dest!: flow_call_local)

lemma db_other_step: "db_other k (fw_db w) db \<Longrightarrow> db_other k db (snd (delete_confirmation k db))"
  by (rule db_other_ops)

lemma send_finish_local:
  assumes "send_finish t err m ats c w = (r, m', c', w')" "fc_id c = k" "k \<noteq> []"
  shows "fc_id c' = k \<and> db_other k (fw_db w) (fw_db w')"
proof -
  let ?d = "log_ids (snd (set_pending [] ''*'' (c\<lparr>fc_host := []\<rparr>)))"
  let ?db = "snd (delete_conversation_node k (snd (delete_confirmation k (fw_db w))))"
  have del: "db_other k (fw_db w) (snd (delete_confirmation k (fw_db w)))" "db_other k (fw_db w) ?db"
    using db_other_ops(4,6) db_other_trans by blast+
  have d: "fc_id ?d = k" using assms(2,3) by (simp add: set_pending_def)
  consider "channel_start m ats ?d (w\<lparr>fw_db := ?db\<rparr>) = (r, m', c', w')"
    | "c' = del_pending t c" "w' = w" | "c' = log_ids c" "w' = w"
    | "c' = del_pending t c" "w' = w\<lparr>fw_db := snd (delete_confirmation k (fw_db w))\<rparr>"
    using assms by (auto simp: send_finish_def set_pending_def Let_def split: option.splits if_splits)
  then show ?thesis
  proof cases
    case 1
    from channel_start_local [OF this d assms(3)] show ?thesis using del(2) by (auto intro: db_other_trans)
  qed (use assms(2,3) del in auto)
qed

lemma channel_send_local:
  assumes "channel_send m ats re c w = (r, m', c', w')" "fc_id c = k" "k \<noteq> []"
  shows "fc_id c' = k \<and> db_other k (fw_db w) (fw_db w')"
proof -
  obtain t w1 where tok: "send_token c w = (t, w1)" by fastforce
  have w1: "db_other k (fw_db w) (fw_db w1)"
    using tok db_other_ops(2) [of k "fw_db w" "fc_id c"]
    by (auto simp: send_token_def Let_def split: if_splits prod.splits sum.splits)
  show ?thesis
  proof (cases t)
    case (Inl e)
    then show ?thesis using assms w1 by (auto simp: channel_send_def tok)
  next
    case (Inr p)
    show ?thesis
    proof (cases "p = []")
      case True
      then show ?thesis using assms w1 Inr by (auto simp: channel_send_def tok)
    next
      case False
      obtain e c2 w2 where call: "flow_call ats (send_request p m c) c w1 = (e, c2, w2)"
        using prod_cases3 by blast
      have fin: "send_finish p e m re c2 w2 = (r, m', c', w')"
        using assms(1) False Inr call by (simp add: channel_send_def tok)
      note c2 = flow_call_local [OF call assms(2,3)]
      from send_finish_local [OF fin conjunct1 [OF c2] assms(3)] c2 w1
      show ?thesis by (auto intro: db_other_trans)
    qed
  qed
qed

lemma channel_close_local:
  assumes "channel_close cause ats c w = (r, c', w')" "fc_id c = k" "k \<noteq> []"
  shows "fc_id c' = k \<and> db_other k (fw_db w) (fw_db w')"
proof -
  obtain e c1 w1 where call: "flow_call ats (BreakRequest (fc_id c) cause) c w = (e, c1, w1)"
    using prod_cases3 by blast
  note c1 = flow_call_local [OF call assms(2,3)]
  have "db_other k (fw_db w) (snd (delete_confirmation k (fw_db w1)))"
    using c1 db_other_ops(6) by (auto intro: db_other_trans)
  then show ?thesis
    using assms c1 by (auto simp: channel_close_def call Let_def split: option.splits if_splits)
qed

lemma channel_break_bridge_local:
  "channel_break_bridge cause ats c w = (r, c', w') \<Longrightarrow> fc_id c = k \<Longrightarrow> k \<noteq> [] \<Longrightarrow>
     fc_id c' = k \<and> db_other k (fw_db w) (fw_db w')"
  by (auto simp: channel_break_bridge_def Let_def split: prod.splits option.splits if_splits
      dest!: flow_call_local)

lemma transfer_to_user_local:
  assumes "transfer_to_user originator uid date stop start c w = (r, c', w')" "fc_id c = k" "k \<noteq> []"
  shows "fc_id c' = k \<and> db_other k (fw_db w) (fw_db w')"
proof -
  obtain s c1 w1 where close: "channel_close ''transfer'' stop c w = (s, c1, w1)" using prod_cases3 by blast
  note c1 = channel_close_local [OF close assms(2,3)]
  show ?thesis
  proof (cases s)
    case (Some e)
    then show ?thesis using assms(1) close c1 by (auto simp: transfer_to_user_def)
  next
    case None
    show ?thesis
      using assms(1,3) c1 unfolding transfer_to_user_def close None
      by (auto simp: Let_def split: prod.splits option.splits dest!: start_user_local
          intro: db_other_trans)
  qed
qed

lemma transfer_to_schema_local:
  assumes "transfer_to_schema originator sid date stop start c w = (r, c', w')" "fc_id c = k" "k \<noteq> []"
  shows "fc_id c' = k \<and> db_other k (fw_db w) (fw_db w')"
proof -
  obtain s c1 w1 where close: "channel_close ''transfer'' stop c w = (s, c1, w1)" using prod_cases3 by blast
  note c1 = channel_close_local [OF close assms(2,3)]
  show ?thesis
  proof (cases s)
    case (Some e)
    then show ?thesis using assms(1) close c1 by (auto simp: transfer_to_schema_def)
  next
    case None
    show ?thesis
      using assms(1,3) c1 unfolding transfer_to_schema_def close None
      by (auto simp: Let_def split: prod.splits option.splits if_splits dest!: channel_start_local
          intro: db_other_trans)
  qed
qed
section \<open>The agent\<close>

text \<open>An operation on one chat keeps the map well formed and leaves the channels and
  the rows of all other chats as they are.\<close>

definition agent_local :: "string \<Rightarrow> flow_agent \<Rightarrow> flow_agent \<Rightarrow> bool" where
  "agent_local k ag ag' \<longleftrightarrow> agent_ok ag' \<and>
     (\<forall>j. j \<noteq> k \<longrightarrow> map_of (ag_channels ag') j = map_of (ag_channels ag) j) \<and>
     db_other k (fw_db (ag_world ag)) (fw_db (ag_world ag'))"

lemma get_channel_local:
  "agent_ok ag \<Longrightarrow> get_channel k ag = (c, linked, ag') \<Longrightarrow>
     agent_local k ag ag' \<and> fc_id c = k \<and> linked \<and> ag_world ag' = ag_world ag"
  using get_channel_ok [of ag k c linked ag'] by (auto simp: agent_local_def)

lemma put_back_local:
  "agent_local k ag ag1 \<Longrightarrow> ag_world ag1 = ag_world ag \<Longrightarrow> fc_id c = k \<Longrightarrow>
     db_other k (fw_db (ag_world ag)) (fw_db w) \<Longrightarrow> agent_local k ag (put_back k linked c w ag1)"
  using put_back_ok [of ag1 c k linked w]
  by (auto simp: agent_local_def put_back_def update_conv')

lemma del_channel_local: "agent_local k ag ag1 \<Longrightarrow> agent_local k ag (snd (del_channel k ag1))"
  using del_channel_ok [of ag1 k] by (auto simp: agent_local_def del_channel_def delete_conv')

lemma wait_message_local:
  assumes "agent_ok ag" "wait_message k token ag = (r, ag')"
  shows "agent_local k ag ag'"
proof -
  obtain c linked ag1 where g: "get_channel k ag = (c, linked, ag1)" using prod_cases3 by blast
  note g1 = get_channel_local [OF assms(1) g]
  show ?thesis
    using assms(2) g1 db_other_ops(5) [of k "fw_db (ag_world ag)" token]
    by (auto simp: wait_message_def g set_pending_def Let_def split: prod.splits
        intro!: put_back_local)
qed

lemma agent_send_local:
  assumes "agent_local k ag ag1" "ag_world ag1 = ag_world ag" "fc_id c = k" "k \<noteq> []"
    and "agent_send k linked m ats re c ag1 = (r, m', ag')"
  shows "agent_local k ag ag'"
proof -
  obtain e m2 c2 w2 where send: "channel_send m ats re c (ag_world ag1) = (e, m2, c2, w2)"
    using prod_cases4 by blast
  note c2 = channel_send_local [OF send assms(3,4)]
  have "agent_local k ag (put_back k linked c2 w2 ag1)"
    using c2 assms(1,2) by (intro put_back_local) auto
  then show ?thesis
    using assms(5) c2 del_channel_local by (auto simp: agent_send_def send Let_def split: option.splits)
qed

text \<open>What the operations share: a channel from the map, an action on it that keeps its
  id, and the channel put back or dropped.\<close>

lemma channel_action_local:
  assumes "agent_ok ag" "get_channel k ag = (c, linked, ag1)" "k \<noteq> []"
  shows "linked = True" "fc_id c = k" "ag_world ag1 = ag_world ag"
    and "\<And>d w. fc_id d = k \<Longrightarrow> db_other k (fw_db (ag_world ag)) (fw_db w) \<Longrightarrow>
      agent_local k ag (put_back k True d w ag1)"
    and "\<And>d w. fc_id d = k \<Longrightarrow> db_other k (fw_db (ag_world ag)) (fw_db w) \<Longrightarrow>
      agent_local k ag (snd (del_channel k (put_back k True d w ag1)))"
    and "\<And>d m ats re r m' ag'. agent_send k True m ats re d ag1 = (r, m', ag') \<Longrightarrow> fc_id d = k \<Longrightarrow>
      agent_local k ag ag'"
  using get_channel_local [OF assms(1,2)] assms(3)
  by (auto intro: put_back_local del_channel_local agent_send_local)

lemma send_message_local:
  assumes "agent_ok ag" "sc_conversation_id s = k" "k \<noteq> []" "send_message s m ats re ag = (r, m', ag')"
  shows "agent_local k ag ag'"
proof -
  obtain c linked ag1 where g: "get_channel k ag = (c, linked, ag1)" using prod_cases3 by blast
  note ca = channel_action_local [OF assms(1) g assms(3)]
  show ?thesis
    using assms(4) unfolding send_message_def assms(2)
    by (auto simp: g ca(1-3) Let_def split: if_splits prod.splits option.splits intro: ca(4) dest!: ca(6))
qed

lemma send_message_v1_local:
  assumes "agent_ok ag" "ch_id (ac_chat t) = k" "k \<noteq> []" "send_message_v1 t m ats re ag = (r, m', ag')"
  shows "agent_local k ag ag'"
proof -
  obtain c linked ag1 where g: "get_channel k ag = (c, linked, ag1)" using prod_cases3 by blast
  note ca = channel_action_local [OF assms(1) g assms(3)]
  show ?thesis
    using assms(4) unfolding send_message_v1_def assms(2)
    by (auto simp: g ca(1-3) Let_def split: if_splits prod.splits dest!: ca(6))
qed

lemma agent_init_local:
  assumes "agent_ok ag" "sc_conversation_id s = k" "k \<noteq> []" "agent_init s m ats ag = (r, s', m', ag')"
  shows "agent_local k ag ag'"
proof -
  obtain pid perr where p: "parse_int (ns_string (sc_connection s)) = (pid, perr)" by fastforce
  let ?c = "new_channel\<lparr>fc_id := k, fc_chat := s, fc_profile_id := pid, fc_vars := sc_vars s\<rparr>"
  obtain e m2 c2 w2 where start: "channel_start m ats ?c (ag_world ag) = (e, m2, c2, w2)"
    using prod_cases4 by blast
  have c2: "fc_id c2 = k" "db_other k (fw_db (ag_world ag)) (fw_db w2)"
    using channel_start_local [OF start _ assms(3)] by simp_all
  have "ag' = ag \<or> ag' = ag\<lparr>ag_world := w2\<rparr> \<or>
      ag' = ag\<lparr>ag_channels := AList.update k c2 (ag_channels ag)\<rparr>\<lparr>ag_world := w2\<rparr>"
    using assms(2,4) start c2(1)
    by (auto simp: agent_init_def p Let_def split: option.splits)
  then show ?thesis
    using assms(1) c2 agent_ok_update [OF assms(1) c2(1)]
    by (elim disjE) (simp_all add: agent_local_def update_conv')
qed

lemma close_conversation_local:
  assumes "agent_ok ag" "k \<noteq> []" "close_conversation k cause ats ag = (r, ag')"
  shows "agent_local k ag ag'"
proof -
  obtain c linked ag1 where g: "get_channel k ag = (c, linked, ag1)" using prod_cases3 by blast
  note ca = channel_action_local [OF assms(1) g assms(2)]
  obtain e c2 w2 where cl: "channel_close cause ats c (ag_world ag) = (e, c2, w2)"
    using prod_cases3 by blast
  note c2 = channel_close_local [OF cl ca(2) assms(2)]
  show ?thesis
    using assms(3) c2 ca(4,5) [of c2 w2]
    by (auto simp: close_conversation_def g ca(1,3) cl Let_def split: option.splits)
qed

lemma break_bridge_local:
  assumes "agent_ok ag" "k \<noteq> []" "break_bridge k cause ats ag = (r, ag')"
  shows "agent_local k ag ag'"
proof -
  obtain c linked ag1 where g: "get_channel k ag = (c, linked, ag1)" using prod_cases3 by blast
  note ca = channel_action_local [OF assms(1) g assms(2)]
  obtain e c2 w2 where cl: "channel_break_bridge cause ats c (ag_world ag) = (e, c2, w2)"
    using prod_cases3 by blast
  note c2 = channel_break_bridge_local [OF cl ca(2) assms(2)]
  show ?thesis
    using assms(3) c2 ca(4) [of c2 w2] by (auto simp: break_bridge_def g ca(1,3) cl Let_def)
qed

lemma fc_id_merge [simp]: "fc_id (merge_set_vars upd c) = fc_id c"
  by (simp add: merge_set_vars_def Let_def split: option.splits)

lemma transfer_to_local:
  assumes "agent_ok ag" "k \<noteq> []" "transfer_to k orig sid uid upd date stop start ag = (r, ag')"
  shows "agent_local k ag ag'"
proof -
  obtain c linked ag1 where g: "get_channel k ag = (c, linked, ag1)" using prod_cases3 by blast
  note ca = channel_action_local [OF assms(1) g assms(2)]
  let ?d = "merge_set_vars upd c"
  have d: "fc_id ?d = k" using ca(2) by simp
  obtain e1 c1 w1 where s: "transfer_to_schema orig sid date stop start ?d (ag_world ag) = (e1, c1, w1)"
    using prod_cases3 by blast
  obtain e2 c2 w2 where u: "transfer_to_user orig uid date stop start ?d (ag_world ag) = (e2, c2, w2)"
    using prod_cases3 by blast
  note l = transfer_to_schema_local [OF s d assms(2)] transfer_to_user_local [OF u d assms(2)]
  show ?thesis
    using assms(3) l ca(4) [of c1 w1] ca(4) [of c2 w2] ca(4) [OF d, of "ag_world ag"]
    by (auto simp: transfer_to_def g ca(1,3) s u Let_def split: if_splits)
qed

section \<open>Reachable agents\<close>

datatype agent_event =
    EvWait string string
  | EvSend store_channel flow_message "attempt list" "attempt list"
  | EvSendV1 app_channel flow_message "attempt list" "attempt list"
  | EvInit store_channel flow_message "attempt list"
  | EvClose string string "attempt list"
  | EvBreakBridge string string "attempt list"
  | EvTransfer string app_channel int int "vars option" int "attempt list" "attempt list"

fun event_chat :: "agent_event \<Rightarrow> string" where
  "event_chat (EvWait conv _) = conv"
| "event_chat (EvSend s _ _ _) = sc_conversation_id s"
| "event_chat (EvSendV1 t _ _ _) = ch_id (ac_chat t)"
| "event_chat (EvInit s _ _) = sc_conversation_id s"
| "event_chat (EvClose conv _ _) = conv"
| "event_chat (EvBreakBridge conv _ _) = conv"
| "event_chat (EvTransfer conv _ _ _ _ _ _ _) = conv"

fun agent_run :: "agent_event \<Rightarrow> flow_agent \<Rightarrow> flow_agent" where
  "agent_run (EvWait conv t) ag = snd (wait_message conv t ag)"
| "agent_run (EvSend s m ats re) ag = snd (snd (send_message s m ats re ag))"
| "agent_run (EvSendV1 t m ats re) ag = snd (snd (send_message_v1 t m ats re ag))"
| "agent_run (EvInit s m ats) ag = snd (snd (snd (agent_init s m ats ag)))"
| "agent_run (EvClose conv cause ats) ag = snd (close_conversation conv cause ats ag)"
| "agent_run (EvBreakBridge conv cause ats) ag = snd (break_bridge conv cause ats ag)"
| "agent_run (EvTransfer conv orig sid uid upd date stop start) ag =
     snd (transfer_to conv orig sid uid upd date stop start ag)"

inductive agent_step :: "flow_agent \<Rightarrow> flow_agent \<Rightarrow> bool" where
  event: "event_chat e \<noteq> [] \<Longrightarrow> agent_step ag (agent_run e ag)"

inductive agent_reach :: "flow_world \<Rightarrow> flow_agent \<Rightarrow> bool" for w where
  start: "agent_reach w (new_agent w)"
| step: "agent_reach w ag \<Longrightarrow> agent_step ag ag' \<Longrightarrow> agent_reach w ag'"

inductive_cases agent_stepE: "agent_step ag ag'"

lemma agent_run_local:
  assumes "agent_ok ag" "event_chat e \<noteq> []"
  shows "agent_local (event_chat e) ag (agent_run e ag)"
proof (cases e)
  case (EvWait conv t)
  then show ?thesis using assms wait_message_local by (metis agent_run.simps(1) event_chat.simps(1) prod.collapse)
next
  case (EvSend s m ats re)
  then show ?thesis using assms send_message_local [OF assms(1), of s]
    by (metis agent_run.simps(2) event_chat.simps(2) prod.collapse)
next
  case (EvSendV1 t m ats re)
  then show ?thesis using assms send_message_v1_local [OF assms(1), of t]
    by (metis agent_run.simps(3) event_chat.simps(3) prod.collapse)
next
  case (EvInit s m ats)
  then show ?thesis using assms agent_init_local [OF assms(1), of s]
    by (metis agent_run.simps(4) event_chat.simps(4) prod.collapse)
next
  case (EvClose conv cause ats)
  then show ?thesis using assms close_conversation_local by (metis agent_run.simps(5) event_chat.simps(5) prod.collapse)
next
  case (EvBreakBridge conv cause ats)
  then show ?thesis using assms break_bridge_local by (metis agent_run.simps(6) event_chat.simps(6) prod.collapse)
next
  case (EvTransfer conv orig sid uid upd date stop start)
  then show ?thesis using assms transfer_to_local by (metis agent_run.simps(7) event_chat.simps(7) prod.collapse)
qed

lemma agent_reach_ok: "agent_reach w ag \<Longrightarrow> agent_ok ag"
proof (induction rule: agent_reach.induct)
  case start
  show ?case by (rule new_agent_ok)
next
  case (step ag ag')
  from step(2) show ?case
    by (rule agent_stepE) (use agent_run_local [OF step.IH] in \<open>auto simp: agent_local_def\<close>)
qed

text \<open>C33: in every agent reached by operations that follow each other the keys of the
  map are distinct and each channel carries the id of its key, so that GetChannel
  returns the channel of the map and never a second one beside it; and a step
  changes nothing of any other chat.\<close>

theorem agent_invariant:
  assumes "agent_reach w ag"
  shows "distinct (map fst (ag_channels ag)) \<and>
    (\<forall>k c. map_of (ag_channels ag) k = Some c \<longrightarrow> fc_id c = k \<and> get_channel k ag = (c, True, ag)) \<and>
    (\<forall>e j. event_chat e \<noteq> [] \<and> j \<noteq> event_chat e \<longrightarrow>
      map_of (ag_channels (agent_run e ag)) j = map_of (ag_channels ag) j \<and>
      token_view (fw_db (ag_world (agent_run e ag))) j = token_view (fw_db (ag_world ag)) j \<and>
      node_view (fw_db (ag_world (agent_run e ag))) j = node_view (fw_db (ag_world ag)) j)"
proof -
  have ok: "agent_ok ag" using assms by (rule agent_reach_ok)
  then have "get_channel k ag = (c, True, ag) \<and> fc_id c = k" if "map_of (ag_channels ag) k = Some c" for k c
    using that by (simp add: agent_ok_def get_channel_def)
  then show ?thesis
    using ok agent_run_local [OF ok] by (auto simp: agent_ok_def agent_local_def db_other_def)
qed

theorem agent_invariant_witness:
  "\<exists>c. map_of (ag_channels (agent_run (EvWait ''c1'' ''t9'') (new_agent sample_world))) ''c1'' = Some c \<and>
     fc_id c = ''c1'' \<and> fc_pending c = ''t9'' \<and>
     token_view (fw_db (ag_world (agent_run (EvWait ''c1'' ''t9'') (new_agent sample_world)))) ''c2'' = ''t2''"
proof -
  let ?ag = "agent_run (EvWait ''c1'' ''t9'') (new_agent sample_world)"
  have s: "agent_reach sample_world (new_agent sample_world)" by (rule agent_reach.start)
  have "agent_step (new_agent sample_world) ?ag" by (rule agent_step.event) simp
  with s have r: "agent_reach sample_world ?ag" by (rule agent_reach.step)
  have m: "map_of (ag_channels ?ag) ''c1'' = Some (sample_channel\<lparr>fc_pending := ''t9''\<rparr>)"
    by (simp add: wait_message_def get_channel_def new_agent_def set_pending_def put_back_def
        write_confirmation_def next_fault_def sample_defs Let_def)
  have "token_view (fw_db sample_world) ''c2'' = ''t2''" by (simp add: sample_defs vget_def)
  then show ?thesis
    using agent_invariant [OF r] m
      conjunct2 [OF conjunct2 [OF agent_invariant [OF s]], rule_format, of "EvWait ''c1'' ''t9''" "''c2''"]
    by (simp add: new_agent_def)
qed

section \<open>An entry that comes late\<close>

text \<open>Between the two locks of GetChannel other operations run.  A call that found the
  key free, and enters its channel after them, replaces the channel that they
  have made: the map keeps its form, and nothing of another chat changes, but the
  profile and the variables of the started channel are gone from memory.\<close>

inductive late_step :: "flow_agent \<times> string list \<Rightarrow> flow_agent \<times> string list \<Rightarrow> bool" where
  looked: "channel_lookup k ag = None \<Longrightarrow> late_step (ag, ks) (ag, k # ks)"
| entered: "late_step (ag, a @ k # b) (channel_enter k ag, a @ b)"
| event: "event_chat e \<noteq> [] \<Longrightarrow> late_step (ag, ks) (agent_run e ag, ks)"

inductive late_reach :: "flow_world \<Rightarrow> flow_agent \<times> string list \<Rightarrow> bool" for w where
  start: "late_reach w (new_agent w, [])"
| step: "late_reach w s \<Longrightarrow> late_step s s' \<Longrightarrow> late_reach w s'"

lemma late_reach_ok: "late_reach w s \<Longrightarrow> agent_ok (fst s)"
proof (induction rule: late_reach.induct)
  case start
  show ?case by (simp add: new_agent_ok)
next
  case (step s s')
  from step(2) step.IH show ?case
  proof (induction rule: late_step.induct)
    case (entered ag a k b)
    then show ?case by (simp add: agent_ok_update)
  next
    case (event e ag ks)
    then have "agent_ok ag" by simp
    from agent_run_local [OF this event(1)] show ?case by (simp add: agent_local_def)
  qed simp
qed

text \<open>A token that was waited with survives the replacement, since WaitMessage has
  stored it: the next Send reads it from the repository.\<close>

theorem late_entry_effect:
  assumes "agent_ok ag" "no_faults (ag_world ag)" "conv \<noteq> []" "token \<noteq> []"
    and "wait_message conv token ag = (r, ag1)"
  shows "map_of (ag_channels (channel_enter conv ag1)) conv = Some (fresh_channel conv) \<and>
    fc_profile_id (fresh_channel conv) = 0 \<and> fc_vars (fresh_channel conv) = None \<and>
    (\<exists>c. map_of (ag_channels ag1) conv = Some c \<and> fc_pending c = token) \<and>
    send_token (fresh_channel conv) (ag_world (channel_enter conv ag1)) =
      (Ok token, ag_world (channel_enter conv ag1))"
proof -
  obtain c linked ag0 where g: "get_channel conv ag = (c, linked, ag0)" using prod_cases3 by blast
  note g0 = get_channel_ok [OF assms(1) g]
  let ?db = "(fw_db (ag_world ag))\<lparr>db_confirms := vset conv token (db_confirms (fw_db (ag_world ag)))\<rparr>"
  have wr: "write_confirmation conv token (fw_db (ag_world ag)) = (None, ?db)"
    using assms(2) by (simp add: no_faults_def write_confirmation_def next_fault_def)
  have r: "ag1 = put_back conv True (c\<lparr>fc_pending := token\<rparr>) ((ag_world ag)\<lparr>fw_db := ?db\<rparr>) ag0"
    using assms(5) g0(3,4) by (auto simp: wait_message_def g wr set_pending_def Let_def)
  have nf: "no_faults (ag_world ag1)" using assms(2) by (simp add: r put_back_def no_faults_def)
  have "current_token (fresh_channel conv) (ag_world ag1) = token"
    using assms(3) by (simp add: current_token_def new_channel_def r put_back_def token_view_def)
  with send_token_no_faults [OF nf, of "fresh_channel conv"]
  have "send_token (fresh_channel conv) (ag_world (channel_enter conv ag1)) =
      (Ok token, ag_world (channel_enter conv ag1))" by simp
  moreover have "\<exists>c. map_of (ag_channels ag1) conv = Some c \<and> fc_pending c = token"
    by (simp add: r put_back_def update_conv')
  ultimately show ?thesis by (simp add: update_conv' new_channel_def)
qed

theorem late_entry_effect_witness:
  "send_token (fresh_channel ''c1'')
     (ag_world (channel_enter ''c1'' (snd (wait_message ''c1'' ''t9'' (new_agent sample_world))))) =
   (Ok ''t9'', ag_world (channel_enter ''c1'' (snd (wait_message ''c1'' ''t9'' (new_agent sample_world)))))"
proof -
  have "no_faults (ag_world (new_agent sample_world))" by (simp add: new_agent_def sample_defs)
  note nf = this
  obtain r ag1 where w: "wait_message ''c1'' ''t9'' (new_agent sample_world) = (r, ag1)" by fastforce
  from late_entry_effect [OF new_agent_ok nf _ _ w] show ?thesis by (simp add: w)
qed

section \<open>From WaitMessage to the delivery\<close>

lemma flow_call_one:
  assumes "no_faults w" "fc_id c \<noteq> []" "host_synced c (fw_db w)"
  shows "\<exists>addr c' w'. flow_call [\<lparr>at_hosts = hs, at_fallback = Some h, at_reply = None\<rparr>] req c w = (None, c', w') \<and>
    fw_sent w' = fw_sent w @ [(addr, req)]"
proof -
  obtain s c1 db1 where sel: "select_host hs (Some h) c (fw_db w) = (s, c1, db1)" using prod_cases3 by blast
  have nf: "db_faults (fw_db w) = []" using assms(1) by (simp add: no_faults_def)
  note s1 = select_host_no_faults [OF nf assms(2) sel]
  obtain addr where s: "s = Some addr" using s1(4) by (metis (full_types))
  obtain e c2 db2 where cw: "call_wrap addr None c1 (fw_db w) = (e, c2, db2)" using prod_cases3 by blast
  have "e = None" using call_wrap_no_faults(1) [OF nf _ s1(3) [OF assms(3)] cw] s1(2) assms(2) by simp
  then show ?thesis using sel s cw s1(1) by simp
qed

text \<open>C29: when no statement fails and the call is answered, the message that SendMessage sends
  after WaitMessage is delivered to the service with exactly the token that was waited with, and the token is
  spent by it.\<close>

theorem waited_message_is_delivered:
  assumes "agent_ok ag" "no_faults (ag_world ag)" "conv \<noteq> []" "token \<noteq> []"
    and "\<forall>c. map_of (ag_channels ag) conv = Some c \<longrightarrow> host_synced c (fw_db (ag_world ag))"
    and "wait_message conv token ag = (r, ag1)"
    and "sc_conversation_id sender = conv" "parse_int (ns_string (sc_connection sender)) = (pid, None)"
    and "send_message sender m [\<lparr>at_hosts = hs, at_fallback = Some h, at_reply = None\<rparr>] re ag1 = (err, m', ag2)"
  shows "r = None \<and> err = None \<and>
    (\<exists>addr. fw_sent (ag_world ag2) =
      fw_sent (ag_world ag) @ [(addr, ConfirmationRequest conv token (flow_message_of m))]) \<and>
    token_view (fw_db (ag_world ag2)) conv = []"
proof -
  let ?ats = "[\<lparr>at_hosts = hs, at_fallback = Some h, at_reply = None\<rparr>]"
  obtain c linked ag0 where g: "get_channel conv ag = (c, linked, ag0)" using prod_cases3 by blast
  note g0 = get_channel_ok [OF assms(1) g]
  let ?db = "(fw_db (ag_world ag))\<lparr>db_confirms := vset conv token (db_confirms (fw_db (ag_world ag)))\<rparr>"
  let ?w = "(ag_world ag)\<lparr>fw_db := ?db\<rparr>"
  let ?c = "c\<lparr>fc_pending := token\<rparr>"
  have wr: "write_confirmation conv token (fw_db (ag_world ag)) = (None, ?db)"
    using assms(2) by (simp add: no_faults_def write_confirmation_def next_fault_def)
  have r: "r = None" "ag1 = put_back conv True ?c ?w ag0"
    using assms(6) g0(3,4) by (auto simp: wait_message_def g wr set_pending_def Let_def)
  have g1: "get_channel conv ag1 = (?c, True, ag1)"
    using g0(2) by (simp add: r put_back_def get_channel_def update_conv')
  have w1: "ag_world ag1 = ?w" by (simp add: r put_back_def)
  obtain d where d: "fc_id d = conv" "fc_pending d = token" "fc_host d = fc_host c"
    and send: "agent_send conv True m ?ats re d ag1 = (err, m', ag2)"
    using assms(7-9) g0(2) that [of "?c\<lparr>fc_chat := (fc_chat c)\<lparr>sc_domain_id := sc_domain_id sender\<rparr>\<rparr>"]
      that [of "?c\<lparr>fc_chat := (fc_chat c)\<lparr>sc_domain_id := sc_domain_id sender\<rparr>, fc_profile_id := pid\<rparr>"]
      that [of "?c\<lparr>fc_profile_id := pid\<rparr>"] that [of ?c]
    by (auto simp: send_message_def g1 Let_def split: if_splits)
  have nf: "no_faults ?w" using assms(2) by (simp add: no_faults_def)
  have "host_synced c (fw_db (ag_world ag))"
  proof (cases "map_of (ag_channels ag) conv")
    case None
    then show ?thesis using g0(6) by (simp add: host_synced_def new_channel_def)
  next
    case (Some a)
    then have "fc_id a = conv" using assms(1) by (simp add: agent_ok_def)
    then have "c = a" using g Some by (simp add: get_channel_def)
    with Some assms(5) show ?thesis by simp
  qed
  then have hs: "host_synced d (fw_db ?w)"
    using d(1,3) g0(2) by (auto simp: host_synced_def node_view_def)
  have tok: "current_token d ?w = token" using d(2) assms(4) by (simp add: current_token_def)
  have id: "fc_id d \<noteq> []" using d(1) assms(3) by simp
  obtain addr c2 w2 where call: "flow_call ?ats (send_request token m d) d ?w = (None, c2, w2)"
    and sent: "fw_sent w2 = fw_sent ?w @ [(addr, send_request token m d)]"
    using flow_call_one [OF nf id hs] by blast
  obtain e m3 c3 w3 where cs: "channel_send m ?ats re d ?w = (e, m3, c3, w3)" using prod_cases4 by blast
  have fin: "e = None \<and> fw_sent w3 = fw_sent w2 \<and> current_token c3 w3 = []"
    using send_spends_token [OF nf id _ _ cs, of c2 w2] call assms(4) by (simp add: tok)
  have "fc_id c3 = conv" using channel_send_local [OF cs d(1) assms(3)] by simp
  then have "token_view (fw_db w3) conv = []" using fin by (auto simp: current_token_def split: if_splits)
  moreover have "err = None" "ag_world ag2 = w3"
    using send fin by (auto simp: agent_send_def w1 cs put_back_def)
  ultimately show ?thesis using r fin sent d(1) by (simp add: send_request_def)
qed

theorem waited_message_is_delivered_witness:
  "\<exists>ag1 m' ag2. wait_message ''c1'' ''t9'' (new_agent sample_world) = (None, ag1) \<and>
     send_message (zero_channel\<lparr>sc_conversation_id := ''c1'', sc_connection := some_string ''7''\<rparr>) sample_message
       [\<lparr>at_hosts = [], at_fallback = Some ''h1'', at_reply = None\<rparr>] [] ag1 = (None, m', ag2) \<and>
     token_view (fw_db (ag_world ag2)) ''c1'' = []"
proof -
  let ?s = "zero_channel\<lparr>sc_conversation_id := ''c1'', sc_connection := some_string ''7''\<rparr>"
  obtain r ag1 where w: "wait_message ''c1'' ''t9'' (new_agent sample_world) = (r, ag1)" by fastforce
  obtain err m' ag2 where s: "send_message ?s sample_message
      [\<lparr>at_hosts = [], at_fallback = Some ''h1'', at_reply = None\<rparr>] [] ag1 = (err, m', ag2)"
    using prod_cases3 by blast
  have p: "parse_int (ns_string (sc_connection ?s)) = (7, None)" by code_simp
  have "no_faults (ag_world (new_agent sample_world))"
    "\<forall>c. map_of (ag_channels (new_agent sample_world)) ''c1'' = Some c \<longrightarrow>
       host_synced c (fw_db (ag_world (new_agent sample_world)))"
    by (simp_all add: new_agent_def sample_defs)
  from waited_message_is_delivered [OF new_agent_ok this(1) _ _ this(2) w _ p s] w s
  show ?thesis by simp
qed

end
