(* ===== verification/Flow_Race.thy ===== *)
theory Flow_Race
  imports Flow_Delivery
begin

text \<open>
  Send and WaitMessage of internal/flow run in different goroutines.  The lock of
  the channel covers the token in memory only; the repository and the call of
  the service are outside of it.  A state of this theory is a channel with at
  most one Send between its call and its end, and with the WaitMessage calls
  that have set the token in memory but have not stored it yet.
\<close>

record race =
  rc_chan :: flow_channel
  rc_world :: flow_world
  rc_sending :: "(string \<times> flow_message \<times> flow_error option) option"
  rc_storing :: "string list"
  rc_wanted :: string

text \<open>The last field is not part of the program: it is the token that the schema waits
  with, until a message is delivered with it, the service rejects it, or the
  session is started again.\<close>

definition spent :: "string \<Rightarrow> flow_error option \<Rightarrow> string \<Rightarrow> string" where
  "spent t err wanted =
     (case err of
        None \<Rightarrow> if wanted = t then [] else wanted
      | Some e \<Rightarrow>
          if error_id e = errno_session_not_found then []
          else if error_id e = err_confirmation_not_found then (if wanted = t then [] else wanted)
          else wanted)"

inductive race_step :: "race \<Rightarrow> race \<Rightarrow> bool" where
  call: "rc_sending s = None \<Longrightarrow> send_token (rc_chan s) (rc_world s) = (Ok t, w) \<Longrightarrow> t \<noteq> [] \<Longrightarrow> t \<noteq> ''*'' \<Longrightarrow>
    flow_call ats (send_request t m (rc_chan s)) (rc_chan s) w = (e, c', w') \<Longrightarrow>
    race_step s (s\<lparr>rc_chan := c', rc_world := w', rc_sending := Some (t, m, e)\<rparr>)"
| finish: "rc_sending s = Some (t, m, e) \<Longrightarrow>
    send_finish t e m re (rc_chan s) (rc_world s) = (r, m', c', w') \<Longrightarrow>
    race_step s (s\<lparr>rc_chan := c', rc_world := w', rc_sending := None, rc_wanted := spent t e (rc_wanted s)\<rparr>)"
| wait: "t \<noteq> [] \<Longrightarrow> t \<noteq> ''*'' \<Longrightarrow>
    race_step s (s\<lparr>rc_chan := snd (set_pending t ''*'' (rc_chan s)), rc_storing := rc_storing s @ [t], rc_wanted := t\<rparr>)"
| store: "rc_storing s = t # ts \<Longrightarrow> write_confirmation (fc_id (rc_chan s)) t (fw_db (rc_world s)) = (e, db) \<Longrightarrow>
    race_step s (s\<lparr>rc_world := (rc_world s)\<lparr>fw_db := db\<rparr>, rc_storing := ts\<rparr>)"

inductive race_reach :: "race \<Rightarrow> race \<Rightarrow> bool" for s0 where
  refl: "race_reach s0 s0"
| step: "race_reach s0 s \<Longrightarrow> race_step s s' \<Longrightarrow> race_reach s0 s'"

inductive_cases race_stepE: "race_step s s'"

definition race_init :: "flow_channel \<Rightarrow> flow_world \<Rightarrow> race" where
  "race_init c w = \<lparr>rc_chan = c, rc_world = w, rc_sending = None, rc_storing = [], rc_wanted = []\<rparr>"

definition race_ok :: "race \<Rightarrow> bool" where
  "race_ok s \<longleftrightarrow> fc_id (rc_chan s) \<noteq> [] \<and>
     (\<forall>t m e. rc_sending s = Some (t, m, e) \<longrightarrow> t \<noteq> ''*'') \<and>
     (rc_wanted s \<noteq> [] \<longrightarrow> fc_pending (rc_chan s) = rc_wanted s)"

lemma send_finish_pending:
  assumes "send_finish t e m re c w = (r, m', c', w')" "fc_id c \<noteq> []" "t \<noteq> ''*''"
    and "wanted \<noteq> [] \<longrightarrow> fc_pending c = wanted" "spent t e wanted \<noteq> []"
  shows "fc_id c' \<noteq> []" "fc_pending c' = spent t e wanted"
proof -
  have ns: "e \<noteq> Some x \<or> error_id x \<noteq> errno_session_not_found" for x
    using assms(5) by (auto simp: spent_def)
  then have "c' = del_pending t c \<and> spent t e wanted = wanted \<and> wanted \<noteq> t \<or>
      c' = log_ids c \<and> spent t e wanted = wanted"
    using assms(1,2,5)
    by (auto simp: send_finish_def spent_def Let_def split: option.splits if_splits)
  then show "fc_id c' \<noteq> []" "fc_pending c' = spent t e wanted"
    using assms(2-5) by (auto simp: del_pending_def set_pending_def)
qed

lemma send_finish_id:
  assumes "send_finish t e m re c w = (r, m', c', w')" "fc_id c \<noteq> []"
  shows "fc_id c' = fc_id c"
proof -
  let ?d = "log_ids (snd (set_pending [] ''*'' (c\<lparr>fc_host := []\<rparr>)))"
  have d: "fc_id ?d = fc_id c" using assms(2) by (simp add: set_pending_def)
  have "(\<exists>w. channel_start m re ?d w = (r, m', c', w')) \<or> c' = del_pending t c \<or> c' = log_ids c"
    using assms by (auto simp: send_finish_def set_pending_def Let_def split: option.splits if_splits)
  then show ?thesis
    using channel_start_effect(2) [of m re ?d _ r m' c' w'] d assms(2) by auto
qed

lemma race_step_ok: "race_ok s \<Longrightarrow> race_step s s' \<Longrightarrow> race_ok s'"
proof (erule race_stepE)
  fix t w ats m e c' w'
  assume ok: "race_ok s" and "t \<noteq> ''*''"
    and call: "flow_call ats (send_request t m (rc_chan s)) (rc_chan s) w = (e, c', w')"
    and s': "s' = s\<lparr>rc_chan := c', rc_world := w', rc_sending := Some (t, m, e)\<rparr>"
  then show "race_ok s'" using flow_call_keeps(1,4) [OF call] by (auto simp: race_ok_def)
next
  fix t m e re r m' c' w'
  assume ok: "race_ok s" and sending: "rc_sending s = Some (t, m, e)"
    and fin: "send_finish t e m re (rc_chan s) (rc_world s) = (r, m', c', w')"
    and s': "s' = s\<lparr>rc_chan := c', rc_world := w', rc_sending := None, rc_wanted := spent t e (rc_wanted s)\<rparr>"
  have id: "fc_id (rc_chan s) \<noteq> []" "t \<noteq> ''*''" "rc_wanted s \<noteq> [] \<longrightarrow> fc_pending (rc_chan s) = rc_wanted s"
    using ok sending by (auto simp: race_ok_def)
  show "race_ok s'"
    using send_finish_pending(2) [OF fin id(1,2,3)] send_finish_id [OF fin id(1)] id(1)
    by (auto simp: race_ok_def s')
qed (auto simp: race_ok_def set_pending_def)

text \<open>Whatever Send and WaitMessage do in between, the token that the schema waits
  with is not lost in memory: Send only clears the token it was called with.\<close>

theorem waited_token_survives_in_memory:
  assumes "race_reach (race_init c w) s" "fc_id c \<noteq> []"
  shows "rc_wanted s \<noteq> [] \<longrightarrow> fc_pending (rc_chan s) = rc_wanted s \<and>
    send_token (rc_chan s) (rc_world s) = (Ok (rc_wanted s), rc_world s)"
proof -
  have "race_ok s"
    using assms(1)
  proof (induction rule: race_reach.induct)
    case refl
    show ?case using assms(2) by (simp add: race_ok_def race_init_def)
  next
    case (step s s')
    then show ?case using race_step_ok by blast
  qed
  then show ?thesis by (auto simp: race_ok_def send_token_def get_pending_def)
qed

text \<open>C30: the repository does lose it.  When WaitMessage comes between the call of Send
  and its end, the end deletes the new token: all are done, no statement failed,
  the schema waits, and the repository holds no token for the chat.\<close>

theorem waited_token_lost_in_store:
  assumes "no_faults w" "fc_id c \<noteq> []" "current_token c w = t1" "t1 \<notin> {[], ''*''}" "t2 \<notin> {[], ''*'', t1}"
    and "flow_call ats (send_request t1 m c) c w = (None, c1, w1)"
  shows "\<exists>s. race_reach (race_init c w) s \<and> rc_sending s = None \<and> rc_storing s = [] \<and>
    no_faults (rc_world s) \<and> rc_wanted s = t2 \<and> fc_pending (rc_chan s) = t2 \<and>
    token_view (fw_db (rc_world s)) (fc_id c) = []"
proof -
  note k = flow_call_keeps [OF assms(6)]
  have nf1: "no_faults w1" and id1: "fc_id c1 = fc_id c"
    using k(4,8) assms(1,2) by (auto simp: no_faults_def)
  define s1 where "s1 = (race_init c w)\<lparr>rc_chan := c1, rc_world := w1, rc_sending := Some (t1, m, None)\<rparr>"
  define s2 where "s2 = s1\<lparr>rc_chan := c1\<lparr>fc_pending := t2\<rparr>, rc_storing := [t2], rc_wanted := t2\<rparr>"
  let ?w3 = "w1\<lparr>fw_db := (fw_db w1)\<lparr>db_confirms := vset (fc_id c) t2 (db_confirms (fw_db w1))\<rparr>\<rparr>"
  define s3 where "s3 = s2\<lparr>rc_world := ?w3, rc_storing := []\<rparr>"
  let ?db = "snd (delete_confirmation (fc_id c) (fw_db ?w3))"
  define s4 where "s4 = s3\<lparr>rc_chan := c1\<lparr>fc_pending := t2\<rparr>, rc_world := ?w3\<lparr>fw_db := ?db\<rparr>,
    rc_sending := None, rc_wanted := t2\<rparr>"
  have st1: "race_step (race_init c w) s1"
    unfolding s1_def using assms(3,4,6) send_token_no_faults [OF assms(1), of c]
    by (intro race_step.call [of _ t1 w ats m None]) (auto simp: race_init_def)
  have st2: "race_step s1 s2"
    using race_step.wait [of t2 s1] assms(5) by (simp add: s2_def s1_def race_init_def set_pending_def)
  have st3: "race_step s2 s3"
    using race_step.store [of s2 t2 "[]" None] nf1 id1
    by (simp add: s3_def s2_def s1_def race_init_def write_confirmation_def next_fault_def no_faults_def)
  have nf3: "no_faults ?w3" using nf1 by (simp add: no_faults_def)
  have fin: "send_finish t1 None m [] (c1\<lparr>fc_pending := t2\<rparr>) ?w3 =
      (None, m, c1\<lparr>fc_pending := t2\<rparr>, ?w3\<lparr>fw_db := ?db\<rparr>)"
    using assms(2,4,5) id1 by (auto simp: send_finish_def del_pending_def set_pending_def Let_def)
  have st4: "race_step s3 s4"
    using race_step.finish [of s3 t1 m None "[]", of None m "c1\<lparr>fc_pending := t2\<rparr>" "?w3\<lparr>fw_db := ?db\<rparr>"] fin assms(5)
    by (simp add: s4_def s3_def s2_def s1_def race_init_def spent_def)
  have "race_reach (race_init c w) s4"
    using st1 st2 st3 st4 race_reach.refl race_reach.step by metis
  moreover have "token_view ?db (fc_id c) = []" "db_faults ?db = []"
    using no_fault_ops(2) [OF nf3, of "fc_id c"] nf3 by (simp_all add: token_view_def no_faults_def)
  ultimately show ?thesis
    by (intro exI [of _ s4]) (simp add: s4_def s3_def s2_def s1_def race_init_def no_faults_def)
qed

theorem waited_token_survives_in_memory_witness:
  "\<exists>s. race_reach (race_init sample_channel sample_world) s \<and> rc_wanted s = ''t9'' \<and>
     fc_pending (rc_chan s) = ''t9''"
proof -
  let ?s = "(race_init sample_channel sample_world)\<lparr>rc_chan := snd (set_pending ''t9'' ''*'' sample_channel),
    rc_storing := [''t9''], rc_wanted := ''t9''\<rparr>"
  have "race_step (race_init sample_channel sample_world) ?s"
    using race_step.wait [of "''t9''" "race_init sample_channel sample_world"] by (simp add: race_init_def)
  then have r: "race_reach (race_init sample_channel sample_world) ?s"
    using race_reach.refl race_reach.step by blast
  from waited_token_survives_in_memory [OF this] have "fc_pending (rc_chan ?s) = ''t9''"
    by (simp add: sample_defs)
  with r show ?thesis by (intro exI [of _ ?s]) simp
qed

theorem waited_token_lost_in_store_witness:
  "\<exists>s. race_reach (race_init sample_channel sample_world) s \<and> rc_wanted s = ''t2'' \<and>
     fc_pending (rc_chan s) = ''t2'' \<and> token_view (fw_db (rc_world s)) ''c1'' = []"
proof -
  have t: "current_token sample_channel sample_world = ''t1''" by (simp add: sample_defs vget_def)
  obtain c1 w1 where call: "flow_call [answer None] (send_request ''t1'' sample_message sample_channel)
      sample_channel sample_world = (None, c1, w1)"
    by (simp add: sample_defs flow_defs null_string_def)
  have "no_faults sample_world" "fc_id sample_channel = ''c1''" by (simp_all add: sample_defs)
  then show ?thesis
    using waited_token_lost_in_store [OF _ _ t _ _ call, of "''t2''"] by auto
qed

end
