(* ===== verification/Auth_Access.thy ===== *)
theory Auth_Access
  imports Chat_Prelude
begin

unbundle bit_operations_syntax

text \<open>
  auth/auth.go and auth/mode.go: the authorization of a request and what it may
  access; app/context.go and app/controls.go: the controls of a request context.
\<close>

section \<open>Authorization\<close>

text \<open>The fields of the messages Userinfo, Objclass and Permission of the
  authorization service that the program reads.\<close>

record objclass =
  oc_class :: string
  oc_access :: string

record userinfo =
  ui_dc :: int
  ui_user_id :: int
  ui_expires_at :: int
  ui_scope :: "objclass list"
  ui_permissions :: "string list"

record authorization =
  au_service :: string
  au_method :: string
  au_native :: "string option"
  au_token :: string
  au_creds :: "userinfo option"

definition zero_authorization :: authorization where
  "zero_authorization =
     \<lparr>au_service = [], au_method = [], au_native = None, au_token = [], au_creds = None\<rparr>"

text \<open>The getters of a message give the zero value for nil.\<close>

definition get_dc :: "userinfo option \<Rightarrow> int" where
  "get_dc u = (case u of None \<Rightarrow> 0 | Some u \<Rightarrow> ui_dc u)"

definition get_user_id :: "userinfo option \<Rightarrow> int" where
  "get_user_id u = (case u of None \<Rightarrow> 0 | Some u \<Rightarrow> ui_user_id u)"

definition get_expires_at :: "userinfo option \<Rightarrow> int" where
  "get_expires_at u = (case u of None \<Rightarrow> 0 | Some u \<Rightarrow> ui_expires_at u)"

definition get_permissions :: "userinfo option \<Rightarrow> string list" where
  "get_permissions u = (case u of None \<Rightarrow> [] | Some u \<Rightarrow> ui_permissions u)"

definition get_scope :: "userinfo option \<Rightarrow> objclass list" where
  "get_scope u = (case u of None \<Rightarrow> [] | Some u \<Rightarrow> ui_scope u)"

lemmas getters [simp] =
  get_dc_def get_user_id_def get_expires_at_def get_permissions_def get_scope_def

text \<open>date is the number of nanoseconds since the epoch.\<close>

definition is_expired :: "int \<Rightarrow> int \<Rightarrow> bool" where
  "is_expired expiry date = (if expiry \<le> 0 then False else expiry \<le> go_div date 1000000)"

fun granted :: "string \<Rightarrow> string list \<Rightarrow> bool" where
  "granted code [] = False"
| "granted code (g # gs) = (if code = g then True else granted code gs)"

definition has_permission :: "authorization \<Rightarrow> string \<Rightarrow> bool" where
  "has_permission a code = (if code = [] then False else granted code (get_permissions (au_creds a)))"

fun find_class :: "string \<Rightarrow> objclass list \<Rightarrow> objclass option" where
  "find_class name [] = None"
| "find_class name (g # gs) = (if name = oc_class g then Some g else find_class name gs)"

definition has_objclass :: "authorization \<Rightarrow> string \<Rightarrow> objclass option" where
  "has_objclass a name = (if name = [] then None else find_class name (get_scope (au_creds a)))"

section \<open>Access modes\<close>

type_synonym access_mode = "8 word"

definition mode_delete :: access_mode where "mode_delete = push_bit 0 1"
definition mode_write :: access_mode where "mode_write = push_bit 1 1"
definition mode_read :: access_mode where "mode_read = push_bit 2 1"
definition mode_add :: access_mode where "mode_add = push_bit 3 1"
definition mode_none :: access_mode where "mode_none = 0"
definition mode_full :: access_mode where
  "mode_full = mode_add OR mode_read OR mode_write OR mode_delete"

lemmas mode_defs = mode_delete_def mode_write_def mode_read_def mode_add_def mode_none_def mode_full_def

text \<open>The letter a mode requires in the access of the class, and the permission that
  passes it by.\<close>

definition mode_policy :: "access_mode \<Rightarrow> string \<times> string" where
  "mode_policy mode =
     (if mode = mode_add \<or> mode = mode_read OR mode_add then (''x'', ''add'')
      else if mode = mode_read \<or> mode = mode_none then (''r'', ''read'')
      else if mode = mode_write \<or> mode = mode_read OR mode_write then (''w'', ''write'')
      else if mode = mode_delete \<or> mode = mode_read OR mode_delete then (''d'', ''delete'')
      else ([], []))"

definition access_granted :: "string \<Rightarrow> string \<Rightarrow> bool" where
  "access_granted access require = list_all (\<lambda>c. index_of access [c] \<noteq> None) (rev require)"

definition can_access :: "authorization \<Rightarrow> objclass option \<Rightarrow> access_mode \<Rightarrow> bool" where
  "can_access a scope mode =
     (case scope of
        None \<Rightarrow> False
      | Some s \<Rightarrow>
          (let (require, bypass) = mode_policy mode in
           if bypass \<noteq> [] \<and> has_permission a bypass then True
           else access_granted (oc_access s) require))"

lemma granted_iff: "granted code gs \<longleftrightarrow> code \<in> set gs"
  by (induction gs) auto

lemma has_permission_iff:
  "has_permission a code \<longleftrightarrow> code \<noteq> [] \<and> code \<in> set (get_permissions (au_creds a))"
  by (simp add: has_permission_def granted_iff)

lemma find_class_Some: "find_class name gs = Some g \<Longrightarrow> g \<in> set gs \<and> oc_class g = name"
  by (induction gs) (auto split: if_splits)

lemma find_class_None: "find_class name gs = None \<longleftrightarrow> name \<notin> oc_class ` set gs"
  by (induction gs) auto

lemma index_of_char: "index_of s [c] = None \<longleftrightarrow> c \<notin> set s"
  by (induction s) (auto simp: index_of.simps [of "[]"] index_of.simps [of "_ # _"] has_prefix_def)

lemma access_granted_char: "access_granted access [c] \<longleftrightarrow> c \<in> set access"
  using index_of_char [of access c] by (simp add: access_granted_def) (metis not_None_eq)

text \<open>The policies the four modes stand for, alone or together with READ.\<close>

definition mode_table :: "(access_mode \<times> char \<times> string) list" where
  "mode_table =
     [(mode_add, CHR ''x'', ''add''), (mode_read OR mode_add, CHR ''x'', ''add''),
      (mode_read, CHR ''r'', ''read''), (mode_none, CHR ''r'', ''read''),
      (mode_write, CHR ''w'', ''write''), (mode_read OR mode_write, CHR ''w'', ''write''),
      (mode_delete, CHR ''d'', ''delete''), (mode_read OR mode_delete, CHR ''d'', ''delete'')]"

lemma mode_policy_table:
  "(mode, c, p) \<in> set mode_table \<Longrightarrow> mode_policy mode = ([c], p)"
  by (auto simp: mode_table_def mode_policy_def mode_defs)

lemma mode_policy_unlisted:
  "mode \<notin> fst ` set mode_table \<Longrightarrow> mode_policy mode = ([], [])"
  by (simp add: mode_table_def mode_policy_def)

text \<open>For the modes ADD, READ, WRITE and DELETE, alone or with READ, and for NONE: an
  object class that is not in the scope of the credentials gives no access; one
  that is gives it exactly when the credentials have the permission of the mode
  or the access of the class has its letter.\<close>

theorem can_access_iff:
  assumes "(mode, c, p) \<in> set mode_table"
  shows "can_access a (has_objclass a name) mode \<longleftrightarrow>
    (\<exists>s. has_objclass a name = Some s \<and>
      (p \<in> set (get_permissions (au_creds a)) \<or> c \<in> set (oc_access s)))"
proof -
  have p: "p \<noteq> []" using assms by (auto simp: mode_table_def)
  show ?thesis
    using p mode_policy_table [OF assms]
    by (cases "has_objclass a name")
      (auto simp: can_access_def has_permission_iff access_granted_char simp del: getters)
qed

lemma can_access_iff_witness:
  "can_access \<lparr>au_service = [], au_method = [], au_native = None, au_token = [],
      au_creds = Some \<lparr>ui_dc = 1, ui_user_id = 2, ui_expires_at = 0,
        ui_scope = [\<lparr>oc_class = ''chats'', oc_access = ''rw''\<rparr>], ui_permissions = []\<rparr>\<rparr>
     (has_objclass \<lparr>au_service = [], au_method = [], au_native = None, au_token = [],
      au_creds = Some \<lparr>ui_dc = 1, ui_user_id = 2, ui_expires_at = 0,
        ui_scope = [\<lparr>oc_class = ''chats'', oc_access = ''rw''\<rparr>], ui_permissions = []\<rparr>\<rparr> ''chats'') mode_write"
  by (subst can_access_iff [of mode_write "CHR ''w''" "''write''"])
    (simp_all add: mode_table_def has_objclass_def)

text \<open>Every other combination of the flags, FULL and ADD with WRITE among them,
  requires nothing: any object class in the scope gives it, without a letter and
  without a permission.\<close>

theorem can_access_unlisted:
  assumes "mode \<notin> fst ` set mode_table"
  shows "can_access a (Some s) mode \<and> mode_full \<notin> fst ` set mode_table"
  using mode_policy_unlisted [OF assms]
  by (simp add: can_access_def access_granted_def) (simp add: mode_table_def mode_defs)

lemma can_access_unlisted_witness:
  "can_access zero_authorization (Some \<lparr>oc_class = ''chats'', oc_access = []\<rparr>) mode_full"
  using can_access_unlisted [of mode_full] by (simp add: mode_table_def mode_defs)

section \<open>Controls of a request\<close>

text \<open>The errors package: code, id and detail.\<close>

record rpc_error =
  re_code :: nat
  re_id :: string
  re_detail :: string

definition unauthorized :: "string \<Rightarrow> string \<Rightarrow> rpc_error" where
  "unauthorized i d = \<lparr>re_code = 401, re_id = i, re_detail = d\<rparr>"

text \<open>A method of authorization reads the context of the request and may change the
  state of its client (the cache of tokens).\<close>

type_synonym 's auth_method = "'s \<Rightarrow> (authorization option \<times> rpc_error option) \<times> 's"

record app_context =
  ac_date :: "int option"
  ac_authorization :: authorization

type_synonym 's control = "int \<Rightarrow> app_context \<Rightarrow> 's \<Rightarrow> rpc_error option \<times> app_context \<times> 's"

text \<open>now is CurrentTime.\<close>

definition localtime :: "int \<Rightarrow> app_context \<Rightarrow> int \<times> app_context" where
  "localtime now ctx =
     (case ac_date ctx of Some d \<Rightarrow> (d, ctx) | None \<Rightarrow> (now, ctx\<lparr>ac_date := Some now\<rparr>))"

fun bind_methods :: "'s auth_method list \<Rightarrow> authorization \<Rightarrow> 's \<Rightarrow> authorization \<times> 's" where
  "bind_methods [] authN s = (authN, s)"
| "bind_methods (bind # methods) authN s =
     (if au_token authN \<noteq> [] then (authN, s)
      else (case bind s of
              ((Some authZ, None), s') \<Rightarrow>
                if au_token authZ \<noteq> [] then (authZ, s') else bind_methods methods authN s'
            | (_, s') \<Rightarrow> bind_methods methods authN s'))"

definition authorization_require :: "'s auth_method list \<Rightarrow> 's control" where
  "authorization_require methods now ctx s =
     (let (authN, s) = bind_methods methods (ac_authorization ctx) s;
          ctx = ctx\<lparr>ac_authorization := authN\<rparr> in
      if au_token authN = [] then
        (Some (unauthorized ''app.context.unauthorized'' ''context: authorization required''), ctx, s)
      else
        (let (date, ctx) = localtime now ctx in
         if is_expired (get_expires_at (au_creds authN)) date then
           (Some (unauthorized ''app.context.token.expired'' ''context: authorization token is expired''), ctx, s)
         else (None, ctx, s)))"

definition client_require :: "'s control" where
  "client_require now ctx s =
     (if au_service (ac_authorization ctx) = [] then
        (Some (unauthorized ''app.context.client.unauthorized'' ''context: client authorization required''), ctx, s)
      else (None, ctx, s))"

definition domain_require :: "'s control" where
  "domain_require now ctx s =
     (if get_dc (au_creds (ac_authorization ctx)) = 0 then
        (Some (unauthorized ''app.context.domain.unauthorized'' ''context: domain authorization required''), ctx, s)
      else (None, ctx, s))"

definition user_require :: "'s control" where
  "user_require now ctx s =
     (if get_user_id (au_creds (ac_authorization ctx)) = 0 then
        (Some (unauthorized ''app.context.user.unauthorized'' ''context: user authorization required''), ctx, s)
      else (None, ctx, s))"

fun check_controls :: "'s control list \<Rightarrow> int \<Rightarrow> app_context \<Rightarrow> 's \<Rightarrow> app_context \<times> rpc_error option \<times> 's" where
  "check_controls [] now ctx s = (ctx, None, s)"
| "check_controls (control # ctl) now ctx s =
     (case control now ctx s of
        (Some e, ctx', s') \<Rightarrow> (ctx', Some e, s')
      | (None, ctx', s') \<Rightarrow> check_controls ctl now ctx' s')"

text \<open>bound is the context of an enclosing call, if there is one.\<close>

definition get_context ::
  "app_context option \<Rightarrow> 's control list \<Rightarrow> int \<Rightarrow> 's \<Rightarrow> app_context \<times> rpc_error option \<times> 's" where
  "get_context bound ctl now s =
     (let app = (case bound of Some app \<Rightarrow> app
                 | None \<Rightarrow> \<lparr>ac_date = Some now, ac_authorization = zero_authorization\<rparr>)
      in check_controls ctl now app s)"

lemma bind_methods_origin:
  "bind_methods ms a s = (a', s') \<Longrightarrow> a' = a \<or> (\<exists>m \<in> set ms. \<exists>t t'. m t = ((Some a', None), t') \<and> au_token a' \<noteq> [])"
proof (induction ms arbitrary: s)
  case (Cons m ms)
  obtain z e t where m: "m s = ((z, e), t)" by (metis prod.exhaust)
  then show ?case
    using Cons.IH [of t] Cons.prems
    by (cases z; cases e) (auto split: if_splits)
qed simp

lemma authorization_require_ok:
  assumes "authorization_require ms now ctx s = (None, ctx', s')"
  shows "au_token (ac_authorization ctx') \<noteq> []"
    and "\<exists>d. ac_date ctx' = Some d \<and> \<not> is_expired (get_expires_at (au_creds (ac_authorization ctx'))) d"
    and "ac_authorization ctx' = ac_authorization ctx \<or>
      (\<exists>m \<in> set ms. \<exists>t t'. m t = ((Some (ac_authorization ctx'), None), t'))"
proof -
  obtain a t where b: "bind_methods ms (ac_authorization ctx) s = (a, t)" by fastforce
  show "au_token (ac_authorization ctx') \<noteq> []"
    and "\<exists>d. ac_date ctx' = Some d \<and> \<not> is_expired (get_expires_at (au_creds (ac_authorization ctx'))) d"
    and "ac_authorization ctx' = ac_authorization ctx \<or>
      (\<exists>m \<in> set ms. \<exists>t t'. m t = ((Some (ac_authorization ctx'), None), t'))"
    using assms bind_methods_origin [OF b]
    by (auto simp: authorization_require_def b localtime_def Let_def simp del: getters split: if_splits option.splits)
qed

text \<open>C38: A request that passes AuthorizationRequire, ClientRequire, DomainRequire and
  UserRequire has a token that has not expired at the date of the context, the name
  of its client, its domain and its user; the token is the one the context
  already had, or one that a method gave without an error.\<close>

theorem controls_require_all:
  assumes "get_context bound [authorization_require ms, client_require, domain_require, user_require] now s =
    (ctx, None, s')"
  shows "au_token (ac_authorization ctx) \<noteq> [] \<and> au_service (ac_authorization ctx) \<noteq> [] \<and>
    get_dc (au_creds (ac_authorization ctx)) \<noteq> 0 \<and> get_user_id (au_creds (ac_authorization ctx)) \<noteq> 0 \<and>
    (\<exists>d. ac_date ctx = Some d \<and> \<not> is_expired (get_expires_at (au_creds (ac_authorization ctx))) d) \<and>
    ((\<exists>b. bound = Some b \<and> ac_authorization b = ac_authorization ctx) \<or>
      (\<exists>m \<in> set ms. \<exists>t t'. m t = ((Some (ac_authorization ctx), None), t')))"
proof -
  let ?app = "case bound of Some app \<Rightarrow> app | None \<Rightarrow> \<lparr>ac_date = Some now, ac_authorization = zero_authorization\<rparr>"
  have a: "authorization_require ms now ?app s = (None, ctx, s')"
    and r: "au_service (ac_authorization ctx) \<noteq> []" "get_dc (au_creds (ac_authorization ctx)) \<noteq> 0"
      "get_user_id (au_creds (ac_authorization ctx)) \<noteq> 0"
    using assms
    by (auto simp: get_context_def client_require_def domain_require_def user_require_def Let_def
        simp del: getters split: prod.splits option.splits if_splits)
  have "au_token zero_authorization = []" by (simp add: zero_authorization_def)
  then show ?thesis
    using r authorization_require_ok [OF a] by (cases bound) auto
qed

definition example_creds :: userinfo where
  "example_creds = \<lparr>ui_dc = 1, ui_user_id = 2, ui_expires_at = 5, ui_scope = [], ui_permissions = []\<rparr>"

definition example_method :: "unit auth_method" where
  "example_method s =
     ((Some \<lparr>au_service = ''engine'', au_method = [], au_native = None, au_token = ''t'',
        au_creds = Some example_creds\<rparr>, None), s)"

lemma controls_require_all_witness:
  "au_token (ac_authorization (fst (get_context None
     [authorization_require [example_method], client_require, domain_require, user_require] 1 ()))) \<noteq> []"
proof -
  obtain ctx where
    "get_context None [authorization_require [example_method], client_require, domain_require, user_require] 1 () =
      (ctx, None, ())"
    by (simp add: get_context_def authorization_require_def client_require_def domain_require_def
        user_require_def example_method_def example_creds_def zero_authorization_def localtime_def
        is_expired_def go_div_def Let_def)
  from controls_require_all [OF this] this show ?thesis by simp
qed

end
