(* ===== verification/Auth_Cache.thy ===== *)
theory Auth_Cache
  imports Chat_Prelude
begin

text \<open>
  auth/cache.go: the cache of fixed size that drops the least recently used
  entry.  The list of container/list and the map share their elements by
  pointers: a cell has an address, the list is the sequence of addresses from
  front to back, and the map holds addresses.  The abstract value of a cache is
  the list of its entries from the newest to the oldest.
\<close>

record ('k, 'v) lru_entry =
  le_key :: 'k
  le_value :: 'v
  le_expire :: int

text \<open>What the callback of an eviction is given: Purge hands it the entry, the removal
  of an element the value.\<close>

datatype ('k, 'v) evicted = EvictedEntry 'k "('k, 'v) lru_entry" | EvictedValue 'k 'v

record ('k, 'v) lru =
  lru_size :: int
  lru_list :: "nat list"
  lru_cells :: "(nat \<times> ('k, 'v) lru_entry) list"
  lru_items :: "('k \<times> nat) list"
  lru_next :: nat
  lru_callback :: bool
  lru_evicted :: "('k, 'v) evicted list"
  lru_name :: string
  lru_default_expiry :: int
  lru_event :: string

definition new_lru_with_evict :: "int \<Rightarrow> bool \<Rightarrow> ('k, 'v) lru" where
  "new_lru_with_evict sz callback =
     \<lparr>lru_size = (if sz \<le> 0 then 512 else sz), lru_list = [], lru_cells = [], lru_items = [],
      lru_next = 0, lru_callback = callback, lru_evicted = [], lru_name = [],
      lru_default_expiry = 0, lru_event = []\<rparr>"

definition new_lru :: "int \<Rightarrow> ('k, 'v) lru" where
  "new_lru sz = new_lru_with_evict sz False"

definition new_lru_with_params :: "int \<Rightarrow> string \<Rightarrow> int \<Rightarrow> string \<Rightarrow> ('k, 'v) lru" where
  "new_lru_with_params sz name default_expiry event =
     (new_lru sz)\<lparr>lru_name := name, lru_default_expiry := default_expiry, lru_event := event\<rparr>"

text \<open>The entry at an address; the list holds only addresses of cells.\<close>

definition cell :: "('k, 'v) lru \<Rightarrow> nat \<Rightarrow> ('k, 'v) lru_entry" where
  "cell c a = the (map_of (lru_cells c) a)"

definition evict_log :: "('k, 'v) evicted list \<Rightarrow> ('k, 'v) lru \<Rightarrow> ('k, 'v) lru" where
  "evict_log es c = (if lru_callback c then c\<lparr>lru_evicted := lru_evicted c @ es\<rparr> else c)"

definition lru_purge :: "('k, 'v) lru \<Rightarrow> ('k, 'v) lru" where
  "lru_purge c =
     (let c = evict_log (map (\<lambda>(k, a). EvictedEntry k (cell c a)) (lru_items c)) c
      in c\<lparr>lru_list := [], lru_items := []\<rparr>)"

definition remove_element :: "nat \<Rightarrow> ('k, 'v) lru \<Rightarrow> ('k, 'v) lru" where
  "remove_element a c =
     (let c = c\<lparr>lru_list := remove1 a (lru_list c)\<rparr>;
          kv = cell c a;
          c = c\<lparr>lru_items := AList.delete (le_key kv) (lru_items c)\<rparr>
      in evict_log [EvictedValue (le_key kv) (le_value kv)] c)"

definition remove_oldest :: "('k, 'v) lru \<Rightarrow> ('k, 'v) lru" where
  "remove_oldest c = (if lru_list c = [] then c else remove_element (last (lru_list c)) c)"

definition move_to_front :: "nat \<Rightarrow> ('k, 'v) lru \<Rightarrow> ('k, 'v) lru" where
  "move_to_front a c = c\<lparr>lru_list := a # remove1 a (lru_list c)\<rparr>"

text \<open>A new element at the front of the list, with its address in the map.\<close>

definition lru_push :: "'k \<Rightarrow> 'v \<Rightarrow> int \<Rightarrow> ('k, 'v) lru \<Rightarrow> ('k, 'v) lru" where
  "lru_push key v expire c =
     (let a = lru_next c
      in c\<lparr>lru_next := Suc a,
           lru_cells := AList.update a \<lparr>le_key = key, le_value = v, le_expire = expire\<rparr> (lru_cells c),
           lru_list := a # lru_list c,
           lru_items := AList.update key a (lru_items c)\<rparr>)"

text \<open>now is the clock of the operation, in seconds.\<close>

definition lru_add_expires :: "int \<Rightarrow> 'k \<Rightarrow> 'v \<Rightarrow> int \<Rightarrow> ('k, 'v) lru \<Rightarrow> bool \<times> ('k, 'v) lru" where
  "lru_add_expires now key v expire c =
     (let expire = (if expire > 0 then to_int64 (now + expire) else expire) in
      case map_of (lru_items c) key of
        Some a \<Rightarrow>
          (let c = move_to_front a c
           in (False, c\<lparr>lru_cells := AList.update a ((cell c a)\<lparr>le_value := v, le_expire := expire\<rparr>) (lru_cells c)\<rparr>))
      | None \<Rightarrow>
          (let c = lru_push key v expire c;
               evict = (int (length (lru_list c)) > lru_size c)
           in (evict, if evict then remove_oldest c else c)))"

definition lru_add :: "int \<Rightarrow> 'k \<Rightarrow> 'v \<Rightarrow> ('k, 'v) lru \<Rightarrow> bool \<times> ('k, 'v) lru" where
  "lru_add now key v c = lru_add_expires now key v 0 c"

definition lru_add_default :: "int \<Rightarrow> 'k \<Rightarrow> 'v \<Rightarrow> ('k, 'v) lru \<Rightarrow> bool \<times> ('k, 'v) lru" where
  "lru_add_default now key v c = lru_add_expires now key v (lru_default_expiry c) c"

definition lru_get :: "int \<Rightarrow> 'k \<Rightarrow> ('k, 'v) lru \<Rightarrow> 'v option \<times> ('k, 'v) lru" where
  "lru_get now key c =
     (case map_of (lru_items c) key of
        None \<Rightarrow> (None, c)
      | Some a \<Rightarrow>
          if le_expire (cell c a) > 0 \<and> now > le_expire (cell c a) then (None, remove_element a c)
          else (Some (le_value (cell c a)), move_to_front a c))"

definition lru_remove :: "'k \<Rightarrow> ('k, 'v) lru \<Rightarrow> ('k, 'v) lru" where
  "lru_remove key c =
     (case map_of (lru_items c) key of None \<Rightarrow> c | Some a \<Rightarrow> remove_element a c)"

definition lru_len :: "('k, 'v) lru \<Rightarrow> nat" where
  "lru_len c = length (lru_list c)"

text \<open>Keys writes into a slice of as many elements as the map has, from the back of the
  list on; the outer None is the panic of a write out of its range, an inner None
  an element that is left nil.\<close>

definition lru_keys :: "('k, 'v) lru \<Rightarrow> 'k option list option" where
  "lru_keys c =
     (let ks = map (\<lambda>a. Some (le_key (cell c a))) (rev (lru_list c))
      in if length ks \<le> length (lru_items c)
         then Some (ks @ replicate (length (lru_items c) - length ks) None) else None)"

section \<open>The abstract cache\<close>

definition lru_abs :: "('k, 'v) lru \<Rightarrow> ('k, 'v) lru_entry list" where
  "lru_abs c = map (cell c) (lru_list c)"

definition abs_find :: "'k \<Rightarrow> ('k, 'v) lru_entry list \<Rightarrow> ('k, 'v) lru_entry option" where
  "abs_find k es = List.find (\<lambda>e. le_key e = k) es"

definition abs_remove :: "'k \<Rightarrow> ('k, 'v) lru_entry list \<Rightarrow> ('k, 'v) lru_entry list" where
  "abs_remove k es = filter (\<lambda>e. le_key e \<noteq> k) es"

definition abs_add :: "int \<Rightarrow> 'k \<Rightarrow> 'v \<Rightarrow> int \<Rightarrow> ('k, 'v) lru_entry list \<Rightarrow> ('k, 'v) lru_entry list" where
  "abs_add sz k v expire es =
     (let e = \<lparr>le_key = k, le_value = v, le_expire = expire\<rparr> in
      if k \<in> le_key ` set es then e # abs_remove k es else take (nat sz) (e # es))"

definition abs_get :: "int \<Rightarrow> 'k \<Rightarrow> ('k, 'v) lru_entry list \<Rightarrow> 'v option \<times> ('k, 'v) lru_entry list" where
  "abs_get now k es =
     (case abs_find k es of
        None \<Rightarrow> (None, es)
      | Some e \<Rightarrow>
          if le_expire e > 0 \<and> now > le_expire e then (None, abs_remove k es)
          else (Some (le_value e), e # abs_remove k es))"

text \<open>The list and the map hold the same cells, under their keys; a cache between two
  operations has not more of them than its size.\<close>

definition lru_wf :: "('k, 'v) lru \<Rightarrow> bool" where
  "lru_wf c \<longleftrightarrow>
     lru_size c > 0 \<and> distinct (lru_list c) \<and> distinct (map fst (lru_items c)) \<and>
     (\<forall>a \<in> set (lru_list c). a < lru_next c) \<and>
     (\<forall>k a. map_of (lru_items c) k = Some a \<longleftrightarrow> a \<in> set (lru_list c) \<and> le_key (cell c a) = k)"

definition lru_ok :: "('k, 'v) lru \<Rightarrow> bool" where
  "lru_ok c \<longleftrightarrow> lru_wf c \<and> int (length (lru_list c)) \<le> lru_size c"

lemma lru_wfD:
  assumes "lru_wf c"
  shows "lru_size c > 0" "distinct (lru_list c)" "distinct (map fst (lru_items c))"
    "a \<in> set (lru_list c) \<Longrightarrow> a < lru_next c"
    "map_of (lru_items c) k = Some a \<longleftrightarrow> a \<in> set (lru_list c) \<and> le_key (cell c a) = k"
  using assms by (auto simp: lru_wf_def)

lemma lru_okD: "lru_ok c \<Longrightarrow> lru_wf c" "lru_ok c \<Longrightarrow> int (length (lru_list c)) \<le> lru_size c"
  by (simp_all add: lru_ok_def)

lemma length_lru_abs [simp]: "length (lru_abs c) = length (lru_list c)"
  by (simp add: lru_abs_def)

lemma new_lru_ok: "lru_ok (new_lru_with_evict sz cb)"
  and new_lru_abs: "lru_abs (new_lru_with_evict sz cb) = []"
  and new_lru_size: "lru_size (new_lru_with_evict sz cb) = (if sz \<le> 0 then 512 else sz)"
  by (simp_all add: lru_ok_def lru_wf_def new_lru_with_evict_def lru_abs_def)

lemma inj_key: "lru_wf c \<Longrightarrow> inj_on (\<lambda>a. le_key (cell c a)) (set (lru_list c))"
  by (rule inj_onI) (metis lru_wfD(5) option.inject)

lemma lru_abs_distinct: "lru_wf c \<Longrightarrow> distinct (map le_key (lru_abs c))"
  using inj_key [of c] lru_wfD(2) [of c] by (simp add: lru_abs_def distinct_map comp_def)

lemma abs_find_Some:
  assumes "distinct (map le_key es)"
  shows "abs_find k es = Some e \<longleftrightarrow> e \<in> set es \<and> le_key e = k"
  using assms by (induction es) (auto simp: abs_find_def)

lemma abs_find_None: "abs_find k es = None \<longleftrightarrow> k \<notin> le_key ` set es"
  by (auto simp: abs_find_def find_None_iff)

lemma abs_find_conv:
  assumes "lru_wf c"
  shows "abs_find k (lru_abs c) = map_option (cell c) (map_of (lru_items c) k)"
proof (cases "map_of (lru_items c) k")
  case None
  then have "\<forall>a \<in> set (lru_list c). le_key (cell c a) \<noteq> k"
    by (metis lru_wfD(5) [OF assms] None option.distinct(1))
  then show ?thesis by (auto simp: None abs_find_None lru_abs_def)
next
  case (Some a)
  then have "a \<in> set (lru_list c)" "le_key (cell c a) = k" using lru_wfD(5) [OF assms] by auto
  then show ?thesis
    using abs_find_Some [OF lru_abs_distinct [OF assms]] Some by (simp add: lru_abs_def)
qed

lemma abs_keys: "lru_wf c \<Longrightarrow> k \<in> le_key ` set (lru_abs c) \<longleftrightarrow> map_of (lru_items c) k \<noteq> None"
  by (metis abs_find_None abs_find_conv map_option_is_None)

text \<open>Removing one address from the list is removing its key from the abstract list.\<close>

lemma map_remove1_key:
  assumes "lru_wf c" "a \<in> set (lru_list c)"
  shows "map (cell c) (remove1 a (lru_list c)) = abs_remove (le_key (cell c a)) (lru_abs c)"
proof -
  have "remove1 a (lru_list c) = filter (\<lambda>b. b \<noteq> a) (lru_list c)"
    using lru_wfD(2) [OF assms(1)]
    by (auto simp: distinct_remove1_removeAll removeAll_filter_not_eq intro: filter_cong)
  also have "\<dots> = filter (\<lambda>b. le_key (cell c b) \<noteq> le_key (cell c a)) (lru_list c)"
    using inj_onD [OF inj_key [OF assms(1)] _ _ assms(2)] by (intro filter_cong) auto
  finally show ?thesis by (simp add: abs_remove_def lru_abs_def filter_map comp_def)
qed

lemma evict_log_simps [simp]:
  "lru_size (evict_log es c) = lru_size c" "lru_list (evict_log es c) = lru_list c"
  "lru_cells (evict_log es c) = lru_cells c" "lru_items (evict_log es c) = lru_items c"
  "lru_next (evict_log es c) = lru_next c" "lru_abs (evict_log es c) = lru_abs c"
  "lru_wf (evict_log es c) = lru_wf c" "lru_default_expiry (evict_log es c) = lru_default_expiry c"
  by (auto simp: evict_log_def lru_abs_def lru_wf_def cell_def)

lemma cell_simps [simp]:
  "cell (c\<lparr>lru_list := l\<rparr>) = cell c" "cell (c\<lparr>lru_items := i\<rparr>) = cell c"
  "cell (c\<lparr>lru_next := n\<rparr>) = cell c" "cell (evict_log es c) = cell c"
  "cell (c\<lparr>lru_cells := AList.update b e (lru_cells c)\<rparr>) a = (if a = b then e else cell c a)"
  by (simp_all add: fun_eq_iff cell_def evict_log_def update_conv')

lemma remove_element_ok:
  assumes "lru_wf c" "a \<in> set (lru_list c)"
  shows "lru_wf (remove_element a c)"
    and "lru_abs (remove_element a c) = abs_remove (le_key (cell c a)) (lru_abs c)"
    and "lru_size (remove_element a c) = lru_size c"
    and "length (lru_list (remove_element a c)) = length (lru_list c) - 1"
    and "length (lru_list (remove_element a c)) \<le> length (lru_list c)"
proof -
  show "lru_wf (remove_element a c)"
    using assms inj_onD [OF inj_key [OF assms(1)] _ _ assms(2)]
    by (auto simp: lru_wf_def remove_element_def Let_def delete_conv' distinct_delete
        split: if_splits)
  show "lru_abs (remove_element a c) = abs_remove (le_key (cell c a)) (lru_abs c)"
    using map_remove1_key [OF assms] by (simp add: remove_element_def Let_def lru_abs_def)
qed (use assms(2) in \<open>simp_all add: remove_element_def Let_def length_remove1\<close>)

lemma move_to_front_ok:
  assumes "lru_wf c" "a \<in> set (lru_list c)"
  shows "lru_wf (move_to_front a c)"
    and "lru_abs (move_to_front a c) = cell c a # abs_remove (le_key (cell c a)) (lru_abs c)"
    and "lru_size (move_to_front a c) = lru_size c"
    and "length (lru_list (move_to_front a c)) = length (lru_list c)"
proof -
  have "set (a # remove1 a (lru_list c)) = set (lru_list c)" "distinct (a # remove1 a (lru_list c))"
    using assms(2) lru_wfD(2) [OF assms(1)] by (auto simp: set_remove1_eq)
  then show "lru_wf (move_to_front a c)"
    using assms(1) unfolding lru_wf_def move_to_front_def by (simp del: set_simps(2) distinct.simps)
  show "lru_abs (move_to_front a c) = cell c a # abs_remove (le_key (cell c a)) (lru_abs c)"
    using map_remove1_key [OF assms] by (simp add: move_to_front_def lru_abs_def)
  show "length (lru_list (move_to_front a c)) = length (lru_list c)"
    using length_pos_if_in_set [OF assms(2)] assms(2) by (simp add: move_to_front_def length_remove1)
qed (simp add: move_to_front_def)

lemma lru_update_cell:
  assumes "lru_wf c" "a \<in> set (lru_list c)" "le_key e = le_key (cell c a)"
  shows "lru_wf (c\<lparr>lru_cells := AList.update a e (lru_cells c)\<rparr>)"
    and "lru_abs (c\<lparr>lru_cells := AList.update a e (lru_cells c)\<rparr>) =
      map (\<lambda>b. if b = a then e else cell c b) (lru_list c)"
proof -
  have "le_key (cell (c\<lparr>lru_cells := AList.update a e (lru_cells c)\<rparr>) b) = le_key (cell c b)" for b
    using assms(3) by simp
  then show "lru_wf (c\<lparr>lru_cells := AList.update a e (lru_cells c)\<rparr>)"
    using assms(1) by (simp add: lru_wf_def del: cell_simps)
qed (simp add: lru_abs_def)

lemma remove_oldest_ok:
  assumes "lru_wf c"
  shows "lru_wf (remove_oldest c)" "lru_abs (remove_oldest c) = butlast (lru_abs c)"
    "lru_size (remove_oldest c) = lru_size c"
    "length (lru_list (remove_oldest c)) = length (lru_list c) - 1"
proof -
  have *: "lru_list c \<noteq> [] \<Longrightarrow> remove1 (last (lru_list c)) (lru_list c) = butlast (lru_list c)"
  proof -
    assume "lru_list c \<noteq> []"
    then obtain xs x where l: "lru_list c = xs @ [x]" by (metis append_butlast_last_id)
    then show ?thesis using lru_wfD(2) [OF assms] by (simp add: remove1_append)
  qed
  then show "lru_abs (remove_oldest c) = butlast (lru_abs c)"
    by (auto simp: remove_oldest_def remove_element_def lru_abs_def Let_def map_butlast)
  show "lru_wf (remove_oldest c)" "lru_size (remove_oldest c) = lru_size c"
    "length (lru_list (remove_oldest c)) = length (lru_list c) - 1"
    using remove_element_ok(1,3,4) [OF assms last_in_set] assms by (auto simp: remove_oldest_def)
qed

lemma lru_add_hit:
  assumes "lru_wf c" "map_of (lru_items c) k = Some a" "lru_add_expires now k v x c = (r, c')"
  shows "\<not> r \<and> lru_wf c' \<and> lru_size c' = lru_size c \<and> length (lru_list c') = length (lru_list c) \<and>
    lru_abs c' = \<lparr>le_key = k, le_value = v, le_expire = (if x > 0 then to_int64 (now + x) else x)\<rparr> # abs_remove k (lru_abs c)"
proof -
  define y where "y = (if x > 0 then to_int64 (now + x) else x)"
  let ?m = "move_to_front a c" and ?e = "\<lparr>le_key = k, le_value = v, le_expire = y\<rparr>"
  have a: "a \<in> set (lru_list c)" "le_key (cell c a) = k" using lru_wfD(5) [OF assms(1)] assms(2) by auto
  note m = move_to_front_ok [OF assms(1) a(1)]
  have m': "cell ?m = cell c" "lru_list ?m = a # remove1 a (lru_list c)" by (simp_all add: move_to_front_def)
  have "(cell c a)\<lparr>le_value := v, le_expire := y\<rparr> = ?e" using a(2) by simp
  then have run: "r = False" "c' = ?m\<lparr>lru_cells := AList.update a ?e (lru_cells ?m)\<rparr>"
    using assms(2,3) unfolding y_def [symmetric]
    by (simp_all add: lru_add_expires_def Let_def m'(1) y_def [symmetric])
  have "a \<in> set (lru_list ?m)" "le_key ?e = le_key (cell ?m a)" by (simp_all add: m' a(2))
  note u = lru_update_cell [OF m(1) this, folded run(2)]
  have "map (\<lambda>b. if b = a then ?e else cell c b) (remove1 a (lru_list c)) = map (cell c) (remove1 a (lru_list c))"
    using lru_wfD(2) [OF assms(1)] by (intro map_cong) auto
  then have "lru_abs c' = ?e # abs_remove k (lru_abs c)"
    using u(2) [unfolded m'] map_remove1_key [OF assms(1) a(1)] a(2) by simp
  then show ?thesis using run u(1) m(3,4) by (simp add: y_def)
qed

lemma lru_push_ok:
  assumes "lru_wf c" "map_of (lru_items c) k = None"
  shows "lru_wf (lru_push k v x c)"
    "lru_abs (lru_push k v x c) = \<lparr>le_key = k, le_value = v, le_expire = x\<rparr> # lru_abs c"
    "lru_size (lru_push k v x c) = lru_size c"
    "length (lru_list (lru_push k v x c)) = Suc (length (lru_list c))"
proof -
  let ?a = "lru_next c" and ?e = "\<lparr>le_key = k, le_value = v, le_expire = x\<rparr>" and ?c = "lru_push k v x c"
  have fresh: "?a \<notin> set (lru_list c)" using lru_wfD(4) [OF assms(1)] by blast
  have cell: "cell ?c b = (if b = ?a then ?e else cell c b)" for b
    by (simp add: lru_push_def cell_def update_conv' Let_def)
  have list: "lru_list ?c = ?a # lru_list c" "lru_next ?c = Suc ?a" "lru_items ?c = AList.update k ?a (lru_items c)"
    by (simp_all add: lru_push_def Let_def)
  have other: "\<forall>b \<in> set (lru_list c). le_key (cell c b) \<noteq> k"
    by (metis lru_wfD(5) [OF assms(1)] assms(2) option.distinct(1))
  have "map (cell ?c) (lru_list c) = map (cell c) (lru_list c)"
    using fresh by (intro map_cong refl) (metis cell)
  then show "lru_abs ?c = ?e # lru_abs c"
    using cell [of ?a] by (simp add: lru_abs_def list)
  have "\<forall>j b. map_of (lru_items ?c) j = Some b \<longleftrightarrow> b \<in> set (lru_list ?c) \<and> le_key (cell ?c b) = j"
    unfolding cell list using fresh other lru_wfD(5) [OF assms(1)] by (auto simp: update_conv')
  moreover have "distinct (lru_list ?c)" "distinct (map fst (lru_items ?c))" "lru_size ?c > 0"
    "\<forall>b \<in> set (lru_list ?c). b < lru_next ?c"
    using assms(1) fresh unfolding list
    by (auto simp: lru_wf_def lru_push_def Let_def distinct_update less_Suc_eq)
  ultimately show "lru_wf ?c" unfolding lru_wf_def by blast
qed (simp_all add: lru_push_def Let_def)

lemma lru_add_miss:
  assumes "lru_ok c" "map_of (lru_items c) k = None" "lru_add_expires now k v x c = (r, c')"
  shows "lru_ok c' \<and> lru_size c' = lru_size c \<and> (r \<longleftrightarrow> int (length (lru_list c)) = lru_size c) \<and>
    lru_abs c' = take (nat (lru_size c))
      (\<lparr>le_key = k, le_value = v, le_expire = (if x > 0 then to_int64 (now + x) else x)\<rparr> # lru_abs c)"
proof -
  define y where "y = (if x > 0 then to_int64 (now + x) else x)"
  note ok = lru_okD [OF assms(1)]
  note push = lru_push_ok [OF ok(1) assms(2), of v y]
  note old = remove_oldest_ok [OF push(1)]
  have run: "r = (int (length (lru_list c)) + 1 > lru_size c)"
      "c' = (if int (length (lru_list c)) + 1 > lru_size c then remove_oldest (lru_push k v y c) else lru_push k v y c)"
    using assms(2,3) push(3,4) unfolding y_def [symmetric]
    by (auto simp: lru_add_expires_def Let_def add.commute y_def [symmetric])
  show ?thesis unfolding y_def [symmetric]
  proof (cases "int (length (lru_list c)) < lru_size c")
    case True
    then show "lru_ok c' \<and> lru_size c' = lru_size c \<and> (r \<longleftrightarrow> int (length (lru_list c)) = lru_size c) \<and>
        lru_abs c' = take (nat (lru_size c)) (\<lparr>le_key = k, le_value = v, le_expire = y\<rparr> # lru_abs c)"
      using run push by (simp add: lru_ok_def)
  next
    case False
    then have full: "int (length (lru_list c)) = lru_size c" using ok(2) by simp
    let ?es = "\<lparr>le_key = k, le_value = v, le_expire = y\<rparr> # lru_abs c"
    have "butlast ?es = take (nat (lru_size c)) ?es"
      by (simp add: butlast_conv_take flip: full del: butlast.simps take_Cons)
    then show "lru_ok c' \<and> lru_size c' = lru_size c \<and> (r \<longleftrightarrow> int (length (lru_list c)) = lru_size c) \<and>
        lru_abs c' = take (nat (lru_size c)) ?es"
      using run old push full by (simp add: lru_ok_def del: butlast.simps)
  qed
qed

lemma lru_add_expires_ok:
  assumes "lru_ok c" "lru_add_expires now k v x c = (r, c')"
  shows "lru_ok c'" "lru_size c' = lru_size c"
    and "lru_abs c' = abs_add (lru_size c) k v (if x > 0 then to_int64 (now + x) else x) (lru_abs c)"
    and "r \<longleftrightarrow> k \<notin> le_key ` set (lru_abs c) \<and> int (length (lru_abs c)) = lru_size c"
  using lru_add_hit [OF lru_okD(1) [OF assms(1)] _ assms(2)] lru_add_miss [OF assms(1) _ assms(2)]
    abs_keys [OF lru_okD(1) [OF assms(1)], of k] lru_okD(2) [OF assms(1)]
  by (cases "map_of (lru_items c) k"; simp add: abs_add_def lru_ok_def)+

lemma lru_get_ok:
  assumes "lru_ok c" "lru_get now k c = (r, c')"
  shows "lru_ok c'" "lru_size c' = lru_size c" "(r, lru_abs c') = abs_get now k (lru_abs c)"
proof -
  note wf = lru_okD(1) [OF assms(1)]
  have "lru_ok c' \<and> lru_size c' = lru_size c \<and> (r, lru_abs c') = abs_get now k (lru_abs c)"
  proof (cases "map_of (lru_items c) k")
    case None
    then have "r = None" "c' = c" using assms(2) by (simp_all add: lru_get_def)
    then show ?thesis using assms(1) None by (simp add: abs_get_def abs_find_conv [OF wf])
  next
    case (Some a)
    then have a: "a \<in> set (lru_list c)" "le_key (cell c a) = k" using lru_wfD(5) [OF wf] by auto
    show ?thesis
      using assms order_trans [OF _ lru_okD(2) [OF assms(1)]] remove_element_ok [OF wf a(1)] move_to_front_ok [OF wf a(1)] Some a(2)
      by (simp add: lru_get_def abs_get_def abs_find_conv [OF wf] lru_ok_def split: if_splits)
  qed
  then show "lru_ok c'" "lru_size c' = lru_size c" "(r, lru_abs c') = abs_get now k (lru_abs c)" by blast+
qed

lemma abs_remove_absent: "k \<notin> le_key ` set es \<Longrightarrow> abs_remove k es = es"
  by (auto simp: abs_remove_def intro!: filter_True)

lemma lru_remove_ok:
  assumes "lru_ok c"
  shows "lru_ok (lru_remove k c)" "lru_size (lru_remove k c) = lru_size c"
    "lru_abs (lru_remove k c) = abs_remove k (lru_abs c)"
proof -
  note wf = lru_okD(1) [OF assms(1)]
  have "lru_ok (lru_remove k c) \<and> lru_size (lru_remove k c) = lru_size c \<and>
    lru_abs (lru_remove k c) = abs_remove k (lru_abs c)"
  proof (cases "map_of (lru_items c) k")
    case None
    then show ?thesis using assms abs_keys [OF wf, of k]
      by (simp add: lru_remove_def abs_remove_absent)
  next
    case (Some a)
    then have a: "a \<in> set (lru_list c)" "le_key (cell c a) = k" using lru_wfD(5) [OF wf] by auto
    show ?thesis using assms order_trans [OF _ lru_okD(2) [OF assms(1)]] remove_element_ok(1,2,3,5) [OF wf a(1)] Some a(2)
      by (simp add: lru_remove_def lru_ok_def)
  qed
  then show "lru_ok (lru_remove k c)" "lru_size (lru_remove k c) = lru_size c"
    "lru_abs (lru_remove k c) = abs_remove k (lru_abs c)" by blast+
qed

lemma lru_purge_ok:
  assumes "lru_ok c"
  shows "lru_ok (lru_purge c)" "lru_size (lru_purge c) = lru_size c" "lru_abs (lru_purge c) = []"
  using assms by (simp_all add: lru_purge_def Let_def lru_ok_def lru_wf_def lru_abs_def)

text \<open>The map has as many keys as the list has elements.\<close>

lemma length_items:
  assumes "lru_wf c"
  shows "length (lru_items c) = length (lru_list c)"
proof -
  have dom: "fst ` set (lru_items c) = (\<lambda>a. le_key (cell c a)) ` set (lru_list c)"
    unfolding dom_map_of_conv_image_fst [symmetric] using lru_wfD(5) [OF assms] by (auto simp: dom_def)
  have "length (lru_items c) = card (fst ` set (lru_items c))"
    using lru_wfD(3) [OF assms] by (metis distinct_card length_map set_map)
  also have "\<dots> = length (lru_list c)"
    unfolding dom using inj_key [OF assms] lru_wfD(2) [OF assms] by (simp add: card_image distinct_card)
  finally show ?thesis .
qed

lemma lru_keys_ok:
  "lru_wf c \<Longrightarrow> lru_keys c = Some (map Some (rev (map le_key (lru_abs c))))"
  by (simp add: lru_keys_def length_items lru_abs_def rev_map Let_def comp_def)


section \<open>The interface of a cache\<close>

text \<open>What the client of the cache relies on: a view of it as the list of its entries,
  the newest first, and the effect of every operation on the view.\<close>

locale object_cache =
  fixes ok :: "'c \<Rightarrow> bool"
    and view :: "'c \<Rightarrow> ('k, 'v) lru_entry list"
    and lookup :: "int \<Rightarrow> 'k \<Rightarrow> 'c \<Rightarrow> 'v option \<times> 'c"
    and drop_key :: "'k \<Rightarrow> 'c \<Rightarrow> 'c"
    and keys :: "'c \<Rightarrow> 'k option list option"
  assumes view_distinct: "ok c \<Longrightarrow> distinct (map le_key (view c))"
    and lookup_law: "ok c \<Longrightarrow> lookup now k c = (r, c') \<Longrightarrow> ok c' \<and> (r, view c') = abs_get now k (view c)"
    and drop_law: "ok c \<Longrightarrow> ok (drop_key k c) \<and> view (drop_key k c) = abs_remove k (view c)"
    and keys_law: "ok c \<Longrightarrow> keys c = Some (map Some (rev (map le_key (view c))))"

locale sized_cache = object_cache ok view lookup drop_key keys
  for ok :: "'c \<Rightarrow> bool"
    and view :: "'c \<Rightarrow> ('k, 'v) lru_entry list"
    and lookup :: "int \<Rightarrow> 'k \<Rightarrow> 'c \<Rightarrow> 'v option \<times> 'c"
    and drop_key :: "'k \<Rightarrow> 'c \<Rightarrow> 'c"
    and keys :: "'c \<Rightarrow> 'k option list option" +
  fixes insert_key :: "int \<Rightarrow> 'k \<Rightarrow> 'v \<Rightarrow> int \<Rightarrow> 'c \<Rightarrow> bool \<times> 'c"
    and capacity :: "'c \<Rightarrow> int"
  assumes insert_law: "ok c \<Longrightarrow> insert_key now k v x c = (r, c') \<Longrightarrow>
      ok c' \<and> view c' = abs_add (capacity c) k v (if x > 0 then to_int64 (now + x) else x) (view c)"
    and view_bound: "ok c \<Longrightarrow> 0 < capacity c \<and> int (length (view c)) \<le> capacity c"

text \<open>One pass over the keys that removes the entries whose value satisfies a condition;
  every lookup has its own clock.\<close>

definition sweep_step ::
  "(int \<Rightarrow> 'k \<Rightarrow> 'c \<Rightarrow> 'v option \<times> 'c) \<Rightarrow> ('k \<Rightarrow> 'c \<Rightarrow> 'c) \<Rightarrow> ('v \<Rightarrow> bool) \<Rightarrow> int \<times> 'k option \<Rightarrow> 'c \<Rightarrow> 'c" where
  "sweep_step lookup remove p tk c =
     (case snd tk of
        None \<Rightarrow> c
      | Some k \<Rightarrow>
          (case lookup (fst tk) k c of
             (None, c') \<Rightarrow> c'
           | (Some v, c') \<Rightarrow> if p v then remove k c' else c'))"

definition sweep ::
  "(int \<Rightarrow> 'k \<Rightarrow> 'c \<Rightarrow> 'v option \<times> 'c) \<Rightarrow> ('k \<Rightarrow> 'c \<Rightarrow> 'c) \<Rightarrow> ('v \<Rightarrow> bool) \<Rightarrow> (int \<times> 'k option) list \<Rightarrow> 'c \<Rightarrow> 'c" where
  "sweep lookup remove p tks c = fold (sweep_step lookup remove p) tks c"

definition entry_expired :: "int \<Rightarrow> ('k, 'v) lru_entry \<Rightarrow> bool" where
  "entry_expired now e \<longleftrightarrow> le_expire e > 0 \<and> now > le_expire e"

text \<open>The entries that a pass keeps, each with the clock of its lookup.\<close>

definition swept :: "('v \<Rightarrow> bool) \<Rightarrow> (int \<times> ('k, 'v) lru_entry) list \<Rightarrow> ('k, 'v) lru_entry list" where
  "swept p tes = map snd (filter (\<lambda>(t, e). \<not> entry_expired t e \<and> \<not> p (le_value e)) tes)"

lemma abs_remove_append [simp]: "abs_remove k (xs @ ys) = abs_remove k xs @ abs_remove k ys"
  and abs_remove_Cons [simp]: "abs_remove k (e # es) = (if le_key e = k then abs_remove k es else e # abs_remove k es)"
  and abs_remove_Nil [simp]: "abs_remove k [] = []"
  by (auto simp: abs_remove_def)

lemma abs_get_snoc:
  assumes "distinct (map le_key (D @ es @ [e]))"
  shows "abs_get t (le_key e) (D @ es @ [e]) =
    (if entry_expired t e then (None, D @ es) else (Some (le_value e), e # D @ es))"
proof -
  have "abs_find (le_key e) (D @ es @ [e]) = Some e"
    using abs_find_Some [OF assms] by simp
  moreover have "abs_remove (le_key e) D = D" "abs_remove (le_key e) es = es"
    using assms by (auto intro: abs_remove_absent)
  ultimately show ?thesis by (simp add: abs_get_def entry_expired_def)
qed

context object_cache
begin

lemma sweep_step_snoc:
  assumes "ok c" "view c = D @ es @ [e]"
  shows "ok (sweep_step lookup drop_key p (t, Some (le_key e)) c)"
    and "view (sweep_step lookup drop_key p (t, Some (le_key e)) c) = swept p [(t, e)] @ D @ es"
proof -
  obtain r c' where g: "lookup t (le_key e) c = (r, c')" by fastforce
  have dist: "distinct (map le_key (D @ es @ [e]))" using view_distinct [OF assms(1)] assms(2) by simp
  have l: "ok c'" "(r, view c') = (if entry_expired t e then (None, D @ es) else (Some (le_value e), e # D @ es))"
    using lookup_law [OF assms(1) g] abs_get_snoc [OF dist, of t] by (simp_all add: assms(2))
  have "abs_remove (le_key e) D = D" "abs_remove (le_key e) es = es"
    using dist by (auto intro: abs_remove_absent)
  then show "ok (sweep_step lookup drop_key p (t, Some (le_key e)) c)"
    "view (sweep_step lookup drop_key p (t, Some (le_key e)) c) = swept p [(t, e)] @ D @ es"
    using l drop_law [OF l(1), of "le_key e"]
    by (auto simp: sweep_step_def g swept_def split: if_splits)
qed

lemma sweep_from_back:
  assumes "ok c" "view c = D @ map snd tes"
  shows "ok (sweep lookup drop_key p (map (\<lambda>(t, e). (t, Some (le_key e))) (rev tes)) c) \<and>
    view (sweep lookup drop_key p (map (\<lambda>(t, e). (t, Some (le_key e))) (rev tes)) c) = swept p tes @ D"
  using assms
proof (induction tes arbitrary: c D rule: rev_induct)
  case Nil
  then show ?case by (simp add: sweep_def swept_def)
next
  case (snoc te tes)
  obtain t e where te: "te = (t, e)" by fastforce
  have "view c = D @ map snd tes @ [e]" using snoc.prems(2) te by simp
  note s = sweep_step_snoc [OF snoc.prems(1) this, of p t]
  show ?case
    using snoc.IH [OF s(1), of "swept p [(t, e)] @ D"] s(2)
    by (simp add: te sweep_def) (simp add: swept_def)
qed

theorem sweep_all:
  assumes "ok c" "keys c = Some ks" "length ts = length ks"
  shows "ok (sweep lookup drop_key p (zip ts ks) c)"
    and "view (sweep lookup drop_key p (zip ts ks) c) = swept p (zip (rev ts) (view c))"
proof -
  have ks: "ks = map (\<lambda>e. Some (le_key e)) (rev (view c))"
    using keys_law [OF assms(1)] assms(2) by (simp add: rev_map comp_def)
  let ?tes = "zip (rev ts) (view c)"
  have len: "length (rev ts) = length (view c)" using assms(3) ks by simp
  then have "view c = [] @ map snd ?tes" by simp
  note b = sweep_from_back [OF assms(1) this, of p]
  have "rev ?tes = zip ts (rev (view c))" using len zip_rev [of "rev ts" "view c"] by simp
  then have "map (\<lambda>(t, e). (t, Some (le_key e))) (rev ?tes) = zip ts ks"
    by (simp add: ks zip_map2)
  then show "ok (sweep lookup drop_key p (zip ts ks) c)"
    "view (sweep lookup drop_key p (zip ts ks) c) = swept p ?tes" using b by simp_all
qed

lemma keys_members: "ok c \<Longrightarrow> keys c = Some ks \<Longrightarrow> Some k \<in> set ks \<longleftrightarrow> k \<in> le_key ` set (view c)"
  using keys_law [of c] by auto

lemma lookup_subset:
  assumes "ok c" "lookup now k c = (r, c')"
  shows "set (view c') \<subseteq> set (view c)"
    and "r = Some v \<Longrightarrow> \<exists>e \<in> set (view c). le_key e = k \<and> le_value e = v \<and> \<not> entry_expired now e"
  using lookup_law [OF assms] abs_find_Some [OF view_distinct [OF assms(1)], of k]
  by (auto simp: abs_get_def abs_remove_def entry_expired_def split: option.splits if_splits)

end

context sized_cache
begin

lemma insert_subset:
  assumes "ok c" "insert_key now k v x c = (r, c')"
  shows "set (view c') \<subseteq> insert \<lparr>le_key = k, le_value = v, le_expire = (if x > 0 then to_int64 (now + x) else x)\<rparr> (set (view c))"
  using insert_law [OF assms] set_take_subset [of "nat (capacity c)" "_ # view c"]
  by (auto simp: abs_add_def abs_remove_def Let_def split: if_splits dest: in_set_takeD)

text \<open>The new entry is there, in front.\<close>

lemma insert_hd:
  assumes "ok c" "insert_key now k v x c = (r, c')"
  shows "view c' \<noteq> [] \<and> hd (view c') = \<lparr>le_key = k, le_value = v, le_expire = (if x > 0 then to_int64 (now + x) else x)\<rparr>"
  using insert_law [OF assms] view_bound [OF assms(1)]
  by (cases "nat (capacity c)") (auto simp: abs_add_def Let_def split: if_splits)

end

interpretation lru: object_cache lru_ok lru_abs lru_get lru_remove lru_keys
proof unfold_locales
  fix c :: "('k, 'v) lru"
  assume ok: "lru_ok c"
  show "distinct (map le_key (lru_abs c))" by (rule lru_abs_distinct [OF lru_okD(1) [OF ok]])
  show "lru_ok c' \<and> (r, lru_abs c') = abs_get now k (lru_abs c)" if "lru_get now k c = (r, c')" for now k r c'
    using lru_get_ok [OF ok that] by blast
  show "lru_ok (lru_remove k c) \<and> lru_abs (lru_remove k c) = abs_remove k (lru_abs c)" for k
    using lru_remove_ok [OF ok] by blast
  show "lru_keys c = Some (map Some (rev (map le_key (lru_abs c))))"
    by (rule lru_keys_ok [OF lru_okD(1) [OF ok]])
qed

interpretation lru: sized_cache lru_ok lru_abs lru_get lru_remove lru_keys lru_add_expires lru_size
proof unfold_locales
  fix c :: "('k, 'v) lru"
  assume ok: "lru_ok c"
  show "lru_ok c' \<and> lru_abs c' = abs_add (lru_size c) k v (if x > 0 then to_int64 (now + x) else x) (lru_abs c)"
    if "lru_add_expires now k v x c = (r, c')" for now k v x r c'
    using lru_add_expires_ok [OF ok that] by blast
  show "0 < lru_size c \<and> int (length (lru_abs c)) \<le> lru_size c"
    using lru_okD [OF ok] lru_wfD(1) by simp
qed

section \<open>Runs of operations\<close>

datatype ('k, 'v) cache_op =
    OpAdd 'k 'v int
  | OpGet 'k
  | OpRemove 'k
  | OpRemoveOldest
  | OpPurge

datatype 'v cache_out = OutEvicted bool | OutValue "'v option" | OutNone

text \<open>One operation at its clock, on the cache and on the abstract list.\<close>

fun lru_step :: "int \<times> ('k, 'v) cache_op \<Rightarrow> ('k, 'v) lru \<Rightarrow> 'v cache_out \<times> ('k, 'v) lru" where
  "lru_step (now, OpAdd k v x) c = map_prod OutEvicted id (lru_add_expires now k v x c)"
| "lru_step (now, OpGet k) c = map_prod OutValue id (lru_get now k c)"
| "lru_step (now, OpRemove k) c = (OutNone, lru_remove k c)"
| "lru_step (now, OpRemoveOldest) c = (OutNone, remove_oldest c)"
| "lru_step (now, OpPurge) c = (OutNone, lru_purge c)"

fun abs_step :: "int \<Rightarrow> int \<times> ('k, 'v) cache_op \<Rightarrow> ('k, 'v) lru_entry list \<Rightarrow> 'v cache_out \<times> ('k, 'v) lru_entry list" where
  "abs_step sz (now, OpAdd k v x) es =
     (OutEvicted (k \<notin> le_key ` set es \<and> int (length es) = sz),
      abs_add sz k v (if x > 0 then to_int64 (now + x) else x) es)"
| "abs_step sz (now, OpGet k) es = map_prod OutValue id (abs_get now k es)"
| "abs_step sz (now, OpRemove k) es = (OutNone, abs_remove k es)"
| "abs_step sz (now, OpRemoveOldest) es = (OutNone, butlast es)"
| "abs_step sz (now, OpPurge) es = (OutNone, [])"

fun lru_run :: "(int \<times> ('k, 'v) cache_op) list \<Rightarrow> ('k, 'v) lru \<Rightarrow> 'v cache_out list \<times> ('k, 'v) lru" where
  "lru_run [] c = ([], c)"
| "lru_run (op # ops) c =
     (let (x, c') = lru_step op c; (xs, c'') = lru_run ops c' in (x # xs, c''))"

fun abs_run :: "int \<Rightarrow> (int \<times> ('k, 'v) cache_op) list \<Rightarrow> ('k, 'v) lru_entry list \<Rightarrow> 'v cache_out list \<times> ('k, 'v) lru_entry list" where
  "abs_run sz [] es = ([], es)"
| "abs_run sz (op # ops) es =
     (let (x, es') = abs_step sz op es; (xs, es'') = abs_run sz ops es' in (x # xs, es''))"

lemma lru_step_refines:
  assumes "lru_ok c" "lru_step op c = (x, c')"
  shows "lru_ok c'" "lru_size c' = lru_size c" "abs_step (lru_size c) op (lru_abs c) = (x, lru_abs c')"
proof -
  obtain now o' where op: "op = (now, o')" by fastforce
  have "lru_ok c' \<and> lru_size c' = lru_size c \<and> abs_step (lru_size c) op (lru_abs c) = (x, lru_abs c')"
  proof (cases o')
    case (OpAdd k v y)
    then obtain b where "lru_add_expires now k v y c = (b, c')" "x = OutEvicted b"
      using assms(2) op by (cases "lru_add_expires now k v y c") auto
    then show ?thesis using lru_add_expires_ok [OF assms(1)] OpAdd op by simp
  next
    case (OpGet k)
    then obtain b where g: "lru_get now k c = (b, c')" "x = OutValue b"
      using assms(2) op by (cases "lru_get now k c") auto
    show ?thesis using lru_get_ok(1,2) [OF assms(1) g(1)] lru_get_ok(3) [OF assms(1) g(1), symmetric] OpGet op g(2)
      by simp
  next
    case (OpRemove k)
    then show ?thesis using assms op lru_remove_ok [OF assms(1)] by auto
  next
    case OpRemoveOldest
    then show ?thesis using assms(2) op remove_oldest_ok [OF lru_okD(1) [OF assms(1)]] lru_okD(2) [OF assms(1)]
      by (auto simp: lru_ok_def)
  next
    case OpPurge
    then show ?thesis using assms op lru_purge_ok [OF assms(1)] by auto
  qed
  then show "lru_ok c'" "lru_size c' = lru_size c" "abs_step (lru_size c) op (lru_abs c) = (x, lru_abs c')"
    by blast+
qed

lemma lru_run_refines:
  "lru_ok c \<Longrightarrow> lru_run ops c = (xs, c') \<Longrightarrow>
    lru_ok c' \<and> lru_size c' = lru_size c \<and> abs_run (lru_size c) ops (lru_abs c) = (xs, lru_abs c')"
proof (induction ops arbitrary: c xs c')
  case (Cons op ops)
  obtain x d where s: "lru_step op c = (x, d)" by fastforce
  obtain ys d' where r: "lru_run ops d = (ys, d')" by fastforce
  show ?case
    using Cons.IH [OF lru_step_refines(1) [OF Cons.prems(1) s] r] Cons.prems(2)
      lru_step_refines [OF Cons.prems(1) s] s r
    by simp
qed simp

text \<open>C37: After any operations on a new cache (size 0 or less means 512), with any clocks,
  the answers and the entries are those of the list of entries ordered by their
  last use: an insertion into a full cache drops the oldest one, a lookup past
  the expiry drops the entry.  The cache never holds more entries than its size,
  and Keys lists their keys from the oldest to the newest without writing out of
  its slice.\<close>

theorem lru_refines_list:
  assumes "lru_run ops (new_lru_with_evict sz callback) = (xs, c)"
  shows "abs_run (if sz \<le> 0 then 512 else sz) ops [] = (xs, lru_abs c) \<and>
    int (lru_len c) \<le> (if sz \<le> 0 then 512 else sz) \<and>
    lru_keys c = Some (map Some (rev (map le_key (lru_abs c))))"
proof -
  let ?n = "if sz \<le> 0 then 512 else sz"
  have r: "lru_ok c" "lru_size c = ?n" "abs_run ?n ops [] = (xs, lru_abs c)"
    using lru_run_refines [OF new_lru_ok assms] by (simp_all only: new_lru_abs new_lru_size)
  show ?thesis
    using r(3) lru_okD [OF r(1)] unfolding r(2) lru_len_def by (intro conjI lru_keys_ok)
qed

lemma lru_refines_list_witness:
  "abs_run 2 [(0, OpAdd CHR ''a'' (1::nat) 0), (1, OpAdd CHR ''b'' 2 5), (2, OpGet CHR ''a''),
      (3, OpAdd CHR ''c'' 3 0), (4, OpGet CHR ''b'')] [] =
    ([OutEvicted False, OutEvicted False, OutValue (Some 1), OutEvicted True, OutValue None],
     [\<lparr>le_key = CHR ''c'', le_value = 3, le_expire = 0\<rparr>, \<lparr>le_key = CHR ''a'', le_value = 1, le_expire = 0\<rparr>])"
proof -
  let ?ops = "[(0, OpAdd CHR ''a'' (1::nat) 0), (1, OpAdd CHR ''b'' 2 5), (2, OpGet CHR ''a''),
      (3, OpAdd CHR ''c'' 3 0), (4, OpGet CHR ''b'')]"
  obtain xs c where r: "lru_run ?ops (new_lru_with_evict 2 False) = (xs, c)" by fastforce
  then have "xs = [OutEvicted False, OutEvicted False, OutValue (Some 1), OutEvicted True, OutValue None]"
    "lru_abs c = [\<lparr>le_key = CHR ''c'', le_value = 3, le_expire = 0\<rparr>, \<lparr>le_key = CHR ''a'', le_value = 1, le_expire = 0\<rparr>]"
    by (auto simp: new_lru_with_evict_def lru_add_expires_def lru_push_def lru_get_def move_to_front_def
        remove_oldest_def remove_element_def evict_log_def cell_def lru_abs_def)
  then show ?thesis using lru_refines_list [OF r] by simp
qed

end
