(* ===== verification/Auth_Client.thy ===== *)
theory Auth_Client
  imports Auth_Access Auth_Cache
begin

text \<open>
  auth/client.go: the client of the authorization service, with its cache of
  verified tokens and the notices that invalidate it; internal/auth/client.go:
  the older client without a cache.

  The authorization service is a function from tokens to its answer, the registry
  a function from names to the nodes of the services, or to the detail of its error;
  both are parameters, and so is the text of an error.
\<close>

section \<open>Credentials of a request\<close>

type_synonym metadata = "(string \<times> string) list"

definition hdr_access_token :: string where "hdr_access_token = ''X-Webitel-Access''"
definition hdr_from_service :: string where "hdr_from_service = ''From-Service''"
definition hdr_micro_service :: string where "hdr_micro_service = ''Micro-From-Service''"
definition hdr_authorization :: string where "hdr_authorization = ''Authorization''"
definition h2p_access_token :: string where "h2p_access_token = ''x-webitel-access''"
definition h2p_from_service :: string where "h2p_from_service = ''from-service''"
definition h2p_micro_service :: string where "h2p_micro_service = ''micro-from-service''"
definition h2p_authorization :: string where "h2p_authorization = ''authorization''"

lemmas header_defs =
  hdr_access_token_def hdr_from_service_def hdr_micro_service_def hdr_authorization_def
  h2p_access_token_def h2p_from_service_def h2p_micro_service_def h2p_authorization_def

definition network_credentials :: "string \<Rightarrow> string \<times> string" where
  "network_credentials token =
     (let method = trim_space token in
      case index_of method '' '' of
        Some sp \<Rightarrow>
          if sp > 0 then (take sp method, dropWhile (\<lambda>c. c = CHR '' '') (drop (sp + 1) method))
          else (method, [])
      | None \<Rightarrow> (method, []))"

text \<open>The value of the first of some headers that is there.\<close>

fun first_header :: "metadata \<Rightarrow> string list \<Rightarrow> string option" where
  "first_header md [] = None"
| "first_header md (h # hs) = (case map_of md h of Some v \<Rightarrow> Some v | None \<Rightarrow> first_header md hs)"

definition header_value :: "string option \<Rightarrow> string" where
  "header_value v = (case v of None \<Rightarrow> [] | Some v \<Rightarrow> v)"

definition micro_metadata_authz :: "metadata \<Rightarrow> authorization option" where
  "micro_metadata_authz md =
     (if md = [] then None
      else
        let a = zero_authorization\<lparr>au_service := header_value
              (first_header md [h2p_micro_service, hdr_micro_service, h2p_from_service, hdr_from_service])\<rparr>;
            token = first_header md [h2p_access_token, hdr_access_token];
            a = a\<lparr>au_token := header_value token\<rparr> in
        if token \<noteq> None \<and> au_token a \<noteq> [] then Some (a\<lparr>au_method := hdr_access_token\<rparr>)
        else
          let method = first_header md [h2p_authorization, hdr_authorization];
              a = a\<lparr>au_method := header_value method\<rparr> in
          if method \<noteq> None \<and> au_method a \<noteq> []
          then let (m, t) = network_credentials (au_method a) in Some (a\<lparr>au_method := m, au_token := t\<rparr>)
          else Some a)"

definition micro_context_authz :: "metadata \<Rightarrow> authorization option" where
  "micro_context_authz md = (if md = [] then None else micro_metadata_authz md)"

section \<open>Verification of a token\<close>

type_synonym token_cache = "(string, userinfo) lru"

text \<open>VerifyToken, in the steps that hold the lock of the cache or the call of the service: it looks the token up,
  removes credentials that have expired, asks the service, and stores the answer.  The cache is free in between.
  A call that has not begun, to remove, to ask, with credentials to store for a time in seconds, and done; date is
  the clock of the call in nanoseconds, now that of the step in seconds.\<close>

datatype verify_call =
    Starting int string
  | Discarding int string
  | Asking int string
  | Storing string userinfo int
  | Answered string "userinfo option" "rpc_error option"

definition verify_answer :: "int \<Rightarrow> int \<Rightarrow> string \<Rightarrow> rpc_error + userinfo \<Rightarrow> verify_call" where
  "verify_answer default_expiry date token reply =
     (case reply of
        Inl e \<Rightarrow> Answered token None (Some e)
      | Inr creds \<Rightarrow>
          if ui_expires_at creds > 0 then
            (let left_secs = go_div (to_int64 (ui_expires_at creds - go_div date 1000000)) 1000 in
             if left_secs \<le> 0 then
               Answered token (Some creds) (Some (unauthorized ''app.context.access.expired''
                 ''context: token authorization is expired''))
             else Storing token creds (if left_secs < default_expiry then left_secs else default_expiry))
          else Answered token (Some creds) None)"

fun verify_step ::
  "(string \<Rightarrow> rpc_error + userinfo) \<Rightarrow> int \<Rightarrow> verify_call \<Rightarrow> token_cache \<Rightarrow> verify_call \<times> token_cache" where
  "verify_step service now (Starting date token) c =
     (case lru_get now token c of
        (Some creds, c') \<Rightarrow>
          if \<not> is_expired (ui_expires_at creds) date then (Answered token (Some creds) None, c')
          else (Discarding date token, c')
      | (None, c') \<Rightarrow> (Asking date token, c'))"
| "verify_step service now (Discarding date token) c = (Asking date token, lru_remove token c)"
| "verify_step service now (Asking date token) c = (verify_answer (lru_default_expiry c) date token (service token), c)"
| "verify_step service now (Storing token creds expire) c =
     (Answered token (Some creds) None, snd (lru_add_expires now token creds expire c))"
| "verify_step service now (Answered token creds e) c = (Answered token creds e, c)"

text \<open>A call with nothing in between: its lookup has the first clock, its insertion the second.\<close>

fun call_clock :: "int \<Rightarrow> int \<Rightarrow> verify_call \<Rightarrow> int" where
  "call_clock now_get now_add (Starting date token) = now_get"
| "call_clock now_get now_add k = now_add"

fun call_answer :: "verify_call \<Rightarrow> userinfo option \<times> rpc_error option" where
  "call_answer (Answered token creds e) = (creds, e)"
| "call_answer k = (None, None)"

definition verify_token ::
  "(string \<Rightarrow> rpc_error + userinfo) \<Rightarrow> int \<Rightarrow> int \<Rightarrow> int \<Rightarrow> string \<Rightarrow> token_cache \<Rightarrow>
   (userinfo option \<times> rpc_error option) \<times> token_cache" where
  "verify_token service date now_get now_add token c =
     (let step = (\<lambda>(k, c). verify_step service (call_clock now_get now_add k) k c);
          (k, c) = step (step (step (step (Starting date token, c)))) in (call_answer k, c))"

text \<open>The same by cases: what is left when the cache has nothing for the token.\<close>

definition verify_fetch ::
  "(string \<Rightarrow> rpc_error + userinfo) \<Rightarrow> int \<Rightarrow> int \<Rightarrow> string \<Rightarrow> token_cache \<Rightarrow>
   (userinfo option \<times> rpc_error option) \<times> token_cache" where
  "verify_fetch service date now_add token c =
     (let (k, c) = verify_step service now_add (Asking date token) c; (k, c) = verify_step service now_add k c in (call_answer k, c))"

lemma verify_fetch_eq:
  "verify_fetch service date now_add token c =
     (case service token of
        Inl e \<Rightarrow> ((None, Some e), c)
      | Inr creds \<Rightarrow>
          (let exp = lru_default_expiry c in
           if ui_expires_at creds > 0 then
             (let left_secs = go_div (to_int64 (ui_expires_at creds - go_div date 1000000)) 1000 in
              if left_secs \<le> 0 then
                ((Some creds, Some (unauthorized ''app.context.access.expired''
                    ''context: token authorization is expired'')), c)
              else
                (let exp = (if left_secs < exp then left_secs else exp)
                 in ((Some creds, None), snd (lru_add_expires now_add token creds exp c))))
           else ((Some creds, None), c)))"
  by (simp add: verify_fetch_def verify_answer_def Let_def split: sum.split)

lemma verify_token_eq:
  "verify_token service date now_get now_add token c =
     (case lru_get now_get token c of
        (Some creds, c') \<Rightarrow>
          if \<not> is_expired (ui_expires_at creds) date then ((Some creds, None), c')
          else verify_fetch service date now_add token (lru_remove token c')
      | (None, c') \<Rightarrow> verify_fetch service date now_add token c')"
  by (simp add: verify_token_def verify_fetch_def verify_answer_def Let_def split: sum.split option.split prod.split)

text \<open>The node of a service whose id is the name of the service and the token.\<close>

definition node_matches :: "string \<Rightarrow> string \<Rightarrow> string \<Rightarrow> bool" where
  "node_matches service token node =
     (if \<not> has_prefix node service then False
      else
        let i = trim_prefix node service;
            i = (if length i > 1 \<and> i ! 0 = CHR ''-'' then drop 1 i else i)
        in i = token)"

definition lookup_node :: "string \<Rightarrow> string \<Rightarrow> string list list \<Rightarrow> string option" where
  "lookup_node service token services = List.find (node_matches service token) (concat services)"

definition get_authorization ::
  "(string \<Rightarrow> string + string list list) \<Rightarrow> (string \<Rightarrow> rpc_error + userinfo) \<Rightarrow> metadata \<Rightarrow>
   int \<Rightarrow> int \<Rightarrow> int \<Rightarrow> token_cache auth_method" where
  "get_authorization registry service md date now_get now_add c =
     (case micro_context_authz md of
        None \<Rightarrow> ((None, None), c)
      | Some a \<Rightarrow>
          if au_token a = [] then ((None, None), c)
          else
            let verify =
              (case verify_token service date now_get now_add (au_token a) c of
                 ((creds, err), c') \<Rightarrow> ((Some (a\<lparr>au_creds := creds\<rparr>), err), c'))
            in
            if au_service a \<noteq> [] \<and> au_method a = ''Bearer'' then
              (case registry (au_service a) of
                 Inl e \<Rightarrow> ((None, Some (unauthorized ''oauth.service.unauthorized''
                     (''oauth: failed to confirm service authorization; '' @ e))), c)
               | Inr services \<Rightarrow>
                   (case lookup_node (au_service a) (au_token a) services of
                      Some n \<Rightarrow> ((Some (a\<lparr>au_native := Some n\<rparr>), None), c)
                    | None \<Rightarrow> verify))
            else verify)"

section \<open>Invalidation\<close>

text \<open>clk gives the clock of each lookup of a pass; None is the panic of an index out of
  range.\<close>

definition invalidate_where :: "(nat \<Rightarrow> int) \<Rightarrow> (userinfo \<Rightarrow> bool) \<Rightarrow> token_cache \<Rightarrow> token_cache option" where
  "invalidate_where clk p c =
     (case lru_keys c of
        None \<Rightarrow> None
      | Some ks \<Rightarrow> Some (sweep lru_get lru_remove p (zip (map clk [0..<length ks]) ks) c))"

definition invalidate_session :: "string \<Rightarrow> token_cache \<Rightarrow> token_cache option" where
  "invalidate_session object_id c =
     (case lru_keys c of
        None \<Rightarrow> None
      | Some ks \<Rightarrow> Some (fold (\<lambda>k c. if k = Some object_id then lru_remove object_id c else c) ks c))"

definition invalidate_cache :: "(nat \<Rightarrow> int) \<Rightarrow> string \<Rightarrow> token_cache \<Rightarrow> token_cache option" where
  "invalidate_cache clk topic c =
     (let keys = split_on CHR ''.'' topic in
      if length keys < 3 then None
      else
        let objclass = keys ! 1; object_id = keys ! 2 in
        if objclass = ''customer'' then Some (lru_purge c)
        else if objclass = ''session'' then invalidate_session object_id c
        else if objclass = ''domain'' then
          (case parse_int object_id of
             (oid, None) \<Rightarrow> invalidate_where clk (\<lambda>u. ui_dc u = oid) c
           | (_, Some _) \<Rightarrow> Some c)
        else if objclass = ''user'' then
          (case parse_int object_id of
             (oid, None) \<Rightarrow> invalidate_where clk (\<lambda>u. ui_user_id u = oid) c
           | (_, Some _) \<Rightarrow> Some c)
        else Some c)"

section \<open>The client without a cache\<close>

record auth_user =
  aur_id :: int
  aur_domain_id :: int

definition service_engine :: string where "service_engine = ''engine''"
definition service_chat_flow :: string where "service_chat_flow = ''workflow''"
definition service_chat_srv :: string where "service_chat_srv = ''webitel.chat.server''"
definition service_chat_gate :: string where "service_chat_gate = ''webitel.chat.bot''"

definition get_service_name :: "metadata \<Rightarrow> string" where
  "get_service_name md = (if md = [] then [] else vget md hdr_from_service)"

definition network_credentials_v1 :: "string \<Rightarrow> string \<times> string" where
  "network_credentials_v1 token =
     (let credentials = trim_space token in
      case index_of credentials '' '' of
        Some sp \<Rightarrow>
          if sp > 0 then (take sp credentials, dropWhile (\<lambda>c. c = CHR '' '') (drop (sp + 1) credentials))
          else ([], credentials)
      | None \<Rightarrow> ([], credentials))"

definition get_auth_token_from_metadata :: "metadata \<Rightarrow> string \<times> string" where
  "get_auth_token_from_metadata md =
     (let credentials = vget md h2p_access_token;
          credentials = (if credentials = [] then vget md hdr_access_token else credentials) in
      if credentials \<noteq> [] then (hdr_access_token, credentials)
      else
        let credentials = vget md h2p_authorization;
            credentials = (if credentials = [] then vget md hdr_authorization else credentials) in
        if credentials \<noteq> [] then network_credentials_v1 credentials
        else (''anonymous'', []))"

definition micro_authentication ::
  "(rpc_error \<Rightarrow> string) \<Rightarrow> (string \<Rightarrow> rpc_error + userinfo) \<Rightarrow> metadata \<Rightarrow> rpc_error + auth_user option" where
  "micro_authentication err_text service md =
     (if md = [] then Inl (unauthorized ''no metadata'' [])
      else if vget md hdr_micro_service \<in> {service_chat_flow, service_chat_gate, service_chat_srv} then Inr None
      else
        let (method, token) = get_auth_token_from_metadata md in
        if token = [] then Inl (unauthorized ''invalid token'' [])
        else (case service token of
                Inl e \<Rightarrow> Inl (unauthorized ''failed to get userinfo from app'' (err_text e))
              | Inr info \<Rightarrow> Inr (Some \<lparr>aur_id = ui_user_id info, aur_domain_id = ui_dc info\<rparr>)))"

section \<open>What the client promises\<close>

lemma go_div_pos:
  assumes "go_div x 1000 > 0"
  shows "x > 0"
proof (rule ccontr)
  assume "\<not> 0 < x"
  then have "sgn x \<le> 0" "0 \<le> \<bar>x\<bar> div 1000"
    by (simp_all add: sgn_if pos_imp_zdiv_nonneg_iff)
  then have "go_div x 1000 \<le> 0"
    using mult_nonpos_nonneg by (simp add: go_div_def)
  with assms show False by simp
qed

lemma is_expired_left:
  assumes "0 \<le> date" "is_int64 date" "is_int64 x" "x > 0"
    and "go_div (to_int64 (x - go_div date 1000000)) 1000 > 0"
  shows "\<not> is_expired x date"
proof -
  have "date div 1000000 \<le> date" using assms(1) int_div_less_self [of date 1000000]
    by (cases "date = 0") simp_all
  then have d: "go_div date 1000000 = date div 1000000" "0 \<le> date div 1000000" "date div 1000000 \<le> date"
    using assms(1) by (simp_all add: go_div_nonneg pos_imp_zdiv_nonneg_iff)
  then have "is_int64 (x - go_div date 1000000)"
    using assms(2-4) by (simp add: is_int64_def)
  then have "x - go_div date 1000000 > 0" using go_div_pos [OF assms(5)] by simp
  then show ?thesis by (simp add: is_expired_def)
qed

text \<open>A clock that the program can read, and an answer that a message can carry.\<close>

definition clock_ok :: "int \<Rightarrow> bool" where
  "clock_ok date \<longleftrightarrow> 0 \<le> date \<and> is_int64 date"

definition service_ok :: "(string \<Rightarrow> rpc_error + userinfo) \<Rightarrow> bool" where
  "service_ok service \<longleftrightarrow> (\<forall>t u. service t = Inr u \<longrightarrow> is_int64 (ui_expires_at u))"

text \<open>The entries of a cache: the tokens with their credentials.\<close>

definition cached :: "token_cache \<Rightarrow> (string \<times> userinfo) set" where
  "cached c = (\<lambda>e. (le_key e, le_value e)) ` set (lru_abs c)"

lemma verify_fetch_ok:
  assumes "lru_ok c" "verify_fetch service date now_add token c = ((r, e), c')"
  shows "lru_ok c'"
    and "cached c' \<subseteq> cached c \<union> {(token, u) | u. service token = Inr u}"
    and "r = Some u \<Longrightarrow> service token = Inr u"
    and "r = Some u \<Longrightarrow> e = None \<Longrightarrow> clock_ok date \<Longrightarrow> service_ok service \<Longrightarrow> \<not> is_expired (ui_expires_at u) date"
proof -
  have add: "lru_ok (snd (lru_add_expires now_add token u x c)) \<and>
      cached (snd (lru_add_expires now_add token u x c)) \<subseteq> insert (token, u) (cached c)" for u x
  proof -
    obtain b d where a: "lru_add_expires now_add token u x c = (b, d)" by fastforce
    show ?thesis
      using lru_add_expires_ok(1) [OF assms(1) a] lru.insert_subset [OF assms(1) a] a
      by (auto simp: cached_def)
  qed
  show "lru_ok c'" "cached c' \<subseteq> cached c \<union> {(token, u) | u. service token = Inr u}"
    "r = Some u \<Longrightarrow> service token = Inr u"
    using assms add by (auto simp: verify_fetch_eq Let_def split: sum.splits if_splits)
  show "\<not> is_expired (ui_expires_at u) date" if "r = Some u" "e = None" "clock_ok date" "service_ok service"
  proof (cases "ui_expires_at u > 0")
    case True
    have u: "service token = Inr u" using assms(2) that(1)
      by (auto simp: verify_fetch_eq Let_def split: sum.splits if_splits)
    with True that(1,2) assms(2) have "go_div (to_int64 (ui_expires_at u - go_div date 1000000)) 1000 > 0"
      by (auto simp: verify_fetch_eq Let_def not_le split: if_splits)
    then show ?thesis using is_expired_left u True that by (simp add: clock_ok_def service_ok_def)
  qed (simp add: is_expired_def)
qed

lemma cached_lookup:
  assumes "lru_ok c" "lru_get now token c = (r, c')"
  shows "lru_ok c'" "cached c' \<subseteq> cached c" "r = Some u \<Longrightarrow> (token, u) \<in> cached c"
  using lru_get_ok(1) [OF assms] lru.lookup_subset [OF assms] by (auto simp: cached_def)

lemma cached_remove:
  "lru_ok c \<Longrightarrow> cached (lru_remove token c) = {(t, u) \<in> cached c. t \<noteq> token}"
  by (auto simp: cached_def lru_remove_ok abs_remove_def)

lemma verify_token_ok:
  assumes "lru_ok c" "verify_token service date now_get now_add token c = ((r, e), c')"
  shows "lru_ok c'"
    and "cached c' \<subseteq> cached c \<union> {(token, u) | u. service token = Inr u}"
    and "r = Some u \<Longrightarrow> (token, u) \<in> cached c \<or> service token = Inr u"
    and "r = Some u \<Longrightarrow> e = None \<Longrightarrow> clock_ok date \<Longrightarrow> service_ok service \<Longrightarrow> \<not> is_expired (ui_expires_at u) date"
proof -
  obtain g d where g: "lru_get now_get token c = (g, d)" by fastforce
  note look = cached_lookup [OF assms(1) g]
  consider (hit) v where "g = Some v" "\<not> is_expired (ui_expires_at v) date"
    | (late) v where "g = Some v" "is_expired (ui_expires_at v) date"
    | (miss) "g = None"
    by (cases g) auto
  then consider (hit) v where "g = Some v" "\<not> is_expired (ui_expires_at v) date" "r = Some v" "e = None" "c' = d"
    | (fetch) d' where "verify_fetch service date now_add token d' = ((r, e), c')" "lru_ok d'" "cached d' \<subseteq> cached c"
  proof cases
    case late
    then have "verify_fetch service date now_add token (lru_remove token d) = ((r, e), c')"
      using assms(2) g by (simp add: verify_token_eq)
    then show ?thesis
      using lru_remove_ok(1) [OF look(1)] cached_remove [OF look(1)] look(2) by (intro fetch [of "lru_remove token d"]) auto
  qed (use assms(2) g look in \<open>auto simp: verify_token_eq\<close>)
  note cs = this
  show "lru_ok c'" "cached c' \<subseteq> cached c \<union> {(token, u) | u. service token = Inr u}"
    "r = Some u \<Longrightarrow> (token, u) \<in> cached c \<or> service token = Inr u"
  proof -
    have "lru_ok c' \<and> cached c' \<subseteq> cached c \<union> {(token, u) | u. service token = Inr u} \<and>
        (r = Some u \<longrightarrow> (token, u) \<in> cached c \<or> service token = Inr u)"
      using cs
    proof cases
      case (hit v)
      then show ?thesis using look by auto
    next
      case (fetch d')
      note f = verify_fetch_ok(1-3) [OF fetch(2,1)]
      show ?thesis using f(1,2) f(3) [of u] fetch(3) by blast
    qed
    then show "lru_ok c'" "cached c' \<subseteq> cached c \<union> {(token, u) | u. service token = Inr u}"
      "r = Some u \<Longrightarrow> (token, u) \<in> cached c \<or> service token = Inr u" by blast+
  qed
  show "\<not> is_expired (ui_expires_at u) date" if "r = Some u" "e = None" "clock_ok date" "service_ok service"
    using cs
  proof cases
    case (fetch d')
    show ?thesis by (rule verify_fetch_ok(4) [OF fetch(2,1) that])
  qed (use that(1) in simp)
qed

text \<open>What an invalidation is about: the credentials of a token that a notice revokes.\<close>

definition revoked :: "string \<Rightarrow> string \<Rightarrow> string \<Rightarrow> userinfo \<Rightarrow> bool" where
  "revoked objclass object_id token u \<longleftrightarrow>
     objclass = ''customer'' \<or> objclass = ''session'' \<and> token = object_id \<or>
     objclass = ''domain'' \<and> parse_int object_id = (ui_dc u, None) \<or>
     objclass = ''user'' \<and> parse_int object_id = (ui_user_id u, None)"

lemma invalidate_where_ok:
  assumes "lru_ok c"
  obtains c' where "invalidate_where clk p c = Some c'" "lru_ok c'"
    "\<forall>e \<in> set (lru_abs c'). e \<in> set (lru_abs c) \<and> \<not> p (le_value e)"
    "\<forall>e \<in> set (lru_abs c). \<not> p (le_value e) \<and> (\<forall>i. \<not> entry_expired (clk i) e) \<longrightarrow> e \<in> set (lru_abs c')"
    "subseq (lru_abs c') (lru_abs c)"
proof -
  let ?es = "lru_abs c"
  obtain ks where ks: "lru_keys c = Some ks" "length ks = length ?es"
    using lru.keys_law [OF assms] by simp
  let ?ts = "map clk [0..<length ks]"
  have len: "length ?ts = length ks" by simp
  define c' where "c' = sweep lru_get lru_remove p (zip ?ts ks) c"
  note s = lru.sweep_all [OF assms ks(1) len, of p, folded c'_def]
  have sub: "subseq (lru_abs c') (map snd (zip (rev ?ts) ?es))"
    unfolding s(2) swept_def by (intro subseq_map subseq_filter_left)
  have mem: "\<exists>i. (clk i, e) \<in> set (zip (rev ?ts) ?es)" if e: "e \<in> set ?es" for e
  proof -
    obtain i where "i < length ?es" "e = ?es ! i" using e unfolding in_set_conv_nth by blast
    then have "zip (rev ?ts) ?es ! i = (clk (length ks - Suc i), e)" "i < length (zip (rev ?ts) ?es)"
      using ks(2) by (simp_all add: rev_nth)
    then have "(clk (length ks - Suc i), e) \<in> set (zip (rev ?ts) ?es)"
      using nth_mem [of i "zip (rev ?ts) ?es"] by simp
    then show ?thesis by (rule exI)
  qed
  show ?thesis
  proof (rule that)
    show "invalidate_where clk p c = Some c'" by (simp add: invalidate_where_def ks c'_def)
    show "lru_ok c'" by (rule s(1))
    show "\<forall>e \<in> set (lru_abs c'). e \<in> set ?es \<and> \<not> p (le_value e)"
      unfolding s(2) by (auto simp: swept_def dest: set_zip_rightD)
    show "\<forall>e \<in> set ?es. \<not> p (le_value e) \<and> (\<forall>i. \<not> entry_expired (clk i) e) \<longrightarrow> e \<in> set (lru_abs c')"
      unfolding s(2) swept_def using mem by (force simp: image_iff)
    show "subseq (lru_abs c') ?es" using sub ks(2) by simp
  qed
qed

lemma fold_remove_session:
  assumes "lru_ok c"
  shows "lru_ok (fold (\<lambda>k c. if k = Some t then lru_remove t c else c) ks c) \<and>
    lru_abs (fold (\<lambda>k c. if k = Some t then lru_remove t c else c) ks c) =
      (if Some t \<in> set ks then abs_remove t (lru_abs c) else lru_abs c)"
  using assms
proof (induction ks arbitrary: c)
  case (Cons k ks)
  show ?case
    using Cons.IH [of "if k = Some t then lru_remove t c else c"] Cons.prems lru_remove_ok [of c t]
    by (auto simp: abs_remove_def)
qed simp

lemma invalidate_session_ok:
  assumes "lru_ok c"
  obtains c' where "invalidate_session t c = Some c'" "lru_ok c'" "lru_abs c' = abs_remove t (lru_abs c)"
proof -
  obtain ks where ks: "lru_keys c = Some ks" using lru.keys_law [OF assms] by simp
  have "Some t \<notin> set ks \<Longrightarrow> abs_remove t (lru_abs c) = lru_abs c"
    using lru.keys_members [OF assms ks] by (auto intro: abs_remove_absent)
  then show ?thesis
    using that fold_remove_session [OF assms, of t ks] by (auto simp: invalidate_session_def ks)
qed


text \<open>A notice with three parts or more never fails, and what it leaves of the cache.\<close>

lemma invalidate_cache_ok:
  assumes "lru_ok c" "split_on CHR ''.'' topic = verb # objclass # object_id # rest"
  obtains c' where "invalidate_cache clk topic c = Some c'" "lru_ok c'" "subseq (lru_abs c') (lru_abs c)"
    "\<forall>e \<in> set (lru_abs c'). \<not> revoked objclass object_id (le_key e) (le_value e)"
    "\<forall>e \<in> set (lru_abs c). \<not> revoked objclass object_id (le_key e) (le_value e) \<and>
      (\<forall>i. \<not> entry_expired (clk i) e) \<longrightarrow> e \<in> set (lru_abs c')"
proof -
  obtain oid err where pi: "parse_int object_id = (oid, err)" by fastforce
  consider (customer) "objclass = ''customer''" | (session) "objclass = ''session''"
    | (domain) "objclass = ''domain''" "err = None" | (user) "objclass = ''user''" "err = None"
    | (other) "objclass \<notin> {''customer'', ''session''}"
        "objclass \<in> {''domain'', ''user''} \<longrightarrow> err \<noteq> None" "objclass \<notin> {''domain'', ''user''} \<or> err \<noteq> None"
    by blast
  then show ?thesis
  proof cases
    case customer
    then show ?thesis
      using that [of "lru_purge c"] lru_purge_ok [OF assms(1)] assms(2)
      by (simp add: invalidate_cache_def revoked_def)
  next
    case session
    obtain c' where s: "invalidate_session object_id c = Some c'" "lru_ok c'" "lru_abs c' = abs_remove object_id (lru_abs c)"
      using invalidate_session_ok [OF assms(1)] .
    then show ?thesis
      using that [of c'] session assms(2)
      by (simp add: invalidate_cache_def revoked_def abs_remove_def)
  next
    case domain
    obtain c' where s: "invalidate_where clk (\<lambda>u. ui_dc u = oid) c = Some c'" "lru_ok c'"
      "\<forall>e \<in> set (lru_abs c'). e \<in> set (lru_abs c) \<and> \<not> ui_dc (le_value e) = oid"
      "\<forall>e \<in> set (lru_abs c). \<not> ui_dc (le_value e) = oid \<and> (\<forall>i. \<not> entry_expired (clk i) e) \<longrightarrow> e \<in> set (lru_abs c')"
      "subseq (lru_abs c') (lru_abs c)"
      using invalidate_where_ok [OF assms(1)] .
    show ?thesis
      using that [OF _ s(2,5)] s(1,3,4) domain assms(2) pi
      by (fastforce simp: invalidate_cache_def revoked_def)
  next
    case user
    obtain c' where s: "invalidate_where clk (\<lambda>u. ui_user_id u = oid) c = Some c'" "lru_ok c'"
      "\<forall>e \<in> set (lru_abs c'). e \<in> set (lru_abs c) \<and> \<not> ui_user_id (le_value e) = oid"
      "\<forall>e \<in> set (lru_abs c). \<not> ui_user_id (le_value e) = oid \<and> (\<forall>i. \<not> entry_expired (clk i) e) \<longrightarrow> e \<in> set (lru_abs c')"
      "subseq (lru_abs c') (lru_abs c)"
      using invalidate_where_ok [OF assms(1)] .
    show ?thesis
      using that [OF _ s(2,5)] s(1,3,4) user assms(2) pi
      by (fastforce simp: invalidate_cache_def revoked_def)
  next
    case other
    then show ?thesis
      using that [of c] assms pi
      by (cases err) (auto simp: invalidate_cache_def revoked_def)
  qed
qed

text \<open>A run of the client: calls to verify a token, each with the answer of the service
  at that time and its clocks, and notices.  None is a panic.\<close>

datatype client_op =
    Verify "string \<Rightarrow> rpc_error + userinfo" int int int string
  | Notice "nat \<Rightarrow> int" string

type_synonym verified = "string \<times> userinfo option \<times> rpc_error option"

fun client_run :: "client_op list \<Rightarrow> token_cache \<Rightarrow> (verified list \<times> token_cache) option" where
  "client_run [] c = Some ([], c)"
| "client_run (Verify service date now_get now_add token # ops) c =
     (case verify_token service date now_get now_add token c of
        (r, c') \<Rightarrow> map_option (\<lambda>(rs, c''). ((token, r) # rs, c'')) (client_run ops c'))"
| "client_run (Notice clk topic # ops) c = Option.bind (invalidate_cache clk topic c) (client_run ops)"

text \<open>A notice with less than three parts is read out of range.\<close>

lemma invalidate_cache_short:
  "length (split_on CHR ''.'' topic) < 3 \<Longrightarrow> invalidate_cache clk topic c = None"
  by (simp add: invalidate_cache_def)

lemma invalidate_cache_cached:
  assumes "lru_ok c" "invalidate_cache clk topic c = Some c'"
  shows "lru_ok c' \<and> cached c' \<subseteq> cached c"
proof -
  obtain verb rest where s: "split_on CHR ''.'' topic = verb # rest"
    by (metis list.exhaust split_on_neq_Nil)
  have "\<not> length (verb # rest) < 3" 
    using assms(2) invalidate_cache_short [of topic clk c] s by auto
  then obtain cls oid rest' where "rest = cls # oid # rest'"
    by (cases rest; cases "tl rest") auto
  with s have "split_on CHR ''.'' topic = verb # cls # oid # rest'" by simp
  then obtain d where "invalidate_cache clk topic c = Some d" "lru_ok d" "subseq (lru_abs d) (lru_abs c)"
    using invalidate_cache_ok [OF assms(1)] by metis
  then show ?thesis
    using assms(2) by (auto simp: cached_def elim: list_emb_set)
qed

text \<open>Credentials that are neither in the cache nor given by the service do not come up.\<close>

lemma client_run_free:
  assumes "lru_ok c" "\<forall>(t, u) \<in> cached c. \<not> Q t u"
    and "\<forall>service date now_get now_add token u. Verify service date now_get now_add token \<in> set ops \<longrightarrow>
      service token = Inr u \<longrightarrow> \<not> Q token u"
    and "client_run ops c = Some (rs, c')"
  shows "lru_ok c' \<and> (\<forall>(t, u) \<in> cached c'. \<not> Q t u) \<and> (\<forall>t u e. (t, Some u, e) \<in> set rs \<longrightarrow> \<not> Q t u)"
  using assms
proof (induction ops arbitrary: c rs)
  case (Cons op ops)
  have ops: "\<forall>service date now_get now_add token u. Verify service date now_get now_add token \<in> set ops \<longrightarrow>
      service token = Inr u \<longrightarrow> \<not> Q token u"
    using Cons.prems(3) by auto
  show ?case
  proof (cases op)
    case (Verify service date now_get now_add token)
    obtain r e d where v: "verify_token service date now_get now_add token c = ((r, e), d)"
      by (metis prod.exhaust)
    then obtain rs' where rs: "client_run ops d = Some (rs', c')" "rs = (token, r, e) # rs'"
      using Cons.prems(4) Verify by auto
    note t = verify_token_ok(1-3) [OF Cons.prems(1) v]
    have sv: "service token = Inr u \<Longrightarrow> \<not> Q token u" for u using Cons.prems(3) Verify by simp
    have d: "\<forall>(t, u) \<in> cached d. \<not> Q t u" using t(2) sv Cons.prems(2) by blast
    have "r = Some u \<Longrightarrow> \<not> Q token u" for u using t(3) [of u] sv Cons.prems(2) by blast
    then show ?thesis using Cons.IH [OF t(1) d ops rs(1)] rs(2) by auto
  next
    case (Notice clk topic)
    then obtain d where d: "invalidate_cache clk topic c = Some d" "client_run ops d = Some (rs, c')"
      using Cons.prems(4) by (auto simp: bind_eq_Some_conv)
    note i = invalidate_cache_cached [OF Cons.prems(1) d(1)]
    then have "\<forall>(t, u) \<in> cached d. \<not> Q t u" using Cons.prems(2) by blast
    then show ?thesis using Cons.IH [OF _ _ ops d(2)] i by blast
  qed
qed auto

lemma client_run_ok:
  "lru_ok c \<Longrightarrow> client_run ops c = Some (rs, c') \<Longrightarrow> lru_ok c'"
  using client_run_free [of c "\<lambda>t u. False" ops rs c'] by simp

lemma new_lru_4096: "lru_ok (new_lru n)"
  by (simp add: new_lru_def new_lru_ok)

text \<open>Without anything in between: take a cache that any run of the client from a new one has left, and a notice
  about a session, a domain, a user or all customers, then any further calls and
  notices.  If the service gives no credentials that the notice revokes after it,
  no call gives any: no entry of the cache survives the notice.\<close>

lemma revoked_credentials_serial:
  assumes "client_run before (new_lru n) = Some (rs0, c0)"
    and "split_on CHR ''.'' topic = verb # objclass # object_id # rest"
    and "\<forall>service date now_get now_add token u. Verify service date now_get now_add token \<in> set after \<longrightarrow>
      service token = Inr u \<longrightarrow> \<not> revoked objclass object_id token u"
  shows "\<exists>c1. invalidate_cache clk topic c0 = Some c1 \<and>
    (\<forall>rs c2. client_run after c1 = Some (rs, c2) \<longrightarrow>
      (\<forall>token u e. (token, Some u, e) \<in> set rs \<longrightarrow> \<not> revoked objclass object_id token u))"
proof -
  have "lru_ok c0" by (rule client_run_ok [OF new_lru_4096 assms(1)])
  then obtain c1 where c1: "invalidate_cache clk topic c0 = Some c1" "lru_ok c1"
    "\<forall>e \<in> set (lru_abs c1). \<not> revoked objclass object_id (le_key e) (le_value e)"
    using invalidate_cache_ok [OF _ assms(2)] by metis
  then have "\<forall>(t, u) \<in> cached c1. \<not> revoked objclass object_id t u" by (auto simp: cached_def)
  then show ?thesis using client_run_free [OF c1(2) _ assms(3)] c1(1) by blast
qed

definition example_service :: "string \<Rightarrow> rpc_error + userinfo" where
  "example_service t =
     (if t = ''a'' then Inr \<lparr>ui_dc = 1, ui_user_id = 7, ui_expires_at = 900000, ui_scope = [], ui_permissions = []\<rparr>
      else Inr \<lparr>ui_dc = 1, ui_user_id = 8, ui_expires_at = 900000, ui_scope = [], ui_permissions = []\<rparr>)"

definition no_service :: "string \<Rightarrow> rpc_error + userinfo" where
  "no_service t = Inl (unauthorized [] [])"

text \<open>A notice with three parts or more does not fail; it drops the entries of the
  credentials it revokes and only those, and those past their own expiry; the
  entries that stay keep their order.\<close>

theorem invalidate_cache_exact:
  assumes "client_run before (new_lru n) = Some (rs0, c)"
    and "split_on CHR ''.'' topic = verb # objclass # object_id # rest"
  shows "\<exists>c'. invalidate_cache clk topic c = Some c' \<and> subseq (lru_abs c') (lru_abs c) \<and>
    (\<forall>e \<in> set (lru_abs c).
      (revoked objclass object_id (le_key e) (le_value e) \<longrightarrow> e \<notin> set (lru_abs c')) \<and>
      (\<not> revoked objclass object_id (le_key e) (le_value e) \<and> (\<forall>i. \<not> entry_expired (clk i) e) \<longrightarrow>
        e \<in> set (lru_abs c')))"
  using invalidate_cache_ok [OF client_run_ok [OF new_lru_4096 assms(1)] assms(2), of clk] by metis

lemma invalidate_cache_exact_witness:
  "\<exists>rs c c'. client_run [Verify example_service 0 0 0 ''a'', Verify example_service 0 0 0 ''b''] (new_lru 4096) =
      Some (rs, c) \<and>
    invalidate_cache (\<lambda>_. 1) ''invalidate.user.7'' c = Some c' \<and>
    (\<exists>e \<in> set (lru_abs c). le_key e = ''b'' \<and> e \<in> set (lru_abs c')) \<and>
    (\<exists>e \<in> set (lru_abs c). le_key e = ''a'' \<and> e \<notin> set (lru_abs c'))"
proof -
  let ?e = "\<lambda>t i. \<lparr>le_key = t, le_value = \<lparr>ui_dc = 1, ui_user_id = i, ui_expires_at = 900000, ui_scope = [], ui_permissions = []\<rparr>,
      le_expire = 0\<rparr>"
  have "\<exists>rs c. client_run [Verify example_service 0 0 0 ''a'', Verify example_service 0 0 0 ''b''] (new_lru 4096) =
      Some (rs, c) \<and> lru_abs c = [?e ''b'' 8, ?e ''a'' 7]"
    by (simp add: verify_token_eq verify_fetch_eq lru_get_def lru_add_expires_def lru_push_def new_lru_def
        new_lru_with_evict_def example_service_def go_div_def is_int64_def lru_abs_def cell_def)
  then obtain rs c where r: "client_run [Verify example_service 0 0 0 ''a'', Verify example_service 0 0 0 ''b''] (new_lru 4096) =
      Some (rs, c)" "lru_abs c = [?e ''b'' 8, ?e ''a'' 7]" by blast
  have t: "split_on CHR ''.'' ''invalidate.user.7'' = ''invalidate'' # ''user'' # ''7'' # []" by simp
  have p: "parse_int ''7'' = (7, None)"
    by (simp add: parse_int_def parse_uint_def is_digit_def digit_val_def Let_def)
  obtain c' where c': "invalidate_cache (\<lambda>_. 1) ''invalidate.user.7'' c = Some c'"
    "?e ''b'' 8 \<in> set (lru_abs c')" "?e ''a'' 7 \<notin> set (lru_abs c')"
    using invalidate_cache_exact [OF r(1) t, of "\<lambda>_. 1"] by (auto simp: r(2) revoked_def p entry_expired_def)
  show ?thesis
    by (intro exI [of _ rs] exI [of _ c] exI [of _ c'] conjI r(1) c'(1)) (use c' in \<open>simp_all add: r(2)\<close>)
qed

text \<open>What a call gives without an error has not expired at its clock, and it is the
  answer of the service, at this call or at an earlier one for the same token.\<close>

theorem verify_token_not_expired:
  assumes "lru_ok c" "verify_token service date now_get now_add token c = ((Some u, None), c')"
    and "clock_ok date" "service_ok service"
  shows "\<not> is_expired (ui_expires_at u) date \<and> ((token, u) \<in> cached c \<or> service token = Inr u) \<and>
    lru_ok c' \<and> cached c' \<subseteq> cached c \<union> {(token, u) | u. service token = Inr u}"
  using verify_token_ok [OF assms(1,2)] assms(3,4) by blast

lemma verify_token_not_expired_witness:
  "\<exists>u. verify_token example_service 5000000 0 0 ''a'' (new_lru 4096) =
      ((Some u, None), snd (verify_token example_service 5000000 0 0 ''a'' (new_lru 4096))) \<and>
    \<not> is_expired (ui_expires_at u) 5000000"
proof -
  have "\<exists>u. fst (verify_token example_service 5000000 0 0 ''a'' (new_lru 4096)) = (Some u, None)"
    by (simp add: verify_token_eq verify_fetch_eq lru_get_def new_lru_def new_lru_with_evict_def
        example_service_def go_div_def is_int64_def)
  then obtain u where "verify_token example_service 5000000 0 0 ''a'' (new_lru 4096) =
      ((Some u, None), snd (verify_token example_service 5000000 0 0 ''a'' (new_lru 4096)))"
    by (metis prod.collapse)
  moreover have "service_ok example_service" "clock_ok 5000000"
    by (auto simp: service_ok_def example_service_def clock_ok_def is_int64_def split: if_splits)
  ultimately show ?thesis using verify_token_not_expired [OF new_lru_4096] by blast
qed

section \<open>The expiry of a cached token\<close>

text \<open>The cache of the program is made by NewLru, which leaves its default expiry at 0.\<close>

definition no_expiry :: "token_cache \<Rightarrow> bool" where
  "no_expiry c \<longleftrightarrow> lru_default_expiry c = 0 \<and> (\<forall>e \<in> set (lru_abs c). le_expire e = 0)"

lemma default_expiry_simps [simp]:
  "lru_default_expiry (remove_element a c) = lru_default_expiry c"
  "lru_default_expiry (remove_oldest c) = lru_default_expiry c"
  "lru_default_expiry (move_to_front a c) = lru_default_expiry c"
  "lru_default_expiry (lru_push k v x c) = lru_default_expiry c"
  "lru_default_expiry (lru_remove k c) = lru_default_expiry c"
  "lru_default_expiry (lru_purge c) = lru_default_expiry c"
  by (simp_all add: remove_element_def remove_oldest_def move_to_front_def lru_push_def lru_remove_def
      lru_purge_def Let_def split: option.splits)

lemma default_expiry_get: "lru_get now k c = (r, c') \<Longrightarrow> lru_default_expiry c' = lru_default_expiry c"
  by (auto simp: lru_get_def split: option.splits if_splits)

lemma default_expiry_add: "lru_add_expires now k v x c = (r, c') \<Longrightarrow> lru_default_expiry c' = lru_default_expiry c"
  by (auto simp: lru_add_expires_def Let_def split: option.splits if_splits)

lemma default_expiry_sweep:
  "lru_default_expiry (sweep lru_get lru_remove p tks c) = lru_default_expiry c"
proof (induction tks arbitrary: c)
  case (Cons tk tks)
  have "lru_default_expiry (sweep_step lru_get lru_remove p tk c) = lru_default_expiry c"
    using default_expiry_get [of "fst tk" _ c]
    by (auto simp: sweep_step_def split: option.splits prod.splits)
  then show ?case using Cons.IH by (simp add: sweep_def)
qed (simp add: sweep_def)

lemma default_expiry_session:
  "lru_default_expiry (fold (\<lambda>k c. if k = Some t then lru_remove t c else c) ks c) = lru_default_expiry c"
  by (induction ks arbitrary: c) auto

lemma default_expiry_invalidate:
  "invalidate_cache clk topic c = Some c' \<Longrightarrow> lru_default_expiry c' = lru_default_expiry c"
  by (auto simp: invalidate_cache_def invalidate_where_def invalidate_session_def default_expiry_sweep
      default_expiry_session Let_def split: if_splits option.splits prod.splits)

lemma invalidate_cache_entries:
  assumes "lru_ok c" "invalidate_cache clk topic c = Some c'"
  shows "set (lru_abs c') \<subseteq> set (lru_abs c)"
proof -
  obtain verb cls oid rest where s: "split_on CHR ''.'' topic = verb # cls # oid # rest"
    using assms(2) invalidate_cache_short [of topic clk c]
    by (cases "split_on CHR ''.'' topic"; cases "tl (split_on CHR ''.'' topic)";
        cases "tl (tl (split_on CHR ''.'' topic))") auto
  then obtain d where "invalidate_cache clk topic c = Some d" "subseq (lru_abs d) (lru_abs c)"
    using invalidate_cache_ok [OF assms(1) s] by metis
  then show ?thesis using assms(2) by (auto elim: list_emb_set)
qed

lemma verify_fetch_no_expiry:
  assumes "lru_ok c" "no_expiry c" "verify_fetch service date now_add token c = (r, c')"
  shows "no_expiry c'"
proof -
  have "no_expiry (snd (lru_add_expires now_add token u 0 c))" for u
  proof -
    obtain b d where a: "lru_add_expires now_add token u 0 c = (b, d)" by fastforce
    show ?thesis
      using lru.insert_subset [OF assms(1) a] default_expiry_add [OF a] assms(2) a
      by (auto simp: no_expiry_def)
  qed
  then show ?thesis
    using assms(2,3) by (auto simp: verify_fetch_eq Let_def no_expiry_def split: sum.splits if_splits)
qed

lemma verify_token_no_expiry:
  assumes "lru_ok c" "no_expiry c" "verify_token service date now_get now_add token c = (r, c')"
  shows "no_expiry c'"
proof -
  obtain g d where g: "lru_get now_get token c = (g, d)" by fastforce
  have d: "lru_ok d" "no_expiry d"
    using lru_get_ok(1) [OF assms(1) g] lru.lookup_subset(1) [OF assms(1) g] default_expiry_get [OF g] assms(2)
    by (auto simp: no_expiry_def)
  then have e: "lru_ok (lru_remove token d)" "no_expiry (lru_remove token d)"
    using lru_remove_ok [OF d(1)] by (auto simp: no_expiry_def abs_remove_def)
  show ?thesis
    using assms(3) g d verify_fetch_no_expiry [OF d] verify_fetch_no_expiry [OF e]
    by (cases g) (auto simp: verify_token_eq split: if_splits)
qed

lemma client_run_no_expiry:
  "lru_ok c \<Longrightarrow> no_expiry c \<Longrightarrow> client_run ops c = Some (rs, c') \<Longrightarrow> no_expiry c'"
proof (induction ops arbitrary: c rs)
  case (Cons op ops)
  show ?case
  proof (cases op)
    case (Verify service date now_get now_add token)
    obtain r e d where v: "verify_token service date now_get now_add token c = ((r, e), d)"
      by (metis prod.exhaust)
    then obtain rs' where "client_run ops d = Some (rs', c')" using Cons.prems(3) Verify by auto
    then show ?thesis
      using Cons.IH verify_token_ok(1) [OF Cons.prems(1) v] verify_token_no_expiry [OF Cons.prems(1,2) v] by blast
  next
    case (Notice clk topic)
    then obtain d where d: "invalidate_cache clk topic c = Some d" "client_run ops d = Some (rs, c')"
      using Cons.prems(3) by (auto simp: bind_eq_Some_conv)
    have "no_expiry d"
      using invalidate_cache_entries [OF Cons.prems(1) d(1)] default_expiry_invalidate [OF d(1)] Cons.prems(2)
      by (auto simp: no_expiry_def)
    then show ?thesis using Cons.IH [OF _ _ d(2)] invalidate_cache_cached [OF Cons.prems(1) d(1)] by blast
  qed
qed simp

text \<open>In the cache of the program no entry ever has an expiry, whatever the time left of
  its token: the default expiry of a cache made by NewLru is 0, and the time left is
  taken only when it is below the default.  An entry leaves the cache by eviction, by
  a notice, or at the next call for its token.\<close>

theorem cached_tokens_have_no_expiry:
  assumes "client_run ops (new_lru n) = Some (rs, c)"
  shows "\<forall>e \<in> set (lru_abs c). le_expire e = 0 \<and> \<not> entry_expired now e"
proof -
  have "no_expiry (new_lru n)" by (simp add: no_expiry_def new_lru_def new_lru_abs) (simp add: new_lru_with_evict_def)
  from client_run_no_expiry [OF new_lru_4096 this assms] show ?thesis
    by (auto simp: no_expiry_def entry_expired_def)
qed

lemma cached_tokens_have_no_expiry_witness:
  "\<exists>rs c e. client_run [Verify example_service 0 0 0 ''a''] (new_lru 4096) = Some (rs, c) \<and>
    e \<in> set (lru_abs c) \<and> ui_expires_at (le_value e) = 900000 \<and> \<not> entry_expired (10 ^ 9) e"
proof -
  have "\<exists>rs c. client_run [Verify example_service 0 0 0 ''a''] (new_lru 4096) = Some (rs, c) \<and>
      map (\<lambda>e. ui_expires_at (le_value e)) (lru_abs c) = [900000]"
    by (simp add: verify_token_eq verify_fetch_eq lru_get_def lru_add_expires_def lru_push_def new_lru_def
        new_lru_with_evict_def example_service_def go_div_def is_int64_def lru_abs_def cell_def)
  then obtain rs c where r: "client_run [Verify example_service 0 0 0 ''a''] (new_lru 4096) = Some (rs, c)"
    "map (\<lambda>e. ui_expires_at (le_value e)) (lru_abs c) = [900000]" by (elim exE conjE)
  then obtain e where "e \<in> set (lru_abs c)" "ui_expires_at (le_value e) = 900000" by auto
  then show ?thesis using cached_tokens_have_no_expiry [OF r(1), of "10 ^ 9"] r(1) by blast
qed

section \<open>Authorization of a request\<close>

lemma micro_metadata_authz_fields:
  "micro_metadata_authz md = Some a \<Longrightarrow> au_native a = None \<and> au_creds a = None"
  by (auto simp: micro_metadata_authz_def zero_authorization_def Let_def split: if_splits prod.splits)

lemma lookup_node_mem:
  "lookup_node service token services = Some n \<Longrightarrow> n \<in> set (concat services) \<and> node_matches service token n"
  unfolding lookup_node_def find_Some_iff by (metis nth_mem)

text \<open>A request that GetAuthorization accepts has a token.  Either it is a client that
  calls with the method Bearer and a node of its service is registered under the id
  that the token gives, and then the service is not asked and the cache is left as it is;
  or its credentials are verified and not expired.\<close>

theorem get_authorization_accepts:
  assumes "lru_ok c" "clock_ok date" "service_ok service"
    and "get_authorization registry service md date now_get now_add c = ((Some a, None), c')"
  shows "au_token a \<noteq> [] \<and>
    ((\<exists>services n. au_method a = ''Bearer'' \<and> au_service a \<noteq> [] \<and> registry (au_service a) = Inr services \<and>
        au_native a = Some n \<and> n \<in> set (concat services) \<and> node_matches (au_service a) (au_token a) n \<and> c' = c) \<or>
     (\<exists>u. au_creds a = Some u \<and> \<not> is_expired (ui_expires_at u) date \<and>
        ((au_token a, u) \<in> cached c \<or> service (au_token a) = Inr u)))"
proof -
  obtain z where z: "micro_context_authz md = Some z" "au_token z \<noteq> []"
    using assms(4) by (auto simp: get_authorization_def split: option.splits if_splits)
  obtain r e d where v: "verify_token service date now_get now_add (au_token z) c = ((r, e), d)"
    by (metis prod.exhaust)
  have ver: "\<exists>u. r = Some u \<and> \<not> is_expired (ui_expires_at u) date \<and> ((au_token z, u) \<in> cached c \<or> service (au_token z) = Inr u)"
    if "e = None"
  proof -
    have "r \<noteq> None" using v that
      by (auto simp: verify_token_eq verify_fetch_eq Let_def split: prod.splits option.splits if_splits sum.splits)
    then obtain u where "r = Some u" by blast
    then show ?thesis using verify_token_ok(3,4) [OF assms(1) v] that assms(2,3) by blast
  qed
  consider (node) services n where "au_service z \<noteq> []" "au_method z = ''Bearer''" "registry (au_service z) = Inr services"
      "lookup_node (au_service z) (au_token z) services = Some n" "a = z\<lparr>au_native := Some n\<rparr>" "c' = c"
    | (creds) "a = z\<lparr>au_creds := r\<rparr>" "e = None"
    using assms(4) z v
    by (auto simp: get_authorization_def Let_def split: if_splits sum.splits option.splits)
  then show ?thesis
  proof cases
    case node
    then show ?thesis using z(2) lookup_node_mem [OF node(4)] by auto
  next
    case creds
    then show ?thesis using ver z(2) by auto
  qed
qed

lemma get_authorization_accepts_witness:
  "\<exists>a. get_authorization (\<lambda>_. Inr [[''portal-1'']]) no_service
      [(''Authorization'', ''Bearer 1''), (''From-Service'', ''portal'')] 0 0 0 (new_lru 4096) =
      ((Some a, None), new_lru 4096) \<and> au_native a = Some ''portal-1'' \<and> au_token a \<noteq> []"
proof -
  let ?run = "get_authorization (\<lambda>_. Inr [[''portal-1'']]) no_service
      [(''Authorization'', ''Bearer 1''), (''From-Service'', ''portal'')] 0 0 0 (new_lru 4096)"
  have "\<exists>a. ?run = ((Some a, None), new_lru 4096) \<and> au_native a = Some ''portal-1''"
    by (simp add: get_authorization_def micro_context_authz_def micro_metadata_authz_def header_defs
        header_value_def network_credentials_def trim_space_def is_space_def Let_def zero_authorization_def
        index_of.simps has_prefix_def lookup_node_def node_matches_def trim_prefix_def)
  then obtain a where r: "?run = ((Some a, None), new_lru 4096)" "au_native a = Some ''portal-1''" by blast
  have "service_ok no_service" "clock_ok 0" by (simp_all add: service_ok_def no_service_def clock_ok_def is_int64_def)
  from get_authorization_accepts [OF new_lru_4096 this(2,1) r(1)] r show ?thesis by blast
qed

section \<open>The two clients\<close>

definition no_empty_header :: "metadata \<Rightarrow> bool" where
  "no_empty_header md \<longleftrightarrow> (\<forall>k. map_of md k \<noteq> Some [])"

lemma header_value_vget:
  assumes "no_empty_header md"
  shows "header_value (first_header md [h, k]) = (if vget md h = [] then vget md k else vget md h)"
    and "first_header md [h, k] \<noteq> None \<longleftrightarrow> (if vget md h = [] then vget md k else vget md h) \<noteq> []"
  using assms [unfolded no_empty_header_def, rule_format, of h] assms [unfolded no_empty_header_def, rule_format, of k]
  by (auto simp: header_value_def vget_def split: option.splits)

lemma network_credentials_both:
  assumes "index_of (trim_space v) '' '' = Some i" "i > 0"
  shows "network_credentials v = network_credentials_v1 v"
  using assms by (simp add: network_credentials_def network_credentials_v1_def)

text \<open>For metadata without empty values both clients read the same method and the
  same token, as long as the value of Authorization, when it is used, is a method and
  credentials with a space between.  A value without a space is a token for the older
  client and a method without a token, so no authorization, for the other.\<close>

theorem clients_read_same_token:
  assumes "md \<noteq> []" "no_empty_header md"
    and "authorization_value = (if vget md h2p_authorization = [] then vget md hdr_authorization else vget md h2p_authorization)"
    and "has_token = (vget md h2p_access_token \<noteq> [] \<or> vget md hdr_access_token \<noteq> [])"
  shows "\<exists>a. micro_context_authz md = Some a \<and>
    (has_token \<or> (\<exists>i > 0. index_of (trim_space authorization_value) '' '' = Some i) \<longrightarrow>
      get_auth_token_from_metadata md = (au_method a, au_token a)) \<and>
    (\<not> has_token \<and> authorization_value \<noteq> [] \<and> index_of (trim_space authorization_value) '' '' = None \<longrightarrow>
      get_auth_token_from_metadata md = ([], trim_space authorization_value) \<and>
      au_method a = trim_space authorization_value \<and> au_token a = [])"
proof -
  note t = header_value_vget [OF assms(2), of h2p_access_token hdr_access_token]
  note a = header_value_vget [OF assms(2), of h2p_authorization hdr_authorization, folded assms(3)]
  obtain z where z: "micro_context_authz md = Some z"
    using assms(1)
    by (cases "micro_context_authz md")
      (auto simp: micro_context_authz_def micro_metadata_authz_def Let_def simp del: first_header.simps
        split: if_splits prod.splits)
  show ?thesis
  proof (cases has_token)
    case True
    then show ?thesis
      using z assms(1,4) t
      by (auto simp: micro_context_authz_def micro_metadata_authz_def get_auth_token_from_metadata_def Let_def
          simp del: first_header.simps split: if_splits)
  next
    case False
    then have n: "first_header md [h2p_access_token, hdr_access_token] = None" using t(2) assms(4) by simp
    have g: "get_auth_token_from_metadata md =
        (if authorization_value \<noteq> [] then network_credentials_v1 authorization_value else (''anonymous'', []))"
      using False assms(3,4) by (simp add: get_auth_token_from_metadata_def Let_def)
    have "authorization_value \<noteq> [] \<Longrightarrow> network_credentials authorization_value = (au_method z, au_token z)"
      using z assms(1) a n
      by (auto simp: micro_context_authz_def micro_metadata_authz_def Let_def
          simp del: first_header.simps split: if_splits prod.splits)
    moreover have "authorization_value \<noteq> []" if "index_of (trim_space authorization_value) '' '' = Some i" for i
      using that by (auto simp: trim_space_def index_of.simps has_prefix_def)
    ultimately show ?thesis
      using z False g network_credentials_both
      by (auto simp: network_credentials_def network_credentials_v1_def split: option.splits)
  qed
qed

lemma clients_read_same_token_witness:
  "get_auth_token_from_metadata [(''authorization'', ''Bearer x'')] = (''Bearer'', ''x'') \<and>
    (\<exists>a. micro_context_authz [(''authorization'', ''Bearer x'')] = Some a \<and> (''Bearer'', ''x'') = (au_method a, au_token a))"
proof -
  let ?md = "[(''authorization'', ''Bearer x'')]"
  have g: "get_auth_token_from_metadata ?md = (''Bearer'', ''x'')"
    by (simp add: get_auth_token_from_metadata_def header_defs vget_def network_credentials_v1_def trim_space_def
        is_space_def index_of.simps has_prefix_def Let_def)
  have m: "?md \<noteq> []" "no_empty_header ?md" by (simp_all add: no_empty_header_def)
  have i: "\<exists>i > 0. index_of (trim_space ''Bearer x'') '' '' = Some i"
    by (simp add: trim_space_def is_space_def index_of.simps has_prefix_def)
  show ?thesis
    using clients_read_same_token [OF m refl refl] g i by (fastforce simp: header_defs vget_def)
qed

text \<open>A call that names one of the program's own services in Micro-From-Service passes
  the older client without a token; every other one passes only with a token that the
  authorization service knows, and then as the user and domain of that token.\<close>

theorem micro_authentication_iff:
  "micro_authentication err_text service md = Inr u \<longleftrightarrow>
    md \<noteq> [] \<and>
    (if vget md hdr_micro_service \<in> {service_chat_flow, service_chat_gate, service_chat_srv} then u = None
     else (\<exists>info. snd (get_auth_token_from_metadata md) \<noteq> [] \<and>
       service (snd (get_auth_token_from_metadata md)) = Inr info \<and>
       u = Some \<lparr>aur_id = ui_user_id info, aur_domain_id = ui_dc info\<rparr>))"
  by (auto simp: micro_authentication_def Let_def split: prod.splits sum.splits)

end
