(* ===== verification/Auth_Race.thy ===== *)
theory Auth_Race
  imports Auth_Client
begin

text \<open>
  The authorization client with several calls of VerifyToken and several notices at the same time (auth/client.go):
  the calls run in the goroutines of the requests, invalidateCache in that of the broker, and only the operations of
  the cache exclude each other.
\<close>

section \<open>A notice in steps\<close>

text \<open>A notice that has not begun, with the keys of its pass that are left, and with a token that it has looked up and
  removes next.\<close>

datatype notice_call =
    Noticed string
  | Sweeping string string "string option list"
  | Dropping string string string "string option list"
  | Handled
  | NoticePanic

definition notice_hits :: "string \<Rightarrow> string \<Rightarrow> userinfo \<Rightarrow> bool" where
  "notice_hits objclass object_id u \<longleftrightarrow>
     (if objclass = ''domain'' then ui_dc u else ui_user_id u) = fst (parse_int object_id)"

definition notice_begin :: "string \<Rightarrow> token_cache \<Rightarrow> notice_call \<times> token_cache" where
  "notice_begin topic c =
     (let keys = split_on CHR ''.'' topic in
      if length keys < 3 then (NoticePanic, c)
      else
        (let objclass = keys ! 1; object_id = keys ! 2 in
         if objclass = ''customer'' then (Handled, lru_purge c)
         else if objclass = ''session'' \<or> objclass \<in> {''domain'', ''user''} \<and> snd (parse_int object_id) = None then
           (case lru_keys c of None \<Rightarrow> (NoticePanic, c) | Some ks \<Rightarrow> (Sweeping objclass object_id ks, c))
         else (Handled, c)))"

fun notice_step :: "int \<Rightarrow> notice_call \<Rightarrow> token_cache \<Rightarrow> notice_call \<times> token_cache" where
  "notice_step now (Noticed topic) c = notice_begin topic c"
| "notice_step now (Sweeping objclass object_id []) c = (Handled, c)"
| "notice_step now (Sweeping objclass object_id (None # ks)) c = (Sweeping objclass object_id ks, c)"
| "notice_step now (Sweeping objclass object_id (Some t # ks)) c =
     (if objclass = ''session'' then (Sweeping objclass object_id ks, if t = object_id then lru_remove t c else c)
      else
        (case lru_get now t c of
           (None, c) \<Rightarrow> (Sweeping objclass object_id ks, c)
         | (Some u, c) \<Rightarrow>
             (if notice_hits objclass object_id u then Dropping objclass object_id t ks else Sweeping objclass object_id ks, c)))"
| "notice_step now (Dropping objclass object_id t ks) c = (Sweeping objclass object_id ks, lru_remove t c)"
| "notice_step now Handled c = (Handled, c)"
| "notice_step now NoticePanic c = (NoticePanic, c)"

section \<open>Calls and notices at the same time\<close>

text \<open>What the service gives is restricted by a condition on tokens and credentials; clocks are free.\<close>

type_synonym client_state = "verify_call list \<times> notice_call list \<times> token_cache"

inductive client_step :: "(string \<Rightarrow> userinfo \<Rightarrow> bool) \<Rightarrow> client_state \<Rightarrow> client_state \<Rightarrow> bool" for given where
  Called: "client_step given (ks, ns, c) (ks @ [Starting date token], ns, c)"
| Announced: "client_step given (ks, ns, c) (ks, ns @ [Noticed topic], c)"
| Verified: "i < length ks \<Longrightarrow> \<forall>t u. service t = Inr u \<longrightarrow> given t u \<Longrightarrow> verify_step service now (ks ! i) c = (k, c') \<Longrightarrow>
    client_step given (ks, ns, c) (ks[i := k], ns, c')"
| Invalidated: "j < length ns \<Longrightarrow> notice_step now (ns ! j) c = (n, c') \<Longrightarrow> client_step given (ks, ns, c) (ks, ns[j := n], c')"

abbreviation client_reach :: "(string \<Rightarrow> userinfo \<Rightarrow> bool) \<Rightarrow> client_state \<Rightarrow> client_state \<Rightarrow> bool" where
  "client_reach given \<equiv> (client_step given)\<^sup>*\<^sup>*"

section \<open>One step\<close>

lemma lookup_none_cached:
  assumes "lru_ok c" "lru_get now t c = (None, c')"
  shows "(t, u) \<notin> cached c'"
proof -
  have "(None, lru_abs c') = abs_get now t (lru_abs c)" using lru.lookup_law [OF assms] by simp
  then have "t \<notin> le_key ` set (lru_abs c')"
    by (auto simp: abs_get_def abs_remove_def abs_find_None split: option.splits if_splits)
  then show ?thesis by (auto simp: cached_def)
qed

lemma cached_unique:
  assumes "lru_ok c" "(t, u) \<in> cached c" "(t, v) \<in> cached c"
  shows "u = v"
  using assms(2,3) lru.view_distinct [OF assms(1)] by (auto simp: cached_def distinct_map dest: inj_onD)

lemma lookup_some_cached:
  assumes "lru_ok c" "lru_get now t c = (Some v, c')" "(t, u) \<in> cached c'"
  shows "u = v"
  using cached_lookup [OF assms(1,2)] cached_unique [OF assms(1), of t u v] assms(3) by blast

lemma cached_add:
  assumes "lru_ok c"
  shows "lru_ok (snd (lru_add_expires now t u x c))" "cached (snd (lru_add_expires now t u x c)) \<subseteq> insert (t, u) (cached c)"
    "(t, u) \<in> cached (snd (lru_add_expires now t u x c))"
proof -
  obtain b d where a: "lru_add_expires now t u x c = (b, d)" by fastforce
  show "lru_ok (snd (lru_add_expires now t u x c))" using lru_add_expires_ok(1) [OF assms a] a by simp
  show "cached (snd (lru_add_expires now t u x c)) \<subseteq> insert (t, u) (cached c)"
    using lru.insert_subset [OF assms a] a by (auto simp: cached_def)
  show "(t, u) \<in> cached (snd (lru_add_expires now t u x c))"
    using lru.insert_hd [OF assms a] hd_in_set [of "lru_abs d"] a by (force simp: cached_def)
qed

lemma verify_step_effect:
  assumes "verify_step service now k c = (k', c')" "lru_ok c"
  shows "lru_ok c'" "cached c' \<subseteq> cached c \<union> {(t, u). \<exists>x. k = Storing t u x}"
    and "k' = Storing t u x \<Longrightarrow> service t = Inr u"
    and "k' = Answered t (Some u) e \<Longrightarrow> k = k' \<or> (t, u) \<in> cached c \<or> service t = Inr u \<or> (\<exists>x. k = Storing t u x)"
proof -
  have "lru_ok c' \<and> cached c' \<subseteq> cached c \<union> {(t, u). \<exists>x. k = Storing t u x} \<and>
    (\<forall>t u x. k' = Storing t u x \<longrightarrow> service t = Inr u) \<and>
    (\<forall>t u e. k' = Answered t (Some u) e \<longrightarrow> k = k' \<or> (t, u) \<in> cached c \<or> service t = Inr u \<or> (\<exists>x. k = Storing t u x))"
  proof (cases k)
    case (Starting date token)
    obtain g d where g: "lru_get now token c = (g, d)" by fastforce
    note look = cached_lookup [OF assms(2) g]
    show ?thesis using assms(1) g look(1,2) look(3) by (auto simp: Starting split: option.splits if_splits)
  next
    case (Discarding date token)
    then show ?thesis using assms lru_remove_ok(1) [OF assms(2)] cached_remove [OF assms(2)] by auto
  next
    case (Asking date token)
    then show ?thesis using assms by (auto simp: verify_answer_def Let_def split: sum.splits if_splits)
  next
    case (Storing token creds expire)
    have "c' = snd (lru_add_expires now token creds expire c)" "k' = Answered token (Some creds) None"
      using assms(1) Storing by auto
    then show ?thesis
      using cached_add(1) [OF assms(2)] cached_add(2) [OF assms(2), of now token creds expire] Storing by auto
  next
    case (Answered token creds e)
    then show ?thesis using assms by auto
  qed
  then show "lru_ok c'" "cached c' \<subseteq> cached c \<union> {(t, u). \<exists>x. k = Storing t u x}"
    "k' = Storing t u x \<Longrightarrow> service t = Inr u"
    "k' = Answered t (Some u) e \<Longrightarrow> k = k' \<or> (t, u) \<in> cached c \<or> service t = Inr u \<or> (\<exists>x. k = Storing t u x)"
    by blast+
qed

lemma notice_step_shrinks:
  assumes "notice_step now n c = (n', c')" "lru_ok c"
  shows "lru_ok c' \<and> cached c' \<subseteq> cached c"
proof -
  have p: "lru_ok (lru_purge c) \<and> cached (lru_purge c) \<subseteq> cached c"
    using lru_purge_ok [OF assms(2)] by (simp add: cached_def)
  have r: "lru_ok (lru_remove t c) \<and> cached (lru_remove t c) \<subseteq> cached c" for t
    using lru_remove_ok(1) [OF assms(2)] cached_remove [OF assms(2)] by auto
  have g: "lru_ok d \<and> cached d \<subseteq> cached c" if "lru_get now t c = (x, d)" for t x d
    using cached_lookup(1,2) [OF assms(2) that] by blast
  show ?thesis using assms p r g
    by (cases "(now, n, c)" rule: notice_step.cases)
      (auto simp: notice_begin_def Let_def split: if_splits option.splits prod.splits)
qed

section \<open>The pass of a notice\<close>

text \<open>The tokens that a notice still has to come to.\<close>

fun ahead :: "notice_call \<Rightarrow> string \<Rightarrow> bool" where
  "ahead (Noticed topic) t = True"
| "ahead (Sweeping objclass object_id ks) t = (Some t \<in> set ks)"
| "ahead (Dropping objclass object_id k ks) t = (t = k \<or> Some t \<in> set ks)"
| "ahead Handled t = False"
| "ahead NoticePanic t = True"

fun notice_about :: "string \<Rightarrow> string \<Rightarrow> notice_call \<Rightarrow> bool" where
  "notice_about objclass object_id (Noticed topic) = (\<exists>verb rest. split_on CHR ''.'' topic = verb # objclass # object_id # rest)"
| "notice_about objclass object_id (Sweeping a b ks) =
     (a = objclass \<and> b = object_id \<and> (a = ''session'' \<or> a \<in> {''domain'', ''user''} \<and> snd (parse_int b) = None))"
| "notice_about objclass object_id (Dropping a b k ks) =
     (a = objclass \<and> b = object_id \<and> (a = ''session'' \<or> a \<in> {''domain'', ''user''} \<and> snd (parse_int b) = None))"
| "notice_about objclass object_id Handled = True"
| "notice_about objclass object_id NoticePanic = False"

lemma notice_step_ahead:
  assumes "notice_step now n c = (n', c')" "lru_ok c" "notice_about objclass object_id n"
    and "\<forall>(t, u) \<in> cached c. revoked objclass object_id t u \<longrightarrow> ahead n t"
  shows "notice_about objclass object_id n' \<and> (\<forall>(t, u) \<in> cached c'. revoked objclass object_id t u \<longrightarrow> ahead n' t)"
proof (cases n)
  case (Noticed topic)
  then obtain verb rest where s: "split_on CHR ''.'' topic = verb # objclass # object_id # rest" using assms(3) by auto
  have b: "(n', c') = notice_begin topic c" using assms(1) Noticed by simp
  obtain ks where ks: "lru_keys c = Some ks" "\<And>t. Some t \<in> set ks \<longleftrightarrow> t \<in> le_key ` set (lru_abs c)"
    using lru.keys_law [OF assms(2)] lru.keys_members [OF assms(2)] by auto
  consider (customer) "objclass = ''customer''"
    | (pass) "objclass = ''session'' \<or> objclass \<in> {''domain'', ''user''} \<and> snd (parse_int object_id) = None"
    | (other) "objclass \<noteq> ''customer''" "\<not> (objclass = ''session'' \<or> objclass \<in> {''domain'', ''user''} \<and> snd (parse_int object_id) = None)"
    by blast
  then show ?thesis
  proof cases
    case customer
    then have "n' = Handled" "c' = lru_purge c" using b s by (simp_all add: notice_begin_def)
    then show ?thesis using lru_purge_ok(3) [OF assms(2)] by (simp add: cached_def)
  next
    case pass
    then have "objclass \<noteq> ''customer''" by auto
    then have "n' = Sweeping objclass object_id ks" "c' = c" using b s ks(1) pass by (simp_all add: notice_begin_def)
    then show ?thesis using pass ks(2) by (auto simp: cached_def)
  next
    case other
    then have "n' = Handled" "c' = c" using b s by (auto simp: notice_begin_def)
    moreover have "\<not> revoked objclass object_id t u" for t u
      using other by (auto simp: revoked_def)
    ultimately show ?thesis by auto
  qed
next
  case (Sweeping a b ks)
  then have a: "a = objclass" "b = object_id" "objclass = ''session'' \<or> objclass \<in> {''domain'', ''user''} \<and> snd (parse_int object_id) = None"
    using assms(3) by auto
  show ?thesis
  proof (cases ks)
    case Nil
    then show ?thesis using assms(1,4) Sweeping by auto
  next
    case (Cons x rest)
    show ?thesis
    proof (cases x)
      case None
      then show ?thesis using assms(1,3,4) Sweeping Cons by auto
    next
      case (Some t)
      show ?thesis
      proof (cases "objclass = ''session''")
        case True
        then have "revoked objclass object_id k u \<longleftrightarrow> k = object_id" for k u by (simp add: revoked_def)
        then show ?thesis using assms(1,3,4) Sweeping Cons Some a True cached_remove [OF assms(2)] by (auto split: if_splits)
      next
        case False
        obtain g d where g: "lru_get now t c = (g, d)" by fastforce
        have sub: "cached d \<subseteq> cached c" using cached_lookup(2) [OF assms(2) g] .
        have r: "revoked objclass object_id k u \<longleftrightarrow> notice_hits objclass object_id u" for k u
          using a(3) False by (cases "parse_int object_id") (auto simp: revoked_def notice_hits_def)
        show ?thesis
        proof (cases g)
          case None
          then have n': "n' = Sweeping objclass object_id rest" "c' = d" using assms(1) Sweeping Cons Some a(1,2) False g by simp_all
          then show ?thesis using assms(3,4) Sweeping Cons Some a sub lookup_none_cached [OF assms(2) g [unfolded None]] by fastforce
        next
          case (Some v)
          then have n': "n' = (if notice_hits objclass object_id v then Dropping objclass object_id t rest else Sweeping objclass object_id rest)"
              "c' = d" using assms(1) Sweeping Cons \<open>x = Some t\<close> a(1,2) False g by simp_all
          have "u = v" if "(t, u) \<in> cached d" for u using lookup_some_cached [OF assms(2) g [unfolded Some] that] .
          then show ?thesis unfolding n' r using assms(3,4) [unfolded r] Sweeping Cons \<open>x = Some t\<close> a sub by fastforce
        qed
      qed
    qed
  qed
next
  case (Dropping a b t ks)
  then show ?thesis using assms cached_remove [OF assms(2)] by auto
qed (use assms in auto)

section \<open>Revoked credentials\<close>

definition clearing :: "string \<Rightarrow> string \<Rightarrow> nat \<Rightarrow> client_state \<Rightarrow> bool" where
  "clearing objclass object_id j s \<longleftrightarrow>
     (case s of (ks, ns, c) \<Rightarrow>
        lru_ok c \<and> j < length ns \<and> notice_about objclass object_id (ns ! j) \<and>
        (\<forall>t u x. Storing t u x \<in> set ks \<longrightarrow> \<not> revoked objclass object_id t u) \<and>
        (\<forall>(t, u) \<in> cached c. revoked objclass object_id t u \<longrightarrow> ahead (ns ! j) t))"

lemma in_update: "x \<in> set (xs[i := y]) \<Longrightarrow> x = y \<or> x \<in> set xs"
  using set_update_subset_insert [of xs i y] by blast

lemma client_step_clearing:
  "client_step (\<lambda>t u. \<not> revoked objclass object_id t u) s s' \<Longrightarrow> clearing objclass object_id j s \<Longrightarrow>
    clearing objclass object_id j s' \<and> (fst (snd s) ! j = Handled \<longrightarrow> fst (snd s') ! j = Handled)"
proof (induction rule: client_step.induct)
  case (Called ks ns c date token)
  then show ?case by (auto simp: clearing_def)
next
  case (Announced ks ns c topic)
  then show ?case by (auto simp: clearing_def nth_append)
next
  case (Verified i ks service now c k c' ns)
  then have l: "lru_ok c" by (simp add: clearing_def)
  note e = verify_step_effect [OF Verified(3) l]
  have old: "Storing t u x \<in> set ks \<Longrightarrow> \<not> revoked objclass object_id t u" for t u x
    using Verified(4) by (auto simp: clearing_def)
  have new: "\<not> revoked objclass object_id t u" if "Storing t u x \<in> set (ks[i := k])" for t u x
    using in_update [OF that] old e(3) [of t u x] Verified(2) by blast
  have "\<not> revoked objclass object_id t u" if "ks ! i = Storing t u x" for t u x
    using old [of t u x] nth_mem [OF Verified(1)] that by simp
  then have "\<forall>(t, u) \<in> cached c'. revoked objclass object_id t u \<longrightarrow> ahead (ns ! j) t"
    using e(2) Verified(4) by (auto simp: clearing_def)
  then show ?case using Verified(4) new e(1) by (auto simp: clearing_def)
next
  case (Invalidated i ns now c n c' ks)
  then have l: "lru_ok c" by (simp add: clearing_def)
  note s = notice_step_shrinks [OF Invalidated(2) l]
  show ?case
  proof (cases "i = j")
    case True
    have "notice_about objclass object_id n \<and> (\<forall>(t, u) \<in> cached c'. revoked objclass object_id t u \<longrightarrow> ahead n t)"
      using notice_step_ahead [OF Invalidated(2) l, of objclass object_id] Invalidated(3) True by (simp add: clearing_def)
    moreover have "n = Handled" if "ns ! j = Handled" using Invalidated(2) True that by simp
    ultimately show ?thesis using Invalidated(1,3) s True by (auto simp: clearing_def)
  next
    case False
    then show ?thesis using Invalidated(3) s by (auto simp: clearing_def)
  qed
qed

lemma client_reach_clearing:
  assumes "client_reach (\<lambda>t u. \<not> revoked objclass object_id t u) s s'" "clearing objclass object_id j s"
  shows "clearing objclass object_id j s' \<and> (fst (snd s) ! j = Handled \<longrightarrow> fst (snd s') ! j = Handled)"
  using assms
proof (induction rule: rtranclp_induct)
  case (step y z)
  then show ?case using client_step_clearing [OF step(2)] by blast
qed simp

text \<open>Once the notice is handled, an answer with revoked credentials is one that was given before.\<close>

lemma client_reach_answers:
  assumes "client_reach (\<lambda>t u. \<not> revoked objclass object_id t u) s s'" "clearing objclass object_id j s" "fst (snd s) ! j = Handled"
    and "i < length (fst s')" "fst s' ! i = Answered t (Some u) e" "revoked objclass object_id t u"
  shows "i < length (fst s) \<and> fst s ! i = Answered t (Some u) e"
  using assms(1,4,5)
proof (induction arbitrary: i rule: rtranclp_induct)
  case (step y z)
  have y: "clearing objclass object_id j y" "fst (snd y) ! j = Handled"
    using client_reach_clearing [OF step(1) assms(2)] assms(3) by auto
  have "i < length (fst y) \<and> fst y ! i = Answered t (Some u) e" using step(2,4,5) y
  proof (induction rule: client_step.induct)
    case (Called ks ns c date token)
    then show ?case by (auto simp: nth_append split: if_splits)
  next
    case (Verified l ks service now c k c' ns)
    show ?case
    proof (cases "l = i")
      case True
      have ok: "lru_ok c" using Verified(6) by (simp add: clearing_def)
      have k: "k = Answered t (Some u) e" using Verified(1,5) True by simp
      from verify_step_effect(4) [OF Verified(3) ok k] show ?thesis
      proof (elim disjE exE)
        assume "ks ! l = k"
        then show ?thesis using Verified(1) True k by simp
      next
        assume "(t, u) \<in> cached c"
        then show ?thesis using Verified(6,7) assms(6) by (auto simp: clearing_def)
      next
        assume "service t = Inr u"
        then show ?thesis using Verified(2) assms(6) by blast
      next
        fix x assume "ks ! l = Storing t u x"
        then have "Storing t u x \<in> set ks" using nth_mem [OF Verified(1)] by simp
        then show ?thesis using Verified(6) assms(6) by (auto simp: clearing_def)
      qed
    next
      case False
      then show ?thesis using Verified(4,5) by simp
    qed
  qed auto
  then show ?case using step.IH by blast
qed simp

lemma client_reach_ok:
  assumes "client_reach given s s'" "lru_ok (snd (snd s))"
  shows "lru_ok (snd (snd s'))"
  using assms
proof (induction rule: rtranclp_induct)
  case (step y z)
  from step(2) step.IH [OF step.prems] show ?case
    by (induction rule: client_step.induct) (auto dest: verify_step_effect(1) notice_step_shrinks)
qed simp

text \<open>What a call still has to store comes up after all, without the service.\<close>

lemma stored_comes_back:
  assumes "lru_ok c" "i < length ks" "ks ! i = Storing t u x" "\<not> is_expired (ui_expires_at u) date"
  shows "\<exists>ks' c'. client_reach (\<lambda>_ _. False) (ks, ns, c) (ks', ns, c') \<and> ks' ! length ks = Answered t (Some u) None"
proof -
  let ?none = "\<lambda>_ :: string. Inl (unauthorized [] []) :: rpc_error + userinfo"
  let ?d = "snd (lru_add_expires 0 t u x c)"
  let ?ks = "ks[i := Answered t (Some u) None]"
  have 1: "client_step (\<lambda>_ _. False) (ks, ns, c) (?ks, ns, ?d)"
    by (rule Verified [of i ks ?none]) (use assms(2,3) in simp_all)
  have 2: "client_step (\<lambda>_ _. False) (?ks, ns, ?d) (?ks @ [Starting date t], ns, ?d)" by (rule Called)
  obtain b d where a: "lru_add_expires 0 t u x c = (b, d)" by fastforce
  note ok = lru_add_expires_ok(1) [OF assms(1) a] and h = lru.insert_hd [OF assms(1) a]
  obtain g d' where g: "lru_get 0 t d = (g, d')" by fastforce
  have "abs_find t (lru_abs d) = Some (hd (lru_abs d))"
    using abs_find_Some [OF lru.view_distinct [OF ok]] h hd_in_set [of "lru_abs d"] by simp
  then have "g = Some u" using lru.lookup_law [OF ok g] h by (auto simp: abs_get_def split: if_splits)
  then have s: "verify_step ?none 0 (Starting date t) ?d = (Answered t (Some u) None, d')" using a g assms(4) by simp
  have "client_step (\<lambda>_ _. False) (?ks @ [Starting date t], ns, ?d)
      ((?ks @ [Starting date t])[length ks := Answered t (Some u) None], ns, d')"
    by (rule Verified [of "length ks" "?ks @ [Starting date t]" ?none]) (use s in \<open>simp_all add: nth_append\<close>)
  with 1 2 have "client_reach (\<lambda>_ _. False) (ks, ns, c) ((?ks @ [Starting date t])[length ks := Answered t (Some u) None], ns, d')"
    by (meson converse_rtranclp_into_rtranclp r_into_rtranclp)
  then show ?thesis by (intro exI conjI) (auto simp: nth_list_update)
qed

text \<open>C36: Take any state that calls and notices at the same time have led to from a new cache, a notice about a session, a
  domain, a user or all customers that is about to be handled, and a service that gives no credentials any more
  which the notice revokes.  When no call is just then between the answer of the service and the cache with such
  credentials, every call that has not answered when the notice has been handled, and every later one, answers
  without them, whatever else goes on.  But a call that is there stores them behind the notice, and later calls
  give them, although the service gives nothing.\<close>

theorem revoked_credentials_stay_out:
  assumes "client_reach (\<lambda>_ _. True) ([], [], new_lru n) (ks, ns, c)" "j < length ns" "ns ! j = Noticed topic"
    and "split_on CHR ''.'' topic = verb # objclass # object_id # rest"
    and "client_reach (\<lambda>t u. \<not> revoked objclass object_id t u) (ks, ns, c) (ks', ns', c')" "ns' ! j = Handled"
  shows "((\<forall>t u x. Storing t u x \<in> set ks \<longrightarrow> \<not> revoked objclass object_id t u) \<longrightarrow>
      (\<forall>ks'' ns'' c'' i t u e. client_reach (\<lambda>t u. \<not> revoked objclass object_id t u) (ks', ns', c') (ks'', ns'', c'') \<and>
        i < length ks'' \<and> ks'' ! i = Answered t (Some u) e \<and> \<not> (i < length ks' \<and> ks' ! i = ks'' ! i) \<longrightarrow>
        \<not> revoked objclass object_id t u)) \<and>
    (\<forall>i t u x date. i < length ks' \<and> ks' ! i = Storing t u x \<and> \<not> is_expired (ui_expires_at u) date \<longrightarrow>
      (\<exists>ks'' c''. client_reach (\<lambda>_ _. False) (ks', ns', c') (ks'', ns', c'') \<and> ks'' ! length ks' = Answered t (Some u) None))"
proof (intro conjI allI impI)
  have ok: "lru_ok c" using client_reach_ok [OF assms(1)] by (simp add: new_lru_4096)
  then have ok': "lru_ok c'" using client_reach_ok [OF assms(5)] by simp
  show "\<not> revoked objclass object_id t u"
    if s: "\<forall>t u x. Storing t u x \<in> set ks \<longrightarrow> \<not> revoked objclass object_id t u"
      and r: "client_reach (\<lambda>t u. \<not> revoked objclass object_id t u) (ks', ns', c') (ks'', ns'', c'') \<and>
        i < length ks'' \<and> ks'' ! i = Answered t (Some u) e \<and> \<not> (i < length ks' \<and> ks' ! i = ks'' ! i)"
    for ks'' ns'' c'' i t u e
  proof
    assume rv: "revoked objclass object_id t u"
    have "clearing objclass object_id j (ks, ns, c)" using ok assms(2-4) s by (auto simp: clearing_def)
    then have "clearing objclass object_id j (ks', ns', c')" using client_reach_clearing [OF assms(5)] by blast
    from client_reach_answers [OF _ this, of "(ks'', ns'', c'')" i t u e] show False using assms(6) r rv by auto
  qed
  show "\<exists>ks'' c''. client_reach (\<lambda>_ _. False) (ks', ns', c') (ks'', ns', c'') \<and> ks'' ! length ks' = Answered t (Some u) None"
    if "i < length ks' \<and> ks' ! i = Storing t u x \<and> \<not> is_expired (ui_expires_at u) date" for i t u x date
    using stored_comes_back [OF ok'] that by blast
qed

text \<open>A session is revoked while its token is being verified.\<close>

theorem revoked_credentials_stay_out_witness:
  "\<exists>ks c ks'' c'' u.
     client_reach (\<lambda>_ _. True) ([], [], new_lru 4096) (ks, [Noticed ''invalidate.session.a''], c) \<and>
     client_reach (\<lambda>t u. \<not> revoked ''session'' ''a'' t u) (ks, [Noticed ''invalidate.session.a''], c) (ks, [Handled], c) \<and>
     client_reach (\<lambda>_ _. False) (ks, [Handled], c) (ks'', [Handled], c'') \<and>
     ks'' ! length ks = Answered ''a'' (Some u) None \<and> revoked ''session'' ''a'' ''a'' u"
proof -
  let ?T = "\<lambda>_ _. True" and ?R = "\<lambda>t u. \<not> revoked ''session'' ''a'' t u"
  let ?n = "Noticed ''invalidate.session.a''" and ?c = "new_lru 4096 :: token_cache"
  obtain u where u: "example_service ''a'' = Inr u" "ui_expires_at u = 900000" by (simp add: example_service_def)
  have d: "lru_default_expiry ?c = 0" by (simp add: new_lru_def new_lru_with_evict_def)
  have g: "lru_get 0 ''a'' ?c = (None, ?c)" by (simp add: lru_get_def new_lru_def new_lru_with_evict_def)
  have st: "verify_step example_service 0 (Asking 0 ''a'') ?c = (Storing ''a'' u 0, ?c)"
    by (simp add: u verify_answer_def go_div_def is_int64_def d)
  have 1: "client_step ?T ([], [], ?c) ([Starting 0 ''a''], [], ?c)"
    using Called [of ?T "[]" "[]" ?c 0 "''a''"] by simp
  have 2: "client_step ?T ([Starting 0 ''a''], [], ?c) ([Asking 0 ''a''], [], ?c)"
    using Verified [of 0 "[Starting 0 ''a'']" example_service ?T 0 ?c "Asking 0 ''a''" ?c "[]"] by (simp add: g)
  have 3: "client_step ?T ([Asking 0 ''a''], [], ?c) ([Storing ''a'' u 0], [], ?c)"
    using Verified [of 0 "[Asking 0 ''a'']" example_service ?T 0 ?c "Storing ''a'' u 0" ?c "[]"] st by simp
  have 4: "client_step ?T ([Storing ''a'' u 0], [], ?c) ([Storing ''a'' u 0], [?n], ?c)"
    using Announced [of ?T "[Storing ''a'' u 0]" "[]" ?c "''invalidate.session.a''"] by simp
  have before: "client_reach ?T ([], [], ?c) ([Storing ''a'' u 0], [?n], ?c)"
    using 1 2 3 4 by (meson rtranclp.intros)
  have k: "lru_keys ?c = Some []" by (simp add: lru_keys_def new_lru_def new_lru_with_evict_def)
  have 5: "client_step ?R ([Storing ''a'' u 0], [?n], ?c) ([Storing ''a'' u 0], [Sweeping ''session'' ''a'' []], ?c)"
    using Invalidated [of 0 "[?n]" 0 ?c "Sweeping ''session'' ''a'' []" ?c ?R "[Storing ''a'' u 0]"] k
    by (simp add: notice_begin_def)
  have 6: "client_step ?R ([Storing ''a'' u 0], [Sweeping ''session'' ''a'' []], ?c) ([Storing ''a'' u 0], [Handled], ?c)"
    using Invalidated [of 0 "[Sweeping ''session'' ''a'' []]" 0 ?c Handled ?c ?R "[Storing ''a'' u 0]"] by simp
  have handled: "client_reach ?R ([Storing ''a'' u 0], [?n], ?c) ([Storing ''a'' u 0], [Handled], ?c)"
    using 5 6 by (meson rtranclp.intros)
  have t: "split_on CHR ''.'' ''invalidate.session.a'' = ''invalidate'' # ''session'' # ''a'' # []" by simp
  have e: "\<not> is_expired (ui_expires_at u) 0" by (simp add: is_expired_def u go_div_def)
  from conjunct2 [OF revoked_credentials_stay_out [OF before _ _ t handled, of 0], rule_format, of 0 "''a''" u 0 0] e
  obtain ks'' c'' where "client_reach (\<lambda>_ _. False) ([Storing ''a'' u 0], [Handled], ?c) (ks'', [Handled], c'')"
    "ks'' ! length [Storing ''a'' u 0] = Answered ''a'' (Some u) None" by auto
  then show ?thesis using before handled
    by (intro exI [of _ "[Storing ''a'' u 0]"] exI [of _ ?c] exI [of _ ks''] exI [of _ c''] exI [of _ u] conjI)
      (simp_all add: revoked_def)
qed

end
