(* ===== verification/Chat_Content.thy ===== *)
theory Chat_Content
  imports Chat_Prelude
begin

text \<open>
  What a message carries besides its text: files, contacts, postbacks, and the buttons of a request and of the
  keyboard that is stored (the messages of api/proto/chat, the message Content of internal/repo/sqlx/proto and the
  markup of internal/keyboard).  A missing row or button of a request is None.
\<close>

record chat_file =
  fl_id :: int
  fl_url :: string
  fl_mime :: string
  fl_size :: int
  fl_name :: string
  fl_malware :: bool

record chat_card =
  ct_id :: int
  ct_channel :: string
  ct_contact :: string

record chat_postback =
  pb_mid :: int
  pb_code :: string
  pb_text :: string

datatype share_request = SharePhone | ShareEmail | ShareContact | ShareLocation

datatype button_action = ButtonShare share_request | ButtonUrl string | ButtonCode string

record source_button =
  sb_type :: string
  sb_text :: string
  sb_caption :: string
  sb_code :: string
  sb_url :: string

record key_button =
  kb_text :: string
  kb_action :: button_action

type_synonym source_rows = "source_button option list list"

type_synonym key_rows = "key_button list list"

record message_keyboard =
  mk_rows :: key_rows
  mk_no_input :: bool

text \<open>The column content of a stored message: its raw keyboard, contact and postback, NULL when it has none of them.\<close>

record message_content =
  mt_keyboard :: "message_keyboard option"
  mt_contact :: "chat_card option"
  mt_postback :: "chat_postback option"

end
