(* ===== verification/Chat_Store.thy ===== *)
theory Chat_Store
  imports Repo_Cache Chat_Content
begin

text \<open>
  internal/repo/sqlx: the tables of conversations, channels and invites and the
  statements that change and search them (invite.go, channel.go, conversation.go,
  search.go, tx.go).

  A time is a number of microseconds, 0 the zero time of Go.  An id is the text of
  a UUID; U gives the canonical text of the UUID that a text stands for, if it stands
  for one (the drivers parse it).  The constraints of the tables are those of
  store/migration: the primary keys, one open invite of a user in a conversation,
  one open channel of a user and type in a conversation, and the conversation that a
  channel or invite belongs to.
\<close>

section \<open>Tables\<close>

record chat_invite =
  iv_id :: string
  iv_conversation_id :: string
  iv_user_id :: int
  iv_title :: null_string
  iv_timeout_sec :: int
  iv_inviter_channel_id :: null_string
  iv_closed_at :: "int option"
  iv_created_at :: int
  iv_domain_id :: int
  iv_vars :: "vars option"

record chat_conv =
  cv_id :: string
  cv_title :: string
  cv_created_at :: int
  cv_closed_at :: "int option"
  cv_updated_at :: int
  cv_domain_id :: int
  cv_vars :: "vars option"

text \<open>A column that is NULL for 0 or the empty text is that value.\<close>

record chat_document =
  do_id :: int
  do_url :: string
  do_type :: string
  do_size :: int
  do_name :: string

record chat_message =
  ms_id :: int
  ms_channel_id :: "string option"
  ms_conversation_id :: string
  ms_created_at :: int
  ms_updated_at :: "int option"
  ms_type :: string
  ms_text :: string
  ms_file :: chat_document
  ms_reply_to :: int
  ms_forward_id :: int
  ms_vars :: "vars option"
  ms_content :: "message_content option"

record chat_db =
  cd_convs :: "chat_conv list"
  cd_channels :: "store_channel list"
  cd_invites :: "chat_invite list"
  cd_messages :: "chat_message list"
  cd_message_seq :: int
  cd_cache :: cache_db

datatype chat_error =
    StatementFailed db_error
  | InvalidUuid
  | UniqueViolation
  | ForeignKeyViolation
  | TooManyRecords
  | IdRequired
  | ReadBeyondNow
  | FilterRequired
  | NoRows
  | Panicked

text \<open>Every statement may fail.\<close>

definition next_statement :: "chat_db \<Rightarrow> bool \<times> chat_db" where
  "next_statement db = (let (f, c) = next_fault (cd_cache db) in (f, db\<lparr>cd_cache := c\<rparr>))"

lemma no_statement_fault [simp]:
  "db_faults (cd_cache db) = [] \<Longrightarrow> next_statement db = (False, db)"
  by (simp add: next_statement_def next_fault_def)

text \<open>NullMetadata: a map without entries is stored as NULL.\<close>

definition null_metadata :: "vars option \<Rightarrow> vars option" where
  "null_metadata md = (if env_of md = [] then None else md)"

section \<open>Invites\<close>

definition open_invite :: "chat_invite \<Rightarrow> bool" where
  "open_invite i \<longleftrightarrow> iv_closed_at i = None"

definition open_channel :: "store_channel \<Rightarrow> bool" where
  "open_channel c \<longleftrightarrow> sc_closed_at c = None"

text \<open>The fetch of at most limit rows, and an empty one more when there are more rows; no
  limit is 0.\<close>

definition fetch_rows :: "int \<Rightarrow> 'a list \<Rightarrow> 'a option list" where
  "fetch_rows limit rows =
     (let limit = (if limit < 0 then 0 else limit) in
      if limit > 0 \<and> int (length rows) > limit
      then map Some (take (nat limit) rows) @ [None] else map Some rows)"

definition get_invite_by_id ::
  "(string \<Rightarrow> string option) \<Rightarrow> string \<Rightarrow> chat_db \<Rightarrow> (chat_error, chat_invite option) result \<times> chat_db" where
  "get_invite_by_id U i db =
     (case U i of
        None \<Rightarrow> (Fail InvalidUuid, db)
      | Some u \<Rightarrow>
          (let (f, db) = next_statement db in
           if f then (Fail (StatementFailed DbFault), db)
           else
             (let rows = filter (\<lambda>r. iv_id r = u \<and> open_invite r) (cd_invites db);
                  list = fetch_rows 1 (take 2 rows) in
              if length list \<noteq> 0 \<and> length list \<noteq> 1 then (Fail TooManyRecords, db)
              else
                (case list of
                   [Some r] \<Rightarrow> (Ok (if equal_fold i (iv_id r) then Some r else None), db)
                 | _ \<Rightarrow> (Ok None, db)))))"

text \<open>The insertion under the constraints of the table.\<close>

definition insert_invite :: "chat_invite \<Rightarrow> chat_db \<Rightarrow> (chat_error, chat_db) result" where
  "insert_invite r db =
     (if iv_id r \<in> iv_id ` set (cd_invites db) then Fail UniqueViolation
      else if open_invite r \<and> (\<exists>o' \<in> set (cd_invites db). open_invite o' \<and>
          iv_conversation_id o' = iv_conversation_id r \<and> iv_user_id o' = iv_user_id r)
        then Fail UniqueViolation
      else if iv_conversation_id r \<notin> cv_id ` set (cd_convs db) then Fail ForeignKeyViolation
      else Ok (db\<lparr>cd_invites := cd_invites db @ [r]\<rparr>))"

text \<open>The name of the sender that an invite without a title gets: the statement looks for a
  channel with the id of the invite.  names gives the name to show for a channel, from
  the tables of contacts and users.\<close>

definition sender_display :: "(store_channel \<Rightarrow> string option) \<Rightarrow> string \<Rightarrow> chat_db \<Rightarrow> string" where
  "sender_display names i db =
     (case List.find (\<lambda>c. sc_id c = i) (cd_channels db) of
        None \<Rightarrow> ''noname''
      | Some c \<Rightarrow> (case names c of None \<Rightarrow> ''noname'' | Some n \<Rightarrow> n))"

text \<open>fresh is the UUID that is generated, now the clock.  The invite is returned as the
  caller sees it.\<close>

definition create_invite ::
  "(string \<Rightarrow> string option) \<Rightarrow> (store_channel \<Rightarrow> string option) \<Rightarrow> string \<Rightarrow> int \<Rightarrow> chat_invite \<Rightarrow> chat_db \<Rightarrow>
   chat_error option \<times> chat_invite \<times> chat_db" where
  "create_invite U names fresh now m db =
     (case U (iv_conversation_id m) of
        None \<Rightarrow> (Some InvalidUuid, m, db)
      | Some thread \<Rightarrow>
          (let m = (if iv_id m = [] then m\<lparr>iv_id := fresh\<rparr> else m) in
           case U (iv_id m) of
             None \<Rightarrow> (Some InvalidUuid, m, db)
           | Some i \<Rightarrow>
               if ns_valid (iv_inviter_channel_id m) \<and> U (ns_string (iv_inviter_channel_id m)) = None
               then (Some InvalidUuid, m, db)
               else
                 (let sender = (if ns_valid (iv_inviter_channel_id m)
                                then some_string (the (U (ns_string (iv_inviter_channel_id m)))) else null_string);
                      m = (if iv_created_at m = 0 then m\<lparr>iv_created_at := now\<rparr> else m);
                      (f, db) = next_statement db in
                  if f then (Some (StatementFailed DbFault), m, db)
                  else
                    (let row = m\<lparr>iv_id := i, iv_conversation_id := thread, iv_inviter_channel_id := sender,
                           iv_closed_at := None,
                           iv_title := (if ns_string (iv_title m) = [] then some_string (sender_display names i db)
                                        else iv_title m),
                           iv_vars := (if ns_string (iv_title m) = [] then null_metadata (iv_vars m) else iv_vars m)\<rparr>
                     in case insert_invite row db of
                          Fail e \<Rightarrow> (Some e, m, db)
                        | Ok db \<Rightarrow> (None, m, db)))))"

definition close_invite ::
  "(string \<Rightarrow> string option) \<Rightarrow> int \<Rightarrow> string \<Rightarrow> chat_db \<Rightarrow> (chat_error, bool) result \<times> chat_db" where
  "close_invite U now i db =
     (case U i of
        None \<Rightarrow> (Fail InvalidUuid, db)
      | Some u \<Rightarrow>
          (let (f, db) = next_statement db in
           if f then (Fail (StatementFailed DbFault), db)
           else
             (Ok (\<exists>r \<in> set (cd_invites db). iv_id r = u \<and> open_invite r),
              db\<lparr>cd_invites := map (\<lambda>r. if iv_id r = u \<and> open_invite r then r\<lparr>iv_closed_at := Some now\<rparr> else r)
                    (cd_invites db)\<rparr>)))"

section \<open>Channels\<close>

text \<open>The value of the struct before the insertion.\<close>

definition normal_channel :: "string \<Rightarrow> int \<Rightarrow> store_channel \<Rightarrow> store_channel" where
  "normal_channel fresh now c =
     (let c = (if sc_id c = [] then c\<lparr>sc_id := fresh\<rparr> else c);
          c = (if sc_created_at c = 0 then c\<lparr>sc_created_at := now\<rparr> else c);
          c = (if sc_updated_at c < sc_created_at c then c\<lparr>sc_updated_at := sc_created_at c\<rparr> else c);
          c = (case sc_closed_at c of
                 None \<Rightarrow> c
               | Some t \<Rightarrow>
                   if t = 0 then c\<lparr>sc_closed_at := None\<rparr>
                   else if t < sc_created_at c then c\<lparr>sc_closed_at := Some (sc_updated_at c)\<rparr> else c);
          (oid, host) = contact_service_node (ns_string (sc_connection c));
          host = (if ns_string (sc_host c) \<noteq> [] then ns_string (sc_host c) else host)
      in c\<lparr>sc_connection := \<lparr>ns_string = oid, ns_valid = (oid \<noteq> [])\<rparr>,
           sc_host := \<lparr>ns_string = host, ns_valid = (host \<noteq> [])\<rparr>\<rparr>)"

definition insert_channel :: "store_channel \<Rightarrow> chat_db \<Rightarrow> (chat_error, chat_db) result" where
  "insert_channel r db =
     (if sc_id r \<in> sc_id ` set (cd_channels db) then Fail UniqueViolation
      else if open_channel r \<and> (\<exists>o' \<in> set (cd_channels db). open_channel o' \<and>
          sc_conversation_id o' = sc_conversation_id r \<and> sc_user_id o' = sc_user_id r \<and> sc_type o' = sc_type r)
        then Fail UniqueViolation
      else if sc_conversation_id r \<notin> cv_id ` set (cd_convs db) then Fail ForeignKeyViolation
      else Ok (db\<lparr>cd_channels := cd_channels db @ [r]\<rparr>))"

definition touch_conv :: "string \<Rightarrow> int \<Rightarrow> chat_db \<Rightarrow> chat_db" where
  "touch_conv conv at db =
     db\<lparr>cd_convs := map (\<lambda>v. if cv_id v = conv then v\<lparr>cv_updated_at := at\<rparr> else v) (cd_convs db)\<rparr>"

definition channel_row :: "(string \<Rightarrow> string option) \<Rightarrow> store_channel \<Rightarrow> store_channel option" where
  "channel_row U c =
     (case (U (sc_id c), U (sc_conversation_id c)) of
        (Some i, Some v) \<Rightarrow> Some (c\<lparr>sc_id := i, sc_conversation_id := v, sc_vars := null_metadata (sc_vars c)\<rparr>)
      | _ \<Rightarrow> None)"

definition new_chat_channel ::
  "(string \<Rightarrow> string option) \<Rightarrow> string \<Rightarrow> int \<Rightarrow> store_channel \<Rightarrow> chat_db \<Rightarrow>
   chat_error option \<times> store_channel \<times> chat_db" where
  "new_chat_channel U fresh now c db =
     (let c = normal_channel fresh now c;
          (f, db) = next_statement db in
      if f then (Some (StatementFailed DbFault), c, db)
      else
        (case channel_row U c of
           None \<Rightarrow> (Some InvalidUuid, c, db)
         | Some row \<Rightarrow>
             (case insert_channel row db of
                Fail e \<Rightarrow> (Some e, c, db)
              | Ok db \<Rightarrow> (None, c, touch_conv (sc_conversation_id row) (sc_created_at row) db))))"

definition chat_needs_processing :: string where "chat_needs_processing = ''needs_processing''"

text \<open>jsonb_set of a NULL is NULL.\<close>

definition jsonb_set_flag :: "vars option \<Rightarrow> vars option" where
  "jsonb_set_flag props = map_option (vset chat_needs_processing ''true'') props"

definition closed_row :: "int \<Rightarrow> string \<Rightarrow> bool \<Rightarrow> store_channel \<Rightarrow> store_channel" where
  "closed_row now cause needs c =
     c\<lparr>sc_closed_at := Some now, sc_closed_cause := some_string cause,
       sc_vars := (if needs \<and> sc_internal c then jsonb_set_flag (sc_vars c) else sc_vars c)\<rparr>"

text \<open>LeaveConversationCause and CloseConversationCause, in their textual form.\<close>

definition leave_needs_processing :: "string \<Rightarrow> bool" where
  "leave_needs_processing cause \<longleftrightarrow> cause \<in> {''client_timeout'', ''agent_timeout'', ''silence_timeout''}"

definition close_needs_processing :: "string \<Rightarrow> bool" where
  "close_needs_processing cause \<longleftrightarrow> cause = ''client_leave''"

definition close_channel ::
  "(string \<Rightarrow> string option) \<Rightarrow> int \<Rightarrow> string \<Rightarrow> string \<Rightarrow> chat_db \<Rightarrow>
   (chat_error, store_channel option) result \<times> chat_db" where
  "close_channel U now i cause db =
     (if i = [] then (Fail IdRequired, db)
      else
        (let (f, db) = next_statement db in
         if f then (Fail (StatementFailed DbFault), db)
         else
           (case U i of
              None \<Rightarrow> (Fail InvalidUuid, db)
            | Some u \<Rightarrow>
                (let hit = (\<lambda>c. sc_id c = u \<and> open_channel c);
                     upd = closed_row now cause (leave_needs_processing cause);
                     rows = filter (\<lambda>c. sc_conversation_id c \<in> cv_id ` set (cd_convs db))
                              (map upd (filter hit (cd_channels db)));
                     db = db\<lparr>cd_channels := map (\<lambda>c. if hit c then upd c else c) (cd_channels db)\<rparr>;
                     db = fold (\<lambda>c db. touch_conv (sc_conversation_id c) now db) rows db in
                 case fetch_rows 1 rows of
                   [] \<Rightarrow> (Ok None, db)
                 | [Some c] \<Rightarrow> (Ok (if equal_fold i (sc_id c) then Some c else None), db)
                 | _ \<Rightarrow> (Fail TooManyRecords, db)))))"

definition close_channels ::
  "(string \<Rightarrow> string option) \<Rightarrow> int \<Rightarrow> string \<Rightarrow> chat_db \<Rightarrow> chat_error option \<times> chat_db" where
  "close_channels U now conv db =
     (let (f, db) = next_statement db in
      if f then (Some (StatementFailed DbFault), db)
      else
        (case U conv of
           None \<Rightarrow> (Some InvalidUuid, db)
         | Some u \<Rightarrow>
             (None, db\<lparr>cd_channels := map (\<lambda>c. if sc_conversation_id c = u then c\<lparr>sc_closed_at := Some now\<rparr> else c)
                         (cd_channels db)\<rparr>)))"

definition update_channel ::
  "(string \<Rightarrow> string option) \<Rightarrow> int \<Rightarrow> string \<Rightarrow> int option \<Rightarrow> chat_db \<Rightarrow> chat_error option \<times> chat_db" where
  "update_channel U now i read_at db =
     (let given = (case read_at of None \<Rightarrow> 0 | Some t \<Rightarrow> t);
          at = (if given \<noteq> 0 then given else now) in
      if given \<noteq> 0 \<and> given div 1000 > now div 1000 then (Some ReadBeyondNow, db)
      else
        (let (f, db) = next_statement db in
         if f then (Some (StatementFailed DbFault), db)
         else
           (case U i of
              None \<Rightarrow> (Some InvalidUuid, db)
            | Some u \<Rightarrow>
                (None, db\<lparr>cd_channels := map (\<lambda>c. if sc_id c = u \<and> sc_updated_at c < at
                            then c\<lparr>sc_updated_at := at\<rparr> else c) (cd_channels db)\<rparr>))))"

definition update_channel_host ::
  "(string \<Rightarrow> string option) \<Rightarrow> string \<Rightarrow> string \<Rightarrow> chat_db \<Rightarrow> chat_error option \<times> chat_db" where
  "update_channel_host U i host db =
     (let (f, db) = next_statement db in
      if f then (Some (StatementFailed DbFault), db)
      else
        (case U i of
           None \<Rightarrow> (Some InvalidUuid, db)
         | Some u \<Rightarrow>
             (None, db\<lparr>cd_channels := map (\<lambda>c. if sc_id c = u then c\<lparr>sc_host := some_string host\<rparr> else c)
                         (cd_channels db)\<rparr>)))"

section \<open>Searches\<close>

definition db_search_size :: int where "db_search_size = 16"

text \<open>GetSize and GetPage of sqlx/search.go.\<close>

definition search_size :: "int \<Rightarrow> int" where
  "search_size n = (if n < 0 then - 1 else if n > 0 then n else db_search_size)"

definition search_page :: "int \<Rightarrow> int \<Rightarrow> int" where
  "search_page n page = (if search_size n > 0 then (if page > 0 then page else 1) else 0)"

record channel_filter =
  cf_id :: "string option"
  cf_user :: "int option"
  cf_conv :: "string option"
  cf_contact :: "string option"
  cf_internal :: "bool option"
  cf_except :: "string option"
  cf_active :: "bool option"

definition no_filter :: channel_filter where
  "no_filter = \<lparr>cf_id = None, cf_user = None, cf_conv = None, cf_contact = None, cf_internal = None,
     cf_except = None, cf_active = None\<rparr>"

definition asks :: "'a option \<Rightarrow> 'a \<Rightarrow> bool" where
  "asks q v \<longleftrightarrow> (case q of None \<Rightarrow> True | Some x \<Rightarrow> v = x)"

definition filter_matches :: "channel_filter \<Rightarrow> store_channel \<Rightarrow> bool" where
  "filter_matches q c \<longleftrightarrow>
     asks (cf_id q) (sc_id c) \<and> asks (cf_user q) (sc_user_id c) \<and> asks (cf_conv q) (sc_conversation_id c) \<and>
     asks (map_option some_string (cf_contact q)) (sc_connection c) \<and> asks (cf_internal q) (sc_internal c) \<and>
     cf_except q \<noteq> Some (sc_id c) \<and> asks (cf_active q) (open_channel c)"

text \<open>A filter with canonical ids; a text that is no UUID makes the statement fail.\<close>

definition uuid_filter :: "(string \<Rightarrow> string option) \<Rightarrow> string option \<Rightarrow> string option option" where
  "uuid_filter U i = (case i of None \<Rightarrow> Some None | Some t \<Rightarrow> map_option Some (U t))"

definition canonical_filter :: "(string \<Rightarrow> string option) \<Rightarrow> channel_filter \<Rightarrow> channel_filter option" where
  "canonical_filter U q =
     (case (uuid_filter U (cf_id q), uuid_filter U (cf_conv q), uuid_filter U (cf_except q)) of
        (Some i, Some v, Some e) \<Rightarrow> Some (q\<lparr>cf_id := i, cf_conv := v, cf_except := e\<rparr>)
      | _ \<Rightarrow> None)"

text \<open>The statement and the fetch of its rows, the newest channel first (rows of the same
  time in the order of their insertion).  It does not select the public name.\<close>

definition search_channels ::
  "(string \<Rightarrow> string option) \<Rightarrow> channel_filter \<Rightarrow> int \<Rightarrow> int \<Rightarrow> chat_db \<Rightarrow>
   (chat_error, store_channel option list) result \<times> chat_db" where
  "search_channels U q n page db =
     (let n = (if cf_id q \<noteq> None then 1 else n);
          (f, db) = next_statement db in
      if f then (Fail (StatementFailed DbFault), db)
      else
        (case canonical_filter U q of
           None \<Rightarrow> (Fail InvalidUuid, db)
         | Some q \<Rightarrow>
             (let rows = sort_key (\<lambda>c. - sc_created_at c) (filter (filter_matches q) (cd_channels db));
                  rows = map (\<lambda>c. c\<lparr>sc_public_name := null_string\<rparr>) rows;
                  sz = search_size n; pg = search_page n page;
                  rows = (if sz > 0
                          then take (nat (sz + 1)) (drop (if pg > 1 then nat ((pg - 1) * sz) else 0) rows)
                          else rows)
              in (Ok (fetch_rows sz rows), db))))"

definition get_channels ::
  "(string \<Rightarrow> string option) \<Rightarrow> channel_filter \<Rightarrow> chat_db \<Rightarrow> (chat_error, store_channel list) result \<times> chat_db" where
  "get_channels U q db =
     (case search_channels U q 0 0 db of
        (Fail e, db) \<Rightarrow> (Fail e, db)
      | (Ok list, db) \<Rightarrow>
          (Ok (map the (if list \<noteq> [] \<and> last list = None then butlast list else list)), db))"

text \<open>GetChannelByID, and CheckUserChannel with the id of a user that is not 0.\<close>

definition check_user_channel ::
  "(string \<Rightarrow> string option) \<Rightarrow> string \<Rightarrow> int \<Rightarrow> chat_db \<Rightarrow>
   (chat_error, store_channel option) result \<times> chat_db" where
  "check_user_channel U i user db =
     (let q = no_filter\<lparr>cf_id := Some i, cf_user := (if user \<noteq> 0 then Some user else None)\<rparr> in
      case search_channels U q 1 0 db of
        (Fail e, db) \<Rightarrow> (Fail e, db)
      | (Ok list, db) \<Rightarrow>
          if length list \<noteq> 0 \<and> length list \<noteq> 1 then (Fail TooManyRecords, db)
          else
            (case list of
               [Some c] \<Rightarrow> (Ok (if equal_fold i (sc_id c) then Some c else None), db)
             | _ \<Rightarrow> (Ok None, db)))"

definition get_channel_by_id ::
  "(string \<Rightarrow> string option) \<Rightarrow> string \<Rightarrow> chat_db \<Rightarrow> (chat_error, store_channel option) result \<times> chat_db" where
  "get_channel_by_id U i db = check_user_channel U i 0 db"

section \<open>Conversations\<close>

definition new_session :: "string \<Rightarrow> int \<Rightarrow> chat_conv \<Rightarrow> chat_db \<Rightarrow> chat_error option \<times> chat_conv \<times> chat_db" where
  "new_session fresh now v db =
     (let v = v\<lparr>cv_id := fresh\<rparr>;
          v = (if cv_created_at v = 0 then v\<lparr>cv_created_at := now\<rparr> else v);
          v = (if cv_updated_at v < cv_created_at v then v\<lparr>cv_updated_at := cv_created_at v\<rparr> else v);
          v = v\<lparr>cv_title := trim_space (cv_title v)\<rparr>;
          (f, db) = next_statement db in
      if f then (Some (StatementFailed DbFault), v, db)
      else if cv_id v \<in> cv_id ` set (cd_convs db) then (Some UniqueViolation, v, db)
      else (None, v, db\<lparr>cd_convs := cd_convs db @ [v\<lparr>cv_vars := null_metadata (cv_vars v)\<rparr>]\<rparr>))"

text \<open>The statement that closes a conversation: its open invites, its token and node, the
  conversation and its open channels, all at once.\<close>

definition close_session_rows :: "int \<Rightarrow> string \<Rightarrow> bool \<Rightarrow> string \<Rightarrow> chat_db \<Rightarrow> chat_db" where
  "close_session_rows now cause needs u db =
     db\<lparr>cd_invites := map (\<lambda>r. if iv_conversation_id r = u \<and> open_invite r then r\<lparr>iv_closed_at := Some now\<rparr> else r)
          (cd_invites db),
        cd_cache := (cd_cache db)\<lparr>db_confirms := vdel u (db_confirms (cd_cache db)),
                                 db_nodes := vdel u (db_nodes (cd_cache db))\<rparr>,
        cd_convs := map (\<lambda>v. if cv_id v = u \<and> cv_closed_at v = None then v\<lparr>cv_closed_at := Some now\<rparr> else v)
          (cd_convs db),
        cd_channels := map (\<lambda>c. if sc_conversation_id c = u \<and> open_channel c then closed_row now cause needs c else c)
          (cd_channels db)\<rparr>"

definition close_session ::
  "(string \<Rightarrow> string option) \<Rightarrow> int \<Rightarrow> string \<Rightarrow> string \<Rightarrow> chat_db \<Rightarrow> chat_error option \<times> chat_db" where
  "close_session U now conv cause db =
     (let (f, db) = next_statement db in
      if f then (Some (StatementFailed DbFault), db)
      else
        (case U conv of
           None \<Rightarrow> (Some InvalidUuid, db)
         | Some u \<Rightarrow> (None, close_session_rows now cause (close_needs_processing cause) u db)))"

text \<open>WithTransaction: on an error the tables are as before, and so when the commit
  fails; a statement that failed stays consumed.\<close>

definition with_transaction ::
  "(chat_db \<Rightarrow> chat_error option \<times> 'a \<times> chat_db) \<Rightarrow> 'a \<Rightarrow> chat_db \<Rightarrow> chat_error option \<times> 'a \<times> chat_db" where
  "with_transaction body x db =
     (let (f, db) = next_statement db in
      if f then (Some (StatementFailed DbFault), x, db)
      else
        (case body db of
           (Some e, y, db') \<Rightarrow>
             (Some e, y, db\<lparr>cd_cache := (cd_cache db)\<lparr>db_faults := db_faults (cd_cache db')\<rparr>\<rparr>)
         | (None, y, db') \<Rightarrow>
             (let (f, db'') = next_statement db' in
              if f then (Some (StatementFailed DbFault), y,
                         db\<lparr>cd_cache := (cd_cache db)\<lparr>db_faults := db_faults (cd_cache db'')\<rparr>\<rparr>)
              else (None, y, db''))))"

section \<open>The constraints of the tables\<close>

definition channel_key :: "store_channel \<Rightarrow> string \<times> int \<times> string" where
  "channel_key c = (sc_conversation_id c, sc_user_id c, sc_type c)"

definition invite_key :: "chat_invite \<Rightarrow> string \<times> int" where
  "invite_key i = (iv_conversation_id i, iv_user_id i)"

definition channels_ok :: "string set \<Rightarrow> store_channel list \<Rightarrow> bool" where
  "channels_ok V cs \<longleftrightarrow> distinct (map sc_id cs) \<and> sc_conversation_id ` set cs \<subseteq> V \<and>
     distinct (map channel_key (filter open_channel cs))"

definition invites_ok :: "string set \<Rightarrow> chat_invite list \<Rightarrow> bool" where
  "invites_ok V is \<longleftrightarrow> distinct (map iv_id is) \<and> iv_conversation_id ` set is \<subseteq> V \<and>
     distinct (map invite_key (filter open_invite is))"

definition chat_db_ok :: "chat_db \<Rightarrow> bool" where
  "chat_db_ok db \<longleftrightarrow> distinct (map cv_id (cd_convs db)) \<and>
     channels_ok (cv_id ` set (cd_convs db)) (cd_channels db) \<and>
     invites_ok (cv_id ` set (cd_convs db)) (cd_invites db)"

text \<open>Changes of rows that keep their keys and open nothing.\<close>

definition keeps_channel :: "(store_channel \<Rightarrow> store_channel) \<Rightarrow> bool" where
  "keeps_channel f \<longleftrightarrow> (\<forall>c. sc_id (f c) = sc_id c \<and> channel_key (f c) = channel_key c \<and>
     (open_channel (f c) \<longrightarrow> open_channel c))"

definition keeps_invite :: "(chat_invite \<Rightarrow> chat_invite) \<Rightarrow> bool" where
  "keeps_invite f \<longleftrightarrow> (\<forall>i. iv_id (f i) = iv_id i \<and> invite_key (f i) = invite_key i \<and>
     (open_invite (f i) \<longrightarrow> open_invite i))"

lemma subseq_map_distinct: "subseq xs ys \<Longrightarrow> distinct ys \<Longrightarrow> distinct xs"
  by (induction rule: list_emb.induct) (auto dest: list_emb_set)

lemma channels_ok_map:
  assumes "channels_ok V cs" "keeps_channel f"
  shows "channels_ok V (map f cs)"
proof -
  have f: "sc_id (f c) = sc_id c" "channel_key (f c) = channel_key c" "open_channel (f c) \<Longrightarrow> open_channel c" for c
    using assms(2) by (auto simp: keeps_channel_def)
  then have "sc_conversation_id (f c) = sc_conversation_id c" for c by (metis channel_key_def prod.inject)
  moreover have "subseq (map channel_key (filter open_channel (map f cs))) (map channel_key (filter open_channel cs))"
    using f(2,3) by (induction cs) auto
  ultimately show ?thesis
    using assms(1) f(1) by (auto simp: channels_ok_def comp_def dest: subseq_map_distinct)
qed

lemma invites_ok_map:
  assumes "invites_ok V is" "keeps_invite f"
  shows "invites_ok V (map f is)"
proof -
  have f: "iv_id (f c) = iv_id c" "invite_key (f c) = invite_key c" "open_invite (f c) \<Longrightarrow> open_invite c" for c
    using assms(2) by (auto simp: keeps_invite_def)
  then have "iv_conversation_id (f c) = iv_conversation_id c" for c by (metis invite_key_def prod.inject)
  moreover have "subseq (map invite_key (filter open_invite (map f is))) (map invite_key (filter open_invite is))"
    using f(2,3) by (induction "is") auto
  ultimately show ?thesis
    using assms(1) f(1) by (auto simp: invites_ok_def comp_def dest: subseq_map_distinct)
qed

lemma channels_ok_snoc:
  "channels_ok V (cs @ [r]) \<longleftrightarrow> channels_ok V cs \<and> sc_id r \<notin> sc_id ` set cs \<and> sc_conversation_id r \<in> V \<and>
    (open_channel r \<longrightarrow> channel_key r \<notin> channel_key ` {c \<in> set cs. open_channel c})"
  by (cases "open_channel r") (auto simp: channels_ok_def)

lemma invites_ok_snoc:
  "invites_ok V (is @ [r]) \<longleftrightarrow> invites_ok V is \<and> iv_id r \<notin> iv_id ` set is \<and> iv_conversation_id r \<in> V \<and>
    (open_invite r \<longrightarrow> invite_key r \<notin> invite_key ` {c \<in> set is. open_invite c})"
  by (cases "open_invite r") (auto simp: invites_ok_def)

lemma insert_channel_ok:
  assumes "insert_channel r db = Ok db'" "chat_db_ok db"
  shows "chat_db_ok db'" "cd_invites db' = cd_invites db" "cd_convs db' = cd_convs db"
    "cd_channels db' = cd_channels db @ [r]" "cd_cache db' = cd_cache db"
    "sc_id r \<notin> sc_id ` set (cd_channels db)" "sc_conversation_id r \<in> cv_id ` set (cd_convs db)"
proof -
  have key: "(\<exists>o' \<in> set (cd_channels db). open_channel o' \<and> sc_conversation_id o' = sc_conversation_id r \<and>
      sc_user_id o' = sc_user_id r \<and> sc_type o' = sc_type r) \<longleftrightarrow>
      channel_key r \<in> channel_key ` {c \<in> set (cd_channels db). open_channel c}"
    by (force simp: channel_key_def image_iff)
  have "sc_id r \<notin> sc_id ` set (cd_channels db)" "sc_conversation_id r \<in> cv_id ` set (cd_convs db)"
    "open_channel r \<longrightarrow> channel_key r \<notin> channel_key ` {c \<in> set (cd_channels db). open_channel c}"
    "db' = db\<lparr>cd_channels := cd_channels db @ [r]\<rparr>"
    using assms(1) unfolding insert_channel_def key by (simp_all split: if_splits)
  then show "chat_db_ok db'" "cd_invites db' = cd_invites db" "cd_convs db' = cd_convs db"
    "cd_channels db' = cd_channels db @ [r]" "cd_cache db' = cd_cache db"
    "sc_id r \<notin> sc_id ` set (cd_channels db)" "sc_conversation_id r \<in> cv_id ` set (cd_convs db)"
    using assms(2) by (simp_all add: chat_db_ok_def channels_ok_snoc)
qed

lemma insert_invite_ok:
  assumes "insert_invite r db = Ok db'" "chat_db_ok db"
  shows "chat_db_ok db'" "cd_invites db' = cd_invites db @ [r]" "cd_convs db' = cd_convs db"
    "cd_channels db' = cd_channels db" "cd_cache db' = cd_cache db"
proof -
  have key: "(\<exists>o' \<in> set (cd_invites db). open_invite o' \<and> iv_conversation_id o' = iv_conversation_id r \<and>
      iv_user_id o' = iv_user_id r) \<longleftrightarrow> invite_key r \<in> invite_key ` {c \<in> set (cd_invites db). open_invite c}"
    by (force simp: invite_key_def image_iff)
  have "iv_id r \<notin> iv_id ` set (cd_invites db)" "iv_conversation_id r \<in> cv_id ` set (cd_convs db)"
    "open_invite r \<longrightarrow> invite_key r \<notin> invite_key ` {c \<in> set (cd_invites db). open_invite c}"
    "db' = db\<lparr>cd_invites := cd_invites db @ [r]\<rparr>"
    using assms(1) unfolding insert_invite_def key by (simp_all split: if_splits)
  then show "chat_db_ok db'" "cd_invites db' = cd_invites db @ [r]" "cd_convs db' = cd_convs db"
    "cd_channels db' = cd_channels db" "cd_cache db' = cd_cache db"
    using assms(2) by (simp_all add: chat_db_ok_def invites_ok_snoc)
qed

lemma open_simps [simp]:
  "open_channel (c\<lparr>sc_updated_at := t\<rparr>) = open_channel c" "open_channel (c\<lparr>sc_host := h\<rparr>) = open_channel c"
  "open_channel (c\<lparr>sc_closed_at := Some t\<rparr>) = False" "open_invite (i\<lparr>iv_closed_at := Some t\<rparr>) = False"
  "open_channel (closed_row now cause needs c) = False"
  by (simp_all add: open_channel_def open_invite_def closed_row_def)

lemma closed_row_keys [simp]:
  "sc_id (closed_row now cause needs c) = sc_id c"
  "sc_conversation_id (closed_row now cause needs c) = sc_conversation_id c"
  "channel_key (closed_row now cause needs c) = channel_key c"
  "sc_internal (closed_row now cause needs c) = sc_internal c"
  "channel_key (c\<lparr>sc_closed_at := t\<rparr>) = channel_key c" "invite_key (i\<lparr>iv_closed_at := t\<rparr>) = invite_key i"
  by (simp_all add: closed_row_def channel_key_def invite_key_def)

text \<open>The rows that close_channel and close_invite change.\<close>

abbreviation close_row :: "int \<Rightarrow> string \<Rightarrow> bool \<Rightarrow> string \<Rightarrow> store_channel \<Rightarrow> store_channel" where
  "close_row now cause needs u \<equiv> (\<lambda>c. if sc_id c = u \<and> open_channel c then closed_row now cause needs c else c)"

abbreviation close_invite_row :: "int \<Rightarrow> string \<Rightarrow> chat_invite \<Rightarrow> chat_invite" where
  "close_invite_row now u \<equiv> (\<lambda>r. if iv_id r = u \<and> open_invite r then r\<lparr>iv_closed_at := Some now\<rparr> else r)"

lemma keeps_rows [simp]:
  "keeps_channel (close_row now cause needs u)" "keeps_invite (close_invite_row now u)"
  "keeps_channel (\<lambda>c. if sc_conversation_id c = u \<and> open_channel c then closed_row now cause needs c else c)"
  "keeps_invite (\<lambda>r. if iv_conversation_id r = u \<and> open_invite r then r\<lparr>iv_closed_at := Some now\<rparr> else r)"
  "keeps_channel (\<lambda>c. if sc_conversation_id c = u then c\<lparr>sc_closed_at := Some now\<rparr> else c)"
  by (simp_all add: keeps_channel_def keeps_invite_def)

lemma touch_conv_simps [simp]:
  "cd_channels (touch_conv v t db) = cd_channels db" "cd_invites (touch_conv v t db) = cd_invites db"
  "cd_cache (touch_conv v t db) = cd_cache db" "map cv_id (cd_convs (touch_conv v t db)) = map cv_id (cd_convs db)"
  "cv_id ` set (cd_convs (touch_conv v t db)) = cv_id ` set (cd_convs db)"
  "chat_db_ok (touch_conv v t db) = chat_db_ok db"
proof -
  show m: "map cv_id (cd_convs (touch_conv v t db)) = map cv_id (cd_convs db)" by (simp add: touch_conv_def)
  then show s: "cv_id ` set (cd_convs (touch_conv v t db)) = cv_id ` set (cd_convs db)" by (metis set_map)
  show "cd_channels (touch_conv v t db) = cd_channels db" "cd_invites (touch_conv v t db) = cd_invites db"
    "cd_cache (touch_conv v t db) = cd_cache db" by (simp_all add: touch_conv_def)
  then show "chat_db_ok (touch_conv v t db) = chat_db_ok db" unfolding chat_db_ok_def m s by simp
qed

lemma touch_all_simps [simp]:
  "cd_channels (fold (\<lambda>c. touch_conv (g c) t) cs db) = cd_channels db"
  "cd_invites (fold (\<lambda>c. touch_conv (g c) t) cs db) = cd_invites db"
  "cd_cache (fold (\<lambda>c. touch_conv (g c) t) cs db) = cd_cache db"
  "chat_db_ok (fold (\<lambda>c. touch_conv (g c) t) cs db) = chat_db_ok db"
  by (induction cs arbitrary: db) simp_all

text \<open>Two states with the same rows; a statement that fails only takes its fault.\<close>

definition same_rows :: "chat_db \<Rightarrow> chat_db \<Rightarrow> bool" where
  "same_rows d d' \<longleftrightarrow> cd_convs d' = cd_convs d \<and> cd_channels d' = cd_channels d \<and> cd_invites d' = cd_invites d \<and>
     cd_messages d' = cd_messages d \<and> cd_message_seq d' = cd_message_seq d \<and> db_nodes (cd_cache d') = db_nodes (cd_cache d) \<and> db_confirms (cd_cache d') = db_confirms (cd_cache d)"

lemma same_rows_refl [simp]: "same_rows d d"
  by (simp add: same_rows_def)

lemma same_rows_trans: "same_rows a b \<Longrightarrow> same_rows b c \<Longrightarrow> same_rows a c"
  by (simp add: same_rows_def)

lemma same_rows_ok: "same_rows d d' \<Longrightarrow> chat_db_ok d' = chat_db_ok d"
  by (simp add: same_rows_def chat_db_ok_def)

lemma same_rows_faults [simp]: "same_rows d (d\<lparr>cd_cache := (cd_cache d)\<lparr>db_faults := fs\<rparr>\<rparr>)"
  by (simp add: same_rows_def)

lemma next_statement_rows: "next_statement d = (f, d') \<Longrightarrow> same_rows d d'"
  by (auto simp: next_statement_def next_fault_def same_rows_def split: prod.splits list.splits)

lemma get_invite_by_id_effect:
  assumes "get_invite_by_id U i db = (r, db')"
  shows "same_rows db db'"
    and "r = Ok (Some iv) \<Longrightarrow> iv \<in> set (cd_invites db) \<and> open_invite iv \<and> U i = Some (iv_id iv)"
proof -
  obtain f d where n: "next_statement db = (f, d)" by fastforce
  have rows: "same_rows db d" by (rule next_statement_rows [OF n])
  then show "same_rows db db'"
    using assms n by (auto simp: get_invite_by_id_def Let_def split: option.splits if_splits list.splits)
  show "r = Ok (Some iv) \<Longrightarrow> iv \<in> set (cd_invites db) \<and> open_invite iv \<and> U i = Some (iv_id iv)"
  proof -
    assume r: "r = Ok (Some iv)"
    then obtain u where u: "U i = Some u" "\<not> f"
      using assms n by (auto simp: get_invite_by_id_def split: option.splits if_splits)
    let ?rows = "filter (\<lambda>r. iv_id r = u \<and> open_invite r) (cd_invites d)"
    have "fetch_rows 1 (take 2 ?rows) = [Some iv]"
      using assms n u r
      by (auto simp: get_invite_by_id_def Let_def split: if_splits list.splits option.splits)
    then have "map Some (take 2 ?rows) = [Some iv]"
      by (simp add: fetch_rows_def Let_def split: if_splits)
    then have "take 2 ?rows = [iv]" by auto
    then have "iv \<in> set (take 2 ?rows)" by (simp only: list.set insertI1)
    then have "iv \<in> set ?rows" by (rule in_set_takeD)
    then show ?thesis using rows u by (auto simp: same_rows_def)
  qed
qed

lemma close_invite_effect:
  assumes "close_invite U now i db = (r, db')"
  shows "same_rows db db' \<and> (\<forall>b. r \<noteq> Ok b) \<or>
    (\<exists>u d b. U i = Some u \<and> same_rows db d \<and> r = Ok b \<and>
      db' = d\<lparr>cd_invites := map (close_invite_row now u) (cd_invites d)\<rparr> \<and>
      (b \<longleftrightarrow> (\<exists>r \<in> set (cd_invites db). iv_id r = u \<and> open_invite r)))"
proof -
  obtain f d where n: "next_statement db = (f, d)" by fastforce
  show ?thesis
    using assms n next_statement_rows [OF n]
    by (cases "U i"; cases f) (auto simp: close_invite_def same_rows_def)
qed

lemma channel_row_keys:
  "channel_row U c = Some row \<Longrightarrow> U (sc_id c) = Some (sc_id row) \<and> U (sc_conversation_id c) = Some (sc_conversation_id row) \<and>
    row = c\<lparr>sc_id := sc_id row, sc_conversation_id := sc_conversation_id row, sc_vars := null_metadata (sc_vars c)\<rparr>"
  by (auto simp: channel_row_def split: option.splits)

lemma new_chat_channel_effect:
  assumes "new_chat_channel U fresh now c db = (e, c', db')" "chat_db_ok db"
  shows "chat_db_ok db'" "c' = normal_channel fresh now c" "cd_invites db' = cd_invites db"
    and "e \<noteq> None \<Longrightarrow> same_rows db db'"
    and "e = None \<Longrightarrow> \<exists>row. channel_row U c' = Some row \<and> cd_channels db' = cd_channels db @ [row] \<and>
      sc_id row \<notin> sc_id ` set (cd_channels db)"
proof -
  obtain f d where n: "next_statement db = (f, d)" by fastforce
  let ?c = "normal_channel fresh now c"
  have rows: "same_rows db d" by (rule next_statement_rows [OF n])
  have "chat_db_ok d" using same_rows_ok [OF rows] assms(2) by simp
  with rows have d: "chat_db_ok d" "cd_invites d = cd_invites db" "cd_channels d = cd_channels db"
    by (simp_all add: same_rows_def)
  consider (bad) e' where "e = Some e'" "db' = d" "c' = ?c"
    | (good) row d' where "e = None" "c' = ?c" "channel_row U ?c = Some row" "insert_channel row d = Ok d'"
        "db' = touch_conv (sc_conversation_id row) (sc_created_at row) d'"
    using assms(1) n
    by (auto simp: new_chat_channel_def Let_def split: if_splits option.splits sum.splits)
  then have "chat_db_ok db' \<and> c' = ?c \<and> cd_invites db' = cd_invites db \<and> (e \<noteq> None \<longrightarrow> same_rows db db') \<and>
    (e = None \<longrightarrow> (\<exists>row. channel_row U c' = Some row \<and> cd_channels db' = cd_channels db @ [row] \<and>
      sc_id row \<notin> sc_id ` set (cd_channels db)))"
  proof cases
    case bad
    then show ?thesis using d rows by simp
  next
    case good
    note i = insert_channel_ok [OF good(4) d(1)]
    show ?thesis using good(1,2,3,5) i d by simp
  qed
  then show "chat_db_ok db'" "c' = normal_channel fresh now c" "cd_invites db' = cd_invites db"
    "e \<noteq> None \<Longrightarrow> same_rows db db'"
    "e = None \<Longrightarrow> \<exists>row. channel_row U c' = Some row \<and> cd_channels db' = cd_channels db @ [row] \<and>
      sc_id row \<notin> sc_id ` set (cd_channels db)" by blast+
qed

lemma close_channel_effect:
  assumes "close_channel U now i cause db = (r, db')"
  shows "same_rows db db' \<and> (\<forall>b. r \<noteq> Ok b) \<or>
    (\<exists>u d. U i = Some u \<and> same_rows db d \<and> cd_invites db' = cd_invites db \<and>
      cd_channels db' = map (close_row now cause (leave_needs_processing cause) u) (cd_channels db) \<and>
      chat_db_ok db' = chat_db_ok (d\<lparr>cd_channels := cd_channels db'\<rparr>))"
proof -
  obtain f d where n: "next_statement db = (f, d)" by fastforce
  show ?thesis
    using assms n next_statement_rows [OF n]
    by (cases "i = []"; cases f; cases "U i")
      (auto simp: close_channel_def same_rows_def Let_def split: list.splits option.splits)
qed

end
