(* ===== verification/Chat_Router.thy ===== *)
theory Chat_Router
  imports Chat_Store Flow_Agent
begin

text \<open>
  internal/event_router: the notices about invites and members, to the users of the
  platform through the broker and to the users of a gateway through its service
  (event_router.go, helpers.go, channel.go), and the split of a full name
  (internal/util/parse.go).

  The broker and the gateway services are outside of the program.  A state holds
  the outcomes of the coming publications and of the coming calls of a gateway;
  everything that is sent is recorded in order.
\<close>

section \<open>State\<close>

record notice_account =
  na_id :: int
  na_channel :: string
  na_first_name :: string
  na_last_name :: string

text \<open>The message of the service's protocol.\<close>

record notice =
  nt_id :: int
  nt_type :: string
  nt_kind :: string
  nt_text :: string
  nt_created :: int
  nt_updated :: int
  nt_vars :: "vars option"
  nt_file :: "chat_file option"
  nt_contact :: "chat_card option"
  nt_postback :: "chat_postback option"
  nt_reply_to :: int
  nt_reply_vars :: "vars option"
  nt_forward_from :: int
  nt_forward_chat :: string
  nt_forward_vars :: "vars option"
  nt_from :: "app_user option"
  nt_new_members :: "notice_account list"
  nt_left_member :: "notice_account option"
  nt_buttons :: source_rows
  nt_no_input :: bool

definition zero_notice :: notice where
  "zero_notice =
     \<lparr>nt_id = 0, nt_type = [], nt_kind = [], nt_text = [], nt_created = 0, nt_updated = 0, nt_vars = None,
      nt_file = None, nt_contact = None, nt_postback = None, nt_reply_to = 0, nt_reply_vars = None,
      nt_forward_from = 0, nt_forward_chat = [], nt_forward_vars = None, nt_from = None, nt_new_members = [],
      nt_left_member = None, nt_buttons = [], nt_no_input = False\<rparr>"

text \<open>What is published about a conversation; the time of the event is left out.\<close>

datatype event_body =
    DeclineBody string string int string
  | InviteBody string int
  | JoinBody string string int string string bool int
  | LeaveBody string string string
  | UpdateBody string string int
  | UserInviteBody string string string int vars
  | MessageBody string string int notice
  | CloseBody string string string

text \<open>The update of a portal goes to a channel, a service and an address.\<close>

datatype chat_event =
    Published string int int event_body
  | GatewayCall string int string notice
  | PortalUpdate string string string notice

text \<open>One attempt of a call to the gateways: the hosts, the choice of the round robin over
  them, and an error of the call if there is one.  After the attempts of a call come the
  bindings of its answer.\<close>

record gate_attempt =
  ga_hosts :: "string list"
  ga_fallback :: "string option"
  ga_error :: bool

record gate_reply =
  gr_attempts :: "gate_attempt list"
  gr_bindings :: "vars option"

record chat_client =
  cc_id :: int
  cc_external_id :: null_string
  cc_name :: null_string
  cc_type :: null_string

record chat_world =
  cw_db :: chat_db
  cw_clients :: "chat_client list"
  cw_flow :: flow_agent
  cw_broker :: "bool list"
  cw_gates :: "gate_reply list"
  cw_portals :: "bool list"
  cw_events :: "chat_event list"

datatype route_error = RepoError chat_error | BrokerError | GateError | ContactError num_error | ClientNotFound int

section \<open>Names\<close>

fun last_space :: "string \<Rightarrow> nat option" where
  "last_space [] = None"
| "last_space (c # s) =
     (case last_space s of Some i \<Rightarrow> Some (Suc i) | None \<Rightarrow> if is_space c then Some 0 else None)"

definition parse_full_name :: "string \<Rightarrow> string \<times> string" where
  "parse_full_name full =
     (let first = trim_space full in
      case last_space first of
        Some sp \<Rightarrow>
          if sp > 1 then
            (rev (dropWhile is_space (rev (take sp first))), dropWhile is_space (drop sp first))
          else (first, [])
      | None \<Rightarrow> (first, []))"

section \<open>Publications\<close>

definition publish :: "string \<Rightarrow> int \<Rightarrow> int \<Rightarrow> event_body \<Rightarrow> chat_world \<Rightarrow> route_error option \<times> chat_world" where
  "publish kind dc user body w =
     (let w = w\<lparr>cw_events := cw_events w @ [Published kind dc user body]\<rparr> in
      case cw_broker w of
        [] \<Rightarrow> (None, w)
      | f # fs \<Rightarrow> (if f then Some BrokerError else None, w\<lparr>cw_broker := fs\<rparr>))"

definition send_event_to_webitel_user ::
  "store_channel \<Rightarrow> string \<Rightarrow> event_body \<Rightarrow> chat_world \<Rightarrow> route_error option \<times> chat_world" where
  "send_event_to_webitel_user to kind body w = publish kind (sc_domain_id to) (sc_user_id to) body w"

section \<open>The channel of a gateway\<close>

definition hostname :: "store_channel \<Rightarrow> string" where
  "hostname c = ns_string (sc_host c)"

definition gate_select ::
  "string list \<Rightarrow> string option \<Rightarrow> store_channel \<Rightarrow> string option \<times> store_channel" where
  "gate_select hosts fallback c =
     (let (host, c) = (if hostname c = ''lookup'' then ([], c\<lparr>sc_host := null_string\<rparr>) else (hostname c, c)) in
      if host = [] then (fallback, c)
      else (case List.find (\<lambda>h. has_prefix h host) hosts of
              Some peer \<Rightarrow> if peer = [] then (fallback, c) else (Some peer, c)
            | None \<Rightarrow> (fallback, c)))"

definition gate_call_wrap :: "string \<Rightarrow> bool \<Rightarrow> store_channel \<Rightarrow> bool \<times> store_channel" where
  "gate_call_wrap addr err c =
     (let request = hostname c in
      if err then (True, c\<lparr>sc_host := null_string\<rparr>)
      else if request = [] then (False, c\<lparr>sc_host := some_string addr\<rparr>)
      else if addr \<noteq> request then (False, c\<lparr>sc_host := some_string addr\<rparr>)
      else (False, c))"

text \<open>The call of the client library with these options: the result says whether it
  failed.\<close>

fun gate_call :: "gate_attempt list \<Rightarrow> store_channel \<Rightarrow> bool \<times> store_channel" where
  "gate_call [] c = (True, c)"
| "gate_call (a # ats) c =
     (case gate_select (ga_hosts a) (ga_fallback a) c of
        (None, c) \<Rightarrow> if ats = [] then (True, c) else gate_call ats c
      | (Some addr, c) \<Rightarrow>
          (case gate_call_wrap addr (ga_error a) c of
             (False, c) \<Rightarrow> (False, c)
           | (True, c) \<Rightarrow> if ats = [] then (True, c) else gate_call ats c))"

text \<open>BindChannel on the rows of a channel, or of a conversation when it is one.\<close>

definition bind_rows :: "string \<Rightarrow> vars \<Rightarrow> chat_db \<Rightarrow> chat_db" where
  "bind_rows cid vs db =
     (if cid \<in> cv_id ` set (cd_convs db)
      then db\<lparr>cd_convs := map (\<lambda>v. if cv_id v = cid then v\<lparr>cv_vars := Some (bind_expr (cv_vars v) vs)\<rparr> else v)
                 (cd_convs db)\<rparr>
      else db\<lparr>cd_channels := map (\<lambda>c. if sc_id c = cid then c\<lparr>sc_vars := Some (bind_expr (sc_vars c) vs)\<rparr> else c)
                 (cd_channels db)\<rparr>)"

definition bind_statement :: "string \<Rightarrow> vars \<Rightarrow> chat_world \<Rightarrow> chat_world" where
  "bind_statement cid vs w =
     (let (f, db) = next_statement (cw_db w)
      in w\<lparr>cw_db := (if f then db else bind_rows cid vs db)\<rparr>)"

definition get_client_by_id :: "int \<Rightarrow> chat_world \<Rightarrow> (route_error, chat_client option) result \<times> chat_world" where
  "get_client_by_id i w =
     (let (f, db) = next_statement (cw_db w); w = w\<lparr>cw_db := db\<rparr> in
      if f then (Fail (RepoError (StatementFailed DbFault)), w)
      else (Ok (List.find (\<lambda>c. cc_id c = i) (cw_clients w)), w))"

text \<open>The answer of a call: bindings of a service notice go to the channel; a new host
  is stored.\<close>

definition sent_to_gateway ::
  "(string \<Rightarrow> string option) \<Rightarrow> store_channel \<Rightarrow> store_channel \<Rightarrow> notice \<Rightarrow> vars option \<Rightarrow> chat_world \<Rightarrow> chat_world" where
  "sent_to_gateway U to recipient message bindings w =
     (let vs = vdel [] (env_of bindings);
          w = (if vs \<noteq> [] \<and> nt_id message = 0 then bind_statement (sc_id to) vs w else w)
      in if hostname to \<noteq> hostname recipient
         then w\<lparr>cw_db := snd (update_channel_host U (sc_id recipient) (hostname recipient) (cw_db w))\<rparr>
         else w)"

text \<open>contactServiceHost: [0@][name@]host, and the push of an update; what the service answers is
  the next of the outcomes.\<close>

definition contact_service_host :: "string \<Rightarrow> string \<times> string" where
  "contact_service_host contact =
     (let host = trim_space contact;
          (name, host) =
            (case last_index host CHR ''@'' of
               Some at \<Rightarrow> if at > 0 then (take at host, drop (Suc at) host) else ([], host)
             | None \<Rightarrow> ([], host));
          name =
            (case last_index name CHR ''@'' of
               Some at \<Rightarrow> if 0 < at \<and> int at < int (length name) - 2 then drop (Suc at) name else name
             | None \<Rightarrow> name)
      in (name, host))"

definition push_update :: "string \<Rightarrow> string \<Rightarrow> notice \<Rightarrow> chat_world \<Rightarrow> route_error option \<times> chat_world" where
  "push_update cid contact message w =
     (let (name, addr) = contact_service_host contact;
          name = (if name = [] then ''go.webitel.portal'' else name);
          w = w\<lparr>cw_events := cw_events w @ [PortalUpdate cid name addr message]\<rparr> in
      case cw_portals w of
        [] \<Rightarrow> (None, w)
      | f # fs \<Rightarrow> (if f then Some GateError else None, w\<lparr>cw_portals := fs\<rparr>))"

definition send_message_to_bot_user ::
  "(string \<Rightarrow> string option) \<Rightarrow> store_channel \<Rightarrow> notice \<Rightarrow> chat_world \<Rightarrow> route_error option \<times> chat_world" where
  "send_message_to_bot_user U to message w =
     (if sc_type to = ''portal'' then
        push_update (sc_id to) (ns_string (sc_host to)) message w
      else
        (case parse_int (ns_string (sc_connection to)) of
           (_, Some e) \<Rightarrow> (Some (ContactError e), w)
         | (profile, None) \<Rightarrow>
             (case get_client_by_id (sc_user_id to) w of
                (Fail e, w) \<Rightarrow> (Some e, w)
              | (Ok client, w) \<Rightarrow>
                  (case client of
                     None \<Rightarrow> (Some (ClientNotFound (sc_user_id to)), w)
                   | Some cl \<Rightarrow>
                       if \<not> ns_valid (cc_external_id cl) then (Some (ClientNotFound (sc_user_id to)), w)
                       else
                         (let w = w\<lparr>cw_events := cw_events w @
                                 [GatewayCall (sc_id to) profile (ns_string (cc_external_id cl)) message]\<rparr> in
                          case cw_gates w of
                            [] \<Rightarrow> (Some GateError, w)
                          | g # gs \<Rightarrow>
                              (case gate_call (gr_attempts g) to of
                                 (True, _) \<Rightarrow> (Some GateError, w\<lparr>cw_gates := gs\<rparr>)
                               | (False, recipient) \<Rightarrow>
                                   (None, sent_to_gateway U to recipient message (gr_bindings g)
                                      (w\<lparr>cw_gates := gs\<rparr>))))))))"

section \<open>Routes\<close>

definition active_members ::
  "(string \<Rightarrow> string option) \<Rightarrow> string \<Rightarrow> chat_world \<Rightarrow> (route_error, store_channel list) result \<times> chat_world" where
  "active_members U conv w =
     (case get_channels U (no_filter\<lparr>cf_conv := Some conv, cf_active := Some True\<rparr>) (cw_db w) of
        (Fail e, db) \<Rightarrow> (Fail (RepoError e), w\<lparr>cw_db := db\<rparr>)
      | (Ok cs, db) \<Rightarrow> (Ok cs, w\<lparr>cw_db := db\<rparr>))"

text \<open>The loop over the members: an event for a user of the platform, a notice for a
  user of a gateway when the route has one; errors are only logged.\<close>

definition notify_member ::
  "(string \<Rightarrow> string option) \<Rightarrow> string \<Rightarrow> event_body \<Rightarrow> notice option \<Rightarrow> store_channel \<Rightarrow> chat_world \<Rightarrow> chat_world" where
  "notify_member U kind body external member w =
     (if sc_type member = ''webitel'' then snd (send_event_to_webitel_user member kind body w)
      else (case external of
              None \<Rightarrow> w
            | Some message \<Rightarrow> snd (send_message_to_bot_user U member message w)))"

definition route_members ::
  "(string \<Rightarrow> string option) \<Rightarrow> string \<Rightarrow> string \<Rightarrow> event_body \<Rightarrow> notice option \<Rightarrow> chat_world \<Rightarrow>
   route_error option \<times> chat_world" where
  "route_members U conv kind body external w =
     (case active_members U conv w of
        (Fail e, w) \<Rightarrow> (Some e, w)
      | (Ok members, w) \<Rightarrow> (None, fold (notify_member U kind body external) members w))"

definition route_decline_invite ::
  "(string \<Rightarrow> string option) \<Rightarrow> int \<Rightarrow> string \<Rightarrow> chat_world \<Rightarrow> route_error option \<times> chat_world" where
  "route_decline_invite U user conv w =
     route_members U conv ''decline_invite'' (DeclineBody conv [] user []) None w"

definition route_invite ::
  "(string \<Rightarrow> string option) \<Rightarrow> string \<Rightarrow> int \<Rightarrow> chat_world \<Rightarrow> route_error option \<times> chat_world" where
  "route_invite U conv user w =
     route_members U conv ''invite_conversation'' (InviteBody conv user) None w"

definition member_account :: "store_channel \<Rightarrow> notice_account" where
  "member_account c =
     (let (first, last) = parse_full_name (full_name c)
      in \<lparr>na_id = sc_user_id c, na_channel = ''user'', na_first_name = first, na_last_name = last\<rparr>)"

definition joined_notice :: "store_channel \<Rightarrow> notice" where
  "joined_notice c =
     zero_notice\<lparr>nt_type := ''joined'', nt_new_members := [member_account c]\<rparr>"

definition left_notice :: "store_channel \<Rightarrow> notice" where
  "left_notice c =
     zero_notice\<lparr>nt_type := ''left'', nt_left_member := Some (member_account c)\<rparr>"

definition route_join_conversation ::
  "(string \<Rightarrow> string option) \<Rightarrow> store_channel \<Rightarrow> string \<Rightarrow> chat_world \<Rightarrow> route_error option \<times> chat_world" where
  "route_join_conversation U c conv w =
     route_members U conv ''join_conversation''
       (JoinBody conv (sc_id c) (sc_user_id c) (sc_name c) (sc_type c) (sc_internal c) (sc_updated_at c))
       (Some (joined_notice c)) w"

definition route_leave_conversation ::
  "(string \<Rightarrow> string option) \<Rightarrow> store_channel \<Rightarrow> string \<Rightarrow> string \<Rightarrow> chat_world \<Rightarrow> route_error option \<times> chat_world" where
  "route_leave_conversation U c conv cause w =
     (let body = LeaveBody conv (sc_id c) cause;
          w = snd (send_event_to_webitel_user c ''leave_conversation'' body w)
      in route_members U conv ''leave_conversation'' body (Some (left_notice c)) w)"

definition send_decline_invite_to_webitel_user ::
  "int \<Rightarrow> string \<Rightarrow> int \<Rightarrow> string \<Rightarrow> string \<Rightarrow> chat_world \<Rightarrow> route_error option \<times> chat_world" where
  "send_decline_invite_to_webitel_user dc conv user invite cause w =
     publish ''decline_invite'' dc user (DeclineBody conv invite user cause) w"

definition send_update_channel :: "store_channel \<Rightarrow> int \<Rightarrow> chat_world \<Rightarrow> route_error option \<times> chat_world" where
  "send_update_channel c updated w =
     publish ''update_channel'' (sc_domain_id c) (sc_user_id c)
       (UpdateBody (sc_conversation_id c) (sc_id c) updated) w"

definition system_channel_vars :: "string list" where
  "system_channel_vars = [''chat'', ''cid'', ''externalChatID'', ''flow'', ''old_flow'', ''xfer'', ''chat_transferred'',
     ''chatplan_name'', ''from'', ''user'', ''needs_processing'']"

text \<open>The variables of the invitation: those of the conversation that are not the
  program's own, and over them those of the invite.\<close>

definition merged_variables :: "vars \<Rightarrow> vars \<Rightarrow> vars" where
  "merged_variables conv invite =
     foldl (\<lambda>d (k, v). vset k v d)
       (foldl (\<lambda>d (k, v). if v = [] \<or> k \<in> set system_channel_vars then d else vset k v d) [] conv) invite"

text \<open>conv is the conversation that the caller has read; the statement that reads it again
  may fail, which is only logged.  The members and messages of the event are left out.\<close>

definition send_invite_to_webitel_user ::
  "chat_conv \<Rightarrow> chat_invite \<Rightarrow> chat_world \<Rightarrow> route_error option \<times> chat_world" where
  "send_invite_to_webitel_user conv invite w =
     (let (f, db) = next_statement (cw_db w);
          found = (if f then None else List.find (\<lambda>v. cv_id v = cv_id conv) (cd_convs db));
          vs = merged_variables (case found of None \<Rightarrow> [] | Some v \<Rightarrow> env_of (cv_vars v)) (env_of (iv_vars invite))
      in publish ''user_invite'' (iv_domain_id invite) (iv_user_id invite)
           (UserInviteBody (cv_id conv) (iv_id invite) (ns_string (iv_title invite)) (iv_timeout_sec invite) vs)
           (w\<lparr>cw_db := db\<rparr>))"

section \<open>How many members a route reaches\<close>

lemma fetch_rows_crop:
  assumes "list = fetch_rows n rows" "n > 0"
  shows "map the (if list \<noteq> [] \<and> last list = None then butlast list else list) = take (nat n) rows"
proof (cases "int (length rows) > n")
  case True
  then show ?thesis using assms by (simp add: fetch_rows_def comp_def)
next
  case False
  then have "list = map Some rows" "take (nat n) rows = rows" using assms by (simp_all add: fetch_rows_def)
  then show ?thesis by (cases "rows = []") (simp_all add: last_map comp_def)
qed

text \<open>The members that GetChannels finds are the newest sixteen that match.\<close>

lemma get_channels_take:
  assumes "get_channels U q db = (Ok cs, db')" "cf_id q = None"
  shows "\<exists>q'. canonical_filter U q = Some q' \<and>
    cs = take 16 (map (\<lambda>c. c\<lparr>sc_public_name := null_string\<rparr>)
      (sort_key (\<lambda>c. - sc_created_at c) (filter (filter_matches q') (cd_channels db))))"
proof -
  obtain f d where n: "next_statement db = (f, d)" by fastforce
  have rows: "cd_channels d = cd_channels db" using next_statement_rows [OF n] by (simp add: same_rows_def)
  obtain q' where q: "\<not> f" "canonical_filter U q = Some q'"
    using assms n by (auto simp: get_channels_def search_channels_def split: if_splits option.splits)
  let ?rows = "map (\<lambda>c. c\<lparr>sc_public_name := null_string\<rparr>)
      (sort_key (\<lambda>c. - sc_created_at c) (filter (filter_matches q') (cd_channels db)))"
  have s: "search_channels U q 0 0 db = (Ok (fetch_rows 16 (take 17 ?rows)), d)"
    using n q rows assms(2)
    by (simp add: search_channels_def search_size_def search_page_def db_search_size_def Let_def)
  have "cs = take (nat 16) (take 17 ?rows)"
    using assms(1) s fetch_rows_crop [OF refl, of 16 "take 17 ?rows"]
    by (simp add: get_channels_def split: if_splits)
  then show ?thesis using q(2) by simp
qed

lemma publish_events:
  "cw_events (snd (publish kind dc user body w)) = cw_events w @ [Published kind dc user body]"
  by (simp add: publish_def Let_def split: list.split)

lemma notify_webitel_events:
  assumes "\<forall>m \<in> set ms. sc_type m = ''webitel''"
  shows "cw_events (fold (notify_member U kind body ext) ms w) =
    cw_events w @ map (\<lambda>m. Published kind (sc_domain_id m) (sc_user_id m) body) ms"
  using assms
  by (induction ms arbitrary: w) (simp_all add: notify_member_def send_event_to_webitel_user_def publish_events)

text \<open>The open channels of a conversation, and those among them that a route reaches.\<close>

definition open_members :: "string \<Rightarrow> chat_db \<Rightarrow> store_channel list" where
  "open_members conv db = filter (\<lambda>c. sc_conversation_id c = conv \<and> open_channel c) (cd_channels db)"

lemma active_members_take:
  assumes "active_members U conv w = (Ok ms, w')" "U conv = Some u"
  shows "ms = take 16 (map (\<lambda>c. c\<lparr>sc_public_name := null_string\<rparr>)
      (sort_key (\<lambda>c. - sc_created_at c) (open_members u (cw_db w))))"
    and "cw_events w' = cw_events w"
proof -
  let ?q = "no_filter\<lparr>cf_conv := Some conv, cf_active := Some True\<rparr>"
  obtain db where g: "get_channels U ?q (cw_db w) = (Ok ms, db)" "w' = w\<lparr>cw_db := db\<rparr>"
    using assms(1) by (auto simp: active_members_def split: prod.splits sum.splits)
  have "canonical_filter U ?q = Some (?q\<lparr>cf_conv := Some u\<rparr>)"
    using assms(2) by (simp add: canonical_filter_def uuid_filter_def no_filter_def)
  moreover have "filter (filter_matches (?q\<lparr>cf_conv := Some u\<rparr>)) (cd_channels (cw_db w)) = open_members u (cw_db w)"
    unfolding open_members_def by (rule filter_cong) (auto simp: filter_matches_def asks_def no_filter_def)
  ultimately show "ms = take 16 (map (\<lambda>c. c\<lparr>sc_public_name := null_string\<rparr>)
      (sort_key (\<lambda>c. - sc_created_at c) (open_members u (cw_db w))))"
    using get_channels_take [OF g(1)] by (auto simp: no_filter_def)
  show "cw_events w' = cw_events w" by (simp add: g(2))
qed

text \<open>The notice about a new member reaches at most sixteen members: the search of the
  members leaves its size at 0, which the comment beside it takes for no limit, but
  which stands for the default size.  In a conversation with more open channels the
  sixteen newest ones get an event and the others nothing.\<close>

theorem join_notice_reaches_sixteen:
  assumes "U conv = Some u" "\<forall>c \<in> set (open_members u (cw_db w)). sc_type c = ''webitel''"
    and "route_join_conversation U c conv w = (None, w')"
  shows "cw_events w' = cw_events w @
    map (\<lambda>m. Published ''join_conversation'' (sc_domain_id m) (sc_user_id m)
        (JoinBody conv (sc_id c) (sc_user_id c) (sc_name c) (sc_type c) (sc_internal c) (sc_updated_at c)))
      (take 16 (sort_key (\<lambda>m. - sc_created_at m) (open_members u (cw_db w))))"
proof -
  let ?body = "JoinBody conv (sc_id c) (sc_user_id c) (sc_name c) (sc_type c) (sc_internal c) (sc_updated_at c)"
  obtain ms v where a: "active_members U conv w = (Ok ms, v)"
      "w' = fold (notify_member U ''join_conversation'' ?body (Some (joined_notice c))) ms v"
    using assms(3) by (auto simp: route_join_conversation_def route_members_def split: prod.splits sum.splits)
  note t = active_members_take [OF a(1) assms(1)]
  have "\<forall>m \<in> set ms. sc_type m = ''webitel''"
    using assms(2) unfolding t(1) by (auto dest!: in_set_takeD)
  from notify_webitel_events [OF this] show ?thesis
    unfolding a(2) by (simp add: t take_map comp_def)
qed

definition example_member :: "int \<Rightarrow> store_channel" where
  "example_member i = zero_channel\<lparr>sc_id := itoa i, sc_type := ''webitel'', sc_conversation_id := ''c'',
     sc_user_id := i, sc_created_at := i\<rparr>"

definition example_world :: "store_channel list \<Rightarrow> chat_world" where
  "example_world cs =
     \<lparr>cw_db = \<lparr>cd_convs = [], cd_channels = cs, cd_invites = [],
        cd_messages = [], cd_message_seq = 0, cd_cache = \<lparr>db_nodes = [], db_confirms = [], db_conv_props = [], db_chan_props = [], db_faults = []\<rparr>\<rparr>,
      cw_clients = [],
      cw_flow = new_agent \<lparr>fw_db = \<lparr>db_nodes = [], db_confirms = [], db_conv_props = [], db_chan_props = [],
        db_faults = []\<rparr>, fw_sent = []\<rparr>,
      cw_broker = [], cw_gates = [], cw_portals = [], cw_events = []\<rparr>"

lemma join_notice_reaches_sixteen_witness:
  "\<exists>w'. route_join_conversation Some (example_member 18) ''c'' (example_world (map example_member [1..18])) = (None, w') \<and>
    length (open_members ''c'' (cw_db (example_world (map example_member [1..18])))) = 18 \<and>
    length (cw_events w') = 16"
proof -
  let ?w = "example_world (map example_member [1..18])"
  have open_m: "open_members ''c'' (cw_db ?w) = map example_member [1..18]"
    unfolding open_members_def example_world_def by (simp add: example_member_def open_channel_def zero_channel_def)
  have "\<exists>w'. route_join_conversation Some (example_member 18) ''c'' ?w = (None, w')"
    by (simp add: route_join_conversation_def route_members_def active_members_def get_channels_def
        search_channels_def canonical_filter_def uuid_filter_def no_filter_def example_world_def Let_def
        split: prod.split sum.split)
  then obtain w' where r: "route_join_conversation Some (example_member 18) ''c'' ?w = (None, w')" by blast
  have "\<forall>c \<in> set (open_members ''c'' (cw_db ?w)). sc_type c = ''webitel''"
    unfolding open_m by (simp add: example_member_def)
  from join_notice_reaches_sixteen [OF _ this r] have "length (cw_events w') = 16"
    by (simp add: open_m) (simp add: example_world_def)
  then show ?thesis using r open_m by simp
qed

end
