(* ===== verification/Chat_Service.thy ===== *)
theory Chat_Service
  imports Chat_Router
begin

text \<open>
  cmd/chat/service.go: the life of an invitation.  InviteToConversation, the timer that it
  starts, JoinConversation, DeclineInvitation, LeaveConversation and WaitMessage.

  A handler that others can interleave with is split where they can: JoinConversation
  and DeclineInvitation look their invite up and act on it later.  The table of users
  (directory.wbt_user) and the parser of UUIDs are parameters.  Where a handler starts
  two goroutines and waits for both, a flag says which one runs first.
\<close>

section \<open>Errors and users\<close>

datatype service_error = Status string | Failed chat_error | RouteFailed route_error | FlowFailed flow_error

record webitel_user =
  wu_id :: int
  wu_domain_id :: int
  wu_name :: string
  wu_chat_name :: string

definition get_webitel_user_by_id ::
  "webitel_user list \<Rightarrow> int \<Rightarrow> int \<Rightarrow> chat_db \<Rightarrow> (chat_error, webitel_user option) result \<times> chat_db" where
  "get_webitel_user_by_id users i dc db =
     (let (f, db) = next_statement db in
      if f then (Fail (StatementFailed DbFault), db)
      else (Ok (List.find (\<lambda>u. wu_id u = i \<and> wu_domain_id u = dc) users), db))"

text \<open>The workflow client on the same repository.\<close>

definition break_flow_bridge ::
  "string \<Rightarrow> string \<Rightarrow> attempt list \<Rightarrow> chat_world \<Rightarrow> flow_error option \<times> chat_world" where
  "break_flow_bridge conv cause ats w =
     (let ag = cw_flow w;
          ag = ag\<lparr>ag_world := (ag_world ag)\<lparr>fw_db := cd_cache (cw_db w)\<rparr>\<rparr>;
          (e, ag) = break_bridge conv cause ats ag
      in (e, w\<lparr>cw_flow := ag, cw_db := (cw_db w)\<lparr>cd_cache := fw_db (ag_world ag)\<rparr>\<rparr>))"

section \<open>Joining\<close>

definition invite_found :: "string \<Rightarrow> int \<Rightarrow> chat_invite option \<Rightarrow> chat_invite option" where
  "invite_found token from found =
     (case found of
        None \<Rightarrow> None
      | Some i \<Rightarrow>
          if iv_id i = token \<and> iv_user_id i = from \<and> (iv_closed_at i = None \<or> iv_closed_at i = Some 0)
          then Some i else None)"

definition join_lookup ::
  "(string \<Rightarrow> string option) \<Rightarrow> webitel_user list \<Rightarrow> int \<Rightarrow> string \<Rightarrow> chat_world \<Rightarrow>
   (service_error, chat_invite \<times> webitel_user) result \<times> chat_world" where
  "join_lookup U users from token w =
     (if from = 0 then (Fail (Status ''chat.join.user.required''), w)
      else if token = [] then (Fail (Status ''chat.join.invite.required''), w)
      else
        (case get_invite_by_id U token (cw_db w) of
           (Fail e, db) \<Rightarrow> (Fail (Failed e), w\<lparr>cw_db := db\<rparr>)
         | (Ok found, db) \<Rightarrow>
             (case invite_found token from found of
                None \<Rightarrow> (Fail (Status ''chat.invite.not_found''), w\<lparr>cw_db := db\<rparr>)
              | Some i \<Rightarrow>
                  (case get_webitel_user_by_id users from (iv_domain_id i) db of
                     (Fail e, db) \<Rightarrow> (Fail (Failed e), w\<lparr>cw_db := db\<rparr>)
                   | (Ok user, db) \<Rightarrow>
                       (case user of
                          None \<Rightarrow> (Fail (Status ''chat.user.not_found''), w\<lparr>cw_db := db\<rparr>)
                        | Some u \<Rightarrow>
                            if wu_domain_id u \<noteq> iv_domain_id i
                            then (Fail (Status ''chat.user.not_found''), w\<lparr>cw_db := db\<rparr>)
                            else (Ok (i, u), w\<lparr>cw_db := db\<rparr>))))))"

definition joined_channel :: "int \<Rightarrow> chat_invite \<Rightarrow> webitel_user \<Rightarrow> store_channel" where
  "joined_channel now i u =
     zero_channel\<lparr>sc_id := iv_id i, sc_type := ''webitel'', sc_internal := True,
       sc_conversation_id := iv_conversation_id i, sc_user_id := iv_user_id i, sc_domain_id := iv_domain_id i,
       sc_name := wu_chat_name u,
       sc_public_name := \<lparr>ns_string = wu_chat_name u, ns_valid = (wu_chat_name u \<noteq> [])\<rparr>,
       sc_created_at := iv_created_at i, sc_updated_at := now, sc_joined_at := Some now, sc_vars := iv_vars i,
       sc_flow_bridge := \<not> ns_valid (iv_inviter_channel_id i)\<rparr>"

text \<open>The body of the transaction; the second statement's answer, whether the invite was
  open still, is ignored.\<close>

definition join_rows ::
  "(string \<Rightarrow> string option) \<Rightarrow> string \<Rightarrow> int \<Rightarrow> string \<Rightarrow> store_channel \<Rightarrow> chat_db \<Rightarrow>
   chat_error option \<times> store_channel \<times> chat_db" where
  "join_rows U fresh now token c db =
     (case new_chat_channel U fresh now c db of
        (Some e, c, db) \<Rightarrow> (Some e, c, db)
      | (None, c, db) \<Rightarrow>
          (case close_invite U now token db of
             (Fail e, db) \<Rightarrow> (Some e, c, db)
           | (Ok _, db) \<Rightarrow> (None, c, db)))"

definition join_commit ::
  "(string \<Rightarrow> string option) \<Rightarrow> string \<Rightarrow> int \<Rightarrow> string \<Rightarrow> chat_invite \<Rightarrow> webitel_user \<Rightarrow> chat_world \<Rightarrow>
   (service_error, string) result \<times> chat_world" where
  "join_commit U fresh now token i u w =
     (let c = joined_channel now i u in
      case with_transaction (join_rows U fresh now token c) c (cw_db w) of
        (Some e, c, db) \<Rightarrow> (Fail (Failed e), w\<lparr>cw_db := db\<rparr>)
      | (None, c, db) \<Rightarrow>
          (Ok (sc_id c), snd (route_join_conversation U c (iv_conversation_id i) (w\<lparr>cw_db := db\<rparr>))))"

definition join_conversation ::
  "(string \<Rightarrow> string option) \<Rightarrow> webitel_user list \<Rightarrow> string \<Rightarrow> int \<Rightarrow> int \<Rightarrow> string \<Rightarrow> chat_world \<Rightarrow>
   (service_error, string) result \<times> chat_world" where
  "join_conversation U users fresh now from token w =
     (case join_lookup U users from token w of
        (Fail e, w) \<Rightarrow> (Fail e, w)
      | (Ok (i, u), w) \<Rightarrow> join_commit U fresh now token i u w)"

section \<open>Leaving\<close>

text \<open>cause is the text of the cause of the request, bridge the cause for the workflow.\<close>

definition leave_chat ::
  "(string \<Rightarrow> string option) \<Rightarrow> int \<Rightarrow> string \<Rightarrow> int \<Rightarrow> string \<Rightarrow> string \<Rightarrow> string \<Rightarrow> attempt list \<Rightarrow> chat_world \<Rightarrow>
   service_error option \<times> chat_world" where
  "leave_chat U now cid from conv cause bridge ats w =
     (case check_user_channel U cid from (cw_db w) of
        (Fail e, db) \<Rightarrow> (Some (Failed e), w\<lparr>cw_db := db\<rparr>)
      | (Ok sender, db) \<Rightarrow>
          (case sender of
             None \<Rightarrow> (Some (Status ''chat.leave.channel.from.not_found''), w\<lparr>cw_db := db\<rparr>)
           | Some c \<Rightarrow>
               if \<not> equal_fold (sc_id c) cid \<or> sc_user_id c \<noteq> from \<or>
                  (conv \<noteq> [] \<and> \<not> equal_fold (sc_conversation_id c) conv)
               then (Some (Status ''chat.leave.channel.from.not_found''), w\<lparr>cw_db := db\<rparr>)
               else
                 (case close_channel U now (sc_id c) cause db of
                    (Fail e, db) \<Rightarrow> (Some (Failed e), w\<lparr>cw_db := db\<rparr>)
                  | (Ok None, db) \<Rightarrow> (None, w\<lparr>cw_db := db\<rparr>)
                  | (Ok (Some closed), db) \<Rightarrow>
                      (let w = snd (break_flow_bridge (sc_conversation_id c) bridge ats (w\<lparr>cw_db := db\<rparr>));
                           notify = (if bridge \<noteq> leave_conversation_cause then bridge else [])
                       in (None, snd (route_leave_conversation U closed (sc_conversation_id c) notify w))))))"

definition leave_conversation ::
  "(string \<Rightarrow> string option) \<Rightarrow> int \<Rightarrow> string \<Rightarrow> int \<Rightarrow> string \<Rightarrow> string \<Rightarrow> attempt list \<Rightarrow> chat_world \<Rightarrow>
   service_error option \<times> chat_world" where
  "leave_conversation U now cid from conv cause ats w =
     leave_chat U now cid from conv cause leave_conversation_cause ats w"

section \<open>Inviting\<close>

record invite_request =
  ir_service :: string
  ir_user_id :: int
  ir_domain_id :: int
  ir_timeout_sec :: int
  ir_conversation_id :: string
  ir_inviter_channel_id :: string
  ir_auth_user_id :: int
  ir_title :: string
  ir_vars :: "vars option"

definition requested_invite :: "invite_request \<Rightarrow> chat_invite" where
  "requested_invite r =
     \<lparr>iv_id = [], iv_conversation_id = ir_conversation_id r, iv_user_id = ir_user_id r,
      iv_title = (if ir_title r \<noteq> [] then some_string (ir_title r) else null_string),
      iv_timeout_sec = ir_timeout_sec r, iv_inviter_channel_id = null_string, iv_closed_at = None,
      iv_created_at = 0, iv_domain_id = ir_domain_id r,
      iv_vars = map_option (vdel []) (ir_vars r)\<rparr>"

text \<open>The inviter's channel of the request, if one is given.\<close>

definition inviter_channel ::
  "(string \<Rightarrow> string option) \<Rightarrow> invite_request \<Rightarrow> chat_db \<Rightarrow> (service_error, null_string) result \<times> chat_db" where
  "inviter_channel U r db =
     (if ir_inviter_channel_id r = [] then (Ok null_string, db)
      else
        (case check_user_channel U (ir_inviter_channel_id r) (ir_auth_user_id r) db of
           (Fail e, db) \<Rightarrow> (Fail (Failed e), db)
         | (Ok None, db) \<Rightarrow> (Fail (Status ''channel not found''), db)
         | (Ok (Some _), db) \<Rightarrow> (Ok (some_string (ir_inviter_channel_id r)), db)))"

text \<open>GetConversations with an id: the conversation, or no row.\<close>

definition get_conversation_rows ::
  "(string \<Rightarrow> string option) \<Rightarrow> string \<Rightarrow> chat_db \<Rightarrow> (chat_error, chat_conv list) result \<times> chat_db" where
  "get_conversation_rows U conv db =
     (let (f, db) = next_statement db in
      if f then (Fail (StatementFailed DbFault), db)
      else
        (case U conv of
           None \<Rightarrow> (Fail InvalidUuid, db)
         | Some u \<Rightarrow> (Ok (filter (\<lambda>v. cv_id v = u) (cd_convs db)), db)))"

text \<open>The two notices; the error is the one that arrives first.\<close>

definition invite_notices ::
  "(string \<Rightarrow> string option) \<Rightarrow> bool \<Rightarrow> chat_conv \<Rightarrow> chat_invite \<Rightarrow> chat_world \<Rightarrow>
   route_error option \<times> chat_world" where
  "invite_notices U user_first v i w =
     (if user_first
      then (let (e1, w) = send_invite_to_webitel_user v i w;
                (e2, w) = route_invite U (iv_conversation_id i) (iv_user_id i) w
            in (if e1 \<noteq> None then e1 else e2, w))
      else (let (e2, w) = route_invite U (iv_conversation_id i) (iv_user_id i) w;
                (e1, w) = send_invite_to_webitel_user v i w
            in (if e2 \<noteq> None then e2 else e1, w)))"

datatype invite_result = InvitePanic | InviteFail service_error | InviteOk chat_invite

text \<open>The result is the invite that the timer, if the request has a timeout, will close.
  The first conversation of an empty list panics.\<close>

definition invite_to_conversation ::
  "(string \<Rightarrow> string option) \<Rightarrow> (store_channel \<Rightarrow> string option) \<Rightarrow> string \<Rightarrow> int \<Rightarrow> bool \<Rightarrow> invite_request \<Rightarrow>
   chat_world \<Rightarrow> invite_result \<times> chat_world" where
  "invite_to_conversation U names fresh now user_first r w =
     (if ir_service r \<noteq> ''workflow'' \<and> (ir_inviter_channel_id r = [] \<or> ir_auth_user_id r = 0)
      then (InviteFail (Status ''failed auth''), w)
      else
        (case inviter_channel U r (cw_db w) of
           (Fail e, db) \<Rightarrow> (InviteFail e, w\<lparr>cw_db := db\<rparr>)
         | (Ok inviter, db) \<Rightarrow>
             (case create_invite U names fresh now (requested_invite r\<lparr>iv_inviter_channel_id := inviter\<rparr>) db of
                (Some e, i, db) \<Rightarrow> (InviteFail (Failed e), w\<lparr>cw_db := db\<rparr>)
              | (None, i, db) \<Rightarrow>
                  (case get_conversation_rows U (ir_conversation_id r) db of
                     (Fail e, db) \<Rightarrow> (InviteFail (Failed e), w\<lparr>cw_db := db\<rparr>)
                   | (Ok [], db) \<Rightarrow> (InvitePanic, w\<lparr>cw_db := db\<rparr>)
                   | (Ok (v # _), db) \<Rightarrow>
                       (case invite_notices U user_first v i (w\<lparr>cw_db := db\<rparr>) of
                          (Some e, w) \<Rightarrow> (InviteFail (RouteFailed e), w)
                        | (None, w) \<Rightarrow> (InviteOk i, w))))))"

text \<open>The timer: it closes the invite if it is open still.\<close>

definition invite_timeout ::
  "(string \<Rightarrow> string option) \<Rightarrow> int \<Rightarrow> invite_request \<Rightarrow> chat_invite \<Rightarrow> attempt list \<Rightarrow> chat_world \<Rightarrow>
   bool \<times> chat_world" where
  "invite_timeout U now r i ats w =
     (case close_invite U now (iv_id i) (cw_db w) of
        (Fail _, db) \<Rightarrow> (False, w\<lparr>cw_db := db\<rparr>)
      | (Ok closed, db) \<Rightarrow>
          if \<not> closed then (False, w\<lparr>cw_db := db\<rparr>)
          else
            (let w = w\<lparr>cw_db := db\<rparr>;
                 w = (if ir_inviter_channel_id r = []
                      then snd (break_flow_bridge (ir_conversation_id r) timeout_cause ats w) else w)
             in (True, snd (send_decline_invite_to_webitel_user (ir_domain_id r) (iv_conversation_id i)
                              (iv_user_id i) (iv_id i) timeout_cause w))))"

section \<open>Declining\<close>

definition decline_lookup ::
  "(string \<Rightarrow> string option) \<Rightarrow> int \<Rightarrow> string \<Rightarrow> chat_world \<Rightarrow>
   (service_error, chat_invite option) result \<times> chat_world" where
  "decline_lookup U from token w =
     (case get_invite_by_id U token (cw_db w) of
        (Fail e, db) \<Rightarrow> (Fail (Failed e), w\<lparr>cw_db := db\<rparr>)
      | (Ok found, db) \<Rightarrow> (Ok (invite_found token from found), w\<lparr>cw_db := db\<rparr>))"

text \<open>The result says whether the invite was declined.\<close>

definition decline_commit ::
  "(string \<Rightarrow> string option) \<Rightarrow> int \<Rightarrow> bool \<Rightarrow> string \<Rightarrow> chat_invite \<Rightarrow> attempt list \<Rightarrow> chat_world \<Rightarrow>
   (service_error, bool) result \<times> chat_world" where
  "decline_commit U now members_first cause i ats w =
     (case close_invite U now (iv_id i) (cw_db w) of
        (Fail e, db) \<Rightarrow> (Fail (Failed e), w\<lparr>cw_db := db\<rparr>)
      | (Ok closed, db) \<Rightarrow>
          if \<not> closed then (Ok False, w\<lparr>cw_db := db\<rparr>)
          else
            (let w = w\<lparr>cw_db := db\<rparr>;
                 w = (if \<not> ns_valid (iv_inviter_channel_id i)
                      then snd (break_flow_bridge (iv_conversation_id i) decline_invitation_cause ats w) else w);
                 members = (\<lambda>w. snd (route_decline_invite U (iv_user_id i) (iv_conversation_id i) w));
                 user = (\<lambda>w. snd (send_decline_invite_to_webitel_user (iv_domain_id i) (iv_conversation_id i)
                                (iv_user_id i) (iv_id i) cause w))
             in (Ok True, if members_first then user (members w) else members (user w))))"

definition decline_invitation ::
  "(string \<Rightarrow> string option) \<Rightarrow> int \<Rightarrow> bool \<Rightarrow> int \<Rightarrow> string \<Rightarrow> string \<Rightarrow> attempt list \<Rightarrow> chat_world \<Rightarrow>
   (service_error, bool) result \<times> chat_world" where
  "decline_invitation U now members_first from token cause ats w =
     (case decline_lookup U from token w of
        (Fail e, w) \<Rightarrow> (Fail e, w)
      | (Ok None, w) \<Rightarrow> (Ok False, w)
      | (Ok (Some i), w) \<Rightarrow> decline_commit U now members_first cause i ats w)"

section \<open>Waiting and closing\<close>

definition wait_timeout_sec :: int where "wait_timeout_sec = 600"

definition wait_for_message ::
  "string \<Rightarrow> string \<Rightarrow> chat_world \<Rightarrow> (service_error, int) result \<times> chat_world" where
  "wait_for_message conv confirmation w =
     (let ag = cw_flow w;
          ag = ag\<lparr>ag_world := (ag_world ag)\<lparr>fw_db := cd_cache (cw_db w)\<rparr>\<rparr>;
          (e, ag) = wait_message conv confirmation ag;
          w = w\<lparr>cw_flow := ag, cw_db := (cw_db w)\<lparr>cd_cache := fw_db (ag_world ag)\<rparr>\<rparr>
      in case e of Some e \<Rightarrow> (Fail (FlowFailed e), w) | None \<Rightarrow> (Ok wait_timeout_sec, w))"

definition close_conversation_rows ::
  "(string \<Rightarrow> string option) \<Rightarrow> int \<Rightarrow> string \<Rightarrow> string \<Rightarrow> chat_world \<Rightarrow> service_error option \<times> chat_world" where
  "close_conversation_rows U now conv cause w =
     (case close_session U now conv cause (cw_db w) of
        (Some e, db) \<Rightarrow> (Some (Failed e), w\<lparr>cw_db := db\<rparr>)
      | (None, db) \<Rightarrow> (None, w\<lparr>cw_db := db\<rparr>))"

end
