(* ===== verification/App_Time.thy ===== *)
theory App_Time
  imports "HOL-Library.Signed_Division" Chat_Prelude
begin

text \<open>
  app/datetime.go: epoch times and dates.  A date is the number of nanoseconds since
  1970, None the zero time.  The integers of the code are int64 (and wrap); a date of the
  library is not bounded by them.
\<close>

datatype precision = Second | Millisecond | Microsecond | Nanosecond | OtherPrecision int

text \<open>The length of the unit in nanoseconds.\<close>

fun precision_ns :: "precision \<Rightarrow> int" where
  "precision_ns Second = 1000000000"
| "precision_ns Millisecond = 1000000"
| "precision_ns Microsecond = 1000"
| "precision_ns Nanosecond = 1"
| "precision_ns (OtherPrecision n) = n"

definition int64 :: "int \<Rightarrow> int" where "int64 n = signed_take_bit 63 n"

text \<open>None is the panic about an invalid precision.\<close>

definition date_epochtime :: "int option \<Rightarrow> precision \<Rightarrow> int option" where
  "date_epochtime date p =
     (case date of
        None \<Rightarrow> Some 0
      | Some ns \<Rightarrow>
          if ns < 0 then Some 0
          else
            (case p of
               Second \<Rightarrow> Some (int64 (ns div 1000000000))
             | Nanosecond \<Rightarrow> Some (int64 ns)
             | OtherPrecision _ \<Rightarrow> None
             | _ \<Rightarrow> Some (int64 ns sdiv precision_ns p)))"

definition epochtime_date :: "int \<Rightarrow> precision \<Rightarrow> int option option" where
  "epochtime_date n p =
     (if n = 0 then Some None
      else
        (case p of
           Second \<Rightarrow> Some (Some (n * 1000000000))
         | OtherPrecision _ \<Rightarrow> None
         | _ \<Rightarrow>
             (let per_second = 1000000000 sdiv precision_ns p
              in Some (Some ((n sdiv per_second) * 1000000000 + int64 ((n smod per_second) * precision_ns p))))))"

definition time_precision :: precision where "time_precision = Millisecond"

definition date_timestamp :: "int option \<Rightarrow> int" where
  "date_timestamp date = the (date_epochtime date time_precision)"

definition timestamp_date :: "int \<Rightarrow> int option" where
  "timestamp_date t = the (epochtime_date t time_precision)"

lemma sdiv_smod_recompose: "(n sdiv k) * k + n smod k = (n :: int)"
  by (simp add: sdiv_mult_smod_eq)

lemma timestamp_date_exact: "- (2 ^ 63) \<le> n \<Longrightarrow> n < 2 ^ 63 \<Longrightarrow> n \<noteq> 0 \<Longrightarrow> timestamp_date n = Some (n * 1000000)"
proof -
  assume n: "- (2 ^ 63) \<le> n" "n < 2 ^ 63" "n \<noteq> 0"
  have k: "(1000000000 :: int) sdiv 1000000 = 1000" by (simp add: signed_divide_int_def sgn_if)
  have m: "\<bar>n smod 1000\<bar> < 1000"
    by (simp add: signed_modulo_int_def sgn_if abs_mult)
  then have "int64 ((n smod 1000) * 1000000) = (n smod 1000) * 1000000"
    unfolding int64_def by (intro signed_take_bit_int_eq_self) (simp_all add: abs_less_iff)
  moreover have "(n sdiv 1000) * 1000000000 + (n smod 1000) * 1000000 = ((n sdiv 1000) * 1000 + n smod 1000) * 1000000"
    by (simp add: algebra_simps)
  ultimately show ?thesis
    using n(3) sdiv_smod_recompose [of n 1000]
    by (simp add: timestamp_date_def epochtime_date_def time_precision_def Let_def k)
qed

lemma sdiv_million:
  assumes "x \<le> (9223372036854775807 :: int)"
  shows "x sdiv 1000000 \<le> 9223372036854"
proof (cases "0 < x")
  case True
  then show ?thesis
    using zdiv_mono1 [OF assms, of 1000000] by (simp add: signed_divide_int_def)
next
  case False
  then have "0 \<le> \<bar>x\<bar> div 1000000" by (simp add: pos_imp_zdiv_nonneg_iff)
  then show ?thesis using False by (cases "x = 0") (simp_all add: signed_divide_int_def)
qed

text \<open>A timestamp in milliseconds is read back from its date exactly when it lies between 0
  and the last millisecond whose nanoseconds fit into 64 bits (the year 2262).\<close>

theorem timestamp_round_trip:
  assumes "- (2 ^ 63) \<le> t" "t < 2 ^ 63"
  shows "date_timestamp (timestamp_date t) = t \<longleftrightarrow> 0 \<le> t \<and> t \<le> 9223372036854"
proof (cases "t = 0")
  case True
  then show ?thesis by (simp add: date_timestamp_def timestamp_date_def epochtime_date_def date_epochtime_def)
next
  case False
  have d: "date_timestamp (timestamp_date t) = (if t < 0 then 0 else int64 (t * 1000000) sdiv 1000000)"
    unfolding timestamp_date_exact [OF assms False]
    by (simp add: date_timestamp_def date_epochtime_def time_precision_def)
  show ?thesis
  proof (cases "0 \<le> t \<and> t \<le> 9223372036854")
    case True
    then have "int64 (t * 1000000) = t * 1000000"
      unfolding int64_def by (intro signed_take_bit_int_eq_self) simp_all
    then show ?thesis using True d by (simp add: signed_divide_int_def sgn_if)
  next
    case out: False
    have "int64 (t * 1000000) < 2 ^ 63" unfolding int64_def by (rule signed_take_bit_int_less_exp)
    then have "int64 (t * 1000000) \<le> 9223372036854775807" by simp
    then have "int64 (t * 1000000) sdiv 1000000 \<le> 9223372036854" by (rule sdiv_million)
    then show ?thesis using out d False by auto
  qed
qed

lemma timestamp_round_trip_witness:
  "date_timestamp (timestamp_date 1700000000123) = 1700000000123 \<and>
    date_timestamp (timestamp_date 9223372036855) \<noteq> 9223372036855 \<and> date_timestamp (timestamp_date (- 5)) \<noteq> - 5"
  using timestamp_round_trip [of 1700000000123] timestamp_round_trip [of 9223372036855] timestamp_round_trip [of "- 5"] by simp

end
