(* ===== verification/Chat_Session.thy ===== *)
theory Chat_Session
  imports Chat_Service App_Time
begin

text \<open>
  The room of a chat and what is sent to its members: GetSession
  (internal/repo/sqlx/v1.session.go), SendMessageToGateway (internal/event_router/helpers.go,
  portal.go), and of cmd/chat/service.go sendMessage, sendSystemLevelMessage,
  sendChatClosed and CloseConversation.

  The tables of gateways, schemas, accounts and clients' names are those of other
  services and parameters here.  Of two maps of the code that are the same one, a flag
  says so.
\<close>

section \<open>The room\<close>

record session_tables =
  st_bots :: "(int \<times> int option \<times> string) list"
  st_schemes :: "(int \<times> int \<times> string) list"
  st_accounts :: "(int \<times> string \<times> string option \<times> string option) list"
  st_names :: "(int \<times> string) list"

datatype session_error = SessionDb chat_error | InvalidCast | NullColumn

text \<open>The conversation of an id: its own, or that of a channel or an invite.\<close>

definition session_id :: "string \<Rightarrow> chat_db \<Rightarrow> string option" where
  "session_id u db =
     (if u \<in> cv_id ` set (cd_convs db) then Some u
      else (case List.find (\<lambda>c. sc_id c = u) (cd_channels db) of
              Some c \<Rightarrow> Some (sc_conversation_id c)
            | None \<Rightarrow> map_option iv_conversation_id (List.find (\<lambda>i. iv_id i = u) (cd_invites db))))"

text \<open>ScanTimestamp: seconds, and 0 for NULL.\<close>

definition scan_timestamp :: "int option \<Rightarrow> int" where
  "scan_timestamp t = (case t of None \<Rightarrow> 0 | Some us \<Rightarrow> us div 1000000)"

definition all_digits :: "string \<Rightarrow> bool" where
  "all_digits s \<longleftrightarrow> s \<noteq> [] \<and> list_all is_digit s"

text \<open>A row with the time it is ordered by; None where a column that the scan needs is NULL.\<close>

type_synonym session_row = "int \<times> app_channel option"

definition room_channel ::
  "int \<Rightarrow> string \<Rightarrow> string \<Rightarrow> string \<Rightarrow> string \<Rightarrow> int \<Rightarrow> string \<Rightarrow> string \<Rightarrow> string \<Rightarrow> vars option \<Rightarrow>
   int \<Rightarrow> int option \<Rightarrow> int \<Rightarrow> int option \<Rightarrow> app_channel" where
  "room_channel dc room cid channel contact uid uchannel ucontact uname vs created joined updated closed =
     zero_app_channel\<lparr>
       ac_chat := zero_chat\<lparr>ch_id := cid, ch_invite := room, ch_channel := channel, ch_contact := contact\<rparr>,
       ac_user := zero_user\<lparr>au_id := uid, au_channel := uchannel, au_contact := ucontact, au_first_name := uname\<rparr>,
       ac_domain_id := dc, ac_vars := vs, ac_created := scan_timestamp (Some created),
       ac_joined := scan_timestamp joined, ac_updated := scan_timestamp (Some updated),
       ac_closed := scan_timestamp closed\<rparr>"

definition at_host :: "string option \<Rightarrow> string" where
  "at_host h = (case h of None \<Rightarrow> [] | Some h \<Rightarrow> CHR ''@'' # h)"

text \<open>The row of the schema, for a channel of the gateway that the conversation began with.\<close>

definition chatflow_rows ::
  "session_tables \<Rightarrow> chat_db \<Rightarrow> chat_conv \<Rightarrow> store_channel \<Rightarrow> (session_error, session_row list) result" where
  "chatflow_rows T db v c =
     (let con = ns_string (sc_connection c) in
      if \<not> (ns_valid (sc_connection c) \<and> all_digits con \<and> sc_conversation_id c = cv_id v \<and>
             sc_created_at c \<le> cv_created_at v + 3000)
      then Ok []
      else if snd (parse_int con) \<noteq> None then Fail InvalidCast
      else
        (case map_of (env_of (cv_vars v)) ''flow'' of
           None \<Rightarrow> Ok []
         | Some flow \<Rightarrow>
             if snd (parse_int flow) \<noteq> None then Fail InvalidCast
             else
               (let bot = map_of (st_bots T) (fst (parse_int con));
                    node = map_of (db_nodes (cd_cache db)) (cv_id v) in
                Ok (map (\<lambda>(fid, _, name).
                      (sc_created_at c + 1000,
                       Some (room_channel (sc_domain_id c) (cv_id v) (cv_id v) ''chatflow'' (con @ at_host node)
                         (case bot of Some (Some f, _) \<Rightarrow> f | _ \<Rightarrow> fid) ''bot'' flow
                         (case bot of Some (_, n) \<Rightarrow> n | None \<Rightarrow> name) (cv_vars v)
                         (sc_created_at c + 1000) None (cv_updated_at v)
                         (case sc_closed_at c of Some t \<Rightarrow> Some t | None \<Rightarrow> cv_closed_at v))))
                    (filter (\<lambda>(fid, dc, _). fid = fst (parse_int flow) \<and> dc = cv_domain_id v) (st_schemes T))))))"

definition channel_room_row :: "session_tables \<Rightarrow> chat_client list \<Rightarrow> store_channel \<Rightarrow> session_row" where
  "channel_room_row T clients c =
     (let client = (if sc_internal c then None else List.find (\<lambda>k. cc_id k = sc_user_id c) clients);
          account = (if sc_internal c then map_of (st_accounts T) (sc_user_id c) else None);
          contact = (case client of
                       Some k \<Rightarrow> if ns_valid (cc_external_id k) then Some (ns_string (cc_external_id k))
                                 else map_option fst account
                     | None \<Rightarrow> map_option fst account);
          name = (case (if client = None then None else map_of (st_names T) (sc_user_id c)) of
                    Some n \<Rightarrow> Some n
                  | None \<Rightarrow>
                      (case account of
                         None \<Rightarrow> None
                       | Some (user, Some chat, _) \<Rightarrow> Some chat
                       | Some (user, None, Some n) \<Rightarrow> Some n
                       | Some (user, None, None) \<Rightarrow> Some user));
          via = (if ns_valid (sc_connection c)
                 then ns_string (sc_connection c) @
                   at_host (if ns_valid (sc_host c) then Some (ns_string (sc_host c)) else None)
                 else ''engine'')
      in (sc_created_at c,
          (case (contact, name) of
             (Some k, Some n) \<Rightarrow>
               Some (room_channel (sc_domain_id c) (sc_conversation_id c) (sc_id c)
                 (if sc_type c = ''webitel'' then ''websocket'' else sc_type c) via (sc_user_id c)
                 (if sc_type c = ''webitel'' then ''user'' else sc_type c) k n (sc_vars c)
                 (sc_created_at c) (sc_joined_at c) (sc_updated_at c) (sc_closed_at c))
           | _ \<Rightarrow> None)))"

definition invite_room_row :: "session_tables \<Rightarrow> chat_invite \<Rightarrow> session_row" where
  "invite_room_row T i =
     (iv_created_at i,
      map_option (\<lambda>(user, chat, name).
        room_channel (iv_domain_id i) (iv_conversation_id i) (iv_id i) ''websocket'' ''engine'' (iv_user_id i) ''user'' user
          (case chat of Some n \<Rightarrow> n | None \<Rightarrow> (case name of Some n \<Rightarrow> n | None \<Rightarrow> user)) (iv_vars i)
          (iv_created_at i) None (iv_created_at i) None)
        (map_of (st_accounts T) (iv_user_id i)))"

fun concat_results :: "('e, 'a list) result list \<Rightarrow> ('e, 'a list) result" where
  "concat_results [] = Ok []"
| "concat_results (Fail e # rs) = Fail e"
| "concat_results (Ok xs # rs) =
     (case concat_results rs of Fail e \<Rightarrow> Fail e | Ok ys \<Rightarrow> Ok (xs @ ys))"

definition session_rows ::
  "session_tables \<Rightarrow> chat_client list \<Rightarrow> string \<Rightarrow> chat_db \<Rightarrow> (session_error, session_row list) result" where
  "session_rows T clients s db =
     (case concat_results [chatflow_rows T db v c. v \<leftarrow> cd_convs db, cv_id v = s, c \<leftarrow> cd_channels db] of
        Fail e \<Rightarrow> Fail e
      | Ok flows \<Rightarrow>
          Ok (sort_key fst
            (flows @ map (channel_room_row T clients) (filter (\<lambda>c. sc_conversation_id c = s) (cd_channels db)) @
             map (invite_room_row T) (filter (\<lambda>i. iv_conversation_id i = s \<and> open_invite i) (cd_invites db)))))"

text \<open>The member with exactly this id and the others.\<close>

fun split_room :: "string \<Rightarrow> app_channel list \<Rightarrow> (app_channel \<times> app_channel list) option" where
  "split_room i [] = None"
| "split_room i (m # ms) =
     (if ch_id (ac_chat m) = i then Some (m, ms)
      else map_option (\<lambda>(c, r). (c, m # r)) (split_room i ms))"

definition get_session ::
  "(string \<Rightarrow> string option) \<Rightarrow> session_tables \<Rightarrow> string \<Rightarrow> chat_world \<Rightarrow>
   (session_error, (app_channel \<times> app_channel list) option) result \<times> chat_world" where
  "get_session U T i w =
     (let (f, db) = next_statement (cw_db w); w = w\<lparr>cw_db := db\<rparr> in
      if f then (Fail (SessionDb (StatementFailed DbFault)), w)
      else
        (case U i of
           None \<Rightarrow> (Fail (SessionDb InvalidUuid), w)
         | Some u \<Rightarrow>
             (case session_id u db of
                None \<Rightarrow> (Ok None, w)
              | Some s \<Rightarrow>
                  (case session_rows T (cw_clients w) s db of
                     Fail e \<Rightarrow> (Fail e, w)
                   | Ok rows \<Rightarrow>
                       if \<exists>r \<in> set rows. snd r = None then (Fail NullColumn, w)
                       else (Ok (split_room i (map (the \<circ> snd) rows)), w)))))"


section \<open>A message to a gateway\<close>

text \<open>The result has the message as the caller sees it: bindings that the gateway returns go to
  the variables of a saved message, and to the channel for a service message.\<close>

definition gateway_recipient :: "app_channel \<Rightarrow> string \<Rightarrow> store_channel" where
  "gateway_recipient target host =
     zero_channel\<lparr>sc_id := ch_id (ac_chat target), sc_type := ch_channel (ac_chat target),
       sc_conversation_id := ch_invite (ac_chat target), sc_user_id := au_id (ac_user target),
       sc_host := \<lparr>ns_string = host, ns_valid = (host \<noteq> [])\<rparr>, sc_domain_id := ac_domain_id target\<rparr>"

definition sent_bindings :: "app_channel \<Rightarrow> notice \<Rightarrow> vars option \<Rightarrow> chat_world \<Rightarrow> notice \<times> chat_world" where
  "sent_bindings target m bindings w =
     (let vs = vdel [] (env_of bindings) in
      if vs = [] then (m, w)
      else if nt_id m = 0 then (m, bind_statement (ch_id (ac_chat target)) vs w)
      else (m\<lparr>nt_vars := Some (case nt_vars m of None \<Rightarrow> vs
                                | Some old \<Rightarrow> foldl (\<lambda>d (k, v). vset k v d) old vs)\<rparr>, w))"

definition send_message_to_gateway ::
  "(string \<Rightarrow> string option) \<Rightarrow> app_channel \<Rightarrow> notice \<Rightarrow> chat_world \<Rightarrow> route_error option \<times> notice \<times> chat_world" where
  "send_message_to_gateway U target m w =
     (if au_channel (ac_user target) = ''portal'' then
        (let (e, w) = push_update (ch_id (ac_chat target)) (ch_contact (ac_chat target)) m w in (e, m, w))
      else
        (case contact_object_node (ch_contact (ac_chat target)) of
           (_, _, Some e) \<Rightarrow> (Some GateError, m, w)
         | (profile, host, None) \<Rightarrow>
             if profile = 0 then (Some GateError, m, w)
             else
               (let w = w\<lparr>cw_events := cw_events w @
                          [GatewayCall (ch_id (ac_chat target)) profile (au_contact (ac_user target)) m]\<rparr> in
                case cw_gates w of
                  [] \<Rightarrow> (Some GateError, m, w)
                | g # gs \<Rightarrow>
                    (let w = w\<lparr>cw_gates := gs\<rparr> in
                     case gate_call (gr_attempts g) (gateway_recipient target host) of
                       (True, _) \<Rightarrow> (Some GateError, m, w)
                     | (False, recipient) \<Rightarrow>
                         (let (m, w) = sent_bindings target m (gr_bindings g) w in
                          (None, m,
                           if host \<noteq> hostname recipient
                           then w\<lparr>cw_db := snd (update_channel_host U (sc_id recipient) (hostname recipient) (cw_db w))\<rparr>
                           else w))))))"

section \<open>A message to the members of a room\<close>

text \<open>The event for the users of the platform.\<close>

definition message_event :: "string \<Rightarrow> string \<Rightarrow> vars option \<Rightarrow> notice \<Rightarrow> event_body" where
  "message_event conv from marker m =
     MessageBody conv from (if nt_updated m = 0 then nt_created m else nt_updated m)
       (zero_notice\<lparr>nt_id := nt_id m, nt_type := nt_type m,
          nt_text := (case nt_postback m of None \<Rightarrow> nt_text m
                      | Some b \<Rightarrow> if nt_text m = [] then pb_text b else nt_text m),
          nt_created := nt_created m, nt_updated := nt_updated m, nt_vars := marker, nt_file := nt_file m,
          nt_contact := nt_contact m, nt_postback := nt_postback m, nt_reply_to := nt_reply_to m,
          nt_forward_from := nt_forward_from m, nt_forward_chat := nt_forward_chat m\<rparr>)"

definition workflow_message :: "notice \<Rightarrow> flow_message" where
  "workflow_message m =
     (let code = (case nt_postback m of None \<Rightarrow> [] | Some b \<Rightarrow> pb_code b) in
      \<lparr>fm_id = nt_id m, fm_type = nt_type m, fm_text = (if code \<noteq> [] then code else nt_text m),
       fm_postback = map_option pb_code (nt_postback m), fm_vars = nt_vars m, fm_from = nt_from m,
       fm_created = nt_created m\<rparr>)"

definition on_flow :: "(flow_agent \<Rightarrow> 'a \<times> flow_agent) \<Rightarrow> chat_world \<Rightarrow> 'a \<times> chat_world" where
  "on_flow f w =
     (let ag = cw_flow w;
          ag = ag\<lparr>ag_world := (ag_world ag)\<lparr>fw_db := cd_cache (cw_db w)\<rparr>\<rparr>;
          (x, ag) = f ag
      in (x, w\<lparr>cw_flow := ag, cw_db := (cw_db w)\<lparr>cd_cache := fw_db (ag_world ag)\<rparr>\<rparr>))"

text \<open>What the loop of sendMessage carries along: the message, the bindings and whether they are
  the same map as the message's variables, the two payloads that are made once, and the
  attempts of the coming calls of the workflow.\<close>

record delivery =
  dl_world :: chat_world
  dl_message :: notice
  dl_binding :: "vars option"
  dl_shared :: bool
  dl_rebind :: bool
  dl_event :: "event_body option"
  dl_flow :: "(bool \<times> flow_message) option"
  dl_sent :: int
  dl_error :: "route_error option"
  dl_calls :: "(attempt list \<times> attempt list) list"

definition publish_message :: "(notice \<Rightarrow> event_body) \<Rightarrow> app_channel \<Rightarrow> delivery \<Rightarrow> delivery" where
  "publish_message body member st =
     (let event = (case dl_event st of Some e \<Rightarrow> e | None \<Rightarrow> body (dl_message st));
          (_, w) = publish ''message'' (ac_domain_id member) (au_id (ac_user member)) event (dl_world st)
      in st\<lparr>dl_world := w, dl_event := Some event, dl_sent := dl_sent st + 1\<rparr>)"

text \<open>The copy of the message for the workflow is shallow: it has the map of the message's variables
  when the message had one as the copy was made, and the flag says so.\<close>

definition deliver_workflow :: "app_channel \<Rightarrow> delivery \<Rightarrow> delivery" where
  "deliver_workflow member st =
     (let m = dl_message st;
          (same, send) = (case dl_flow st of Some p \<Rightarrow> p | None \<Rightarrow> (nt_vars m \<noteq> None, workflow_message m));
          send = (if same then send\<lparr>fm_vars := nt_vars m\<rparr> else send);
          (ats, restart) = (case dl_calls st of [] \<Rightarrow> ([], []) | c # _ \<Rightarrow> c);
          ((err, send), w) = on_flow (\<lambda>ag. case send_message_v1 member send ats restart ag of (e, m, ag) \<Rightarrow> ((e, m), ag))
                               (dl_world st);
          m = (if same then m\<lparr>nt_vars := fm_vars send\<rparr> else m)
      in st\<lparr>dl_world := w, dl_flow := Some (same, send), dl_calls := drop 1 (dl_calls st), dl_message := m,
            dl_binding := (if dl_shared st then nt_vars m else dl_binding st), dl_sent := dl_sent st + 1\<rparr>)"

text \<open>The bindings after a gateway.  While they are the variables of the message itself, the
  comparison of the new values with the old ones compares a map with itself.\<close>

definition merge_binding :: "delivery \<Rightarrow> delivery" where
  "merge_binding st =
     (let vs = env_of (nt_vars (dl_message st)) in
      if dl_shared st then st\<lparr>dl_binding := nt_vars (dl_message st)\<rparr>
      else
        (let new = filter (\<lambda>(k, _). k \<noteq> []) vs;
             rebind = (dl_rebind st \<or> (\<exists>(k, v) \<in> set new. map_of (env_of (dl_binding st)) k \<noteq> Some v));
             binding = (if new = [] then dl_binding st
                        else Some (foldl (\<lambda>d (k, v). vset k v d) (env_of (dl_binding st)) new))
         in st\<lparr>dl_rebind := rebind, dl_binding := binding, dl_message := (dl_message st)\<lparr>nt_vars := binding\<rparr>,
               dl_shared := (binding \<noteq> None)\<rparr>))"

definition deliver_gateway :: "(string \<Rightarrow> string option) \<Rightarrow> app_channel \<Rightarrow> delivery \<Rightarrow> delivery" where
  "deliver_gateway U member st =
     (let (err, m, w) = send_message_to_gateway U member (dl_message st) (dl_world st);
          st = st\<lparr>dl_world := w, dl_message := m, dl_error := (if err \<noteq> None then err else dl_error st)\<rparr>
      in if nt_id m = 0 then st
         else (merge_binding st)\<lparr>dl_sent := dl_sent st + 1\<rparr>)"

text \<open>One round of the loop; the flag says that the member is the sender.\<close>

definition deliver_member ::
  "(string \<Rightarrow> string option) \<Rightarrow> app_channel \<Rightarrow> bool \<times> app_channel \<Rightarrow> delivery \<Rightarrow> delivery" where
  "deliver_member U sender p st =
     (let (is_sender, member) = p; kind = ch_channel (ac_chat member) in
      if channel_is_closed (Some member) then st
      else if kind = ''websocket''
        then publish_message (message_event (ch_invite (ac_chat sender)) (ch_id (ac_chat sender)) None) member st
      else if is_sender then st
      else if kind = ''chatflow'' then deliver_workflow member st
      else deliver_gateway U member st)"

definition room_members :: "app_channel \<Rightarrow> app_channel list \<Rightarrow> (bool \<times> app_channel) list" where
  "room_members sender members = (True, sender) # map (Pair False) members"

text \<open>bind_message stands for BindMessage on the rows of the messages.\<close>

definition bind_message :: "int \<Rightarrow> vars \<Rightarrow> chat_db \<Rightarrow> chat_error option \<times> chat_db" where
  "bind_message oid vs db =
     (let vs = vdel [] vs in
      if vs = [] then (None, db)
      else
        (let (f, db) = next_statement db in
         if f then (Some (StatementFailed DbFault), db)
         else (None, db\<lparr>cd_messages :=
                 map (\<lambda>m. if ms_id m = oid then m\<lparr>ms_vars := Some (bind_expr (ms_vars m) vs)\<rparr> else m) (cd_messages db)\<rparr>)))"

definition delivery_start :: "(attempt list \<times> attempt list) list \<Rightarrow> notice \<Rightarrow> chat_world \<Rightarrow> delivery" where
  "delivery_start calls m w =
     \<lparr>dl_world = w, dl_message = m, dl_binding = nt_vars m, dl_shared = (nt_vars m \<noteq> None), dl_rebind = False,
      dl_event = None, dl_flow = None, dl_sent = 0, dl_error = None, dl_calls = calls\<rparr>"

definition send_to_room ::
  "(string \<Rightarrow> string option) \<Rightarrow> (attempt list \<times> attempt list) list \<Rightarrow> app_channel \<Rightarrow> app_channel list \<Rightarrow> notice \<Rightarrow>
   chat_world \<Rightarrow> route_error option \<times> int \<times> notice \<times> chat_world" where
  "send_to_room U calls sender members m w =
     (if members = [] then (None, 0, m, w)
      else
        (let st = fold (deliver_member U sender) (room_members sender members) (delivery_start calls m w);
             w = dl_world st;
             w = (if dl_rebind st
                  then w\<lparr>cw_db := snd (bind_message (nt_id (dl_message st)) (env_of (dl_binding st)) (cw_db w))\<rparr>
                  else w)
         in (dl_error st, dl_sent st, dl_message st, w)))"


section \<open>Service messages to the members of a room\<close>

definition file_policy_fail :: string where "file_policy_fail = ''file_policy_fail''"

text \<open>sendSystemLevelMessage stops at the first error.\<close>

definition system_marker :: "notice \<Rightarrow> vars option" where
  "system_marker m =
     (let vs = env_of (nt_vars m) in
      if vget vs ''from'' = ''bot''
      then Some [(''from'', ''bot''), (''template'', vget vs ''template'')] else None)"

definition system_event :: "app_channel \<Rightarrow> app_channel \<Rightarrow> notice \<Rightarrow> event_body" where
  "system_event sender member m =
     (let from = (if vget (env_of (nt_vars m)) ''from'' = ''bot'' \<and> vget (env_of (nt_vars m)) ''template'' = file_policy_fail
                  then [] else ch_id (ac_chat member))
      in message_event (ch_invite (ac_chat sender)) from (system_marker m) m)"

fun send_system_message ::
  "(string \<Rightarrow> string option) \<Rightarrow> app_channel \<Rightarrow> app_channel list \<Rightarrow> event_body option \<Rightarrow> int \<Rightarrow> notice \<Rightarrow> chat_world \<Rightarrow>
   (route_error, int) result \<times> notice \<times> chat_world" where
  "send_system_message U sender [] event sent m w = (Ok sent, m, w)"
| "send_system_message U sender (member # ms) event sent m w =
     (let kind = ch_channel (ac_chat member) in
      if channel_is_closed (Some member) then send_system_message U sender ms event sent m w
      else if kind = ''websocket'' then
        (let body = (case event of Some e \<Rightarrow> e | None \<Rightarrow> system_event sender member m) in
         case publish ''message'' (ac_domain_id member) (au_id (ac_user member)) body w of
           (Some e, w) \<Rightarrow> (Fail e, m, w)
         | (None, w) \<Rightarrow> send_system_message U sender ms (Some body) (sent + 1) m w)
      else if kind = ''chatflow'' then send_system_message U sender ms event (sent + 1) m w
      else if member = sender then send_system_message U sender ms event sent m w
      else if nt_text m = [] \<and> vget (env_of (nt_vars m)) ''from'' = ''bot''
        then send_system_message U sender ms event sent m w
      else
        (case send_message_to_gateway U member m w of
           (Some e, m, w) \<Rightarrow> (Fail e, m, w)
         | (None, m, w) \<Rightarrow>
             send_system_message U sender ms event (if nt_id m = 0 then sent else sent + 1) m w))"

text \<open>sendChatClosed: an event, the end of the schema, or a notice; errors are only logged.\<close>

definition closed_notice :: "string \<Rightarrow> int \<Rightarrow> notice" where
  "closed_notice cause now = zero_notice\<lparr>nt_type := ''closed'', nt_text := cause, nt_created := now\<rparr>"

fun send_chat_closed ::
  "(string \<Rightarrow> string option) \<Rightarrow> int \<Rightarrow> string \<Rightarrow> app_channel \<Rightarrow> (bool \<times> app_channel) list \<Rightarrow> attempt list list \<Rightarrow>
   chat_world \<Rightarrow> int \<times> chat_world" where
  "send_chat_closed U now cause sender [] calls w = (0, w)"
| "send_chat_closed U now cause sender ((is_sender, member) # ms) calls w =
     (let kind = ch_channel (ac_chat member); conv = ch_invite (ac_chat sender);
          count = (\<lambda>(n, w). (n + 1, w)) in
      if channel_is_closed (Some member) then send_chat_closed U now cause sender ms calls w
      else if kind = ''websocket'' then
        count (send_chat_closed U now cause sender ms calls
          (snd (publish ''close_conversation'' (ac_domain_id member) (au_id (ac_user member))
                  (CloseBody conv (ch_id (ac_chat sender)) cause) w)))
      else if kind = ''chatflow'' then
        (if is_sender then send_chat_closed U now cause sender ms calls w
         else count (send_chat_closed U now cause sender ms (drop 1 calls)
                (snd (on_flow (close_conversation (ch_id (ac_chat member)) cause
                                 (case calls of [] \<Rightarrow> [] | c # _ \<Rightarrow> c)) w))))
      else count (send_chat_closed U now cause sender ms calls
             (snd (snd (send_message_to_gateway U member (closed_notice cause now) w)))))"

definition notify_chat_closed ::
  "(string \<Rightarrow> string option) \<Rightarrow> int \<Rightarrow> string \<Rightarrow> app_channel \<Rightarrow> app_channel list \<Rightarrow> attempt list list \<Rightarrow> chat_world \<Rightarrow>
   int \<times> chat_world" where
  "notify_chat_closed U now cause sender members calls w =
     send_chat_closed U now (if cause = [] then ''Conversation closed'' else cause) sender (room_members sender members) calls w"

section \<open>Closing a conversation\<close>

text \<open>The sender of a request: its channel, found by id or by the conversation, which must be
  that of the user when one is given.\<close>

datatype room_error = RoomStatus string | RoomFailed session_error | CloseFailed service_error

definition close_conversation_request ::
  "(string \<Rightarrow> string option) \<Rightarrow> session_tables \<Rightarrow> int \<Rightarrow> int \<Rightarrow> string \<Rightarrow> string \<Rightarrow> string \<Rightarrow> attempt list list \<Rightarrow>
   chat_world \<Rightarrow> room_error option \<times> chat_world" where
  "close_conversation_request U T now user closer conv cause calls w =
     (let from = (if closer = [] then conv else closer) in
      if from = [] then (Some (RoomStatus ''chat.close.channel.from.required''), w)
      else
        (case get_session U T from w of
           (Fail e, w) \<Rightarrow> (Some (RoomFailed e), w)
         | (Ok None, w) \<Rightarrow> (Some (RoomStatus ''chat.close.channel.from.not_found''), w)
         | (Ok (Some (chat, members)), w) \<Rightarrow>
             if ch_id (ac_chat chat) \<noteq> from then (Some (RoomStatus ''chat.close.channel.from.not_found''), w)
             else if user \<noteq> 0 \<and> au_id (ac_user chat) \<noteq> user
               then (Some (RoomStatus ''chat.close.channel.user.invalid''), w)
             else if channel_is_closed (Some chat) then (None, w)
             else if conv \<noteq> [] \<and> \<not> equal_fold (ch_invite (ac_chat chat)) conv
               then (Some (RoomStatus ''chat.close.conversation.invalid''), w)
             else
               (let target = (if conv = [] then ch_invite (ac_chat chat) else conv);
                    (_, w) = notify_chat_closed U (now div 1000) cause chat members calls w
                in case close_conversation_rows U now target cause w of
                     (Some e, w) \<Rightarrow> (Some (CloseFailed e), w)
                   | (None, w) \<Rightarrow> (None, w))))"

section \<open>Marking a channel as read\<close>

text \<open>UpdateChannel of the service; the times are in microseconds but for the date of the request,
  which is in milliseconds.\<close>

definition update_channel_request ::
  "(string \<Rightarrow> string option) \<Rightarrow> int \<Rightarrow> string \<Rightarrow> int \<Rightarrow> int \<Rightarrow> chat_world \<Rightarrow> service_error option \<times> chat_world" where
  "update_channel_request U now cid user read_until w =
     (case check_user_channel U cid user (cw_db w) of
        (Fail e, db) \<Rightarrow> (Some (Failed e), w\<lparr>cw_db := db\<rparr>)
      | (Ok None, db) \<Rightarrow> (Some (Status ''chat.channel.not_found''), w\<lparr>cw_db := db\<rparr>)
      | (Ok (Some c), db) \<Rightarrow>
          (let until = (if read_until \<noteq> 0 then read_until * 1000 else now) in
           if read_until \<noteq> 0 \<and> read_until < sc_updated_at c div 1000
             then (Some (Status ''chat.read.date.invalid''), w\<lparr>cw_db := db\<rparr>)
           else if read_until \<noteq> 0 \<and> read_until > now div 1000
             then (Some (Status ''chat.read.date.invalid''), w\<lparr>cw_db := db\<rparr>)
           else
             (case update_channel U now cid (Some until) db of
                (Some e, db) \<Rightarrow> (Some (Failed e), w\<lparr>cw_db := db\<rparr>)
              | (None, db) \<Rightarrow>
                  (case send_update_channel c (until div 1000) (w\<lparr>cw_db := db\<rparr>) of
                     (Some e, w) \<Rightarrow> (Some (RouteFailed e), w)
                   | (None, w) \<Rightarrow> (None, w)))))"

end
