(* ===== verification/Chat_Invitation.thy ===== *)
theory Chat_Invitation
  imports Chat_Service
begin

text \<open>
  What can become of an invite.  The handlers of cmd/chat/service.go are steps on the
  state of the service; JoinConversation and DeclineInvitation take two, the lookup and
  the rest, so that others can run between them.
\<close>

section \<open>How the tables evolve\<close>

text \<open>An invite that is in the table and closed.\<close>

definition used_up :: "string \<Rightarrow> chat_db \<Rightarrow> bool" where
  "used_up t db \<longleftrightarrow> t \<in> iv_id ` set (cd_invites db) \<and> (\<forall>r \<in> set (cd_invites db). iv_id r = t \<longrightarrow> \<not> open_invite r)"

text \<open>No statement breaks the constraints, forgets a channel or an invite, or opens an
  invite again.\<close>

definition evolves :: "chat_db \<Rightarrow> chat_db \<Rightarrow> bool" where
  "evolves d d' \<longleftrightarrow> (chat_db_ok d \<longrightarrow> chat_db_ok d' \<and>
     sc_id ` set (cd_channels d) \<subseteq> sc_id ` set (cd_channels d') \<and>
     iv_id ` set (cd_invites d) \<subseteq> iv_id ` set (cd_invites d') \<and> (\<forall>t. used_up t d \<longrightarrow> used_up t d'))"

lemma evolves_refl [simp]: "evolves d d"
  by (simp add: evolves_def)

lemma evolves_trans: "evolves a b \<Longrightarrow> evolves b c \<Longrightarrow> evolves a c"
  unfolding evolves_def by (meson subset_trans)

lemma evolves_rows:
  assumes "map cv_id (cd_convs d') = map cv_id (cd_convs d)" "keeps_channel f" "keeps_invite g"
    and "cd_channels d' = map f (cd_channels d)" "cd_invites d' = map g (cd_invites d)"
  shows "evolves d d'"
proof -
  have s: "cv_id ` set (cd_convs d') = cv_id ` set (cd_convs d)" using assms(1) by (metis set_map)
  have c: "channels_ok V (cd_channels d) \<Longrightarrow> channels_ok V (cd_channels d')"
    and i: "invites_ok V (cd_invites d) \<Longrightarrow> invites_ok V (cd_invites d')" for V
    unfolding assms(4,5) by (erule channels_ok_map [OF _ assms(2)], erule invites_ok_map [OF _ assms(3)])
  have "chat_db_ok d \<Longrightarrow> chat_db_ok d'"
    unfolding chat_db_ok_def assms(1) s using c i by simp
  moreover have "sc_id ` set (cd_channels d') = sc_id ` set (cd_channels d)"
    using assms(2,4) by (auto simp: keeps_channel_def image_image)
  moreover have "iv_id ` set (cd_invites d') = iv_id ` set (cd_invites d)"
    using assms(3,5) by (auto simp: keeps_invite_def image_image)
  moreover have "used_up t d \<Longrightarrow> used_up t d'" for t
    using assms(3) unfolding used_up_def assms(5) keeps_invite_def by (auto simp: image_image)
  ultimately show ?thesis by (simp add: evolves_def)
qed

lemma keeps_id [simp]: "keeps_channel (\<lambda>c. c)" "keeps_invite (\<lambda>c. c)"
  by (simp_all add: keeps_channel_def keeps_invite_def)

lemma evolves_same_rows: "same_rows d d' \<Longrightarrow> evolves d d'"
  by (rule evolves_rows [where f = "\<lambda>c. c" and g = "\<lambda>c. c"]) (simp_all add: same_rows_def)

lemma evolves_next: "next_statement d = (f, d') \<Longrightarrow> evolves d d'"
  by (rule evolves_same_rows) (rule next_statement_rows)

lemma evolves_cache: "evolves d (d\<lparr>cd_cache := c\<rparr>)"
  by (rule evolves_rows [where f = "\<lambda>c. c" and g = "\<lambda>c. c"]) simp_all

lemma get_invite_by_id_evolves: "get_invite_by_id U i d = (r, d') \<Longrightarrow> evolves d d'"
  by (rule evolves_same_rows) (rule get_invite_by_id_effect)

lemma close_invite_evolves:
  assumes "close_invite U now i d = (r, d')"
  shows "evolves d d'"
  using close_invite_effect [OF assms]
proof (elim disjE exE conjE)
  fix u e b assume e: "same_rows d e" "d' = e\<lparr>cd_invites := map (close_invite_row now u) (cd_invites e)\<rparr>"
  have "evolves e d'" unfolding e(2)
    by (rule evolves_rows [where f = "\<lambda>c. c" and g = "close_invite_row now u"]) simp_all
  with evolves_same_rows [OF e(1)] show ?thesis by (rule evolves_trans)
qed (rule evolves_same_rows)

lemma close_invite_used_up:
  assumes "close_invite U now i d = (Ok b, d')" "U i = Some u" "u \<in> iv_id ` set (cd_invites d)"
  shows "used_up u d'" "b \<longleftrightarrow> \<not> used_up u d"
proof -
  obtain e where e: "same_rows d e" "d' = e\<lparr>cd_invites := map (close_invite_row now u) (cd_invites e)\<rparr>"
      "b \<longleftrightarrow> (\<exists>r \<in> set (cd_invites d). iv_id r = u \<and> open_invite r)"
    using close_invite_effect [OF assms(1)] assms(2) by auto
  have rows: "cd_invites e = cd_invites d" using e(1) by (simp add: same_rows_def)
  have inv: "cd_invites d' = map (close_invite_row now u) (cd_invites d)" by (simp add: e(2) rows)
  have "map iv_id (cd_invites d') = map iv_id (cd_invites d)" by (simp add: inv)
  then have "u \<in> iv_id ` set (cd_invites d')" using assms(3) by (metis set_map)
  moreover have "\<forall>r \<in> set (cd_invites d'). iv_id r = u \<longrightarrow> \<not> open_invite r" 
    by (simp only: inv set_map ball_simps) (simp split: if_split)
  ultimately show "used_up u d'" unfolding used_up_def by (rule conjI)
  show "b \<longleftrightarrow> \<not> used_up u d" using assms(3) e(3) by (auto simp: used_up_def)
qed

lemma new_chat_channel_evolves:
  assumes "new_chat_channel U fresh now c d = (e, c', d')"
  shows "evolves d d'"
proof (cases "chat_db_ok d")
  case True
  note n = new_chat_channel_effect [OF assms True]
  show ?thesis
  proof (cases e)
    case None
    then show ?thesis using n(1,3,5) by (auto simp: evolves_def used_up_def)
  next
    case (Some a)
    then show ?thesis using n(4) by (simp add: evolves_same_rows)
  qed
qed (simp add: evolves_def)

lemma insert_invite_evolves:
  assumes "insert_invite r d = Ok d'"
  shows "evolves d d'" "iv_id r \<in> iv_id ` set (cd_invites d')"
proof -
  have n: "iv_id r \<notin> iv_id ` set (cd_invites d)" "d' = d\<lparr>cd_invites := cd_invites d @ [r]\<rparr>"
    using assms by (auto simp: insert_invite_def split: if_splits)
  show "iv_id r \<in> iv_id ` set (cd_invites d')" by (simp add: n(2))
  have "used_up t d \<Longrightarrow> used_up t d'" for t using n by (auto simp: used_up_def)
  then show "evolves d d'" using insert_invite_ok [OF assms] n(2) by (auto simp: evolves_def)
qed

lemma create_invite_evolves:
  assumes "create_invite U names fresh now m d = (e, m', d')"
  shows "evolves d d'"
proof -
  obtain f d1 where n: "next_statement d = (f, d1)" by fastforce
  note e1 = evolves_next [OF n]
  have "d' = d \<or> d' = d1 \<or> (\<exists>row. insert_invite row d1 = Ok d')"
    using assms n by (auto simp: create_invite_def Let_def split: option.splits if_splits sum.splits)
  then show ?thesis using e1 insert_invite_evolves(1) evolves_trans by auto
qed

text \<open>The invite that a successful creation returns is in the table, under the id that its own
  stands for, and open.\<close>

lemma create_invite_row:
  assumes "create_invite U names fresh now m d = (None, m', d')"
  shows "\<exists>u. U (iv_id m') = Some u \<and> u \<in> iv_id ` set (cd_invites d') \<and> \<not> used_up u d'"
    and "iv_conversation_id m' = iv_conversation_id m" "iv_user_id m' = iv_user_id m"
proof -
  obtain f d1 where n: "next_statement d = (f, d1)" by fastforce
  show "iv_conversation_id m' = iv_conversation_id m" "iv_user_id m' = iv_user_id m"
    using assms n by (auto simp: create_invite_def Let_def split: option.splits if_splits sum.splits)
  have "\<exists>row. insert_invite row d1 = Ok d' \<and> U (iv_id m') = Some (iv_id row) \<and> open_invite row"
    using assms n
    by (simp add: create_invite_def Let_def split: option.splits if_splits sum.splits)
      (auto simp: open_invite_def)
  then obtain row where r: "insert_invite row d1 = Ok d'" "U (iv_id m') = Some (iv_id row)" "open_invite row"
    by blast
  then have "cd_invites d' = cd_invites d1 @ [row]" by (auto simp: insert_invite_def split: if_splits)
  then show "\<exists>u. U (iv_id m') = Some u \<and> u \<in> iv_id ` set (cd_invites d') \<and> \<not> used_up u d'"
    using r(2,3) by (auto simp: used_up_def)
qed

lemma close_channel_evolves:
  assumes "close_channel U now i cause d = (r, d')"
  shows "evolves d d'"
proof -
  consider "same_rows d d'"
    | u e where "same_rows d e" "cd_invites d' = cd_invites d"
        "cd_channels d' = map (close_row now cause (leave_needs_processing cause) u) (cd_channels d)"
        "chat_db_ok d' = chat_db_ok (e\<lparr>cd_channels := cd_channels d'\<rparr>)"
    using close_channel_effect [OF assms] by blast
  then show ?thesis
  proof cases
    case 2
    let ?f = "close_row now cause (leave_needs_processing cause) u"
    let ?e = "e\<lparr>cd_channels := cd_channels d'\<rparr>"
    have "cd_channels e = cd_channels d" using 2(1) by (simp add: same_rows_def)
    then have "evolves e ?e" by (intro evolves_rows [where f = ?f and g = "\<lambda>c. c"]) (simp_all add: 2(3))
    with evolves_same_rows [OF 2(1)] have "evolves d ?e" by (rule evolves_trans)
    moreover have "cd_invites e = cd_invites d" using 2(1) by (simp add: same_rows_def)
    ultimately show ?thesis using 2(2,4) by (simp add: evolves_def used_up_def)
  qed (rule evolves_same_rows)
qed

lemma close_session_evolves:
  assumes "close_session U now conv cause d = (r, d')"
  shows "evolves d d'"
proof -
  obtain f d1 where n: "next_statement d = (f, d1)" by fastforce
  note e1 = evolves_next [OF n]
  consider "d' = d1" | u where "d' = close_session_rows now cause (close_needs_processing cause) u d1"
    using assms n by (auto simp: close_session_def split: option.splits if_splits)
  then show ?thesis
  proof cases
    case 2
    have "evolves d1 d'" unfolding 2 close_session_rows_def
      by (rule evolves_rows [where
          f = "\<lambda>c. if sc_conversation_id c = u \<and> open_channel c
                 then closed_row now cause (close_needs_processing cause) c else c" and
          g = "\<lambda>r. if iv_conversation_id r = u \<and> open_invite r then r\<lparr>iv_closed_at := Some now\<rparr> else r"])
        (simp_all cong: if_cong)
    with e1 show ?thesis by (rule evolves_trans)
  qed (simp add: e1)
qed


lemma with_transaction_evolves:
  assumes "with_transaction body x d = (e, y, d')"
    and "\<And>d e y d'. body d = (e, y, d') \<Longrightarrow> evolves d d'"
  shows "evolves d d'"
proof -
  obtain f d1 where n: "next_statement d = (f, d1)" by fastforce
  obtain e2 y2 d2 where b: "body d1 = (e2, y2, d2)" by (metis prod_cases3)
  obtain g d3 where m: "next_statement d2 = (g, d3)" by fastforce
  note c = evolves_next [OF n] assms(2) [OF b] evolves_next [OF m]
  have "d' = d1 \<or> (\<exists>c. d' = d1\<lparr>cd_cache := c\<rparr>) \<or> d' = d3"
    using assms(1) n b m by (auto simp: with_transaction_def split: if_splits option.splits)
  then show ?thesis using c evolves_trans evolves_cache by blast
qed

lemma check_user_channel_evolves:
  assumes "check_user_channel U i user d = (r, d')"
  shows "evolves d d'"
proof -
  obtain f d1 where n: "next_statement d = (f, d1)" by fastforce
  have "d' = d1"
    using assms n
    by (auto simp: check_user_channel_def search_channels_def Let_def split: option.splits if_splits list.splits)
  then show ?thesis by (simp add: evolves_next [OF n])
qed

text \<open>Some change neither what a channel is of nor whether it is open, and no invite.\<close>

definition soft :: "chat_db \<Rightarrow> chat_db \<Rightarrow> bool" where
  "soft d d' \<longleftrightarrow> map cv_id (cd_convs d') = map cv_id (cd_convs d) \<and> cd_invites d' = cd_invites d \<and>
     (\<exists>f. keeps_channel f \<and> (\<forall>c. open_channel (f c) = open_channel c) \<and> cd_channels d' = map f (cd_channels d))"

lemma softI:
  "map cv_id (cd_convs d') = map cv_id (cd_convs d) \<Longrightarrow> cd_invites d' = cd_invites d \<Longrightarrow> keeps_channel f \<Longrightarrow>
    (\<And>c. open_channel (f c) = open_channel c) \<Longrightarrow> cd_channels d' = map f (cd_channels d) \<Longrightarrow> soft d d'"
  unfolding soft_def by blast

lemma soft_trans:
  assumes "soft a b" "soft b c"
  shows "soft a c"
proof -
  obtain f g where "keeps_channel f" "\<forall>c. open_channel (f c) = open_channel c" "cd_channels b = map f (cd_channels a)"
      "keeps_channel g" "\<forall>c. open_channel (g c) = open_channel c" "cd_channels c = map g (cd_channels b)"
    using assms unfolding soft_def by blast
  then show ?thesis
    using assms by (intro softI [where f = "g \<circ> f"]) (simp_all add: soft_def keeps_channel_def)
qed

lemma soft_same_rows: "same_rows d d' \<Longrightarrow> soft d d'"
  by (rule softI [where f = "\<lambda>c. c"]) (simp_all add: same_rows_def)

lemma soft_refl [simp]: "soft d d"
  by (simp add: soft_same_rows)

lemma soft_next: "next_statement d = (f, d') \<Longrightarrow> soft d d'"
  by (rule soft_same_rows) (rule next_statement_rows)

lemma soft_cache: "soft d (d\<lparr>cd_cache := c\<rparr>)"
  by (rule softI [where f = "\<lambda>c. c"]) simp_all

lemma soft_evolves: "soft d d' \<Longrightarrow> evolves d d'"
  unfolding soft_def by (elim exE conjE, erule (1) evolves_rows [where g = "\<lambda>c. c"]) simp_all

lemma soft_open:
  assumes "soft d d'"
  shows "(\<exists>c \<in> set (cd_channels d'). sc_id c = t \<and> open_channel c) \<longleftrightarrow> (\<exists>c \<in> set (cd_channels d). sc_id c = t \<and> open_channel c)"
proof -
  obtain f where "\<forall>c. sc_id (f c) = sc_id c" "\<forall>c. open_channel (f c) = open_channel c" "cd_channels d' = map f (cd_channels d)"
    using assms unfolding soft_def keeps_channel_def by blast
  then show ?thesis by simp
qed

lemma get_channels_soft:
  assumes "get_channels U q d = (r, d')"
  shows "soft d d'"
proof -
  obtain f d1 where n: "next_statement d = (f, d1)" by fastforce
  have "d' = d1"
    using assms n
    by (auto simp: get_channels_def search_channels_def Let_def split: option.splits if_splits)
  then show ?thesis by (simp add: soft_next [OF n])
qed

lemma bind_rows_soft: "soft d (bind_rows cid vs d)"
proof (cases "cid \<in> cv_id ` set (cd_convs d)")
  case True
  then show ?thesis
    by (intro softI [where f = "\<lambda>c. c"]) (simp_all add: bind_rows_def)
next
  case False
  then show ?thesis
    by (intro softI [where
          f = "\<lambda>c. if sc_id c = cid then c\<lparr>sc_vars:= Some (bind_expr (sc_vars c) vs)\<rparr> else c"])
      (simp_all add: bind_rows_def keeps_channel_def channel_key_def open_channel_def)
qed

lemma update_channel_host_soft:
  assumes "update_channel_host U i host d = (r, d')"
  shows "soft d d'"
proof -
  obtain f d1 where n: "next_statement d = (f, d1)" by fastforce
  note e1 = soft_next [OF n]
  consider "d' = d1"
    | u where "d' = d1\<lparr>cd_channels:= map (\<lambda>c. if sc_id c = u then c\<lparr>sc_host:= some_string host\<rparr> else c) (cd_channels d1)\<rparr>"
    using assms n by (auto simp: update_channel_host_def split: option.splits if_splits)
  then show ?thesis
  proof cases
    case 2
    have "soft d1 d'" unfolding 2
      by (intro softI [where
            f = "\<lambda>c. if sc_id c = u then c\<lparr>sc_host:= some_string host\<rparr> else c"])
        (simp_all add: keeps_channel_def channel_key_def)
    with e1 show ?thesis by (rule soft_trans)
  qed (simp add: e1)
qed


section \<open>The routes and the workflow client\<close>

lemma publish_db [simp]: "cw_db (snd (publish kind dc user body w)) = cw_db w"
  by (simp add: publish_def Let_def split: list.split)

lemma send_event_db [simp]: "cw_db (snd (send_event_to_webitel_user to kind body w)) = cw_db w"
  by (simp add: send_event_to_webitel_user_def)

lemma send_decline_db [simp]: "cw_db (snd (send_decline_invite_to_webitel_user dc conv user i cause w)) = cw_db w"
  by (simp add: send_decline_invite_to_webitel_user_def)

lemma bind_statement_soft: "soft (cw_db w) (cw_db (bind_statement cid vs w))"
proof -
  obtain f d where n: "next_statement (cw_db w) = (f, d)" by fastforce
  note e = soft_next [OF n]
  show ?thesis
    using e soft_trans [OF e bind_rows_soft] by (simp add: bind_statement_def n)
qed

lemma sent_to_gateway_soft: "soft (cw_db w) (cw_db (sent_to_gateway U to recipient message bindings w))"
proof -
  let ?vs = "vdel [] (env_of bindings)"
  let ?w = "if ?vs \<noteq> [] \<and> nt_id message = 0 then bind_statement (sc_id to) ?vs w else w"
  have e: "soft (cw_db w) (cw_db ?w)" by (simp add: bind_statement_soft)
  have h: "soft (cw_db ?w) (snd (update_channel_host U i host (cw_db ?w)))" for i host
    by (rule update_channel_host_soft) (rule surjective_pairing)
  show ?thesis
    using e soft_trans [OF e h] by (simp add: sent_to_gateway_def Let_def split del: if_split) simp
qed

lemma get_client_soft:
  assumes "get_client_by_id i w = (r, w')"
  shows "soft (cw_db w) (cw_db w')"
proof -
  obtain f d where n: "next_statement (cw_db w) = (f, d)" by fastforce
  show ?thesis using assms soft_next [OF n] by (auto simp: get_client_by_id_def n Let_def split: if_splits)
qed

lemma send_message_to_bot_user_soft:
  "soft (cw_db w) (cw_db (snd (send_message_to_bot_user U to message w)))"
proof (cases "sc_type to = ''portal''")
  case True
  then show ?thesis by (simp add: send_message_to_bot_user_def push_update_def Let_def split: list.split prod.split)
next
  case False
  obtain profile e where p: "parse_int (ns_string (sc_connection to)) = (profile, e)" by fastforce
  obtain r v where c: "get_client_by_id (sc_user_id to) w = (r, v)" by fastforce
  note ev = get_client_soft [OF c]
  have g: "soft (cw_db w) (cw_db (sent_to_gateway U to rc message b (v\<lparr>cw_events:= es, cw_gates:= gs\<rparr>)))" for rc b es gs
    using soft_trans [OF ev] sent_to_gateway_soft [of "v\<lparr>cw_events:= es, cw_gates:= gs\<rparr>"] by simp
  show ?thesis
    using False p c ev g
    by (simp add: send_message_to_bot_user_def Let_def split: option.split sum.split list.split prod.split bool.split)
qed

lemma notify_member_soft: "soft (cw_db w) (cw_db (notify_member U kind body external m w))"
  by (simp add: notify_member_def send_message_to_bot_user_soft split: option.split)

lemma notify_all_soft: "soft (cw_db w) (cw_db (fold (notify_member U kind body external) ms w))"
  by (induction ms arbitrary: w) (auto intro: soft_trans notify_member_soft)

lemma route_members_soft: "soft (cw_db w) (cw_db (snd (route_members U conv kind body external w)))"
proof -
  obtain r d where g: "get_channels U (no_filter\<lparr>cf_conv:= Some conv, cf_active:= Some True\<rparr>) (cw_db w) = (r, d)"
    by fastforce
  note e = get_channels_soft [OF g]
  show ?thesis
  proof (cases r)
    case (Inl a)
    then show ?thesis using e by (simp add: route_members_def active_members_def g)
  next
    case (Inr ms)
    have "soft d (cw_db (fold (notify_member U kind body external) ms (w\<lparr>cw_db:= d\<rparr>)))"
      using notify_all_soft [of "w\<lparr>cw_db:= d\<rparr>"] by simp
    with e show ?thesis using Inr by (auto simp: route_members_def active_members_def g intro: soft_trans)
  qed
qed

lemma routes_soft:
  "soft (cw_db w) (cw_db (snd (route_decline_invite U user conv w)))"
  "soft (cw_db w) (cw_db (snd (route_invite U conv user w)))"
  "soft (cw_db w) (cw_db (snd (route_join_conversation U c conv w)))"
  "soft (cw_db w) (cw_db (snd (route_leave_conversation U c conv cause w)))"
proof -
  show "soft (cw_db w) (cw_db (snd (route_decline_invite U user conv w)))"
    "soft (cw_db w) (cw_db (snd (route_invite U conv user w)))"
    "soft (cw_db w) (cw_db (snd (route_join_conversation U c conv w)))"
    by (simp_all add: route_decline_invite_def route_invite_def route_join_conversation_def route_members_soft)
  let ?w = "snd (send_event_to_webitel_user c ''leave_conversation'' (LeaveBody conv (sc_id c) cause) w)"
  show "soft (cw_db w) (cw_db (snd (route_leave_conversation U c conv cause w)))"
    using route_members_soft [of ?w] by (simp add: route_leave_conversation_def Let_def)
qed

lemma send_invite_soft: "soft (cw_db w) (cw_db (snd (send_invite_to_webitel_user v i w)))"
proof -
  obtain f d where n: "next_statement (cw_db w) = (f, d)" by fastforce
  show ?thesis using soft_next [OF n] by (simp add: send_invite_to_webitel_user_def n Let_def)
qed

lemma break_flow_bridge_soft: "soft (cw_db w) (cw_db (snd (break_flow_bridge conv cause ats w)))"
  by (simp add: break_flow_bridge_def Let_def soft_cache split: prod.split)

lemma wait_for_message_soft: "soft (cw_db w) (cw_db (snd (wait_for_message conv confirmation w)))"
  by (simp add: wait_for_message_def Let_def soft_cache split: prod.split option.split)


lemmas routes_evolve = routes_soft [THEN soft_evolves]
  and send_invite_evolves = send_invite_soft [THEN soft_evolves]
  and break_flow_bridge_evolves = break_flow_bridge_soft [THEN soft_evolves]
  and wait_for_message_evolves = wait_for_message_soft [THEN soft_evolves]

section \<open>The handlers\<close>

abbreviation invite_ids :: "chat_world \<Rightarrow> string set" where
  "invite_ids w \<equiv> iv_id ` set (cd_invites (cw_db w))"

lemma evolves_ids: "evolves d d' \<Longrightarrow> chat_db_ok d \<Longrightarrow> t \<in> iv_id ` set (cd_invites d) \<Longrightarrow> t \<in> iv_id ` set (cd_invites d')"
  by (auto simp: evolves_def)

lemma evolves_used: "evolves d d' \<Longrightarrow> chat_db_ok d \<Longrightarrow> used_up t d \<Longrightarrow> used_up t d'"
  by (simp add: evolves_def)

lemma evolves_ok: "evolves d d' \<Longrightarrow> chat_db_ok d \<Longrightarrow> chat_db_ok d'"
  by (simp add: evolves_def)

lemma get_user_rows: "get_webitel_user_by_id users i dc d = (r, d') \<Longrightarrow> same_rows d d'"
  by (auto simp: get_webitel_user_by_id_def Let_def dest: next_statement_rows split: prod.splits if_splits)

lemma invite_found_SomeD: "invite_found token from found = Some i \<Longrightarrow> found = Some i \<and> iv_id i = token"
  by (auto simp: invite_found_def split: option.splits if_splits)

lemma join_lookup_effect:
  assumes "join_lookup U users from token w = (r, w')"
  shows "same_rows (cw_db w) (cw_db w')"
    and "r = Ok (i, u) \<Longrightarrow> iv_id i = token \<and> token \<noteq> [] \<and> U token = Some token \<and> i \<in> set (cd_invites (cw_db w')) \<and>
      open_invite i"
proof -
  have "same_rows (cw_db w) (cw_db w') \<and> (r = Ok (i, u) \<longrightarrow> iv_id i = token \<and> token \<noteq> [] \<and> U token = Some token \<and>
      i \<in> set (cd_invites (cw_db w')) \<and> open_invite i)"
  proof (cases "from = 0 \<or> token = []")
    case True
    then have "w' = w \<and> (\<forall>p. r \<noteq> Ok p)" using assms by (cases "from = 0") (auto simp: join_lookup_def)
    then show ?thesis by simp
  next
    case False
    obtain f d where g: "get_invite_by_id U token (cw_db w) = (f, d)" by fastforce
    note ge = get_invite_by_id_effect [OF g]
    show ?thesis
    proof (cases "\<exists>found j. f = Ok found \<and> invite_found token from found = Some j")
      case no: False
      then have "w' = w\<lparr>cw_db := d\<rparr> \<and> (\<forall>p. r \<noteq> Ok p)"
        using False assms g by (cases f) (auto simp: join_lookup_def split: option.splits)
      then show ?thesis using ge(1) by auto
    next
      case True
      then obtain j where j: "f = Ok (Some j)" "invite_found token from (Some j) = Some j" "iv_id j = token"
        using invite_found_SomeD by metis
      obtain q d' where h: "get_webitel_user_by_id users from (iv_domain_id j) d = (q, d')" by fastforce
      have w': "w' = w\<lparr>cw_db := d'\<rparr>" "r = Ok (i, u) \<Longrightarrow> i = j"
        using False assms g h j by (auto simp: join_lookup_def split: sum.splits option.splits if_splits)
      have rows: "same_rows (cw_db w) d'" by (rule same_rows_trans [OF ge(1) get_user_rows [OF h]])
      then show ?thesis using ge(2) [OF j(1)] j(3) w' False by (auto simp: same_rows_def)
    qed
  qed
  then show "same_rows (cw_db w) (cw_db w')"
    "r = Ok (i, u) \<Longrightarrow> iv_id i = token \<and> token \<noteq> [] \<and> U token = Some token \<and> i \<in> set (cd_invites (cw_db w')) \<and>
      open_invite i" by blast+
qed

lemma join_rows_evolves:
  assumes "join_rows U fresh now token c d = (e, c', d')"
  shows "evolves d d'"
proof -
  obtain e1 c1 d1 where n: "new_chat_channel U fresh now c d = (e1, c1, d1)" by (metis prod_cases3)
  obtain r d2 where k: "close_invite U now token d1 = (r, d2)" by fastforce
  note ev = new_chat_channel_evolves [OF n] evolves_trans [OF new_chat_channel_evolves [OF n] close_invite_evolves [OF k]]
  show ?thesis using assms n k ev by (auto simp: join_rows_def split: option.splits sum.splits)
qed

lemma normal_joined_id: "iv_id i \<noteq> [] \<Longrightarrow> sc_id (normal_channel fresh now (joined_channel now i u)) = iv_id i"
  by (simp add: normal_channel_def joined_channel_def zero_channel_def Let_def split: prod.split)

text \<open>A committed join adds a channel with the id of the invite, and the invite, when it is in
  the table, is closed.\<close>

lemma join_rows_effect:
  assumes "join_rows U fresh now (iv_id i) (joined_channel now i u) d = (None, c', d')"
    and "chat_db_ok d" "iv_id i \<noteq> []" "U (iv_id i) = Some (iv_id i)" "iv_id i \<in> iv_id ` set (cd_invites d)"
  shows "sc_id c' = iv_id i" "iv_id i \<notin> sc_id ` set (cd_channels d)" "iv_id i \<in> sc_id ` set (cd_channels d')"
    "used_up (iv_id i) d'"
proof -
  obtain d1 b where n: "new_chat_channel U fresh now (joined_channel now i u) d = (None, c', d1)"
      and k: "close_invite U now (iv_id i) d1 = (Ok b, d')"
    using assms(1) by (auto simp: join_rows_def split: option.splits sum.splits prod.splits)
  note e = new_chat_channel_effect [OF n assms(2)]
  obtain row where row: "channel_row U c' = Some row" "cd_channels d1 = cd_channels d @ [row]"
      "sc_id row \<notin> sc_id ` set (cd_channels d)" using e(5) by blast
  show id: "sc_id c' = iv_id i" using assms(3) by (simp add: e(2) normal_joined_id)
  have "sc_id row = iv_id i" using channel_row_keys [OF row(1)] assms(4) id by simp
  then show "iv_id i \<notin> sc_id ` set (cd_channels d)" using row(3) by simp
  have ev: "evolves d1 d'" by (rule close_invite_evolves [OF k])
  have "iv_id i \<in> sc_id ` set (cd_channels d1)" using row(2) \<open>sc_id row = iv_id i\<close> by (simp add: image_iff)
  then show "iv_id i \<in> sc_id ` set (cd_channels d')" using ev e(1) by (auto simp: evolves_def)
  show "used_up (iv_id i) d'"
    by (rule close_invite_used_up [OF k assms(4)]) (use assms(5) e(3) in simp)
qed

lemma with_transaction_OkD:
  assumes "with_transaction body x d = (None, y, d')"
  shows "\<exists>d1 d2. same_rows d d1 \<and> body d1 = (None, y, d2) \<and> same_rows d2 d'"
proof -
  obtain f d1 where n: "next_statement d = (f, d1)" by fastforce
  obtain e2 y2 d2 where b: "body d1 = (e2, y2, d2)" by (metis prod_cases3)
  obtain g d3 where m: "next_statement d2 = (g, d3)" by fastforce
  show ?thesis
    using assms n b m next_statement_rows [OF n] next_statement_rows [OF m]
    by (auto simp: with_transaction_def split: if_splits option.splits)
qed

lemma join_commit_evolves:
  assumes "join_commit U fresh now token i u w = (r, w')"
  shows "evolves (cw_db w) (cw_db w')"
proof -
  let ?c = "joined_channel now i u"
  obtain e c d where t: "with_transaction (join_rows U fresh now token ?c) ?c (cw_db w) = (e, c, d)" by (metis prod_cases3)
  have ev: "evolves (cw_db w) d" by (rule with_transaction_evolves [OF t]) (rule join_rows_evolves)
  show ?thesis
    using assms t ev evolves_trans [OF ev] routes_evolve(3) [where w = "w\<lparr>cw_db := d\<rparr>"]
    by (auto simp: join_commit_def Let_def split: option.splits)
qed

lemma join_commit_effect:
  assumes "join_commit U fresh now (iv_id i) i u w = (Ok c, w')"
    and "chat_db_ok (cw_db w)" "iv_id i \<noteq> []" "U (iv_id i) = Some (iv_id i)" "iv_id i \<in> invite_ids w"
  shows "c = iv_id i" "iv_id i \<notin> sc_id ` set (cd_channels (cw_db w))"
    "iv_id i \<in> sc_id ` set (cd_channels (cw_db w'))" "used_up (iv_id i) (cw_db w')"
proof -
  let ?j = "joined_channel now i u"
  obtain k d where t: "with_transaction (join_rows U fresh now (iv_id i) ?j) ?j (cw_db w) = (None, k, d)"
      "c = sc_id k" "w' = snd (route_join_conversation U k (iv_conversation_id i) (w\<lparr>cw_db := d\<rparr>))"
    using assms(1) by (auto simp: join_commit_def Let_def split: option.splits prod.splits)
  obtain d1 d2 where b: "same_rows (cw_db w) d1" "join_rows U fresh now (iv_id i) ?j d1 = (None, k, d2)" "same_rows d2 d"
    using with_transaction_OkD [OF t(1)] by blast
  have "chat_db_ok d1" using same_rows_ok [OF b(1)] assms(2) by simp
  moreover have "iv_id i \<in> iv_id ` set (cd_invites d1)" using b(1) assms(5) by (simp add: same_rows_def)
  ultimately have j: "sc_id k = iv_id i" "iv_id i \<notin> sc_id ` set (cd_channels d1)"
      "iv_id i \<in> sc_id ` set (cd_channels d2)" "used_up (iv_id i) d2"
    using join_rows_effect [OF b(2) _ assms(3,4)] by blast+
  have ok2: "chat_db_ok d2" by (rule evolves_ok [OF join_rows_evolves [OF b(2)] \<open>chat_db_ok d1\<close>])
  have ev: "evolves d2 (cw_db w')"
    using evolves_trans [OF evolves_same_rows [OF b(3)]] routes_evolve(3) [where w = "w\<lparr>cw_db := d\<rparr>"] t(3) by simp
  show "c = iv_id i" using t(2) j(1) by simp
  show "iv_id i \<notin> sc_id ` set (cd_channels (cw_db w))" using j(2) b(1) by (simp add: same_rows_def)
  show "iv_id i \<in> sc_id ` set (cd_channels (cw_db w'))" using j(3) ev ok2 by (auto simp: evolves_def)
  show "used_up (iv_id i) (cw_db w')" by (rule evolves_used [OF ev ok2 j(4)])
qed


lemma leave_chat_evolves:
  assumes "leave_chat U now cid from conv cause bridge ats w = (r, w')"
  shows "evolves (cw_db w) (cw_db w')"
proof -
  obtain q d where g: "check_user_channel U cid from (cw_db w) = (q, d)" by fastforce
  note e1 = check_user_channel_evolves [OF g]
  show ?thesis
  proof (cases "\<exists>c. q = Ok (Some c)")
    case False
    then have "w' = w\<lparr>cw_db := d\<rparr>"
      using assms g by (cases q) (auto simp: leave_chat_def split: option.splits)
    then show ?thesis using e1 by simp
  next
    case True
    then obtain c where q: "q = Ok (Some c)" by blast
    obtain r2 d2 where k: "close_channel U now (sc_id c) cause d = (r2, d2)" by fastforce
    have e2: "evolves (cw_db w) d2" by (rule evolves_trans [OF e1 close_channel_evolves [OF k]])
    let ?v = "snd (break_flow_bridge (sc_conversation_id c) bridge ats (w\<lparr>cw_db := d2\<rparr>))"
    have e3: "evolves (cw_db w) (cw_db ?v)"
      using evolves_trans [OF e2] break_flow_bridge_evolves [where w = "w\<lparr>cw_db := d2\<rparr>"] by simp
    have e4: "evolves (cw_db w) (cw_db (snd (route_leave_conversation U x y z ?v)))" for x y z
      by (rule evolves_trans [OF e3 routes_evolve(4)])
    consider "w' = w\<lparr>cw_db := d\<rparr>" | "w' = w\<lparr>cw_db := d2\<rparr>"
      | x y z where "w' = snd (route_leave_conversation U x y z ?v)"
      using assms g q k by (auto simp: leave_chat_def Let_def split: if_splits sum.splits option.splits)
    then show ?thesis using e1 e2 e4 by cases auto
  qed
qed

lemma inviter_channel_evolves:
  assumes "inviter_channel U r d = (q, d')"
  shows "evolves d d'"
proof (cases "ir_inviter_channel_id r = []")
  case False
  obtain p e where c: "check_user_channel U (ir_inviter_channel_id r) (ir_auth_user_id r) d = (p, e)" by fastforce
  show ?thesis
    using False assms c check_user_channel_evolves [OF c]
    by (auto simp: inviter_channel_def split: sum.splits option.splits)
qed (use assms in \<open>simp add: inviter_channel_def\<close>)

lemma get_conversation_rows_evolves:
  assumes "get_conversation_rows U conv d = (r, d')"
  shows "evolves d d'"
proof -
  obtain f e where n: "next_statement d = (f, e)" by fastforce
  show ?thesis using assms evolves_next [OF n] by (auto simp: get_conversation_rows_def n split: if_splits option.splits)
qed

lemma invite_notices_evolves: "evolves (cw_db w) (cw_db (snd (invite_notices U user_first v i w)))"
proof -
  have "evolves (cw_db w) (cw_db (snd (route_invite U conv user (snd (send_invite_to_webitel_user v i w)))))"
    "evolves (cw_db w) (cw_db (snd (send_invite_to_webitel_user v i (snd (route_invite U conv user w)))))" for conv user
    by (rule evolves_trans [OF send_invite_evolves routes_evolve(2)]) (rule evolves_trans [OF routes_evolve(2) send_invite_evolves])
  then show ?thesis by (simp add: invite_notices_def case_prod_beta Let_def)
qed

text \<open>What an invitation leaves behind: nothing, or an invite in the table.\<close>

lemma invite_to_conversation_effect:
  assumes "invite_to_conversation U names fresh now first r w = (q, w')"
  shows "evolves (cw_db w) (cw_db w')"
    and "chat_db_ok (cw_db w) \<Longrightarrow> q = InviteOk i \<Longrightarrow> \<exists>u. U (iv_id i) = Some u \<and> u \<in> invite_ids w'"
proof -
  let ?P = "evolves (cw_db w) (cw_db w') \<and>
    (chat_db_ok (cw_db w) \<longrightarrow> q = InviteOk i \<longrightarrow> (\<exists>u. U (iv_id i) = Some u \<and> u \<in> invite_ids w'))"
  have ?P
  proof (cases "ir_service r \<noteq> ''workflow'' \<and> (ir_inviter_channel_id r = [] \<or> ir_auth_user_id r = 0)")
    case True
    then show ?thesis using assms by (auto simp: invite_to_conversation_def)
  next
    case guard: False
    obtain p d1 where i1: "inviter_channel U r (cw_db w) = (p, d1)" by fastforce
    note e1 = inviter_channel_evolves [OF i1]
    show ?thesis
    proof (cases p)
      case (Inl a)
      then show ?thesis using assms guard i1 e1 by (auto simp: invite_to_conversation_def)
    next
      case (Inr inviter)
      obtain e m d2 where c: "create_invite U names fresh now (requested_invite r\<lparr>iv_inviter_channel_id := inviter\<rparr>) d1 = (e, m, d2)"
        by (metis prod_cases3)
      have e2: "evolves (cw_db w) d2" by (rule evolves_trans [OF e1 create_invite_evolves [OF c]])
      show ?thesis
      proof (cases e)
        case (Some a)
        then show ?thesis using assms guard i1 c e2 Inr by (auto simp: invite_to_conversation_def)
      next
        case None
        obtain u where u: "U (iv_id m) = Some u" "u \<in> iv_id ` set (cd_invites d2)"
          using create_invite_row(1) [OF c [unfolded None]] by blast
        obtain g d3 where h: "get_conversation_rows U (ir_conversation_id r) d2 = (g, d3)" by fastforce
        have e23: "evolves d2 d3" by (rule get_conversation_rows_evolves [OF h])
        let ?n = "\<lambda>v. invite_notices U first v m (w\<lparr>cw_db := d3\<rparr>)"
        have e3: "evolves d3 (cw_db (snd (?n v)))" for v
          using invite_notices_evolves [where w = "w\<lparr>cw_db := d3\<rparr>"] by simp
        consider "w' = w\<lparr>cw_db := d3\<rparr>" "q \<noteq> InviteOk i"
          | v where "w' = snd (?n v)" "q = InviteOk i \<longrightarrow> i = m"
        proof (cases "\<exists>v vs. g = Ok (v # vs)")
          case True
          then obtain v vs where v: "g = Ok (v # vs)" by blast
          obtain x y where n: "?n v = (x, y)" by fastforce
          have "w' = y \<and> (q = InviteOk i \<longrightarrow> i = m)"
            using assms guard i1 c h Inr None v n by (auto simp: invite_to_conversation_def split: option.splits)
          then show ?thesis using that(2) [of v] by (simp add: n)
        next
          case False
          then show ?thesis
            using assms guard i1 c h Inr None that(1)
            by (auto simp: invite_to_conversation_def split: sum.splits list.splits)
        qed
        then show ?thesis
        proof cases
          case 1
          then show ?thesis using evolves_trans [OF e2 e23] by simp
        next
          case (2 v)
          have e4: "evolves d2 (cw_db w')" using evolves_trans [OF e23 e3] 2(1) by simp
          have "chat_db_ok (cw_db w) \<Longrightarrow> u \<in> invite_ids w'"
            by (rule evolves_ids [OF e4 evolves_ok [OF e2] u(2)])
          then show ?thesis using evolves_trans [OF e2 e4] u(1) 2(2) by blast
        qed
      qed
    qed
  qed
  then show "evolves (cw_db w) (cw_db w')"
    "chat_db_ok (cw_db w) \<Longrightarrow> q = InviteOk i \<Longrightarrow> \<exists>u. U (iv_id i) = Some u \<and> u \<in> invite_ids w'" by blast+
qed

lemma decline_tail_evolves:
  "evolves (cw_db w) (cw_db (if b then snd (break_flow_bridge conv cause ats w) else w))"
  by (simp add: break_flow_bridge_evolves)

text \<open>The timer and a decline change the invite at most once.\<close>

lemma invite_timeout_effect:
  assumes "invite_timeout U now r i ats w = (b, w')"
  shows "evolves (cw_db w) (cw_db w')"
    and "chat_db_ok (cw_db w) \<Longrightarrow> b \<Longrightarrow> U (iv_id i) = Some u \<Longrightarrow> u \<in> invite_ids w \<Longrightarrow>
      \<not> used_up u (cw_db w) \<and> used_up u (cw_db w')"
proof -
  obtain q d where c: "close_invite U now (iv_id i) (cw_db w) = (q, d)" by fastforce
  note e1 = close_invite_evolves [OF c]
  let ?v = "if ir_inviter_channel_id r = []
      then snd (break_flow_bridge (ir_conversation_id r) timeout_cause ats (w\<lparr>cw_db := d\<rparr>)) else w\<lparr>cw_db := d\<rparr>"
  have e2: "evolves d (cw_db ?v)" using decline_tail_evolves [where w = "w\<lparr>cw_db := d\<rparr>"] by simp
  have cs: "\<not> b \<and> w' = w\<lparr>cw_db := d\<rparr> \<or> q = Ok True \<and> cw_db w' = cw_db ?v"
    using assms c by (auto simp: invite_timeout_def Let_def split: sum.splits if_splits)
  then show "evolves (cw_db w) (cw_db w')" using e1 evolves_trans [OF e1 e2] by auto
  assume a: "chat_db_ok (cw_db w)" "b" "U (iv_id i) = Some u" "u \<in> invite_ids w"
  then have k: "q = Ok True" "cw_db w' = cw_db ?v" using cs by auto
  note z = close_invite_used_up [OF c [unfolded k(1)] a(3,4)]
  have "used_up u (cw_db w')" unfolding k(2) by (rule evolves_used [OF e2 evolves_ok [OF e1 a(1)] z(1)])
  then show "\<not> used_up u (cw_db w) \<and> used_up u (cw_db w')" using z(2) by simp
qed

lemma decline_commit_effect:
  assumes "decline_commit U now first cause i ats w = (r, w')"
  shows "evolves (cw_db w) (cw_db w')"
    and "chat_db_ok (cw_db w) \<Longrightarrow> r = Ok True \<Longrightarrow> U (iv_id i) = Some u \<Longrightarrow> u \<in> invite_ids w \<Longrightarrow>
      \<not> used_up u (cw_db w) \<and> used_up u (cw_db w')"
proof -
  obtain q d where c: "close_invite U now (iv_id i) (cw_db w) = (q, d)" by fastforce
  note e1 = close_invite_evolves [OF c]
  let ?v = "if \<not> ns_valid (iv_inviter_channel_id i)
      then snd (break_flow_bridge (iv_conversation_id i) decline_invitation_cause ats (w\<lparr>cw_db := d\<rparr>)) else w\<lparr>cw_db := d\<rparr>"
  let ?m = "\<lambda>w. snd (route_decline_invite U (iv_user_id i) (iv_conversation_id i) w)"
  let ?u = "\<lambda>w. snd (send_decline_invite_to_webitel_user (iv_domain_id i) (iv_conversation_id i) (iv_user_id i) (iv_id i) cause w)"
  have e2: "evolves d (cw_db ?v)" using decline_tail_evolves [where w = "w\<lparr>cw_db := d\<rparr>"] by simp
  have e3: "evolves (cw_db v) (cw_db (?u (?m v)))" "evolves (cw_db v) (cw_db (?m (?u v)))" for v
    using routes_evolve(1) [where w = "?u v"] by (simp_all add: routes_evolve(1))
  have cs: "r \<noteq> Ok True \<and> w' = w\<lparr>cw_db := d\<rparr> \<or> q = Ok True \<and> (w' = ?u (?m ?v) \<or> w' = ?m (?u ?v))"
    using assms c by (cases q) (auto simp: decline_commit_def Let_def split: if_splits)
  then have e4: "q = Ok True \<and> evolves d (cw_db w') \<or> r \<noteq> Ok True \<and> w' = w\<lparr>cw_db := d\<rparr>"
    using evolves_trans [OF e2 e3(1)] evolves_trans [OF e2 e3(2)] by blast
  then show "evolves (cw_db w) (cw_db w')" using e1 evolves_trans [OF e1] by auto
  assume a: "chat_db_ok (cw_db w)" "r = Ok True" "U (iv_id i) = Some u" "u \<in> invite_ids w"
  then have k: "q = Ok True" "evolves d (cw_db w')" using e4 by auto
  note z = close_invite_used_up [OF c [unfolded k(1)] a(3,4)]
  have "used_up u (cw_db w')" by (rule evolves_used [OF k(2) evolves_ok [OF e1 a(1)] z(1)])
  then show "\<not> used_up u (cw_db w) \<and> used_up u (cw_db w')" using z(2) by simp
qed

lemma decline_lookup_effect:
  assumes "decline_lookup U from token w = (r, w')"
  shows "same_rows (cw_db w) (cw_db w')"
    and "r = Ok (Some i) \<Longrightarrow> iv_id i = token \<and> U token = Some token \<and> i \<in> set (cd_invites (cw_db w')) \<and> open_invite i"
proof -
  obtain f d where g: "get_invite_by_id U token (cw_db w) = (f, d)" by fastforce
  note ge = get_invite_by_id_effect [OF g]
  have w': "w' = w\<lparr>cw_db := d\<rparr>" using assms g by (auto simp: decline_lookup_def split: sum.splits)
  then show "same_rows (cw_db w) (cw_db w')" using ge(1) by simp
  assume "r = Ok (Some i)"
  then have "f = Ok (Some i)" "iv_id i = token"
    using assms g by (auto simp: decline_lookup_def split: sum.splits dest: invite_found_SomeD)
  then show "iv_id i = token \<and> U token = Some token \<and> i \<in> set (cd_invites (cw_db w')) \<and> open_invite i"
    using ge w' by (auto simp: same_rows_def)
qed

lemma close_conversation_rows_evolves:
  assumes "close_conversation_rows U now conv cause w = (r, w')"
  shows "evolves (cw_db w) (cw_db w')"
proof -
  obtain q d where c: "close_session U now conv cause (cw_db w) = (q, d)" by fastforce
  show ?thesis
    using assms c close_session_evolves [OF c] by (auto simp: close_conversation_rows_def split: option.splits)
qed


section \<open>The service as a transition system\<close>

datatype outcome = Joined string | Declined string | TimedOut string

fun outcome_invite :: "outcome \<Rightarrow> string" where
  "outcome_invite (Joined t) = t"
| "outcome_invite (Declined t) = t"
| "outcome_invite (TimedOut t) = t"

fun is_joined :: "outcome \<Rightarrow> bool" where
  "is_joined (Joined t) = True"
| "is_joined _ = False"

definition joined_invites :: "outcome list \<Rightarrow> string list" where
  "joined_invites l = map outcome_invite (filter is_joined l)"

definition refused_invites :: "outcome list \<Rightarrow> string list" where
  "refused_invites l = map outcome_invite (filter (\<lambda>x. \<not> is_joined x) l)"

lemma outcomes_simps [simp]:
  "joined_invites [] = []" "refused_invites [] = []"
  "joined_invites (Joined t # l) = t # joined_invites l" "refused_invites (Joined t # l) = refused_invites l"
  "joined_invites (Declined t # l) = joined_invites l" "refused_invites (Declined t # l) = t # refused_invites l"
  "joined_invites (TimedOut t # l) = joined_invites l" "refused_invites (TimedOut t # l) = t # refused_invites l"
  by (simp_all add: joined_invites_def refused_invites_def)

text \<open>The requests between their lookup and their commit, the timers, and what happened, the
  latest first.\<close>

record invite_sys =
  is_world :: chat_world
  is_joins :: "(chat_invite \<times> webitel_user) list"
  is_declines :: "(string \<times> chat_invite) list"
  is_timers :: "(invite_request \<times> chat_invite) list"
  is_log :: "outcome list"

definition invite_start :: "chat_world \<Rightarrow> invite_sys" where
  "invite_start w = \<lparr>is_world = w, is_joins = [], is_declines = [], is_timers = [], is_log = []\<rparr>"

definition with_timer :: "invite_request \<Rightarrow> invite_result \<Rightarrow> (invite_request \<times> chat_invite) list \<Rightarrow>
    (invite_request \<times> chat_invite) list" where
  "with_timer r q ts = (case q of InviteOk i \<Rightarrow> if ir_timeout_sec r > 0 then (r, i) # ts else ts | _ \<Rightarrow> ts)"

definition with_join :: "(service_error, 'a) result \<Rightarrow> 'a list \<Rightarrow> 'a list" where
  "with_join q l = (case q of Ok p \<Rightarrow> p # l | Fail e \<Rightarrow> l)"

definition with_decline :: "'c \<Rightarrow> (service_error, 'a option) result \<Rightarrow> ('c \<times> 'a) list \<Rightarrow> ('c \<times> 'a) list" where
  "with_decline cause q l = (case q of Ok (Some i) \<Rightarrow> (cause, i) # l | _ \<Rightarrow> l)"

definition with_joined :: "(service_error, string) result \<Rightarrow> outcome list \<Rightarrow> outcome list" where
  "with_joined q l = (case q of Ok c \<Rightarrow> Joined c # l | Fail e \<Rightarrow> l)"

inductive invite_step ::
  "(string \<Rightarrow> string option) \<Rightarrow> webitel_user list \<Rightarrow> (store_channel \<Rightarrow> string option) \<Rightarrow> invite_sys \<Rightarrow> invite_sys \<Rightarrow> bool"
  for U users names where
  Invite: "invite_to_conversation U names fresh now first r (is_world s) = (q, w) \<Longrightarrow>
    invite_step U users names s (s\<lparr>is_world := w, is_timers := with_timer r q (is_timers s)\<rparr>)"
| JoinLookup: "join_lookup U users from token (is_world s) = (q, w) \<Longrightarrow>
    invite_step U users names s
      (s\<lparr>is_world := w, is_joins := with_join q (is_joins s)\<rparr>)"
| JoinCommit: "(i, u) \<in> set (is_joins s) \<Longrightarrow> join_commit U fresh now (iv_id i) i u (is_world s) = (q, w) \<Longrightarrow>
    invite_step U users names s
      (s\<lparr>is_world := w, is_joins := remove1 (i, u) (is_joins s),
         is_log := with_joined q (is_log s)\<rparr>)"
| DeclineLookup: "decline_lookup U from token (is_world s) = (q, w) \<Longrightarrow>
    invite_step U users names s
      (s\<lparr>is_world := w, is_declines := with_decline cause q (is_declines s)\<rparr>)"
| DeclineCommit: "(cause, i) \<in> set (is_declines s) \<Longrightarrow>
    decline_commit U now first cause i ats (is_world s) = (q, w) \<Longrightarrow>
    invite_step U users names s
      (s\<lparr>is_world := w, is_declines := remove1 (cause, i) (is_declines s),
         is_log := (if q = Ok True then Declined (iv_id i) # is_log s else is_log s)\<rparr>)"
| Timeout: "(r, i) \<in> set (is_timers s) \<Longrightarrow> invite_timeout U now r i ats (is_world s) = (b, w) \<Longrightarrow> U (iv_id i) = Some t \<Longrightarrow>
    invite_step U users names s
      (s\<lparr>is_world := w, is_timers := remove1 (r, i) (is_timers s),
         is_log := (if b then TimedOut t # is_log s else is_log s)\<rparr>)"
| Leave: "leave_conversation U now cid from conv cause ats (is_world s) = (e, w) \<Longrightarrow>
    invite_step U users names s (s\<lparr>is_world := w\<rparr>)"
| Wait: "wait_for_message conv confirmation (is_world s) = (q', w) \<Longrightarrow>
    invite_step U users names s (s\<lparr>is_world := w\<rparr>)"
| Close: "close_conversation_rows U now conv cause (is_world s) = (e, w) \<Longrightarrow>
    invite_step U users names s (s\<lparr>is_world := w\<rparr>)"

text \<open>The same when each handler runs alone.\<close>

inductive serial_step ::
  "(string \<Rightarrow> string option) \<Rightarrow> webitel_user list \<Rightarrow> (store_channel \<Rightarrow> string option) \<Rightarrow> invite_sys \<Rightarrow> invite_sys \<Rightarrow> bool"
  for U users names where
  SerialJoin: "join_conversation U users fresh now from token (is_world s) = (q, w) \<Longrightarrow>
    serial_step U users names s
      (s\<lparr>is_world := w, is_log := with_joined q (is_log s)\<rparr>)"
| SerialDecline: "decline_invitation U now first from token cause ats (is_world s) = (q, w) \<Longrightarrow>
    serial_step U users names s
      (s\<lparr>is_world := w, is_log := (if q = Ok True then Declined token # is_log s else is_log s)\<rparr>)"
| SerialOther: "invite_step U users names s s' \<Longrightarrow> is_joins s = [] \<Longrightarrow> is_joins s' = [] \<Longrightarrow>
    is_declines s = [] \<Longrightarrow> is_declines s' = [] \<Longrightarrow> serial_step U users names s s'"

text \<open>What holds in every state that is reached.\<close>

definition pending_ok :: "(string \<Rightarrow> string option) \<Rightarrow> chat_db \<Rightarrow> chat_invite \<Rightarrow> bool" where
  "pending_ok U db i \<longleftrightarrow> iv_id i \<noteq> [] \<and> U (iv_id i) = Some (iv_id i) \<and> iv_id i \<in> iv_id ` set (cd_invites db)"

definition timer_ok :: "(string \<Rightarrow> string option) \<Rightarrow> chat_db \<Rightarrow> chat_invite \<Rightarrow> bool" where
  "timer_ok U db i \<longleftrightarrow> (\<exists>u. U (iv_id i) = Some u \<and> u \<in> iv_id ` set (cd_invites db))"

definition log_ok :: "chat_db \<Rightarrow> outcome list \<Rightarrow> bool" where
  "log_ok db l \<longleftrightarrow> distinct (joined_invites l) \<and> set (joined_invites l) \<subseteq> sc_id ` set (cd_channels db) \<and>
     distinct (refused_invites l) \<and> (\<forall>t \<in> set (refused_invites l). used_up t db)"

definition sys_ok :: "(string \<Rightarrow> string option) \<Rightarrow> invite_sys \<Rightarrow> bool" where
  "sys_ok U s \<longleftrightarrow>
     (let db = cw_db (is_world s) in
      chat_db_ok db \<and> (\<forall>(i, u) \<in> set (is_joins s). pending_ok U db i) \<and>
      (\<forall>(c, i) \<in> set (is_declines s). U (iv_id i) = Some (iv_id i) \<and> iv_id i \<in> iv_id ` set (cd_invites db)) \<and>
      (\<forall>(r, i) \<in> set (is_timers s). timer_ok U db i) \<and> log_ok db (is_log s))"


lemma log_ok_evolves: "evolves d d' \<Longrightarrow> chat_db_ok d \<Longrightarrow> log_ok d l \<Longrightarrow> log_ok d' l"
  by (auto simp: log_ok_def evolves_def)

lemma pending_ok_evolves: "evolves d d' \<Longrightarrow> chat_db_ok d \<Longrightarrow> pending_ok U d i \<Longrightarrow> pending_ok U d' i"
  by (simp add: pending_ok_def evolves_ids)

lemma timer_ok_evolves: "evolves d d' \<Longrightarrow> chat_db_ok d \<Longrightarrow> timer_ok U d i \<Longrightarrow> timer_ok U d' i"
  by (auto simp: timer_ok_def dest: evolves_ids)

lemma sys_okD:
  assumes "sys_ok U s"
  shows "chat_db_ok (cw_db (is_world s))" "log_ok (cw_db (is_world s)) (is_log s)"
    "(i, u) \<in> set (is_joins s) \<Longrightarrow> pending_ok U (cw_db (is_world s)) i"
    "(c, i) \<in> set (is_declines s) \<Longrightarrow> U (iv_id i) = Some (iv_id i) \<and> iv_id i \<in> invite_ids (is_world s)"
    "(r, i) \<in> set (is_timers s) \<Longrightarrow> timer_ok U (cw_db (is_world s)) i"
  using assms by (auto simp: sys_ok_def Let_def)

text \<open>What a step has to show.\<close>

lemma sys_ok_step:
  assumes "sys_ok U s" "evolves (cw_db (is_world s)) (cw_db (is_world s'))"
    and "\<And>i u. (i, u) \<in> set (is_joins s') \<Longrightarrow> (i, u) \<in> set (is_joins s) \<or> pending_ok U (cw_db (is_world s')) i"
    and "\<And>c i. (c, i) \<in> set (is_declines s') \<Longrightarrow> (c, i) \<in> set (is_declines s) \<or>
      U (iv_id i) = Some (iv_id i) \<and> iv_id i \<in> invite_ids (is_world s')"
    and "\<And>r i. (r, i) \<in> set (is_timers s') \<Longrightarrow> (r, i) \<in> set (is_timers s) \<or> timer_ok U (cw_db (is_world s')) i"
    and "is_log s' = is_log s \<or> log_ok (cw_db (is_world s')) (is_log s')"
  shows "sys_ok U s'"
proof -
  note old = sys_okD [OF assms(1)]
  note ev = evolves_ok [OF assms(2) old(1)] log_ok_evolves [OF assms(2) old(1)] pending_ok_evolves [OF assms(2) old(1)]
    timer_ok_evolves [OF assms(2) old(1)] evolves_ids [OF assms(2) old(1)]
  have "\<And>i u. (i, u) \<in> set (is_joins s') \<Longrightarrow> pending_ok U (cw_db (is_world s')) i"
    "\<And>c i. (c, i) \<in> set (is_declines s') \<Longrightarrow> U (iv_id i) = Some (iv_id i) \<and> iv_id i \<in> invite_ids (is_world s')"
    "\<And>r i. (r, i) \<in> set (is_timers s') \<Longrightarrow> timer_ok U (cw_db (is_world s')) i"
    "log_ok (cw_db (is_world s')) (is_log s')"
    using assms(3-6) old(2-5) ev(2-5) by metis+
  then show ?thesis using ev(1) unfolding sys_ok_def Let_def by blast
qed

text \<open>New entries of the log.\<close>

lemma log_ok_joined:
  "log_ok d l \<Longrightarrow> chat_db_ok d \<Longrightarrow> evolves d d' \<Longrightarrow> t \<notin> sc_id ` set (cd_channels d) \<Longrightarrow> t \<in> sc_id ` set (cd_channels d') \<Longrightarrow>
    log_ok d' (Joined t # l)"
  using log_ok_evolves [of d d' l] by (auto simp: log_ok_def)

lemma log_ok_refused:
  assumes "log_ok d l" "chat_db_ok d" "evolves d d'" "\<not> used_up t d \<and> used_up t d'"
  shows "log_ok d' (Declined t # l)" "log_ok d' (TimedOut t # l)"
  using log_ok_evolves [OF assms(3,2,1)] assms(1,4) by (auto simp: log_ok_def)


lemma with_sets:
  "x \<in> set (with_join q l) \<Longrightarrow> x \<in> set l \<or> q = Ok x"
  "(c, i) \<in> set (with_decline cause d m) \<Longrightarrow> (c, i) \<in> set m \<or> d = Ok (Some i)"
  "(r, j) \<in> set (with_timer r' a ts) \<Longrightarrow> (r, j) \<in> set ts \<or> a = InviteOk j"
  by (auto simp: with_join_def with_decline_def with_timer_def split: sum.splits option.splits invite_result.splits if_splits)

lemma remove1_pair: "(a, b) \<in> set (remove1 x l) \<Longrightarrow> (a, b) \<in> set l"
  using set_remove1_subset by fast

lemma invite_step_ok:
  assumes "invite_step U users names s s'" "sys_ok U s"
  shows "sys_ok U s'"
  using assms(1)
proof cases
  case (Invite fresh now first r q w)
  note e = invite_to_conversation_effect [OF Invite(2)]
  show ?thesis
    by (rule sys_ok_step [OF assms(2)])
      (use e sys_okD(1) [OF assms(2)] in \<open>auto simp: Invite(1) timer_ok_def dest!: with_sets(3)\<close>)
next
  case (JoinLookup "from" token q w)
  note e = join_lookup_effect [OF JoinLookup(2)]
  show ?thesis
    by (rule sys_ok_step [OF assms(2)])
      (use e in \<open>auto simp: JoinLookup(1) pending_ok_def evolves_same_rows dest!: with_sets(1)\<close>)
next
  case (JoinCommit i u fresh now q w)
  note p = sys_okD(3) [OF assms(2) JoinCommit(2), unfolded pending_ok_def] and ok = sys_okD(1,2) [OF assms(2)]
  note ev = join_commit_evolves [OF JoinCommit(3)]
  have l: "with_joined q (is_log s) = is_log s \<or> log_ok (cw_db w) (with_joined q (is_log s))"
  proof (cases q)
    case (Inr c)
    note j = join_commit_effect [OF JoinCommit(3) [unfolded Inr] ok(1)]
    have "log_ok (cw_db w) (Joined (iv_id i) # is_log s)"
      by (rule log_ok_joined [OF ok(2,1) ev]) (use j p in blast)+
    then show ?thesis using j(1) p by (simp add: with_joined_def Inr)
  qed (simp add: with_joined_def)
  show ?thesis
    by (rule sys_ok_step [OF assms(2)]) (use ev l in \<open>auto simp: JoinCommit(1) dest: remove1_pair\<close>)
next
  case (DeclineLookup "from" token q w cause)
  note e = decline_lookup_effect [OF DeclineLookup(2)]
  show ?thesis
    by (rule sys_ok_step [OF assms(2)])
      (use e in \<open>auto simp: DeclineLookup(1) evolves_same_rows dest!: with_sets(2)\<close>)
next
  case (DeclineCommit cause i now first ats q w)
  note p = sys_okD(4) [OF assms(2) DeclineCommit(2)] and ok = sys_okD(1,2) [OF assms(2)]
  note e = decline_commit_effect [OF DeclineCommit(3)]
  have "q = Ok True \<Longrightarrow> log_ok (cw_db w) (Declined (iv_id i) # is_log s)"
    using log_ok_refused(1) [OF ok(2,1) e(1)] e(2) [OF ok(1)] p by blast
  then show ?thesis
    by (intro sys_ok_step [OF assms(2)]) (use e(1) in \<open>auto simp: DeclineCommit(1) dest: remove1_pair\<close>)
next
  case (Timeout r i now ats b w t)
  note p = sys_okD(5) [OF assms(2) Timeout(2)] and ok = sys_okD(1,2) [OF assms(2)]
  note e = invite_timeout_effect [OF Timeout(3)]
  have "b \<Longrightarrow> log_ok (cw_db w) (TimedOut t # is_log s)"
    using log_ok_refused(2) [OF ok(2,1) e(1)] e(2) [OF ok(1)] p Timeout(4) by (auto simp: timer_ok_def)
  then show ?thesis
    by (intro sys_ok_step [OF assms(2)]) (use e(1) in \<open>auto simp: Timeout(1) dest: remove1_pair\<close>)
next
  case (Leave now cid "from" conv cause ats e w)
  then have "evolves (cw_db (is_world s)) (cw_db w)" by (simp add: leave_conversation_def leave_chat_evolves)
  then show ?thesis by (intro sys_ok_step [OF assms(2)]) (simp_all add: Leave(1))
next
  case (Wait conv confirmation q' w)
  then have "evolves (cw_db (is_world s)) (cw_db w)" using wait_for_message_evolves by (metis snd_conv)
  then show ?thesis by (intro sys_ok_step [OF assms(2)]) (simp_all add: Wait(1))
next
  case (Close now conv cause e w)
  then have "evolves (cw_db (is_world s)) (cw_db w)" by (simp add: close_conversation_rows_evolves)
  then show ?thesis by (intro sys_ok_step [OF assms(2)]) (simp_all add: Close(1))
qed

lemma invite_start_ok: "chat_db_ok (cw_db w) \<Longrightarrow> sys_ok U (invite_start w)"
  by (simp add: sys_ok_def invite_start_def log_ok_def Let_def)

text \<open>C14: Whatever the order in which the requests of invited users, their lookups and commits,
  the timers, departures and closings run: the tables keep their constraints, an invite
  is joined at most once, and it is declined or timed out at most once.\<close>

theorem invite_outcomes_once:
  assumes "(invite_step U users names)\<^sup>*\<^sup>* (invite_start w) s" "chat_db_ok (cw_db w)"
  shows "chat_db_ok (cw_db (is_world s)) \<and> distinct (joined_invites (is_log s)) \<and> distinct (refused_invites (is_log s)) \<and>
    set (joined_invites (is_log s)) \<subseteq> sc_id ` set (cd_channels (cw_db (is_world s)))"
proof -
  have "sys_ok U s"
    using assms(1) by (induction rule: rtranclp_induct) (simp_all add: invite_start_ok assms(2) invite_step_ok)
  then show ?thesis using sys_okD(1,2) by (fastforce simp: log_ok_def)
qed


section \<open>Joining after a refusal\<close>

text \<open>C16: A join that found its invite open commits even when the invite has been declined or
  has timed out in the meantime: the answer of CloseInviteTx, which tells whether the
  invite was open still, is dropped, and the user becomes an open member.\<close>

theorem join_after_refusal:
  assumes "pending_ok U (cw_db w) i" "used_up (iv_id i) (cw_db w)" "db_faults (cd_cache (cw_db w)) = []"
    and "U (iv_conversation_id i) = Some v" "v \<in> cv_id ` set (cd_convs (cw_db w))"
    and "iv_id i \<notin> sc_id ` set (cd_channels (cw_db w))"
    and "\<forall>c \<in> set (cd_channels (cw_db w)). open_channel c \<longrightarrow> channel_key c \<noteq> (v, iv_user_id i, ''webitel'')"
  shows "\<exists>w'. join_commit U fresh now (iv_id i) i u w = (Ok (iv_id i), w') \<and>
    (\<exists>c \<in> set (cd_channels (cw_db w')). sc_id c = iv_id i \<and> open_channel c)"
proof -
  let ?d = "cw_db w"
  let ?j = "joined_channel now i u"
  let ?c = "normal_channel fresh now ?j"
  note p = assms(1) [unfolded pending_ok_def]
  have c: "sc_id ?c = iv_id i" "sc_conversation_id ?c = iv_conversation_id i" "open_channel ?c"
      "sc_user_id ?c = iv_user_id i" "sc_type ?c = ''webitel''"
    using p by (simp_all add: normal_joined_id)
      (simp_all add: normal_channel_def joined_channel_def zero_channel_def open_channel_def Let_def split: prod.split)
  let ?row = "?c\<lparr>sc_id := iv_id i, sc_conversation_id := v, sc_vars := null_metadata (sc_vars ?c)\<rparr>"
  have row: "channel_row U ?c = Some ?row" using p assms(4) c by (simp add: channel_row_def)
  have op: "open_channel ?row" using c(3) by (simp add: open_channel_def)
  have key: "\<not> (\<exists>o' \<in> set (cd_channels ?d). open_channel o' \<and> sc_conversation_id o' = sc_conversation_id ?row \<and>
      sc_user_id o' = sc_user_id ?row \<and> sc_type o' = sc_type ?row)"
    using assms(7) c by (auto simp: channel_key_def)
  have ins: "insert_channel ?row ?d = Ok (?d\<lparr>cd_channels := cd_channels ?d @ [?row]\<rparr>)"
    using assms(5,6) key by (simp add: insert_channel_def)
  let ?d1 = "touch_conv v (sc_created_at ?row) (?d\<lparr>cd_channels := cd_channels ?d @ [?row]\<rparr>)"
  have new: "new_chat_channel U fresh now ?j ?d = (None, ?c, ?d1)"
    using assms(3) row ins by (simp add: new_chat_channel_def Let_def)
  obtain b d2 where cl: "close_invite U now (iv_id i) ?d1 = (Ok b, d2)" "cd_channels d2 = cd_channels ?d1" "db_faults (cd_cache d2) = []"
    using p assms(3) by (simp add: close_invite_def)
  have "with_transaction (join_rows U fresh now (iv_id i) ?j) ?j ?d = (None, ?c, d2)"
    using assms(3) cl by (simp add: with_transaction_def join_rows_def new)
  then have jc: "join_commit U fresh now (iv_id i) i u w =
      (Ok (iv_id i), snd (route_join_conversation U ?c (iv_conversation_id i) (w\<lparr>cw_db := d2\<rparr>)))"
    by (simp add: join_commit_def Let_def c(1))
  have "\<exists>c \<in> set (cd_channels d2). sc_id c = iv_id i \<and> open_channel c" using op by (simp add: cl(2))
  then have "\<exists>c \<in> set (cd_channels (cw_db (snd (route_join_conversation U ?c (iv_conversation_id i) (w\<lparr>cw_db := d2\<rparr>))))).
      sc_id c = iv_id i \<and> open_channel c"
    using soft_open [OF routes_soft(3) [where w = "w\<lparr>cw_db := d2\<rparr>"]] by simp
  with jc show ?thesis by blast
qed


section \<open>Handlers that run alone\<close>

lemma invite_step_evolves:
  assumes "invite_step U users names s s'"
  shows "evolves (cw_db (is_world s)) (cw_db (is_world s'))"
  using assms
proof cases
  case (Wait conv confirmation q' w)
  then show ?thesis using wait_for_message_evolves by (metis invite_sys.select_convs(1) invite_sys.surjective invite_sys.update_convs(1) snd_conv)
qed (auto simp: leave_conversation_def evolves_same_rows
      dest: invite_to_conversation_effect(1) join_lookup_effect(1) join_commit_evolves decline_lookup_effect(1)
        decline_commit_effect(1) invite_timeout_effect(1) leave_chat_evolves close_conversation_rows_evolves)

text \<open>Without requests in flight only a timer adds to the log.\<close>

lemma quiet_step_log:
  assumes "invite_step U users names s s'" "is_joins s = []" "is_declines s = []" "sys_ok U s"
  shows "is_log s' = is_log s \<or> (\<exists>x. is_log s' = x # is_log s \<and> \<not> used_up (outcome_invite x) (cw_db (is_world s)) \<and>
    used_up (outcome_invite x) (cw_db (is_world s')))"
  using assms(1)
proof cases
  case (Timeout r i now ats b w t)
  note e = invite_timeout_effect(2) [OF Timeout(3) sys_okD(1) [OF assms(4)]]
  show ?thesis using e Timeout(4) sys_okD(5) [OF assms(4) Timeout(2)] by (auto simp: Timeout(1) timer_ok_def)
qed (use assms(2,3) in auto)

definition serial_ok :: "(string \<Rightarrow> string option) \<Rightarrow> invite_sys \<Rightarrow> bool" where
  "serial_ok U s \<longleftrightarrow> sys_ok U s \<and> is_joins s = [] \<and> is_declines s = [] \<and>
     distinct (map outcome_invite (is_log s)) \<and> (\<forall>x \<in> set (is_log s). used_up (outcome_invite x) (cw_db (is_world s)))"

lemma serial_ok_step:
  assumes "serial_ok U s" "sys_ok U s'" "is_joins s' = []" "is_declines s' = []"
    "evolves (cw_db (is_world s)) (cw_db (is_world s'))"
    "is_log s' = is_log s \<or> (\<exists>x. is_log s' = x # is_log s \<and> \<not> used_up (outcome_invite x) (cw_db (is_world s)) \<and>
      used_up (outcome_invite x) (cw_db (is_world s')))"
  shows "serial_ok U s'"
proof -
  have "\<forall>x \<in> set (is_log s). used_up (outcome_invite x) (cw_db (is_world s'))"
    using assms(1,5) evolves_used sys_okD(1) unfolding serial_ok_def by blast
  then show ?thesis using assms(1-4,6) by (auto simp: serial_ok_def)
qed

text \<open>A handler that runs alone is its two steps.\<close>

lemma serial_join_steps:
  assumes "join_conversation U users fresh now from token (is_world s) = (q, w)" "sys_ok U s" "is_joins s = []"
  shows "sys_ok U (s\<lparr>is_world := w, is_log := with_joined q (is_log s)\<rparr>)"
    and "evolves (cw_db (is_world s)) (cw_db w)"
    and "q = Ok c \<Longrightarrow> \<not> used_up c (cw_db (is_world s)) \<and> used_up c (cw_db w)"
proof -
  let ?s' = "s\<lparr>is_world := w, is_log := with_joined q (is_log s)\<rparr>"
  obtain p v where l: "join_lookup U users from token (is_world s) = (p, v)" by fastforce
  note le = join_lookup_effect [OF l]
  let ?m = "s\<lparr>is_world := v, is_joins := with_join p (is_joins s)\<rparr>"
  have st: "invite_step U users names s ?m" for names by (rule invite_step.JoinLookup [OF l])
  have m: "sys_ok U ?m" by (rule invite_step_ok [OF st assms(2)])
  have "sys_ok U ?s' \<and> evolves (cw_db (is_world s)) (cw_db w) \<and>
      (q = Ok c \<longrightarrow> \<not> used_up c (cw_db (is_world s)) \<and> used_up c (cw_db w))"
  proof (cases p)
    case (Inl a)
    then have "q = Fail a" "w = v" using assms(1) l by (auto simp: join_conversation_def)
    then show ?thesis
      using m le(1) assms(3) Inl by (simp add: with_join_def with_joined_def evolves_same_rows sys_ok_def Let_def)
  next
    case (Inr iu)
    obtain i u where iu: "iu = (i, u)" by fastforce
    note li = le(2) [OF Inr [unfolded iu]]
    have jc: "join_commit U fresh now (iv_id i) i u v = (q, w)"
      using assms(1) l Inr iu li by (simp add: join_conversation_def)
    have "(i, u) \<in> set (is_joins ?m)" by (simp add: with_join_def Inr iu)
    from invite_step.JoinCommit [OF this, of U fresh now q w users names for names] jc
    have st2: "invite_step U users names ?m (?m\<lparr>is_world := w, is_joins := remove1 (i, u) (is_joins ?m),
        is_log := with_joined q (is_log ?m)\<rparr>)" for names by simp
    have eq: "?m\<lparr>is_world := w, is_joins := remove1 (i, u) (is_joins ?m), is_log := with_joined q (is_log ?m)\<rparr> = ?s'"
      using assms(3) by (simp add: with_join_def Inr iu)
    have ok: "sys_ok U ?s'" using invite_step_ok [OF st2 m] unfolding eq .
    have ev: "evolves (cw_db (is_world s)) (cw_db w)"
      by (rule evolves_trans [OF evolves_same_rows [OF le(1)] join_commit_evolves [OF jc]])
    have "q = Ok c \<Longrightarrow> \<not> used_up c (cw_db (is_world s)) \<and> used_up c (cw_db w)"
    proof -
      assume q: "q = Ok c"
      have v: "iv_id i \<in> invite_ids v" "\<not> used_up (iv_id i) (cw_db v)" using li by (auto simp: used_up_def)
      note e = join_commit_effect [OF jc [unfolded q] sys_okD(1) [OF m, simplified] _ _ v(1)]
      have "\<not> used_up (iv_id i) (cw_db (is_world s))" using v(2) le(1) by (simp add: used_up_def same_rows_def)
      then show ?thesis using e(1,4) li by simp
    qed
    with ok ev show ?thesis by blast
  qed
  then show "sys_ok U ?s'" "evolves (cw_db (is_world s)) (cw_db w)"
    "q = Ok c \<Longrightarrow> \<not> used_up c (cw_db (is_world s)) \<and> used_up c (cw_db w)" by blast+
qed

lemma serial_decline_steps:
  assumes "decline_invitation U now first from token cause ats (is_world s) = (q, w)" "sys_ok U s" "is_declines s = []"
  shows "sys_ok U (s\<lparr>is_world := w, is_log := (if q = Ok True then Declined token # is_log s else is_log s)\<rparr>)"
    and "evolves (cw_db (is_world s)) (cw_db w)"
    and "q = Ok True \<Longrightarrow> \<not> used_up token (cw_db (is_world s)) \<and> used_up token (cw_db w)"
proof -
  let ?s' = "s\<lparr>is_world := w, is_log := (if q = Ok True then Declined token # is_log s else is_log s)\<rparr>"
  obtain p v where l: "decline_lookup U from token (is_world s) = (p, v)" by fastforce
  note le = decline_lookup_effect [OF l]
  let ?m = "s\<lparr>is_world := v, is_declines := with_decline cause p (is_declines s)\<rparr>"
  have st: "invite_step U users names s ?m" for users names by (rule invite_step.DeclineLookup [OF l])
  have m: "sys_ok U ?m" by (rule invite_step_ok [OF st assms(2)])
  have "sys_ok U ?s' \<and> evolves (cw_db (is_world s)) (cw_db w) \<and>
      (q = Ok True \<longrightarrow> \<not> used_up token (cw_db (is_world s)) \<and> used_up token (cw_db w))"
  proof (cases "\<exists>i. p = Ok (Some i)")
    case False
    then have "q \<noteq> Ok True" "w = v" "with_decline cause p (is_declines s) = is_declines s"
      using assms(1) l by (auto simp: decline_invitation_def with_decline_def split: sum.splits option.splits)
    then show ?thesis using m le(1) assms(3) by (simp add: evolves_same_rows sys_ok_def Let_def)
  next
    case True
    then obtain i where p: "p = Ok (Some i)" by blast
    note li = le(2) [OF p]
    have dc: "decline_commit U now first cause i ats v = (q, w)"
      using assms(1) l p by (simp add: decline_invitation_def)
    have "(cause, i) \<in> set (is_declines ?m)" by (simp add: with_decline_def p)
    from invite_step.DeclineCommit [OF this, of U now first ats q w users names for users names] dc
    have st2: "invite_step U users names ?m (?m\<lparr>is_world := w, is_declines := remove1 (cause, i) (is_declines ?m),
        is_log := (if q = Ok True then Declined (iv_id i) # is_log ?m else is_log ?m)\<rparr>)" for users names by simp
    have eq: "?m\<lparr>is_world := w, is_declines := remove1 (cause, i) (is_declines ?m),
        is_log := (if q = Ok True then Declined (iv_id i) # is_log ?m else is_log ?m)\<rparr> = ?s'"
      using assms(3) li by (simp add: with_decline_def p)
    have ok: "sys_ok U ?s'" using invite_step_ok [OF st2 m] unfolding eq .
    note e = decline_commit_effect [OF dc]
    have ev: "evolves (cw_db (is_world s)) (cw_db w)" by (rule evolves_trans [OF evolves_same_rows [OF le(1)] e(1)])
    have v: "token \<in> invite_ids v" using li by auto
    have "used_up token (cw_db (is_world s)) = used_up token (cw_db v)"
      using le(1) by (simp add: used_up_def same_rows_def)
    then have "q = Ok True \<Longrightarrow> \<not> used_up token (cw_db (is_world s)) \<and> used_up token (cw_db w)"
      using e(2) [OF sys_okD(1) [OF m, simplified], of token] li v by simp
    with ok ev show ?thesis by blast
  qed
  then show "sys_ok U ?s'" "evolves (cw_db (is_world s)) (cw_db w)"
    "q = Ok True \<Longrightarrow> \<not> used_up token (cw_db (is_world s)) \<and> used_up token (cw_db w)" by blast+
qed

lemma serial_step_ok:
  assumes "serial_step U users names s s'" "serial_ok U s"
  shows "serial_ok U s'"
proof -
  have ok: "sys_ok U s" "is_joins s = []" "is_declines s = []" using assms(2) by (simp_all add: serial_ok_def)
  from assms(1) show ?thesis
  proof cases
    case (SerialJoin fresh now "from" token q w)
    note e = serial_join_steps [OF SerialJoin(2) ok(1,2)]
    show ?thesis
      by (rule serial_ok_step [OF assms(2)])
        (use e ok in \<open>auto simp: SerialJoin(1) with_joined_def split: sum.split\<close>)
  next
    case (SerialDecline now first "from" token cause ats q w)
    note e = serial_decline_steps [OF SerialDecline(2) ok(1,3)]
    show ?thesis
      by (rule serial_ok_step [OF assms(2)]) (use e ok in \<open>auto simp: SerialDecline(1)\<close>)
  next
    case SerialOther
    show ?thesis
      by (rule serial_ok_step [OF assms(2) invite_step_ok [OF SerialOther(1) ok(1)] SerialOther(3,5)
            invite_step_evolves [OF SerialOther(1)] quiet_step_log [OF SerialOther(1) ok(2,3,1)]])
  qed
qed

text \<open>C15: When no request runs between the lookup and the commit of another, an invite has at
  most one outcome: joined, declined or timed out, and it is closed then.\<close>

theorem serial_outcome_once:
  assumes "(serial_step U users names)\<^sup>*\<^sup>* (invite_start w) s" "chat_db_ok (cw_db w)"
  shows "distinct (map outcome_invite (is_log s)) \<and>
    (\<forall>x \<in> set (is_log s). used_up (outcome_invite x) (cw_db (is_world s)))"
proof -
  have "serial_ok U (invite_start w)"
    using invite_start_ok [OF assms(2)] by (simp add: serial_ok_def) (simp add: invite_start_def)
  with assms(1) have "serial_ok U s"
    by (induction rule: rtranclp_induct) (simp_all add: serial_step_ok)
  then show ?thesis by (simp add: serial_ok_def)
qed

section \<open>An example\<close>

definition example_user :: webitel_user where
  "example_user = \<lparr>wu_id = 7, wu_domain_id = 1, wu_name = ''Ann'', wu_chat_name = ''Ann''\<rparr>"

definition example_invite :: chat_invite where
  "example_invite = \<lparr>iv_id = ''i'', iv_conversation_id = ''c'', iv_user_id = 7, iv_title = null_string,
     iv_timeout_sec = 0, iv_inviter_channel_id = null_string, iv_closed_at = None, iv_created_at = 1,
     iv_domain_id = 1, iv_vars = None\<rparr>"

definition example_invited :: chat_world where
  "example_invited = (example_world [])\<lparr>cw_db := (cw_db (example_world []))\<lparr>
     cd_convs := [\<lparr>cv_id = ''c'', cv_title = [], cv_created_at = 1, cv_closed_at = None, cv_updated_at = 1,
       cv_domain_id = 1, cv_vars = None\<rparr>], cd_invites := [example_invite]\<rparr>\<rparr>"

definition example_declined :: chat_world where
  "example_declined = snd (decline_commit Some 5 True [] example_invite [] example_invited)"

definition example_joined :: chat_world where
  "example_joined = snd (join_commit Some [] 6 ''i'' example_invite example_user example_declined)"

lemma example_lookups:
  "join_lookup Some [example_user] 7 ''i'' example_invited = (Ok (example_invite, example_user), example_invited)"
  "decline_lookup Some 7 ''i'' example_invited = (Ok (Some example_invite), example_invited)"
  by code_simp+

lemma example_commits:
  "fst (decline_commit Some 5 True [] example_invite [] example_invited) = Ok True"
  "fst (join_commit Some [] 6 ''i'' example_invite example_user example_declined) = Ok ''i''"
  by code_simp+

lemma example_ok: "chat_db_ok (cw_db example_invited)"
  by code_simp


text \<open>A join whose lookup comes before, and whose commit comes after, a decline.\<close>

definition example_race :: invite_sys where
  "example_race = (invite_start example_joined)\<lparr>is_log := [Joined ''i'', Declined ''i'']\<rparr>"

lemma example_race_reached:
  "(invite_step Some [example_user] (\<lambda>_. None))\<^sup>*\<^sup>* (invite_start example_invited) example_race"
proof -
  let ?R = "invite_step Some [example_user] (\<lambda>_. None)"
  let ?s0 = "invite_start example_invited"
  let ?s1 = "?s0\<lparr>is_joins := [(example_invite, example_user)]\<rparr>"
  let ?s2 = "?s1\<lparr>is_declines := [([], example_invite)]\<rparr>"
  let ?s3 = "?s1\<lparr>is_world := example_declined, is_log := [Declined ''i'']\<rparr>"
  have i: "iv_id example_invite = ''i''" by (simp add: example_invite_def)
  have "?R ?s0 (?s0\<lparr>is_world := example_invited,
      is_joins := with_join (Ok (example_invite, example_user)) (is_joins ?s0)\<rparr>)"
    by (rule invite_step.JoinLookup [of _ _ 7 "''i''"]) (simp add: invite_start_def example_lookups)
  then have r1: "?R ?s0 ?s1" by (simp add: with_join_def invite_start_def)
  have "?R ?s1 (?s1\<lparr>is_world := example_invited,
      is_declines := with_decline [] (Ok (Some example_invite)) (is_declines ?s1)\<rparr>)"
    by (rule invite_step.DeclineLookup [of _ 7 "''i''"]) (simp add: invite_start_def example_lookups)
  then have r2: "?R ?s1 ?s2" by (simp add: with_decline_def invite_start_def)
  have d: "decline_commit Some 5 True [] example_invite [] (is_world ?s2) = (Ok True, example_declined)"
    using example_commits(1) by (simp add: invite_start_def example_declined_def prod_eq_iff)
  have r3: "?R ?s2 ?s3" using invite_step.DeclineCommit [OF _ d] by (simp add: invite_start_def i)
  have j: "join_commit Some [] 6 (iv_id example_invite) example_invite example_user (is_world ?s3) = (Ok ''i'', example_joined)"
    using example_commits(2) by (simp add: i example_joined_def prod_eq_iff)
  have r4: "?R ?s3 example_race"
    using invite_step.JoinCommit [OF _ j] by (simp add: invite_start_def with_joined_def example_race_def)
  show ?thesis using r1 r2 r3 r4 by (meson converse_rtranclp_into_rtranclp rtranclp.rtrancl_refl)
qed

lemma invite_outcomes_once_witness:
  "is_log example_race = [Joined ''i'', Declined ''i''] \<and> chat_db_ok (cw_db (is_world example_race)) \<and>
    {''i''} \<subseteq> sc_id ` set (cd_channels (cw_db (is_world example_race)))"
  using invite_outcomes_once [OF example_race_reached example_ok] by (simp add: example_race_def)

lemma join_after_refusal_witness:
  "\<exists>w'. join_commit Some [] 6 ''i'' example_invite example_user example_declined = (Ok ''i'', w') \<and>
    (\<exists>c \<in> set (cd_channels (cw_db w')). sc_id c = ''i'' \<and> open_channel c)"
proof -
  have i: "iv_id example_invite = ''i''" by (simp add: example_invite_def)
  have "pending_ok Some (cw_db example_declined) example_invite" "used_up (iv_id example_invite) (cw_db example_declined)"
    "db_faults (cd_cache (cw_db example_declined)) = []" "''c'' \<in> cv_id ` set (cd_convs (cw_db example_declined))"
    "iv_id example_invite \<notin> sc_id ` set (cd_channels (cw_db example_declined))"
    "Some (iv_conversation_id example_invite) = Some ''c''"
    "\<forall>c \<in> set (cd_channels (cw_db example_declined)). open_channel c \<longrightarrow> channel_key c \<noteq> (''c'', iv_user_id example_invite, ''webitel'')"
    by code_simp+
  from join_after_refusal [OF this(1-3,6,4,5,7)] show ?thesis by (simp only: i)
qed

text \<open>The same requests one after the other: the decline finds the invite joined.\<close>

definition example_alone :: invite_sys where
  "example_alone = (invite_start (snd (join_conversation Some [example_user] [] 6 7 ''i'' example_invited)))\<lparr>is_log := [Joined ''i'']\<rparr>"

lemma serial_outcome_once_witness:
  "used_up ''i'' (cw_db (is_world example_alone)) \<and>
    fst (decline_invitation Some 5 True 7 ''i'' [] [] (is_world example_alone)) = Ok False"
proof -
  let ?w = "snd (join_conversation Some [example_user] [] 6 7 ''i'' example_invited)"
  have q: "join_conversation Some [example_user] [] 6 7 ''i'' (is_world (invite_start example_invited)) = (Ok ''i'', ?w)"
  proof -
    have "fst (join_conversation Some [example_user] [] 6 7 ''i'' example_invited) = Ok ''i''" by code_simp
    then show ?thesis by (simp add: invite_start_def prod_eq_iff)
  qed
  have "serial_step Some [example_user] (\<lambda>_. None) (invite_start example_invited) example_alone"
    using serial_step.SerialJoin [OF q] by (simp add: example_alone_def with_joined_def invite_start_def)
  then have "(serial_step Some [example_user] (\<lambda>_. None))\<^sup>*\<^sup>* (invite_start example_invited) example_alone" by blast
  from serial_outcome_once [OF this example_ok] have "used_up ''i'' (cw_db (is_world example_alone))"
    by (simp add: example_alone_def)
  moreover have "fst (decline_invitation Some 5 True 7 ''i'' [] [] (is_world example_alone)) = Ok False" by code_simp
  ultimately show ?thesis by blast
qed

end
