(* ===== verification/Chat_Lifecycle.thy ===== *)
theory Chat_Lifecycle
  imports Chat_Invitation
begin

text \<open>
  What the handlers of cmd/chat/service.go and the statements of internal/repo/sqlx leave
  in the tables: an invitation whose notices fail, the title of an invite, the flag that
  a closed channel needs processing, and a closed conversation.
\<close>

section \<open>An invitation whose notices fail\<close>

lemma create_invite_inserts:
  assumes "create_invite U names fresh now m d = (None, m', d')"
  shows "\<exists>v row. U (iv_conversation_id m) = Some v \<and> cd_invites d' = cd_invites d @ [row] \<and> open_invite row \<and>
    iv_conversation_id row = v \<and> iv_user_id row = iv_user_id m \<and> U (iv_id m') = Some (iv_id row) \<and>
    iv_title row = (if ns_string (iv_title m) = [] then some_string (sender_display names (iv_id row) d) else iv_title m)"
proof -
  obtain f d1 where n: "next_statement d = (f, d1)" by fastforce
  note rows = next_statement_rows [OF n]
  have "\<exists>v row. U (iv_conversation_id m) = Some v \<and> insert_invite row d1 = Ok d' \<and> open_invite row \<and>
    iv_conversation_id row = v \<and> iv_user_id row = iv_user_id m \<and> U (iv_id m') = Some (iv_id row) \<and>
    iv_title row = (if ns_string (iv_title m) = [] then some_string (sender_display names (iv_id row) d1) else iv_title m)"
    using assms n
    by (simp add: create_invite_def Let_def split: option.splits if_splits sum.splits)
      (auto simp: open_invite_def)
  then obtain v row where r: "U (iv_conversation_id m) = Some v" "insert_invite row d1 = Ok d'" "open_invite row"
      "iv_conversation_id row = v" "iv_user_id row = iv_user_id m" "U (iv_id m') = Some (iv_id row)"
      "iv_title row = (if ns_string (iv_title m) = [] then some_string (sender_display names (iv_id row) d1) else iv_title m)"
    by blast
  have "cd_invites d' = cd_invites d @ [row]"
    using r(2) rows by (auto simp: insert_invite_def same_rows_def split: if_splits)
  moreover have "sender_display names (iv_id row) d1 = sender_display names (iv_id row) d"
    using rows by (simp add: sender_display_def same_rows_def)
  ultimately show ?thesis using r by auto
qed

text \<open>An open invite of a user in a conversation keeps a second one out.\<close>

lemma create_invite_blocked:
  assumes "row \<in> set (cd_invites d)" "open_invite row" "U (iv_conversation_id m) = Some (iv_conversation_id row)"
    "iv_user_id m = iv_user_id row"
  shows "fst (create_invite U names fresh now m d) \<noteq> None"
proof
  assume "fst (create_invite U names fresh now m d) = None"
  then obtain m' d' where c: "create_invite U names fresh now m d = (None, m', d')" by (metis prod.collapse)
  obtain f d1 where n: "next_statement d = (f, d1)" by fastforce
  have "row \<in> set (cd_invites d1)" using assms(1) next_statement_rows [OF n] by (simp add: same_rows_def)
  moreover obtain r where "insert_invite r d1 = Ok d'" "open_invite r" "iv_conversation_id r = iv_conversation_id row"
      "iv_user_id r = iv_user_id row"
  proof -
    have "\<exists>r. insert_invite r d1 = Ok d' \<and> open_invite r \<and> iv_conversation_id r = iv_conversation_id row \<and>
        iv_user_id r = iv_user_id row"
      using c n assms(3,4)
      by (simp add: create_invite_def Let_def split: option.splits if_splits sum.splits) (auto simp: open_invite_def)
    then show ?thesis using that by blast
  qed
  ultimately show False using assms(2) by (auto simp: insert_invite_def split: if_splits)
qed

lemma get_conversation_rows_soft:
  assumes "get_conversation_rows U conv d = (r, d')"
  shows "soft d d'"
proof -
  obtain f e where n: "next_statement d = (f, e)" by fastforce
  show ?thesis using assms soft_next [OF n] by (auto simp: get_conversation_rows_def n split: if_splits option.splits)
qed

lemma invite_notices_soft: "soft (cw_db w) (cw_db (snd (invite_notices U user_first v i w)))"
proof -
  have "soft (cw_db w) (cw_db (snd (route_invite U conv user (snd (send_invite_to_webitel_user v i w)))))"
    "soft (cw_db w) (cw_db (snd (send_invite_to_webitel_user v i (snd (route_invite U conv user w)))))" for conv user
    by (rule soft_trans [OF send_invite_soft routes_soft(2)]) (rule soft_trans [OF routes_soft(2) send_invite_soft])
  then show ?thesis by (simp add: invite_notices_def case_prod_beta Let_def)
qed

lemma invite_fail_route:
  assumes "invite_to_conversation U names fresh now first r w = (InviteFail (RouteFailed e), w')"
  shows "\<exists>m m' d d'. create_invite U names fresh now m d = (None, m', d') \<and> iv_conversation_id m = ir_conversation_id r \<and>
    iv_user_id m = ir_user_id r \<and> cd_invites (cw_db w') = cd_invites d'"
proof -
  obtain p d1 where i1: "inviter_channel U r (cw_db w) = (p, d1)" by fastforce
  have p: "p \<noteq> Fail (RouteFailed x)" for x
    using i1 by (auto simp: inviter_channel_def split: if_splits prod.splits sum.splits option.splits)
  have guard: "\<not> (ir_service r \<noteq> ''workflow'' \<and> (ir_inviter_channel_id r = [] \<or> ir_auth_user_id r = 0))"
    using assms unfolding invite_to_conversation_def by (cases "ir_service r = ''workflow''") auto
  then obtain inviter where inv: "p = Ok inviter"
    using assms i1 p by (cases p) (auto simp: invite_to_conversation_def)
  let ?m = "requested_invite r\<lparr>iv_inviter_channel_id := inviter\<rparr>"
  obtain x m' d2 where c: "create_invite U names fresh now ?m d1 = (x, m', d2)" by (metis prod_cases3)
  have x: "x = None" using assms guard i1 inv c by (cases x) (auto simp: invite_to_conversation_def)
  obtain g d3 where h: "get_conversation_rows U (ir_conversation_id r) d2 = (g, d3)" by fastforce
  obtain v vs where v: "g = Ok (v # vs)"
    using assms guard i1 inv c x h by (auto simp: invite_to_conversation_def split: sum.splits list.splits)
  obtain a b where n: "invite_notices U first v m' (w\<lparr>cw_db := d3\<rparr>) = (a, b)" by fastforce
  have "w' = b" using assms guard i1 inv c x h v n by (auto simp: invite_to_conversation_def split: option.splits)
  then have "soft d3 (cw_db w')" using invite_notices_soft [where w = "w\<lparr>cw_db := d3\<rparr>"] n by (metis chat_world.select_convs(1) chat_world.surjective chat_world.update_convs(1) snd_conv)
  then have "cd_invites (cw_db w') = cd_invites d2"
    using get_conversation_rows_soft [OF h] by (simp add: soft_def)
  then show ?thesis using c x by (force simp: requested_invite_def)
qed

text \<open>C17: When a notice of an invitation fails, the caller gets an error, but the invite stays
  in the table, open and without a timer, and the user cannot be invited to the
  conversation again.\<close>

theorem failed_invitation_blocks_user:
  assumes "invite_to_conversation U names fresh now first r w = (InviteFail (RouteFailed e), w')"
  shows "with_timer r (InviteFail (RouteFailed e)) ts = ts \<and>
    (\<exists>row \<in> set (cd_invites (cw_db w')). open_invite row \<and> iv_user_id row = ir_user_id r \<and>
      U (ir_conversation_id r) = Some (iv_conversation_id row)) \<and>
    (\<forall>names' fresh' now' inviter. fst (create_invite U names' fresh' now'
      (requested_invite r\<lparr>iv_inviter_channel_id := inviter\<rparr>) (cw_db w')) \<noteq> None)"
proof -
  obtain m m' d d' where c: "create_invite U names fresh now m d = (None, m', d')"
      "iv_conversation_id m = ir_conversation_id r" "iv_user_id m = ir_user_id r" "cd_invites (cw_db w') = cd_invites d'"
    using invite_fail_route [OF assms] by blast
  obtain row where row: "U (iv_conversation_id m) = Some (iv_conversation_id row)" "row \<in> set (cd_invites d')"
      "open_invite row" "iv_user_id row = iv_user_id m"
    using create_invite_inserts [OF c(1)] by auto
  have "fst (create_invite U names' fresh' now' (requested_invite r\<lparr>iv_inviter_channel_id := inviter\<rparr>) (cw_db w')) \<noteq> None"
    for names' fresh' now' inviter
    by (rule create_invite_blocked) (use row c in \<open>auto simp: requested_invite_def\<close>)
  then show ?thesis using row c(2-4) by (auto simp: with_timer_def)
qed


definition example_request :: invite_request where
  "example_request = \<lparr>ir_service = ''workflow'', ir_user_id = 8, ir_domain_id = 1, ir_timeout_sec = 30,
     ir_conversation_id = ''c'', ir_inviter_channel_id = [], ir_auth_user_id = 0, ir_title = [], ir_vars = None\<rparr>"

lemma failed_invitation_blocks_user_witness:
  "\<exists>row \<in> set (cd_invites (cw_db (snd (invite_to_conversation Some (\<lambda>_. None) ''k'' 5 True example_request
      (example_invited\<lparr>cw_broker := [True]\<rparr>))))). open_invite row \<and> iv_user_id row = 8 \<and> iv_conversation_id row = ''c''"
proof -
  let ?w = "example_invited\<lparr>cw_broker := [True]\<rparr>"
  have "fst (invite_to_conversation Some (\<lambda>_. None) ''k'' 5 True example_request ?w) = InviteFail (RouteFailed BrokerError)"
    by code_simp
  then have "invite_to_conversation Some (\<lambda>_. None) ''k'' 5 True example_request ?w =
      (InviteFail (RouteFailed BrokerError), snd (invite_to_conversation Some (\<lambda>_. None) ''k'' 5 True example_request ?w))"
    by (simp add: prod_eq_iff)
  from failed_invitation_blocks_user [OF this, of "[]"] show ?thesis by (auto simp: example_request_def)
qed

section \<open>The title of an invite\<close>

text \<open>An invite created without a title is stored as one from noname, whoever invites: the
  statement looks for the sender's channel under the id of the invite, which is new,
  and not under the channel of the inviter.\<close>

theorem untitled_invite_is_noname:
  assumes "create_invite U names fresh now m d = (None, m', d')" "ns_string (iv_title m) = []"
    and "U (iv_id m') = Some u" "u \<notin> sc_id ` set (cd_channels d)"
  shows "\<exists>row. cd_invites d' = cd_invites d @ [row] \<and> iv_id row = u \<and> iv_title row = some_string ''noname''"
proof -
  obtain row where row: "cd_invites d' = cd_invites d @ [row]" "iv_id row = u"
      "iv_title row = some_string (sender_display names u d)"
    using create_invite_inserts [OF assms(1)] assms(2,3) by auto
  have "List.find (\<lambda>c. sc_id c = u) (cd_channels d) = None" using assms(4) by (auto simp: find_None_iff)
  then show ?thesis using row by (simp add: sender_display_def)
qed

definition example_inviter :: store_channel where
  "example_inviter = zero_channel\<lparr>sc_id := ''a'', sc_type := ''webitel'', sc_conversation_id := ''c'', sc_user_id := 3,
     sc_created_at := 1, sc_internal := True\<rparr>"

lemma untitled_invite_is_noname_witness:
  "\<exists>d' row. snd (snd (create_invite Some (\<lambda>c. Some ''Bob'') ''k'' 5
      (requested_invite example_request\<lparr>iv_inviter_channel_id := some_string ''a''\<rparr>)
      ((cw_db example_invited)\<lparr>cd_channels := [example_inviter]\<rparr>))) = d' \<and>
    cd_invites d' = [example_invite, row] \<and> iv_title row = some_string ''noname''"
proof -
  let ?m = "requested_invite example_request\<lparr>iv_inviter_channel_id := some_string ''a''\<rparr>"
  let ?d = "(cw_db example_invited)\<lparr>cd_channels := [example_inviter]\<rparr>"
  let ?r = "create_invite Some (\<lambda>c. Some ''Bob'') ''k'' 5 ?m ?d"
  have ev: "fst ?r = None" "iv_id (fst (snd ?r)) = ''k''" "ns_string (iv_title ?m) = []" "''k'' \<notin> sc_id ` set (cd_channels ?d)"
      "cd_invites ?d = [example_invite]"
    by code_simp+
  then have "?r = (None, fst (snd ?r), snd (snd ?r))" by (simp add: prod_eq_iff)
  from untitled_invite_is_noname [OF this ev(3), of "''k''"] ev(2,4,5) show ?thesis by fastforce
qed

section \<open>The flag of a closed channel\<close>

lemma fetch_rows_SomeD: "Some c \<in> set (fetch_rows n rows) \<Longrightarrow> c \<in> set rows"
  by (auto simp: fetch_rows_def Let_def split: if_splits dest: in_set_takeD)

text \<open>A member of the platform that leaves for a timeout is marked with needs_processing only
  when the channel has variables: jsonb_set of a NULL is NULL, and a channel without
  variables, as a user gets one from an invite without them, stores NULL.\<close>

theorem timeout_mark_needs_variables:
  assumes "close_channel U now i cause d = (Ok (Some c), d')" "leave_needs_processing cause" "sc_internal c"
  shows "\<exists>old \<in> set (cd_channels d). open_channel old \<and> sc_id old = sc_id c \<and>
    (map_of (env_of (sc_vars c)) ''needs_processing'' = Some ''true'' \<longleftrightarrow> sc_vars old \<noteq> None)"
proof -
  obtain f d1 where n: "next_statement d = (f, d1)" by fastforce
  have rows: "cd_channels d1 = cd_channels d" using next_statement_rows [OF n] by (simp add: same_rows_def)
  have "i \<noteq> []" "\<not> f" using assms(1) n by (auto simp: close_channel_def Let_def split: if_splits)
  moreover obtain u where u: "U i = Some u"
    using assms(1) n by (cases "U i") (auto simp: close_channel_def Let_def split: if_splits)
  ultimately have "Some c \<in> set (fetch_rows 1 (filter (\<lambda>c. sc_conversation_id c \<in> cv_id ` set (cd_convs d1))
      (map (closed_row now cause True) (filter (\<lambda>c. sc_id c = u \<and> open_channel c) (cd_channels d)))))"
    using assms(1,2) n rows by (simp add: close_channel_def Let_def split: list.splits option.splits if_splits)
  then have "c \<in> set (filter (\<lambda>c. sc_conversation_id c \<in> cv_id ` set (cd_convs d1))
      (map (closed_row now cause True) (filter (\<lambda>c. sc_id c = u \<and> open_channel c) (cd_channels d))))"
    by (rule fetch_rows_SomeD)
  then obtain old where old: "old \<in> set (cd_channels d)" "open_channel old" "c = closed_row now cause True old" by auto
  have "sc_internal old" using assms(3) old(3) by simp
  then have "sc_vars c = jsonb_set_flag (sc_vars old)" by (simp add: old(3) closed_row_def)
  then show ?thesis using old by (intro bexI [of _ old]) (cases "sc_vars old"; simp add: jsonb_set_flag_def chat_needs_processing_def)+
qed


lemma timeout_mark_needs_variables_witness:
  "\<exists>c. fst (close_channel Some 9 ''a'' ''agent_timeout'' ((cw_db example_invited)\<lparr>cd_channels := [example_inviter]\<rparr>)) =
      Ok (Some c) \<and> map_of (env_of (sc_vars c)) ''needs_processing'' \<noteq> Some ''true''"
proof -
  let ?d = "(cw_db example_invited)\<lparr>cd_channels := [example_inviter]\<rparr>"
  let ?c = "closed_row 9 ''agent_timeout'' True example_inviter"
  have ev: "fst (close_channel Some 9 ''a'' ''agent_timeout'' ?d) = Ok (Some ?c)" "leave_needs_processing ''agent_timeout''"
      "sc_internal ?c" "\<forall>old \<in> set (cd_channels ?d). sc_vars old = None"
    by code_simp+
  then have "close_channel Some 9 ''a'' ''agent_timeout'' ?d = (Ok (Some ?c), snd (close_channel Some 9 ''a'' ''agent_timeout'' ?d))"
    by (simp add: prod_eq_iff)
  from timeout_mark_needs_variables [OF this ev(2,3)]
  have "map_of (env_of (sc_vars ?c)) ''needs_processing'' \<noteq> Some ''true''"
  proof (elim bexE conjE)
    fix old assume "old \<in> set (cd_channels ?d)"
      "(map_of (env_of (sc_vars ?c)) ''needs_processing'' = Some ''true'') = (sc_vars old \<noteq> None)"
    then show ?thesis using bspec [OF ev(4)] by simp
  qed
  with ev(1) show ?thesis by (intro exI [of _ ?c] conjI)
qed

section \<open>A closed conversation\<close>

text \<open>C18: Closing a conversation closes it, its open channels and its open invites in one
  statement, removes its token and its node from the tables of the workflow client, and
  leaves every other conversation as it was: its row, channels, invites, token and node, and all messages.  It
  removes no row and adds none.\<close>

theorem close_session_closes_all:
  assumes "close_session U now conv cause d = (None, d')" "U conv = Some v"
  shows "(\<forall>c \<in> set (cd_channels d'). sc_conversation_id c = v \<longrightarrow> \<not> open_channel c) \<and>
    (\<forall>i \<in> set (cd_invites d'). iv_conversation_id i = v \<longrightarrow> \<not> open_invite i) \<and>
    (\<forall>s \<in> set (cd_convs d'). cv_id s = v \<longrightarrow> cv_closed_at s \<noteq> None) \<and>
    map_of (db_confirms (cd_cache d')) v = None \<and> map_of (db_nodes (cd_cache d')) v = None \<and>
    filter (\<lambda>c. sc_conversation_id c \<noteq> v) (cd_channels d') = filter (\<lambda>c. sc_conversation_id c \<noteq> v) (cd_channels d) \<and>
    filter (\<lambda>i. iv_conversation_id i \<noteq> v) (cd_invites d') = filter (\<lambda>i. iv_conversation_id i \<noteq> v) (cd_invites d) \<and>
    filter (\<lambda>s. cv_id s \<noteq> v) (cd_convs d') = filter (\<lambda>s. cv_id s \<noteq> v) (cd_convs d) \<and>
    map sc_id (cd_channels d') = map sc_id (cd_channels d) \<and> map iv_id (cd_invites d') = map iv_id (cd_invites d) \<and>
    map cv_id (cd_convs d') = map cv_id (cd_convs d) \<and>
    (\<forall>u. u \<noteq> v \<longrightarrow> map_of (db_confirms (cd_cache d')) u = map_of (db_confirms (cd_cache d)) u \<and>
      map_of (db_nodes (cd_cache d')) u = map_of (db_nodes (cd_cache d)) u) \<and>
    cd_messages d' = cd_messages d \<and> cd_message_seq d' = cd_message_seq d"
proof -
  obtain f e where n: "next_statement d = (f, e)" by fastforce
  note rows = next_statement_rows [OF n]
  have d': "d' = close_session_rows now cause (close_needs_processing cause) v e"
    using assms n by (auto simp: close_session_def split: if_splits)
  let ?f = "\<lambda>c. if sc_conversation_id c = v \<and> open_channel c then closed_row now cause (close_needs_processing cause) c else c"
  let ?g = "\<lambda>r. if iv_conversation_id r = v \<and> open_invite r then r\<lparr>iv_closed_at := Some now\<rparr> else r"
  have c: "cd_channels d' = map ?f (cd_channels d)" and i: "cd_invites d' = map ?g (cd_invites d)"
    using rows by (simp_all add: d' close_session_rows_def same_rows_def)
  let ?h = "\<lambda>s. if cv_id s = v \<and> cv_closed_at s = None then s\<lparr>cv_closed_at := Some now\<rparr> else s"
  have s: "cd_convs d' = map ?h (cd_convs d)" using rows by (simp add: d' close_session_rows_def same_rows_def)
  have h: "filter (\<lambda>s. cv_id s \<noteq> v) (map ?h ss) = filter (\<lambda>s. cv_id s \<noteq> v) ss" for ss
    by (induction ss) auto
  have ids: "sc_id (?f x) = sc_id x" "iv_id (?g y) = iv_id y" "cv_id (?h z) = cv_id z" for x y z by (simp_all add: closed_row_def)
  have maps: "map sc_id (cd_channels d') = map sc_id (cd_channels d)" "map iv_id (cd_invites d') = map iv_id (cd_invites d)"
      "map cv_id (cd_convs d') = map cv_id (cd_convs d)"
    unfolding c i s map_map comp_def ids by simp_all
  have other: "map_of (db_confirms (cd_cache d')) u = map_of (db_confirms (cd_cache d)) u \<and>
      map_of (db_nodes (cd_cache d')) u = map_of (db_nodes (cd_cache d)) u" if "u \<noteq> v" for u
    using rows that by (simp add: d' close_session_rows_def same_rows_def)
  have rest: "cd_messages d' = cd_messages d" "cd_message_seq d' = cd_message_seq d"
    using rows by (simp_all add: d' close_session_rows_def same_rows_def)
  have f: "filter (\<lambda>c. sc_conversation_id c \<noteq> v) (map ?f cs) = filter (\<lambda>c. sc_conversation_id c \<noteq> v) cs" for cs
    by (induction cs) auto
  have g: "filter (\<lambda>i. iv_conversation_id i \<noteq> v) (map ?g is) = filter (\<lambda>i. iv_conversation_id i \<noteq> v) is" for "is"
    by (induction "is") auto
  have "\<forall>c \<in> set (cd_channels d'). sc_conversation_id c = v \<longrightarrow> \<not> open_channel c"
    unfolding c set_map by (simp only: ball_simps) (simp split: if_split)
  moreover have "\<forall>i \<in> set (cd_invites d'). iv_conversation_id i = v \<longrightarrow> \<not> open_invite i"
    unfolding i set_map by (simp only: ball_simps) (simp split: if_split)
  moreover have "\<forall>s \<in> set (cd_convs d'). cv_id s = v \<longrightarrow> cv_closed_at s \<noteq> None"
    unfolding s set_map by (simp only: ball_simps) (simp split: if_split)
  moreover have "map_of (db_confirms (cd_cache d')) v = None" "map_of (db_nodes (cd_cache d')) v = None"
    by (simp_all add: d' close_session_rows_def)
  moreover have "filter (\<lambda>c. sc_conversation_id c \<noteq> v) (cd_channels d') = filter (\<lambda>c. sc_conversation_id c \<noteq> v) (cd_channels d)"
    unfolding c by (rule f)
  moreover have "filter (\<lambda>i. iv_conversation_id i \<noteq> v) (cd_invites d') = filter (\<lambda>i. iv_conversation_id i \<noteq> v) (cd_invites d)"
    unfolding i by (rule g)
  moreover have "filter (\<lambda>s. cv_id s \<noteq> v) (cd_convs d') = filter (\<lambda>s. cv_id s \<noteq> v) (cd_convs d)"
    unfolding s by (rule h)
  ultimately show ?thesis using maps other rest by (intro conjI allI impI) simp_all
qed

lemma close_session_closes_all_witness:
  "filter open_invite (cd_invites (snd (close_session Some 9 ''c'' ''flow_end'' (cw_db example_invited)))) = []"
proof -
  let ?r = "close_session Some 9 ''c'' ''flow_end'' (cw_db example_invited)"
  have "fst ?r = None" by code_simp
  then have "?r = (None, snd ?r)" by (simp add: prod_eq_iff)
  from close_session_closes_all [OF this refl]
  have "\<forall>i \<in> set (cd_invites (snd ?r)). iv_conversation_id i = ''c'' \<longrightarrow> \<not> open_invite i" by blast
  moreover have "\<forall>i \<in> set (cd_invites (snd ?r)). iv_conversation_id i = ''c''" by code_simp
  ultimately show ?thesis by (simp add: filter_empty_conv)
qed

end
