(* ===== verification/Chat_Room.thy ===== *)
theory Chat_Room
  imports Chat_Session Chat_Lifecycle
begin

text \<open>
  What the members of a room get: every open member one delivery of a message in the order of the
  room, bindings of gateways that are not stored, and a room that was closed is silent.
\<close>

section \<open>What a delivery changes\<close>

fun published :: "chat_event \<Rightarrow> bool" where
  "published (Published k d u b) = True"
| "published (GatewayCall c p e m) = False"
| "published (PortalUpdate c n a m) = False"

definition publications :: "chat_world \<Rightarrow> chat_event list" where
  "publications w = filter published (cw_events w)"

lemma next_statement_messages: "next_statement d = (f, e) \<Longrightarrow> cd_messages e = cd_messages d"
  using next_statement_rows [of d f e] by (simp add: same_rows_def)

lemma bind_statement_keeps [simp]:
  "cd_messages (cw_db (bind_statement cid vs w)) = cd_messages (cw_db w)"
  "cw_events (bind_statement cid vs w) = cw_events w"
  by (auto simp: bind_statement_def bind_rows_def Let_def next_statement_messages split: prod.splits)

lemma update_channel_host_messages:
  "cd_messages (snd (update_channel_host U i h db)) = cd_messages db"
  by (auto simp: update_channel_host_def Let_def next_statement_messages split: prod.splits option.splits)

text \<open>A gateway changes no message row, publishes nothing, and of the message only the variables
  of one with an id; variables stay present.\<close>

lemma sent_bindings_effect:
  assumes "sent_bindings target m bs w = (m', w')"
  shows "cd_messages (cw_db w') = cd_messages (cw_db w)" "cw_events w' = cw_events w"
    "m' = m\<lparr>nt_vars := nt_vars m'\<rparr>" "nt_vars m \<noteq> None \<Longrightarrow> nt_vars m' \<noteq> None"
  using assms by (auto simp: sent_bindings_def Let_def split: if_splits option.splits)

lemma gateway_effect:
  assumes "send_message_to_gateway U target m w = (e, m', w')"
  shows "cd_messages (cw_db w') = cd_messages (cw_db w)" "publications w' = publications w"
    "m' = m\<lparr>nt_vars := nt_vars m'\<rparr>" "nt_vars m \<noteq> None \<Longrightarrow> nt_vars m' \<noteq> None"
  using assms
  by (auto simp: send_message_to_gateway_def push_update_def Let_def publications_def update_channel_host_messages
      split: if_splits prod.splits option.splits list.splits bool.splits dest: sent_bindings_effect)

lemma on_flow_effect:
  "cd_messages (cw_db (snd (on_flow f w))) = cd_messages (cw_db w)" "publications (snd (on_flow f w)) = publications w"
  by (simp_all add: on_flow_def publications_def Let_def split: prod.splits)

lemma on_flow_keeps:
  assumes "on_flow f w = (x, w')"
  shows "cd_messages (cw_db w') = cd_messages (cw_db w)" "publications w' = publications w"
  using on_flow_effect [of f w] assms by simp_all

lemma publish_effect:
  assumes "publish k d u b w = (e, w')"
  shows "cd_messages (cw_db w') = cd_messages (cw_db w)" "publications w' = publications w @ [Published k d u b]"
  using assms by (auto simp: publish_def publications_def Let_def split: list.splits if_splits)

lemma message_event_vars [simp]: "message_event c f v (m\<lparr>nt_vars := x\<rparr>) = message_event c f v m"
  by (simp add: message_event_def split: option.splits)

section \<open>One delivery for every open member\<close>

definition gets_event :: "app_channel \<Rightarrow> bool" where
  "gets_event k \<longleftrightarrow> \<not> channel_is_closed (Some k) \<and> ch_channel (ac_chat k) = ''websocket''"

definition gets_message :: "bool \<times> app_channel \<Rightarrow> bool" where
  "gets_message p \<longleftrightarrow> \<not> channel_is_closed (Some (snd p)) \<and> (ch_channel (ac_chat (snd p)) = ''websocket'' \<or> \<not> fst p)"

definition event_to :: "event_body \<Rightarrow> app_channel \<Rightarrow> chat_event" where
  "event_to b k = Published ''message'' (ac_domain_id k) (au_id (ac_user k)) b"

text \<open>What a round of the loop does to what it carries along, for a body b of the event.\<close>

definition round_ok :: "event_body \<Rightarrow> bool \<times> app_channel \<Rightarrow> delivery \<Rightarrow> delivery \<Rightarrow> bool" where
  "round_ok b p st st' \<longleftrightarrow>
     cd_messages (cw_db (dl_world st')) = cd_messages (cw_db (dl_world st)) \<and>
     dl_message st' = (dl_message st)\<lparr>nt_vars := nt_vars (dl_message st')\<rparr> \<and>
     (dl_event st' = None \<or> dl_event st' = Some b) \<and>
     publications (dl_world st') = publications (dl_world st) @ (if gets_event (snd p) then [event_to b (snd p)] else []) \<and>
     (nt_id (dl_message st) \<noteq> 0 \<longrightarrow> dl_sent st' = dl_sent st + (if gets_message p then 1 else 0)) \<and>
     (dl_shared st \<longrightarrow> dl_shared st' \<and> dl_rebind st' = dl_rebind st)"

lemma publish_message_round:
  assumes "gets_event k" "gets_message (s, k)" "dl_event st = None \<or> dl_event st = Some b" "body (dl_message st) = b"
  shows "round_ok b (s, k) st (publish_message body k st)"
proof -
  obtain e w where p: "publish ''message'' (ac_domain_id k) (au_id (ac_user k)) b (dl_world st) = (e, w)" by fastforce
  have "(case dl_event st of Some e \<Rightarrow> e | None \<Rightarrow> body (dl_message st)) = b" using assms(3,4) by (auto split: option.splits)
  then show ?thesis using assms p publish_effect [OF p]
    by (simp add: round_ok_def publish_message_def event_to_def Let_def)
qed

lemma workflow_round:
  assumes "\<not> gets_event k" "gets_message (s, k)" "dl_event st = None \<or> dl_event st = Some b"
  shows "round_ok b (s, k) st (deliver_workflow k st)"
  using assms
  by (simp add: round_ok_def deliver_workflow_def Let_def split: prod.splits) (auto dest: on_flow_keeps)

lemma merge_binding_keeps:
  "dl_world (merge_binding st) = dl_world st" "dl_event (merge_binding st) = dl_event st"
  "dl_message (merge_binding st) = (dl_message st)\<lparr>nt_vars := nt_vars (dl_message (merge_binding st))\<rparr>"
  "dl_sent (merge_binding st) = dl_sent st"
  "dl_shared st \<Longrightarrow> dl_shared (merge_binding st) \<and> dl_rebind (merge_binding st) = dl_rebind st"
  by (simp_all add: merge_binding_def Let_def)

lemma gateway_round:
  assumes "\<not> gets_event k" "gets_message (s, k)" "dl_event st = None \<or> dl_event st = Some b"
  shows "round_ok b (s, k) st (deliver_gateway U k st)"
proof -
  obtain e m w where g: "send_message_to_gateway U k (dl_message st) (dl_world st) = (e, m, w)" by (metis prod_cases3)
  note ge = gateway_effect [OF g]
  have i: "nt_id m = nt_id (dl_message st)" by (subst ge(3)) simp
  let ?s = "st\<lparr>dl_world := w, dl_message := m, dl_error := (if e \<noteq> None then e else dl_error st)\<rparr>"
  have d: "deliver_gateway U k st = (if nt_id m = 0 then ?s else (merge_binding ?s)\<lparr>dl_sent := dl_sent ?s + 1\<rparr>)"
    by (simp add: deliver_gateway_def g Let_def)
  have v: "m\<lparr>nt_vars := x\<rparr> = (dl_message st)\<lparr>nt_vars := x\<rparr>" for x by (subst ge(3)) simp
  show ?thesis
    using assms(3) ge(1,2) ge(3) i v merge_binding_keeps [of ?s]
    by (simp add: round_ok_def d assms(1,2))
qed

lemma deliver_member_round:
  assumes "dl_event st = None \<or> dl_event st = Some b"
    and "b = message_event (ch_invite (ac_chat sender)) (ch_id (ac_chat sender)) None (dl_message st)"
  shows "round_ok b p st (deliver_member U sender p st)"
proof -
  obtain s k where p: "p = (s, k)" by (cases p)
  show ?thesis
  proof (cases "gets_message p")
    case False
    then have "deliver_member U sender p st = st" "\<not> gets_event k"
      by (auto simp: p deliver_member_def gets_message_def gets_event_def Let_def)
    then show ?thesis using False assms(1) by (simp add: round_ok_def p)
  next
    case True
    show ?thesis
    proof (cases "gets_event k")
      case True
      then show ?thesis using publish_message_round [OF True \<open>gets_message p\<close> [unfolded p] assms(1)] assms(2)
        by (simp add: p deliver_member_def gets_event_def)
    next
      case False
      then have d: "deliver_member U sender p st =
          (if ch_channel (ac_chat k) = ''chatflow'' then deliver_workflow k st else deliver_gateway U k st)"
        using True by (auto simp: p deliver_member_def gets_message_def gets_event_def Let_def)
      show ?thesis
        unfolding d using workflow_round [OF False True [unfolded p] assms(1)] gateway_round [OF False True [unfolded p] assms(1)]
        by (simp add: p)
    qed
  qed
qed

text \<open>The rounds of a whole loop.\<close>

lemma deliver_rounds:
  assumes "dl_event st = None \<or> dl_event st = Some b"
    and "b = message_event (ch_invite (ac_chat sender)) (ch_id (ac_chat sender)) None (dl_message st)"
    and "st' = fold (deliver_member U sender) ps st"
  shows "cd_messages (cw_db (dl_world st')) = cd_messages (cw_db (dl_world st)) \<and>
    dl_message st' = (dl_message st)\<lparr>nt_vars := nt_vars (dl_message st')\<rparr> \<and>
    publications (dl_world st') = publications (dl_world st) @ map (event_to b \<circ> snd) (filter (gets_event \<circ> snd) ps) \<and>
    (nt_id (dl_message st) \<noteq> 0 \<longrightarrow> dl_sent st' = dl_sent st + int (length (filter gets_message ps))) \<and>
    (dl_shared st \<longrightarrow> dl_rebind st' = dl_rebind st)"
  using assms
proof (induction ps arbitrary: st)
  case (Cons p ps)
  let ?t = "deliver_member U sender p st"
  have r: "round_ok b p st ?t" by (rule deliver_member_round [OF Cons.prems(1,2)])
  then have m: "dl_message ?t = (dl_message st)\<lparr>nt_vars := nt_vars (dl_message ?t)\<rparr>"
    and e: "dl_event ?t = None \<or> dl_event ?t = Some b" by (simp_all add: round_ok_def)
  have b: "b = message_event (ch_invite (ac_chat sender)) (ch_id (ac_chat sender)) None (dl_message ?t)"
    by (subst m) (simp add: Cons.prems(2))
  have i: "nt_id (dl_message ?t) = nt_id (dl_message st)" by (subst m) simp
  have v: "(dl_message ?t)\<lparr>nt_vars := x\<rparr> = (dl_message st)\<lparr>nt_vars := x\<rparr>" for x by (subst m) simp
  show ?case using Cons.IH [OF e b] Cons.prems(3) r i v by (simp add: round_ok_def)
qed simp

text \<open>C24: In a room with other members every user of the platform with an open channel, the sender among them, gets one
  event of a message with an id, all the same and in the order of the room, and nobody else does; the count
  is that of the members who are open and no sender at a gateway or schema.\<close>

theorem message_reaches_members:
  assumes "send_to_room U calls sender members m w = (e, n, m', w')" "members \<noteq> []"
    and "nt_id m \<noteq> 0"
  shows "publications w' = publications w @
      map (event_to (message_event (ch_invite (ac_chat sender)) (ch_id (ac_chat sender)) None m))
        (filter gets_event (sender # members)) \<and>
    n = int (length (filter gets_message (room_members sender members))) \<and>
    m' = m\<lparr>nt_vars := nt_vars m'\<rparr>"
proof -
  let ?b = "message_event (ch_invite (ac_chat sender)) (ch_id (ac_chat sender)) None m"
  obtain st where st: "st = fold (deliver_member U sender) (room_members sender members) (delivery_start calls m w)" by simp
  have p: "dl_event (delivery_start calls m w) = None \<or> dl_event (delivery_start calls m w) = Some ?b"
      "?b = message_event (ch_invite (ac_chat sender)) (ch_id (ac_chat sender)) None (dl_message (delivery_start calls m w))"
    by (simp_all add: delivery_start_def)
  note d = deliver_rounds [OF p st, THEN conjunct2]
  have "dl_message st = (dl_message (delivery_start calls m w))\<lparr>nt_vars := nt_vars (dl_message st)\<rparr>" by (rule conjunct1 [OF d])
  then have r3: "dl_message st = m\<lparr>nt_vars := nt_vars (dl_message st)\<rparr>" by (simp only: delivery_start_def delivery.simps)
  note d = conjunct2 [OF d]
  have r1: "publications (dl_world st) = publications w @ map (event_to ?b \<circ> snd) (filter (gets_event \<circ> snd) (room_members sender members))"
    using conjunct1 [OF d] by (simp add: delivery_start_def)
  have r2: "dl_sent st = int (length (filter gets_message (room_members sender members)))"
    using conjunct1 [OF conjunct2 [OF d]] assms(3) by (simp add: delivery_start_def)
  have s: "n = dl_sent st" "m' = dl_message st" "cw_events w' = cw_events (dl_world st)"
    using assms(1,2) by (auto simp: send_to_room_def st Let_def split: if_splits)
  have "map (event_to ?b \<circ> snd) (filter (gets_event \<circ> snd) (room_members sender members)) =
      map (event_to ?b) (filter gets_event (sender # members))"
    by (simp add: room_members_def filter_map comp_def)
  with r1 s(3) have "publications w' = publications w @ map (event_to ?b) (filter gets_event (sender # members))"
    by (simp add: publications_def)
  moreover have "m' = m\<lparr>nt_vars := nt_vars m'\<rparr>" unfolding s(2) by (rule r3)
  ultimately show ?thesis using r2 s(1) by (intro conjI) simp_all
qed

text \<open>The bindings that the gateways return for a message that has variables already are in
  the variables of the message that was sent but never in its row.\<close>

theorem gateway_bindings_not_stored:
  assumes "nt_vars m \<noteq> None"
  shows "cd_messages (cw_db (snd (snd (snd (send_to_room U calls sender members m w))))) = cd_messages (cw_db w)"
proof -
  obtain st where st: "st = fold (deliver_member U sender) (room_members sender members) (delivery_start calls m w)" by simp
  have "cd_messages (cw_db (dl_world st)) = cd_messages (cw_db w)" "\<not> dl_rebind st"
    using deliver_rounds [OF _ _ st] assms by (simp_all add: delivery_start_def)
  then show ?thesis by (simp add: send_to_room_def st [symmetric] Let_def)
qed


section \<open>A closed room\<close>

definition closed_member :: "app_channel \<Rightarrow> bool" where
  "closed_member k \<longleftrightarrow> channel_is_closed (Some k)"

lemma concat_results_member:
  "concat_results rs = Ok ys \<Longrightarrow> y \<in> set ys \<Longrightarrow> \<exists>xs. Ok xs \<in> set rs \<and> y \<in> set xs"
  by (induction rs arbitrary: ys rule: concat_results.induct) (fastforce split: sum.splits)+

lemma room_channel_closed:
  assumes "1000000 \<le> t"
  shows "closed_member (room_channel dc room cid k con uid uc ucon n vs cr j up (Some t))"
  using pos_imp_zdiv_pos_iff [of 1000000 t] assms
  by (simp add: closed_member_def room_channel_def channel_is_closed_def scan_timestamp_def)

text \<open>The rows of a room are those of its schema, its channels and its open invites.\<close>

lemma session_rows_cases:
  assumes "session_rows T clients s db = Ok rows" "y \<in> set rows"
  shows "(\<exists>v c xs. v \<in> set (cd_convs db) \<and> cv_id v = s \<and> c \<in> set (cd_channels db) \<and> chatflow_rows T db v c = Ok xs \<and> y \<in> set xs) \<or>
    (\<exists>c \<in> set (cd_channels db). sc_conversation_id c = s \<and> y = channel_room_row T clients c) \<or>
    (\<exists>i \<in> set (cd_invites db). iv_conversation_id i = s \<and> open_invite i \<and> y = invite_room_row T i)"
proof -
  let ?rs = "[chatflow_rows T db v c. v \<leftarrow> cd_convs db, cv_id v = s, c \<leftarrow> cd_channels db]"
  obtain flows where f: "concat_results ?rs = Ok flows"
    using assms(1) by (auto simp: session_rows_def split: sum.splits)
  have "y \<in> set flows \<or> y \<in> channel_room_row T clients ` {c \<in> set (cd_channels db). sc_conversation_id c = s} \<or>
      y \<in> invite_room_row T ` {i \<in> set (cd_invites db). iv_conversation_id i = s \<and> open_invite i}"
    using assms f by (auto simp: session_rows_def)
  moreover have "\<exists>v c xs. v \<in> set (cd_convs db) \<and> cv_id v = s \<and> c \<in> set (cd_channels db) \<and> chatflow_rows T db v c = Ok xs \<and> y \<in> set xs"
    if y: "y \<in> set flows"
  proof -
    obtain xs where "Ok xs \<in> set ?rs" "y \<in> set xs" using concat_results_member [OF f y] by blast
    moreover from this(1) obtain v c where "v \<in> set (cd_convs db)" "cv_id v = s" "c \<in> set (cd_channels db)"
        "Ok xs = chatflow_rows T db v c"
      by (auto split: if_splits)
    ultimately show ?thesis by (intro exI [of _ v] exI [of _ c] exI [of _ xs]) simp
  qed
  ultimately show ?thesis by blast
qed

lemma closed_room_rows:
  assumes "session_rows T clients s db = Ok rows" "(t, Some k) \<in> set rows"
    and "\<forall>c \<in> set (cd_channels db). sc_conversation_id c = s \<longrightarrow> (\<exists>u. sc_closed_at c = Some u \<and> 1000000 \<le> u)"
    and "\<forall>i \<in> set (cd_invites db). iv_conversation_id i = s \<longrightarrow> \<not> open_invite i"
  shows "closed_member k"
  using session_rows_cases [OF assms(1,2)]
proof (elim disjE exE bexE conjE)
  fix v c xs assume c: "cv_id v = s" "c \<in> set (cd_channels db)" "chatflow_rows T db v c = Ok xs" "(t, Some k) \<in> set xs"
  with assms(3) obtain u where "xs = [] \<or> sc_closed_at c = Some u \<and> 1000000 \<le> u"
    by (auto simp: chatflow_rows_def Let_def split: if_splits)
  with c show ?thesis
    by (auto simp: chatflow_rows_def Let_def room_channel_closed split: if_splits option.splits)
next
  fix c assume c: "c \<in> set (cd_channels db)" "sc_conversation_id c = s" "(t, Some k) = channel_room_row T clients c"
  with assms(3) obtain u where "sc_closed_at c = Some u" "1000000 \<le> u" by blast
  with c show ?thesis by (auto simp: channel_room_row_def Let_def room_channel_closed split: option.splits)
next
  fix i assume "i \<in> set (cd_invites db)" "iv_conversation_id i = s" "open_invite i"
  with assms(4) show ?thesis by blast
qed

lemma split_room_members: "split_room i ms = Some (c, r) \<Longrightarrow> set (c # r) \<subseteq> set ms"
  by (induction ms arbitrary: c r) (auto split: if_splits)

lemma room_ids:
  assumes "session_rows T clients s db = Ok rows" "(t, Some k) \<in> set rows"
  shows "ch_invite (ac_chat k) = s"
  using session_rows_cases [OF assms]
proof (elim disjE exE bexE conjE)
  fix v c xs assume "cv_id v = s" "chatflow_rows T db v c = Ok xs" "(t, Some k) \<in> set xs"
  then show ?thesis by (auto simp: chatflow_rows_def room_channel_def Let_def split: if_splits option.splits)
next
  fix c assume "sc_conversation_id c = s" "(t, Some k) = channel_room_row T clients c"
  then show ?thesis by (auto simp: channel_room_row_def room_channel_def Let_def split: option.splits)
next
  fix i assume "iv_conversation_id i = s" "(t, Some k) = invite_room_row T i"
  then show ?thesis
    by (cases "map_of (st_accounts T) (iv_user_id i)") (auto simp: invite_room_row_def room_channel_def)
qed

lemma session_id_same: "same_rows d d' \<Longrightarrow> session_id u d' = session_id u d"
  by (simp add: session_id_def same_rows_def split: option.split)

text \<open>The members that GetSession returns come from the rows of one conversation.\<close>

lemma get_session_members:
  assumes "get_session U T i w = (Ok (Some (c, ms)), w')" "k \<in> set (c # ms)"
  shows "\<exists>s db rows t. same_rows (cw_db w) db \<and> session_rows T (cw_clients w) s db = Ok rows \<and> (t, Some k) \<in> set rows \<and>
    session_id (the (U i)) (cw_db w) = Some s \<and> ch_invite (ac_chat k) = s"
proof -
  obtain f db where n: "next_statement (cw_db w) = (f, db)" by fastforce
  with assms(1) obtain u s rows where g: "U i = Some u" "session_id u db = Some s" "session_rows T (cw_clients w) s db = Ok rows"
      "\<forall>r \<in> set rows. snd r \<noteq> None" "split_room i (map (the \<circ> snd) rows) = Some (c, ms)"
    by (auto simp: get_session_def Let_def split: if_splits option.splits sum.splits)
  obtain t y where "(t, y) \<in> set rows" "the y = k" using split_room_members [OF g(5)] assms(2) by fastforce
  moreover from this g(4) have "y = Some k" by fastforce
  ultimately show ?thesis
    using next_statement_rows [OF n] session_id_same [OF next_statement_rows [OF n]] g room_ids [OF g(3)] by auto
qed

lemma silent_delivery:
  "\<forall>p \<in> set ps. closed_member (snd p) \<Longrightarrow> fold (deliver_member U sender) ps st = st"
  by (induction ps) (auto simp: closed_member_def deliver_member_def Let_def)

text \<open>C26: After a conversation was closed, and as long as no open channel or invite has been added to it since (a join
  that read its invite before the close can still add one, because JoinConversation does not look at the
  conversation), nobody in its room can be sent anything: the session of any of its channels has closed members
  only, so that a message does not reach a user, a gateway or a schema and the world stays as it is.\<close>

theorem closed_room_is_silent:
  assumes "close_session U now conv cause d = (None, d')" "U conv = Some v"
    and "1000000 \<le> now" "\<forall>c \<in> set (cd_channels d). \<forall>t. sc_closed_at c = Some t \<longrightarrow> 1000000 \<le> t"
    and since: "\<forall>c \<in> set (cd_channels (cw_db w)). sc_conversation_id c = v \<longrightarrow>
        (\<exists>c' \<in> set (cd_channels d'). sc_conversation_id c' = v \<and> sc_closed_at c' = sc_closed_at c)"
      "\<forall>i \<in> set (cd_invites (cw_db w)). iv_conversation_id i = v \<longrightarrow>
        (\<exists>i' \<in> set (cd_invites d'). iv_conversation_id i' = v \<and> iv_closed_at i' = iv_closed_at i)"
    and "get_session U T i w = (Ok (Some (sender, members)), w')" "ch_invite (ac_chat sender) = v"
  shows "(\<forall>k \<in> set (sender # members). ac_closed k \<noteq> 0) \<and> send_to_room U calls sender members m w' = (None, 0, m, w')"
proof -
  obtain f e where n: "next_statement d = (f, e)" by fastforce
  have d': "d' = close_session_rows now cause (close_needs_processing cause) v e"
    using assms(1,2) n by (auto simp: close_session_def split: if_splits)
  then have ch: "cd_channels d' = map (\<lambda>c. if sc_conversation_id c = v \<and> open_channel c
      then closed_row now cause (close_needs_processing cause) c else c) (cd_channels d)"
    using next_statement_rows [OF n] by (simp add: close_session_rows_def same_rows_def)
  have "sc_closed_at (closed_row now cause b c) = Some now" for b c
    by (simp add: closed_row_def)
  then have "\<forall>c \<in> set (cd_channels d'). sc_conversation_id c = v \<longrightarrow> (\<exists>u. sc_closed_at c = Some u \<and> 1000000 \<le> u)"
    using assms(3,4) unfolding ch by (auto simp: open_channel_def)
  then have closed: "\<forall>c \<in> set (cd_channels (cw_db w)). sc_conversation_id c = v \<longrightarrow> (\<exists>u. sc_closed_at c = Some u \<and> 1000000 \<le> u)"
    using since(1) by metis
  have iv: "cd_invites d' = map (\<lambda>r. if iv_conversation_id r = v \<and> open_invite r
      then r\<lparr>iv_closed_at := Some now\<rparr> else r) (cd_invites e)"
    by (simp add: d' close_session_rows_def)
  have "\<forall>i \<in> set (cd_invites d'). iv_conversation_id i = v \<longrightarrow> \<not> open_invite i"
    unfolding iv set_map by (simp only: ball_simps) (simp split: if_split)
  then have invites: "\<forall>i \<in> set (cd_invites (cw_db w)). iv_conversation_id i = v \<longrightarrow> \<not> open_invite i"
    using since(2) unfolding open_invite_def by metis
  have members: "closed_member k" if k: "k \<in> set (sender # members)" for k
  proof -
    obtain s db rows t where s: "same_rows (cw_db w) db" "session_rows T (cw_clients w) s db = Ok rows" "(t, Some k) \<in> set rows"
        "session_id (the (U i)) (cw_db w) = Some s"
      using get_session_members [OF assms(7) k] by auto
    have "s = v"
      using get_session_members [OF assms(7), of sender] s(4) assms(8) by auto
    moreover have "cd_channels db = cd_channels (cw_db w)" "cd_invites db = cd_invites (cw_db w)"
      using s(1) by (simp_all add: same_rows_def)
    ultimately show ?thesis using closed_room_rows [OF s(2,3)] closed invites by simp
  qed
  then have "fold (deliver_member U sender) (room_members sender members) (delivery_start calls m w') = delivery_start calls m w'"
    by (intro silent_delivery) (auto simp: room_members_def)
  then have "send_to_room U calls sender members m w' = (None, 0, m, w')" by (simp add: send_to_room_def delivery_start_def)
  moreover have "ac_closed k \<noteq> 0" if "k \<in> set (sender # members)" for k
    using members [OF that] by (simp add: closed_member_def channel_is_closed_def)
  ultimately show ?thesis by blast
qed


section \<open>The mark of what was read\<close>

lemma search_channels_rows: "search_channels U q n k db = (r, db') \<Longrightarrow> cd_channels db' = cd_channels db"
  by (auto simp: search_channels_def Let_def split: prod.splits if_splits option.splits
      dest!: next_statement_rows simp: same_rows_def)

lemma check_user_channel_rows: "check_user_channel U i user db = (r, db') \<Longrightarrow> cd_channels db' = cd_channels db"
  by (auto simp: check_user_channel_def Let_def split: prod.splits sum.splits if_splits list.splits option.splits
      dest: search_channels_rows)

text \<open>The date of a read mark that UpdateChannel accepts is neither before the last update of the
  channel nor after now.  No channel's time of update goes back, that of the channel becomes
  at least the date, no other row changes, and the user's other windows are told the date.\<close>

theorem read_mark_bounds:
  assumes "update_channel_request U now cid user t w = (None, w')" "t \<noteq> 0"
  shows "t \<le> now div 1000 \<and>
    (\<exists>c db. check_user_channel U cid user (cw_db w) = (Ok (Some c), db) \<and> sc_updated_at c div 1000 \<le> t \<and>
       cw_events w' = cw_events w @ [Published ''update_channel'' (sc_domain_id c) (sc_user_id c)
         (UpdateBody (sc_conversation_id c) (sc_id c) t)]) \<and>
    (\<exists>u. U cid = Some u \<and>
       cd_channels (cw_db w') = map (\<lambda>c. if sc_id c = u then c\<lparr>sc_updated_at := max (sc_updated_at c) (t * 1000)\<rparr> else c)
         (cd_channels (cw_db w)))"
proof -
  obtain r db where q: "check_user_channel U cid user (cw_db w) = (r, db)" by fastforce
  with assms obtain c where c: "r = Ok (Some c)" "sc_updated_at c div 1000 \<le> t" "t \<le> now div 1000"
    by (auto simp: update_channel_request_def Let_def split: sum.splits option.splits if_splits)
  obtain e db2 where u: "update_channel U now cid (Some (t * 1000)) db = (e, db2)" by fastforce
  have s: "e = None \<and> send_update_channel c t (w\<lparr>cw_db := db2\<rparr>) = (None, w')"
    using assms c q u by (auto simp: update_channel_request_def Let_def split: option.splits prod.splits)
  obtain f db1 where n: "next_statement db = (f, db1)" by fastforce
  obtain v where v: "U cid = Some v" "cd_channels db2 = map (\<lambda>c. if sc_id c = v \<and> sc_updated_at c < t * 1000
      then c\<lparr>sc_updated_at := t * 1000\<rparr> else c) (cd_channels db1)"
    using u s n assms(2) c(3) by (auto simp: update_channel_def Let_def split: if_splits option.splits)
  have d: "cd_channels db1 = cd_channels (cw_db w)"
    using next_statement_rows [OF n] check_user_channel_rows [OF q] by (simp add: same_rows_def)
  have p: "cw_db w' = db2" and ev: "cw_events w' = cw_events w @ [Published ''update_channel'' (sc_domain_id c) (sc_user_id c)
         (UpdateBody (sc_conversation_id c) (sc_id c) t)]"
    using s by (auto simp: send_update_channel_def publish_def Let_def split: list.splits if_splits)
  have "(if sc_id k = v \<and> sc_updated_at k < t * 1000 then k\<lparr>sc_updated_at := t * 1000\<rparr> else k) =
      (if sc_id k = v then k\<lparr>sc_updated_at := max (sc_updated_at k) (t * 1000)\<rparr> else k)" for k :: store_channel
    by (simp add: max_def)
  then have "cd_channels (cw_db w') = map (\<lambda>c. if sc_id c = v then c\<lparr>sc_updated_at := max (sc_updated_at c) (t * 1000)\<rparr> else c)
         (cd_channels (cw_db w))"
    unfolding p v(2) d by simp
  with v(1) have rows: "\<exists>u. U cid = Some u \<and>
       cd_channels (cw_db w') = map (\<lambda>c. if sc_id c = u then c\<lparr>sc_updated_at := max (sc_updated_at c) (t * 1000)\<rparr> else c)
         (cd_channels (cw_db w))" by blast
  have "check_user_channel U cid user (cw_db w) = (Ok (Some c), db)" using q c(1) by simp
  with c(2) ev have "\<exists>c db. check_user_channel U cid user (cw_db w) = (Ok (Some c), db) \<and> sc_updated_at c div 1000 \<le> t \<and>
       cw_events w' = cw_events w @ [Published ''update_channel'' (sc_domain_id c) (sc_user_id c)
         (UpdateBody (sc_conversation_id c) (sc_id c) t)]" by blast
  with rows c(3) show ?thesis by (intro conjI)
qed

section \<open>Witnesses\<close>

definition room_member :: "string \<Rightarrow> string \<Rightarrow> string \<Rightarrow> int \<Rightarrow> int \<Rightarrow> app_channel" where
  "room_member i kind contact user closed =
     zero_app_channel\<lparr>ac_chat := zero_chat\<lparr>ch_id := i, ch_invite := ''c'', ch_channel := kind, ch_contact := contact\<rparr>,
       ac_user := zero_user\<lparr>au_id := user\<rparr>, ac_domain_id := 1, ac_closed := closed\<rparr>"

definition example_customer :: app_channel where "example_customer = room_member ''g'' ''telegram'' ''5'' 3 0"

definition example_operator :: app_channel where "example_operator = room_member ''i'' ''websocket'' ''engine'' 7 0"

definition example_text :: notice where
  "example_text = zero_notice\<lparr>nt_id := 41, nt_type := ''text'', nt_text := ''hi'', nt_created := 9, nt_vars := Some [(''k'', ''v'')]\<rparr>"

definition example_row :: chat_message where
  "example_row = \<lparr>ms_id = 41, ms_channel_id = Some ''i'', ms_conversation_id = ''c'', ms_created_at = 9000, ms_updated_at = None,
     ms_type = ''text'', ms_text = ''hi'', ms_file = \<lparr>do_id = 0, do_url = [], do_type = [], do_size = 0, do_name = []\<rparr>,
     ms_reply_to = 0, ms_forward_id = 0, ms_vars = Some [(''k'', ''v'')], ms_content = None\<rparr>"

definition example_room :: chat_world where
  "example_room = (example_world [])\<lparr>
     cw_db := (cw_db (example_world []))\<lparr>cd_messages := [example_row]\<rparr>,
     cw_gates := [\<lparr>gr_attempts = [\<lparr>ga_hosts = [''h''], ga_fallback = Some ''h'', ga_error = False\<rparr>],
                   gr_bindings = Some [(''g'', ''77'')]\<rparr>]\<rparr>"

text \<open>The sent message has what the gateway returned; the row does not.\<close>

lemma gateway_bindings_not_stored_witness:
  "map_of (env_of (nt_vars (fst (snd (snd (send_to_room Some [] example_operator [example_customer] example_text example_room)))))) ''g'' = Some ''77'' \<and>
    cd_messages (cw_db (snd (snd (snd (send_to_room Some [] example_operator [example_customer] example_text example_room))))) = [example_row]"
proof -
  have "nt_vars example_text \<noteq> None" by code_simp
  from gateway_bindings_not_stored [OF this, of Some "[]" example_operator "[example_customer]" example_room]
  have "cd_messages (cw_db (snd (snd (snd (send_to_room Some [] example_operator [example_customer] example_text example_room))))) = [example_row]"
    by (simp add: example_room_def)
  moreover have "map_of (env_of (nt_vars (fst (snd (snd (send_to_room Some [] example_operator [example_customer] example_text example_room)))))) ''g'' = Some ''77''"
    by code_simp
  ultimately show ?thesis by simp
qed

lemma message_reaches_members_witness:
  "map (\<lambda>e. case e of Published k d u b \<Rightarrow> u | _ \<Rightarrow> 0)
      (publications (snd (snd (snd (send_to_room Some [] example_operator
        [example_customer, room_member ''j'' ''websocket'' ''engine'' 8 0, room_member ''k'' ''websocket'' ''engine'' 9 5] example_text example_room))))) = [7, 8]"
proof -
  let ?ms = "[example_customer, room_member ''j'' ''websocket'' ''engine'' 8 0, room_member ''k'' ''websocket'' ''engine'' 9 5]"
  let ?r = "send_to_room Some [] example_operator ?ms example_text example_room"
  have r: "?r = (fst ?r, fst (snd ?r), fst (snd (snd ?r)), snd (snd (snd ?r)))" by (simp add: prod_eq_iff)
  have "?ms \<noteq> []" "nt_id example_text \<noteq> 0" by (simp_all add: example_text_def)
  from message_reaches_members [OF r this]
  have "publications (snd (snd (snd ?r))) = publications example_room @
      map (event_to (message_event (ch_invite (ac_chat example_operator)) (ch_id (ac_chat example_operator)) None example_text))
        (filter gets_event (example_operator # ?ms))" by blast
  moreover have "publications example_room = []"
      "map (\<lambda>k. au_id (ac_user k)) (filter gets_event (example_operator # ?ms)) = [7, 8]" by code_simp+
  ultimately show ?thesis by (simp add: event_to_def comp_def)
qed

definition example_channel :: "string \<Rightarrow> int \<Rightarrow> store_channel" where
  "example_channel i user =
     zero_channel\<lparr>sc_id := i, sc_type := ''webitel'', sc_conversation_id := ''c'', sc_user_id := user, sc_internal := True,
       sc_domain_id := 1\<rparr>"

definition example_tables :: session_tables where
  "example_tables = \<lparr>st_bots = [], st_schemes = [], st_accounts = [(7, ''ann'', None, None), (8, ''bob'', None, None)], st_names = []\<rparr>"

definition example_chat :: chat_db where
  "example_chat = (cw_db example_invited)\<lparr>cd_channels := [example_channel ''a'' 7, example_channel ''b'' 8]\<rparr>"

definition example_closed :: chat_world where
  "example_closed = example_invited\<lparr>cw_db := snd (close_session Some 5000000 ''c'' [] example_chat)\<rparr>"

lemma closed_room_is_silent_witness:
  "\<exists>sender other w'. get_session Some example_tables ''a'' example_closed = (Ok (Some (sender, [other])), w') \<and>
    au_id (ac_user other) = 8 \<and> ac_closed other \<noteq> 0 \<and>
    send_to_room Some [] sender [other] example_text w' = (None, 0, example_text, w')"
proof -
  have c: "close_session Some 5000000 ''c'' [] example_chat = (None, cw_db example_closed)"
  proof -
    have "fst (close_session Some 5000000 ''c'' [] example_chat) = None" by code_simp
    then show ?thesis by (simp add: example_closed_def prod_eq_iff)
  qed
  let ?g = "get_session Some example_tables ''a'' example_closed"
  let ?p = "case fst ?g of Ok (Some (c, k # ms)) \<Rightarrow> (c, k) | _ \<Rightarrow> (zero_app_channel, zero_app_channel)"
  have "fst ?g = Ok (Some (fst ?p, [snd ?p]))" and s: "ch_invite (ac_chat (fst ?p)) = ''c''" "au_id (ac_user (snd ?p)) = 8"
    by code_simp+
  then have g: "?g = (Ok (Some (fst ?p, [snd ?p])), snd ?g)" by (simp add: prod_eq_iff)
  have "list_all (\<lambda>c. sc_closed_at c = None) (cd_channels example_chat)" by code_simp
  then have "\<forall>c \<in> set (cd_channels example_chat). \<forall>t. sc_closed_at c = Some t \<longrightarrow> 1000000 \<le> t" by (simp add: list_all_iff)
  from closed_room_is_silent [OF c refl _ this _ _ g s(1)]
  have "send_to_room Some [] (fst ?p) [snd ?p] example_text (snd ?g) = (None, 0, example_text, snd ?g) \<and> ac_closed (snd ?p) \<noteq> 0" by auto
  with g s(2) show ?thesis by blast
qed


lemma read_mark_bounds_witness:
  "map sc_updated_at (cd_channels (cw_db (snd (update_channel_request Some 9000000 ''a'' 7 4000
     (example_invited\<lparr>cw_db := example_chat\<rparr>))))) = [4000000, 0]"
proof -
  let ?w = "example_invited\<lparr>cw_db := example_chat\<rparr>"
  have "fst (update_channel_request Some 9000000 ''a'' 7 4000 ?w) = None" by code_simp
  then have "update_channel_request Some 9000000 ''a'' 7 4000 ?w = (None, snd (update_channel_request Some 9000000 ''a'' 7 4000 ?w))"
    by (simp add: prod_eq_iff)
  from read_mark_bounds [OF this]
  have "cd_channels (cw_db (snd (update_channel_request Some 9000000 ''a'' 7 4000 ?w))) =
      map (\<lambda>c. if sc_id c = ''a'' then c\<lparr>sc_updated_at := max (sc_updated_at c) (4000 * 1000)\<rparr> else c) (cd_channels (cw_db ?w))"
    by simp
  moreover have "map sc_updated_at (map (\<lambda>c. if sc_id c = ''a'' then c\<lparr>sc_updated_at := max (sc_updated_at c) (4000 * 1000)\<rparr> else c)
      (cd_channels (cw_db ?w))) = [4000000, 0]" by code_simp
  ultimately show ?thesis by simp
qed

end
