(* ===== verification/Chat_Keyboard.thy ===== *)
theory Chat_Keyboard
  imports Chat_Content
begin

text \<open>
  The keyboard of a message (internal/keyboard/keyboard.go): MarkupV2 turns the rows of buttons
  of a request into the markup that is stored, and the part of saveMessage that calls it.
  The parser of URLs and the tables of media types of the Go library, which read files of the system, are
  parameters, for this theory and those after it.
\<close>

section \<open>The library of the Go language\<close>

record parsed_url =
  pu_scheme :: string
  pu_host :: string
  pu_path :: string
  pu_query :: string
  pu_more :: string

record web_lib =
  wl_request_uri :: "string \<Rightarrow> parsed_url option"
  wl_parse :: "string \<Rightarrow> parsed_url option"
  wl_string :: "parsed_url \<Rightarrow> string"
  wl_parse_query :: "string \<Rightarrow> (string \<times> string) list option"
  wl_encode_query :: "(string \<times> string) list \<Rightarrow> string"
  wl_media_source :: "string \<Rightarrow> string option"
  wl_format_media :: "string \<Rightarrow> string \<Rightarrow> string"
  wl_type_by_extension :: "string \<Rightarrow> string"
  wl_extensions_by_type :: "string \<Rightarrow> string list"

section \<open>Buttons\<close>

text \<open>The first of the texts that is not blank.\<close>

fun coalesce_text :: "string list \<Rightarrow> string" where
  "coalesce_text [] = []"
| "coalesce_text (t # ts) = (if trim_space t \<noteq> [] then trim_space t else coalesce_text ts)"

text \<open>What one button of the request becomes: nothing, the end of the keyboard, an invalid one, or a button
  with the key that makes it unique.\<close>

datatype button_result =
    NoButton
  | RemoveKeyboard
  | InvalidButton
  | NextButton button_action key_button

definition shared_button :: "share_request \<Rightarrow> source_button \<Rightarrow> string \<Rightarrow> button_result" where
  "shared_button q b t =
     NextButton (ButtonShare q) \<lparr>kb_text = coalesce_text [sb_text b, sb_caption b, t], kb_action = ButtonShare q\<rparr>"

definition url_button :: "web_lib \<Rightarrow> source_button \<Rightarrow> button_result" where
  "url_button W b =
     (case wl_request_uri W (sb_url b) of
        None \<Rightarrow> InvalidButton
      | Some nav \<Rightarrow>
          if pu_scheme nav = [] then InvalidButton
          else
            (let caption = coalesce_text [sb_text b, sb_caption b];
                 caption = (if caption = [] then pu_scheme nav @ ''://'' @ pu_host nav else caption)
             in NextButton (ButtonUrl caption) \<lparr>kb_text = caption, kb_action = ButtonUrl (wl_string W nav)\<rparr>))"

definition reply_button :: "source_button \<Rightarrow> button_result" where
  "reply_button b =
     (let caption = coalesce_text [sb_text b, sb_caption b]; callback = coalesce_text [sb_code b, caption]
      in NextButton (ButtonCode callback) \<lparr>kb_text = coalesce_text [caption, callback], kb_action = ButtonCode callback\<rparr>)"

definition markup_button :: "web_lib \<Rightarrow> source_button option \<Rightarrow> button_result" where
  "markup_button W sb =
     (case sb of
        None \<Rightarrow> NoButton
      | Some b \<Rightarrow>
          (let t = to_lower (sb_type b) in
           if t \<in> {''clear'', ''remove'', ''remove_keyboard''} then RemoveKeyboard
           else if t \<in> {''email'', ''mail''} then shared_button ShareEmail b t
           else if t = ''phone'' then shared_button SharePhone b t
           else if t = ''contact'' then shared_button ShareContact b t
           else if t = ''location'' then shared_button ShareLocation b t
           else if t = ''url'' then url_button W b
           else reply_button b))"

section \<open>MarkupV2\<close>

text \<open>The rows so far, the last one apart, and the keys of all buttons in them.\<close>

text \<open>The buttons of one row: the row, the keys, and whether the keyboard is removed or invalid.\<close>

datatype row_end = RowDone | RowRemoved | RowInvalid

fun markup_row ::
  "web_lib \<Rightarrow> source_button option list \<Rightarrow> key_button list \<Rightarrow> button_action list \<Rightarrow>
   key_button list \<times> button_action list \<times> row_end" where
  "markup_row W [] row keys = (row, keys, RowDone)"
| "markup_row W (b # bs) row keys =
     (case markup_button W b of
        NoButton \<Rightarrow> markup_row W bs row keys
      | RemoveKeyboard \<Rightarrow> (row, keys, RowRemoved)
      | InvalidButton \<Rightarrow> (row, keys, RowInvalid)
      | NextButton k d \<Rightarrow>
          if k \<in> set keys then markup_row W bs row keys else markup_row W bs (row @ [d]) (k # keys))"

text \<open>nextRow: the last row is written on when it is empty still.\<close>

definition next_row :: "key_rows \<Rightarrow> key_rows \<times> key_button list" where
  "next_row rows = (if rows \<noteq> [] \<and> last rows = [] then (butlast rows, []) else (rows, []))"

fun markup_rows ::
  "web_lib \<Rightarrow> source_rows \<Rightarrow> key_rows \<Rightarrow> button_action list \<Rightarrow> key_rows \<times> row_end" where
  "markup_rows W [] rows keys =
     (if rows \<noteq> [] \<and> last rows = [] then (butlast rows, RowDone) else (rows, RowDone))"
| "markup_rows W (r # rs) rows keys =
     (let (before, row) = next_row rows in
      case markup_row W r row keys of
        (row, keys, RowDone) \<Rightarrow> markup_rows W rs (before @ [row]) keys
      | (row, keys, RowRemoved) \<Rightarrow> ([], RowRemoved)
      | (row, keys, RowInvalid) \<Rightarrow> (before @ [row], RowInvalid))"

text \<open>MarkupV2: no keyboard, or its rows and whether there was an error.\<close>

definition markup_v2 :: "web_lib \<Rightarrow> source_rows \<Rightarrow> key_rows option \<times> bool" where
  "markup_v2 W src =
     (if src = [] then (None, False)
      else (let (rows, e) = markup_rows W src [] [] in (Some rows, e = RowInvalid)))"

text \<open>The keyboard of a new message; saveMessage drops the error of MarkupV2.\<close>

definition saved_keyboard :: "web_lib \<Rightarrow> source_rows \<Rightarrow> bool \<Rightarrow> message_keyboard option" where
  "saved_keyboard W src no_input =
     map_option (\<lambda>rows. \<lparr>mk_rows = rows, mk_no_input = no_input \<and> rows \<noteq> []\<rparr>) (fst (markup_v2 W src))"

section \<open>The keyboard as a list of lists\<close>

text \<open>What the keyboard means: the buttons of every row that are the first of their key, without the
  rows that are left empty.\<close>

fun row_buttons :: "web_lib \<Rightarrow> source_button option list \<Rightarrow> (button_action \<times> key_button) list" where
  "row_buttons W [] = []"
| "row_buttons W (b # bs) =
     (case markup_button W b of NextButton k d \<Rightarrow> (k, d) # row_buttons W bs | _ \<Rightarrow> row_buttons W bs)"

fun first_by_key :: "'k set \<Rightarrow> ('k \<times> 'b) list \<Rightarrow> ('k \<times> 'b) list" where
  "first_by_key K [] = []"
| "first_by_key K ((k, b) # xs) = (if k \<in> K then first_by_key K xs else (k, b) # first_by_key (insert k K) xs)"

fun first_rows :: "'k set \<Rightarrow> ('k \<times> 'b) list list \<Rightarrow> 'b list list" where
  "first_rows K [] = []"
| "first_rows K (r # rs) = map snd (first_by_key K r) # first_rows (K \<union> fst ` set r) rs"

definition plain_rows :: "web_lib \<Rightarrow> source_rows \<Rightarrow> bool" where
  "plain_rows W src \<longleftrightarrow> list_all (list_all (\<lambda>b. markup_button W b \<noteq> RemoveKeyboard \<and> markup_button W b \<noteq> InvalidButton)) src"

lemma first_by_key_keys: "K \<union> fst ` set (first_by_key K xs) = K \<union> fst ` set xs"
  by (induction K xs rule: first_by_key.induct) auto

lemma markup_row_plain:
  assumes "plain_rows W [r]"
  shows "\<exists>keys'. markup_row W (r @ bs) row keys = markup_row W bs (row @ map snd (first_by_key (set keys) (row_buttons W r))) keys' \<and>
    set keys' = set keys \<union> fst ` set (row_buttons W r)"
  using assms
proof (induction r arbitrary: row keys)
  case (Cons b r)
  then have p: "plain_rows W [r]" by (simp add: plain_rows_def)
  show ?case
  proof (cases "markup_button W b")
    case (NextButton k d)
    show ?thesis
    proof (cases "k \<in> set keys")
      case True
      then show ?thesis using Cons.IH [OF p] NextButton by (auto simp: insert_absorb)
    next
      case False
      then show ?thesis using Cons.IH [OF p, of "row @ [d]" "k # keys"] NextButton by auto
    qed
  qed (use Cons.IH [OF p] Cons.prems in \<open>auto simp: plain_rows_def\<close>)
qed auto

lemma next_row_empty:
  assumes "\<forall>r\<in>set (butlast rows). r \<noteq> []"
  shows "next_row rows = (filter (\<lambda>r. r \<noteq> []) rows, [])"
  using assms by (cases rows rule: rev_cases) (auto simp: next_row_def filter_id_conv)

text \<open>Rows without a special button, in front of any others.\<close>

lemma markup_rows_plain:
  assumes "plain_rows W src" "\<forall>r\<in>set (butlast rows). r \<noteq> []"
  shows "\<exists>rows' keys'. markup_rows W (src @ later) rows keys = markup_rows W later rows' keys' \<and>
    filter (\<lambda>r. r \<noteq> []) rows' = filter (\<lambda>r. r \<noteq> []) (rows @ first_rows (set keys) (map (row_buttons W) src)) \<and>
    set keys' = set keys \<union> fst ` set (concat (map (row_buttons W) src)) \<and> (\<forall>r\<in>set (butlast rows'). r \<noteq> [])"
  using assms
proof (induction src arbitrary: rows keys)
  case Nil
  then show ?case by (intro exI [of _ rows] exI [of _ keys]) simp
next
  case (Cons r rs)
  let ?b = "filter (\<lambda>r. r \<noteq> []) rows"
  let ?r = "map snd (first_by_key (set keys) (row_buttons W r))"
  from Cons.prems(1) have p: "plain_rows W rs" "plain_rows W [r]" by (simp_all add: plain_rows_def)
  from markup_row_plain [OF p(2), of "[]" "[]" keys] obtain keys' where
      m: "markup_row W r [] keys = (?r, keys', RowDone)" "set keys' = set keys \<union> fst ` set (row_buttons W r)" by auto
  have b: "\<forall>x\<in>set (butlast (?b @ [?r])). x \<noteq> []" by simp
  have "markup_rows W ((r # rs) @ later) rows keys = markup_rows W (rs @ later) (?b @ [?r]) keys'"
    using next_row_empty [OF Cons.prems(2)] m(1) by simp
  moreover from Cons.IH [OF p(1) b, of keys'] obtain rows' ks' where
      "markup_rows W (rs @ later) (?b @ [?r]) keys' = markup_rows W later rows' ks'"
      "filter (\<lambda>r. r \<noteq> []) rows' = filter (\<lambda>r. r \<noteq> []) ((?b @ [?r]) @ first_rows (set keys') (map (row_buttons W) rs))"
      "set ks' = set keys' \<union> fst ` set (concat (map (row_buttons W) rs))" "\<forall>r\<in>set (butlast rows'). r \<noteq> []"
    by blast
  ultimately show ?case using m(2) by (intro exI [of _ rows'] exI [of _ ks']) (simp add: Un_assoc image_Un)
qed

lemma first_rows_snoc:
  "first_rows K (rs @ [r]) = first_rows K rs @ [map snd (first_by_key (K \<union> fst ` set (concat rs)) r)]"
  by (induction rs arbitrary: K) (simp_all add: image_Un Un_assoc)

text \<open>C25: The keyboard of a message without a button that removes it and without an invalid link has the buttons of
  every row that come first with their key in the whole keyboard, in their order, without the rows that have none.
  The first button that is special decides otherwise: one that removes the keyboard leaves it without rows, and an
  invalid link ends it where it stands, with the last row even when that is empty, and an error.  Without rows in
  the request there is no keyboard.\<close>

theorem keyboard_is_first_buttons:
  shows "markup_v2 W [] = (None, False) \<and>
    (plain_rows W src \<and> src \<noteq> [] \<longrightarrow>
      markup_v2 W src = (Some (filter (\<lambda>r. r \<noteq> []) (first_rows {} (map (row_buttons W) src))), False)) \<and>
    (plain_rows W (src @ [bs]) \<and> markup_button W b = RemoveKeyboard \<longrightarrow>
      markup_v2 W (src @ (bs @ b # bs') # later) = (Some [], False)) \<and>
    (plain_rows W (src @ [bs]) \<and> markup_button W b = InvalidButton \<longrightarrow>
      markup_v2 W (src @ (bs @ b # bs') # later) =
        (let rows = first_rows {} (map (row_buttons W) (src @ [bs])) in Some (filter (\<lambda>r. r \<noteq> []) (butlast rows) @ [last rows]), True))"
proof (intro conjI impI)
  let ?f = "first_rows {} (map (row_buttons W) src)"
  have s: "\<exists>rows' keys'. markup_rows W (src @ rest) [] [] = markup_rows W rest rows' keys' \<and>
      filter (\<lambda>r. r \<noteq> []) rows' = filter (\<lambda>r. r \<noteq> []) ?f \<and>
      set keys' = fst ` set (concat (map (row_buttons W) src)) \<and> (\<forall>r\<in>set (butlast rows'). r \<noteq> [])" if "plain_rows W src" for rest
    using markup_rows_plain [OF that, of "[]" rest "[]"] by simp
  show "markup_v2 W [] = (None, False)" by (simp add: markup_v2_def)
  show "markup_v2 W src = (Some (filter (\<lambda>r. r \<noteq> []) ?f), False)" if a: "plain_rows W src \<and> src \<noteq> []"
  proof -
    obtain rows' keys' where r: "markup_rows W src [] [] = markup_rows W [] rows' keys'" "filter (\<lambda>r. r \<noteq> []) rows' = filter (\<lambda>r. r \<noteq> []) ?f"
        "\<forall>r\<in>set (butlast rows'). r \<noteq> []"
      using s [of "[]"] a by auto
    have "markup_rows W [] rows' keys' = (filter (\<lambda>r. r \<noteq> []) rows', RowDone)"
      using r(3) by (cases rows' rule: rev_cases) (auto simp: filter_id_conv)
    then show ?thesis using a r(1,2) by (simp add: markup_v2_def)
  qed
  have special: "\<exists>keys'. markup_v2 W (src @ (bs @ b # bs') # later) =
      (let (rows, e) = (case markup_row W (b # bs') (map snd (first_by_key (fst ` set (concat (map (row_buttons W) src))) (row_buttons W bs))) keys' of
           (row, keys, RowDone) \<Rightarrow> markup_rows W later (filter (\<lambda>r. r \<noteq> []) ?f @ [row]) keys
         | (row, keys, RowRemoved) \<Rightarrow> ([], RowRemoved)
         | (row, keys, RowInvalid) \<Rightarrow> (filter (\<lambda>r. r \<noteq> []) ?f @ [row], RowInvalid))
       in (Some rows, e = RowInvalid))" if a: "plain_rows W (src @ [bs])"
  proof -
    have p: "plain_rows W src" "plain_rows W [bs]" using a by (simp_all add: plain_rows_def)
    obtain rows' keys' where r: "markup_rows W (src @ (bs @ b # bs') # later) [] [] = markup_rows W ((bs @ b # bs') # later) rows' keys'"
        "filter (\<lambda>r. r \<noteq> []) rows' = filter (\<lambda>r. r \<noteq> []) ?f" "set keys' = fst ` set (concat (map (row_buttons W) src))"
        "\<forall>r\<in>set (butlast rows'). r \<noteq> []"
      using s [OF p(1), of "(bs @ b # bs') # later"] by blast
    obtain keys'' where "markup_row W (bs @ b # bs') [] keys' = markup_row W (b # bs') (map snd (first_by_key (set keys') (row_buttons W bs))) keys''"
      using markup_row_plain [OF p(2), of "b # bs'" "[]" keys'] by auto
    then show ?thesis using r next_row_empty [OF r(4)] by (intro exI [of _ keys'']) (simp add: markup_v2_def)
  qed
  show "markup_v2 W (src @ (bs @ b # bs') # later) = (Some [], False)"
    if "plain_rows W (src @ [bs]) \<and> markup_button W b = RemoveKeyboard"
    using special that by (auto simp: Let_def)
  show "markup_v2 W (src @ (bs @ b # bs') # later) =
      (let rows = first_rows {} (map (row_buttons W) (src @ [bs])) in Some (filter (\<lambda>r. r \<noteq> []) (butlast rows) @ [last rows]), True)"
    if "plain_rows W (src @ [bs]) \<and> markup_button W b = InvalidButton"
    using special that by (auto simp: Let_def first_rows_snoc)
qed

text \<open>The key of a link is its caption: of two links that have the same caption only the first is kept.\<close>

lemma same_caption_links:
  assumes "markup_button W (Some b) = NextButton (ButtonUrl c) d" "markup_button W (Some b') = NextButton (ButtonUrl c) d'"
  shows "markup_v2 W [[Some b, Some b']] = (Some [[d]], False)"
  using assms by (simp add: markup_v2_def next_row_def)

text \<open>An invalid link cuts the keyboard that is saved off at it, and the message is sent without an error.\<close>

lemma invalid_link_cuts_keyboard:
  assumes "markup_button W (Some b) = NextButton k d" "url_button W b' = InvalidButton" "sb_type b' = ''url''"
  shows "saved_keyboard W [[Some b, Some b', Some b], [Some b]] n = Some \<lparr>mk_rows = [[d]], mk_no_input = n\<rparr>"
proof -
  have "to_lower ''url'' = ''url''" by code_simp
  then have "markup_button W (Some b') = InvalidButton"
    using assms(2,3) by (simp add: markup_button_def)
  then show ?thesis using assms(1) by (simp add: saved_keyboard_def markup_v2_def next_row_def)
qed

section \<open>Witnesses\<close>

definition example_web :: web_lib where
  "example_web = \<lparr>wl_request_uri = (\<lambda>s. Some \<lparr>pu_scheme = ''http'', pu_host = ''h'', pu_path = s, pu_query = [], pu_more = []\<rparr>),
     wl_parse = (\<lambda>s. Some \<lparr>pu_scheme = ''http'', pu_host = ''h'', pu_path = s, pu_query = [], pu_more = []\<rparr>),
     wl_string = pu_path, wl_parse_query = (\<lambda>_. None), wl_encode_query = (\<lambda>_. []), wl_media_source = (\<lambda>_. Some []),
     wl_format_media = (\<lambda>m _. m), wl_type_by_extension = (\<lambda>_. []), wl_extensions_by_type = (\<lambda>_. [])\<rparr>"

definition plain_button :: "string \<Rightarrow> string \<Rightarrow> source_button" where
  "plain_button t c = \<lparr>sb_type = t, sb_text = c, sb_caption = [], sb_code = [], sb_url = ''x''\<rparr>"

definition example_rows :: source_rows where
  "example_rows = [[None], [Some (plain_button ''reply'' ''yes''), Some (plain_button [] ''no'')],
     [Some (plain_button ''postback'' ''yes'')], [Some (plain_button ''URL'' ''yes''), Some (plain_button ''mail'' '' '')]]"

lemma keyboard_is_first_buttons_witness:
  "map_option (map (map kb_text)) (fst (markup_v2 example_web example_rows)) = Some [[''yes'', ''no''], [''yes'', ''mail'']]"
proof -
  have "plain_rows example_web example_rows" "example_rows \<noteq> []" by code_simp+
  with keyboard_is_first_buttons [of example_web example_rows]
  have "fst (markup_v2 example_web example_rows) =
      Some (filter (\<lambda>r. r \<noteq> []) (first_rows {} (map (row_buttons example_web) example_rows)))" by simp
  moreover have "map (map kb_text) (filter (\<lambda>r. r \<noteq> []) (first_rows {} (map (row_buttons example_web) example_rows))) =
      [[''yes'', ''no''], [''yes'', ''mail'']]" by code_simp
  ultimately show ?thesis by simp
qed

end
