(* ===== verification/Chat_Messages.thy ===== *)
theory Chat_Messages
  imports Chat_Room Chat_Keyboard
begin

text \<open>
  The messages of the conversations: the statements of internal/repo/sqlx/message.go, the
  deletion of a message (DeleteMessage of cmd/chat/service.go) and its event.

  The column content, with the raw keyboard, contact and postback of a message, is written here and read by
  none of the statements of message.go.
\<close>

section \<open>Messages\<close>

text \<open>The message of the repository; 0 is the zero time and the id of a new message.\<close>

record message_obj =
  mo_id :: int
  mo_channel_id :: string
  mo_conversation_id :: string
  mo_created_at :: int
  mo_updated_at :: int
  mo_kind :: string
  mo_type :: string
  mo_text :: string
  mo_file :: "chat_file option"
  mo_reply_to :: int
  mo_forward_from :: int
  mo_vars :: "vars option"
  mo_keyboard :: "message_keyboard option"
  mo_contact :: "chat_card option"
  mo_postback :: "chat_postback option"

definition zero_message :: message_obj where
  "zero_message =
     \<lparr>mo_id = 0, mo_channel_id = [], mo_conversation_id = [], mo_created_at = 0, mo_updated_at = 0, mo_kind = [],
      mo_type = [], mo_text = [], mo_file = None, mo_reply_to = 0, mo_forward_from = 0, mo_vars = None,
      mo_keyboard = None, mo_contact = None, mo_postback = None\<rparr>"

definition zero_file :: chat_file where
  "zero_file = \<lparr>fl_id = 0, fl_url = [], fl_mime = [], fl_size = 0, fl_name = [], fl_malware = False\<rparr>"

text \<open>Truncate(app.TimePrecision) of a time in microseconds.\<close>

definition truncate_time :: "int \<Rightarrow> int" where
  "truncate_time t = t div (precision_ns time_precision div 1000) * (precision_ns time_precision div 1000)"

section \<open>The search of a message\<close>

definition row_sender :: "chat_message \<Rightarrow> string" where
  "row_sender m = (case ms_channel_id m of Some c \<Rightarrow> c | None \<Rightarrow> ms_conversation_id m)"

text \<open>ScanInteger and ScanString leave the target as it is for NULL.\<close>

definition scan_column :: "'a \<Rightarrow> 'a \<Rightarrow> 'a \<Rightarrow> 'a" where
  "scan_column null col old = (if col = null then old else col)"

definition scan_document :: "chat_document \<Rightarrow> chat_file \<Rightarrow> chat_file" where
  "scan_document r d =
     d\<lparr>fl_id := scan_column 0 (do_id r) (fl_id d), fl_url := scan_column [] (do_url r) (fl_url d),
       fl_size := scan_column 0 (do_size r) (fl_size d), fl_mime := scan_column [] (do_type r) (fl_mime d),
       fl_name := scan_column [] (do_name r) (fl_name d)\<rparr>"

definition message_of_row :: "chat_message \<Rightarrow> message_obj" where
  "message_of_row m =
     \<lparr>mo_id = ms_id m, mo_channel_id = row_sender m, mo_conversation_id = ms_conversation_id m,
      mo_created_at = ms_created_at m, mo_updated_at = (case ms_updated_at m of None \<Rightarrow> 0 | Some t \<Rightarrow> t),
      mo_kind = vget (env_of (ms_vars m)) ''kind'', mo_type = ms_type m, mo_text = ms_text m, mo_file = None,
      mo_reply_to = ms_reply_to m, mo_forward_from = ms_forward_id m, mo_vars = ms_vars m,
      mo_keyboard = None, mo_contact = None, mo_postback = None\<rparr>"

text \<open>MessageList with the document that it scans into: one that was not attached stays for the
  next row.  The empty entry says that there are more rows than the limit.\<close>

fun message_list :: "nat \<Rightarrow> nat \<Rightarrow> chat_file \<Rightarrow> chat_message list \<Rightarrow> message_obj option list" where
  "message_list limit n doc [] = []"
| "message_list limit n doc (r # rs) =
     (if 0 < limit \<and> n = limit then [None]
      else
        (let d = scan_document (ms_file r) doc; m = message_of_row r in
         if fl_id d \<noteq> 0 then Some (m\<lparr>mo_file := Some d\<rparr>) # message_list limit (n + 1) zero_file rs
         else Some m # message_list limit (n + 1) d rs))"

text \<open>The filters of MessageRequest that GetMessage gives; one of them at least is required.\<close>

definition jsonb_contains :: "vars option \<Rightarrow> vars \<Rightarrow> bool" where
  "jsonb_contains row props \<longleftrightarrow>
     (case row of None \<Rightarrow> False | Some vs \<Rightarrow> list_all (\<lambda>(k, v). map_of vs k = Some v) props)"

definition message_matches :: "int \<Rightarrow> string option \<Rightarrow> string option \<Rightarrow> vars \<Rightarrow> chat_message \<Rightarrow> bool" where
  "message_matches oid sender target props m \<longleftrightarrow>
     (oid \<noteq> 0 \<longrightarrow> ms_id m = oid) \<and> (case sender of None \<Rightarrow> True | Some s \<Rightarrow> row_sender m = s) \<and>
     (case target of None \<Rightarrow> True | Some t \<Rightarrow> ms_conversation_id m = t) \<and>
     (props \<noteq> [] \<longrightarrow> jsonb_contains (ms_vars m) props)"

definition uuid_filter :: "(string \<Rightarrow> string option) \<Rightarrow> string \<Rightarrow> (chat_error, string option) result" where
  "uuid_filter U s = (if s = [] then Ok None else (case U s of None \<Rightarrow> Fail InvalidUuid | Some u \<Rightarrow> Ok (Some u)))"

definition get_message ::
  "(string \<Rightarrow> string option) \<Rightarrow> int \<Rightarrow> string \<Rightarrow> string \<Rightarrow> vars option \<Rightarrow> chat_db \<Rightarrow>
   (chat_error, message_obj option) result \<times> chat_db" where
  "get_message U oid sender target search db =
     (let props = vdel [] (env_of search) in
      if oid = 0 \<and> sender = [] \<and> target = [] \<and> props = [] then (Fail FilterRequired, db)
      else
        (let (f, db) = next_statement db in
         if f then (Fail (StatementFailed DbFault), db)
         else
           (case (uuid_filter U sender, uuid_filter U target) of
              (Ok s, Ok t) \<Rightarrow>
                (let rows = sort_key (\<lambda>m. - ms_created_at m) (filter (message_matches oid s t props) (cd_messages db));
                     list = message_list 1 0 zero_file (take 2 rows) in
                 if length list \<noteq> 0 \<and> length list \<noteq> 1 then (Fail TooManyRecords, db)
                 else
                   (case list of
                      [Some m] \<Rightarrow> (Ok (if oid \<noteq> 0 \<and> oid \<noteq> mo_id m then None else Some m), db)
                    | _ \<Rightarrow> (Ok None, db)))
            | _ \<Rightarrow> (Fail InvalidUuid, db))))"

section \<open>Saving a message\<close>

definition document_of :: "chat_file option \<Rightarrow> chat_document" where
  "document_of f =
     (let d = (case f of None \<Rightarrow> zero_file | Some d \<Rightarrow> d)
      in \<lparr>do_id = fl_id d, do_url = fl_url d, do_type = fl_mime d, do_size = fl_size d, do_name = fl_name d\<rparr>)"

text \<open>The mark of a channel or conversation as just seen.\<close>

definition seen_user :: "string option \<Rightarrow> int \<Rightarrow> chat_db \<Rightarrow> chat_db" where
  "seen_user i at db =
     db\<lparr>cd_channels := map (\<lambda>c. if Some (sc_id c) = i then c\<lparr>sc_updated_at := at\<rparr> else c) (cd_channels db)\<rparr>"

text \<open>contentJSONB.\<close>

definition content_column :: "message_obj \<Rightarrow> message_content option" where
  "content_column m =
     (if mo_keyboard m = None \<and> mo_contact m = None \<and> mo_postback m = None then None
      else Some \<lparr>mt_keyboard = mo_keyboard m, mt_contact = mo_contact m, mt_postback = mo_postback m\<rparr>)"

definition new_message_row :: "int \<Rightarrow> string option \<Rightarrow> string \<Rightarrow> message_obj \<Rightarrow> chat_message" where
  "new_message_row i channel conv m =
     \<lparr>ms_id = i, ms_channel_id = (if channel = Some conv then None else channel), ms_conversation_id = conv,
      ms_created_at = mo_created_at m, ms_updated_at = None, ms_type = mo_type m, ms_text = mo_text m,
      ms_file = document_of (mo_file m), ms_reply_to = mo_reply_to m, ms_forward_id = mo_forward_from m,
      ms_vars = null_metadata (mo_vars m), ms_content = content_column m\<rparr>"

definition insert_message ::
  "(string \<Rightarrow> string option) \<Rightarrow> message_obj \<Rightarrow> chat_db \<Rightarrow> (chat_error, int) result \<times> chat_db" where
  "insert_message U m db =
     (case (uuid_filter U (mo_channel_id m), U (mo_conversation_id m)) of
        (Ok channel, Some conv) \<Rightarrow>
          (let i = cd_message_seq db + 1; at = mo_created_at m in
           if conv \<notin> cv_id ` set (cd_convs db) then (Fail ForeignKeyViolation, db\<lparr>cd_message_seq := i\<rparr>)
           else
             (Ok i, touch_conv (case channel of Some c \<Rightarrow> c | None \<Rightarrow> conv) at
                (seen_user channel at
                   (db\<lparr>cd_message_seq := i, cd_messages := cd_messages db @ [new_message_row i channel conv m]\<rparr>))))
      | _ \<Rightarrow> (Fail InvalidUuid, db))"

text \<open>No row of the author is the error that there are no rows, after the marks.\<close>

definition edit_message_row ::
  "(string \<Rightarrow> string option) \<Rightarrow> message_obj \<Rightarrow> chat_db \<Rightarrow> (chat_error, int) result \<times> chat_db" where
  "edit_message_row U m db =
     (case U (mo_channel_id m) of
        None \<Rightarrow> (Fail InvalidUuid, db)
      | Some c \<Rightarrow>
          (let at = mo_updated_at m;
               hit = (\<lambda>r. ms_id r = mo_id m \<and> ms_channel_id r = Some c);
               edited = (\<lambda>r. r\<lparr>ms_updated_at := Some at, ms_text := mo_text m, ms_file := document_of (mo_file m)\<rparr>) in
           (if filter hit (cd_messages db) = [] then Fail NoRows else Ok (mo_id m),
            touch_conv c at (seen_user (Some c) at
              (db\<lparr>cd_messages := map (\<lambda>r. if hit r then edited r else r) (cd_messages db)\<rparr>)))))"

text \<open>SaveMessage: a message with a time of update is an edit.\<close>

definition save_message ::
  "(string \<Rightarrow> string option) \<Rightarrow> int \<Rightarrow> message_obj \<Rightarrow> chat_db \<Rightarrow> (chat_error, message_obj) result \<times> chat_db" where
  "save_message U now m db =
     (if mo_updated_at m = 0 then
        (let created = truncate_time (if mo_created_at m = 0 then now else mo_created_at m);
             m = m\<lparr>mo_id := 0, mo_created_at := created\<rparr>;
             (f, db) = next_statement db in
         if f then (Fail (StatementFailed DbFault), db)
         else
           (case insert_message U m db of
              (Fail e, db) \<Rightarrow> (Fail e, db)
            | (Ok i, db) \<Rightarrow> (Ok (m\<lparr>mo_id := i\<rparr>), db)))
      else if mo_id m = 0 \<or> mo_channel_id m = [] then (Fail Panicked, db)
      else
        (let m = m\<lparr>mo_updated_at := truncate_time (mo_updated_at m)\<rparr>; (f, db) = next_statement db in
         if f then (Fail (StatementFailed DbFault), db)
         else
           (case edit_message_row U m db of
              (Fail e, db) \<Rightarrow> (Fail e, db)
            | (Ok i, db) \<Rightarrow> (Ok m, db))))"

section \<open>Deleting messages\<close>

text \<open>The ids up to the first that is no id, and after it those that are.\<close>

definition positive_ids :: "int list \<Rightarrow> int list" where
  "positive_ids mid =
     (let (e, rest) = (takeWhile (\<lambda>i. 0 < i) mid, dropWhile (\<lambda>i. 0 < i) mid)
      in if rest = [] then mid else e @ filter (\<lambda>i. 0 < i) (drop 1 rest))"

definition delete_messages :: "int list \<Rightarrow> chat_db \<Rightarrow> (chat_error, int) result \<times> chat_db" where
  "delete_messages mid db =
     (let mid = positive_ids mid in
      if mid = [] then (Ok 0, db)
      else
        (let (f, db) = next_statement db in
         if f then (Fail (StatementFailed DbFault), db)
         else
           (Ok (int (length (filter (\<lambda>m. ms_id m \<in> set mid) (cd_messages db)))),
            db\<lparr>cd_messages := filter (\<lambda>m. ms_id m \<notin> set mid) (cd_messages db)\<rparr>)))"

record history_message =
  hm_id :: int
  hm_channel_id :: string
  hm_kind :: string
  hm_type :: string
  hm_text :: string
  hm_created_at :: int
  hm_updated_at :: int

definition history_of_message :: "message_obj \<Rightarrow> history_message" where
  "history_of_message m =
     \<lparr>hm_id = mo_id m, hm_channel_id = mo_channel_id m, hm_kind = mo_kind m, hm_type = mo_type m,
      hm_text = mo_text m, hm_created_at = max 0 (mo_created_at m div 1000),
      hm_updated_at = max 0 (mo_updated_at m div 1000)\<rparr>"

text \<open>RouteMessageDeleted: an event for every other user of the platform in the room.\<close>

definition deleted_event :: "int \<Rightarrow> app_channel \<Rightarrow> history_message \<Rightarrow> event_body" where
  "deleted_event now sender deleted =
     MessageBody (ch_invite (ac_chat sender)) (ch_id (ac_chat sender)) (now div 1000)
       (zero_notice\<lparr>nt_id := hm_id deleted, nt_type := ''text'', nt_text := ''[deleted]''\<rparr>)"

definition route_message_deleted ::
  "int \<Rightarrow> app_channel \<Rightarrow> app_channel list \<Rightarrow> app_channel \<Rightarrow> history_message \<Rightarrow> chat_world \<Rightarrow> chat_world" where
  "route_message_deleted now chan members sender deleted w =
     (if channel_is_closed (Some chan) then w
      else fold (\<lambda>k w. if ch_channel (ac_chat k) = ''websocket''
                  then snd (publish ''message_deleted'' (ac_domain_id k) (au_id (ac_user k)) (deleted_event now sender deleted) w)
                  else w) members w)"

datatype message_error = MessageStatus string | MessageFailed chat_error | SessionFailed session_error

text \<open>DeleteMessage from the message found on: its sender must be a member of the session.\<close>

definition delete_found_message ::
  "(string \<Rightarrow> string option) \<Rightarrow> session_tables \<Rightarrow> int \<Rightarrow> int \<Rightarrow> message_obj \<Rightarrow> chat_world \<Rightarrow>
   (message_error, history_message) result \<times> chat_world" where
  "delete_found_message U T now user m w =
     (case get_session U T (mo_channel_id m) w of
        (Fail e, w) \<Rightarrow> (Fail (SessionFailed e), w)
      | (Ok None, w) \<Rightarrow> (Fail (MessageStatus ''chat.message.delete.forbidden''), w)
      | (Ok (Some (chan, members)), w) \<Rightarrow>
          (case get_member (Some \<lparr>se_channel = Some chan, se_members = map Some members\<rparr>) (mo_channel_id m) of
             None \<Rightarrow> (Fail (MessageStatus ''chat.message.delete.forbidden''), w)
           | Some k \<Rightarrow>
               if user \<noteq> 0 \<and> au_id (ac_user k) \<noteq> user
                 then (Fail (MessageStatus ''chat.message.delete.forbidden''), w)
               else
                 (case delete_messages [mo_id m] (cw_db w) of
                    (Fail e, db) \<Rightarrow> (Fail (MessageFailed e), w\<lparr>cw_db := db\<rparr>)
                  | (Ok n, db) \<Rightarrow>
                      if n \<noteq> 1 then (Fail (MessageStatus ''chat.message.delete.none''), w\<lparr>cw_db := db\<rparr>)
                      else (Ok (history_of_message m),
                            route_message_deleted now chan members k (history_of_message m) (w\<lparr>cw_db := db\<rparr>)))))"

definition delete_message_request ::
  "(string \<Rightarrow> string option) \<Rightarrow> session_tables \<Rightarrow> int \<Rightarrow> int \<Rightarrow> int \<Rightarrow> string \<Rightarrow> string \<Rightarrow> vars option \<Rightarrow> chat_world \<Rightarrow>
   (message_error, history_message) result \<times> chat_world" where
  "delete_message_request U T now oid user sender dialog search w =
     (case get_message U oid sender dialog search (cw_db w) of
        (Fail e, db) \<Rightarrow> (Fail (MessageFailed e), w\<lparr>cw_db := db\<rparr>)
      | (Ok None, db) \<Rightarrow> (Fail (MessageStatus ''chat.message.not_found''), w\<lparr>cw_db := db\<rparr>)
      | (Ok (Some m), db) \<Rightarrow>
          if oid \<noteq> 0 \<and> mo_id m \<noteq> oid then (Fail (MessageStatus ''chat.message.not_found''), w\<lparr>cw_db := db\<rparr>)
          else if dialog \<noteq> [] \<and> mo_conversation_id m \<noteq> dialog
            then (Fail (MessageStatus ''chat.message.delete.forbidden''), w\<lparr>cw_db := db\<rparr>)
          else if sender \<noteq> [] \<and> mo_channel_id m \<noteq> sender
            then (Fail (MessageStatus ''chat.message.delete.forbidden''), w\<lparr>cw_db := db\<rparr>)
          else delete_found_message U T now user m (w\<lparr>cw_db := db\<rparr>))"

section \<open>Reading back what was saved\<close>

definition message_ids_ok :: "chat_db \<Rightarrow> bool" where
  "message_ids_ok db \<longleftrightarrow> distinct (map ms_id (cd_messages db)) \<and>
     list_all (\<lambda>m. 0 < ms_id m \<and> ms_id m \<le> cd_message_seq db) (cd_messages db) \<and> 0 \<le> cd_message_seq db"

definition file_kept :: "chat_file option \<Rightarrow> chat_file option" where
  "file_kept f = (case f of None \<Rightarrow> None | Some d \<Rightarrow> if fl_id d = 0 then None else Some (d\<lparr>fl_malware := False\<rparr>))"

lemma uuid_filter_canonical [simp]: "U s = Some s \<Longrightarrow> s \<noteq> [] \<Longrightarrow> uuid_filter U s = Ok (Some s)"
  by (simp add: uuid_filter_def)

lemma uuid_filter_empty [simp]: "uuid_filter U [] = Ok None"
  by (simp add: uuid_filter_def)

lemma touch_conv_messages [simp]:
  "cd_messages (touch_conv v t db) = cd_messages db" "cd_message_seq (touch_conv v t db) = cd_message_seq db"
  by (simp_all add: touch_conv_def)

lemma seen_user_messages [simp]:
  "cd_messages (seen_user i t db) = cd_messages db" "cd_message_seq (seen_user i t db) = cd_message_seq db"
  "cd_cache (seen_user i t db) = cd_cache db"
  by (simp_all add: seen_user_def)

lemma scan_new_document:
  "scan_document (document_of f) zero_file = (case f of None \<Rightarrow> zero_file | Some d \<Rightarrow> d\<lparr>fl_malware := False\<rparr>)"
  by (simp add: scan_document_def document_of_def scan_column_def zero_file_def split: option.split)

lemma zero_file_id [simp]: "fl_id zero_file = 0"
  by (simp add: zero_file_def)

text \<open>The row of a saved message read as the only row of a list.\<close>

lemma message_list_new_row:
  "message_list (Suc 0) 0 zero_file [new_message_row i channel conv m] =
   [Some ((message_of_row (new_message_row i channel conv m))\<lparr>mo_file := file_kept (mo_file m)\<rparr>)]"
  by (simp add: Let_def new_message_row_def scan_new_document file_kept_def message_of_row_def split: option.split)

lemma insert_message_effect:
  assumes "insert_message U m db = (Ok i, db')"
  shows "\<exists>channel conv. uuid_filter U (mo_channel_id m) = Ok channel \<and> U (mo_conversation_id m) = Some conv \<and>
    i = cd_message_seq db + 1 \<and> cd_message_seq db' = i \<and> cd_messages db' = cd_messages db @ [new_message_row i channel conv m]"
  using assms by (auto simp: insert_message_def Let_def split: sum.splits option.splits if_splits)

lemma save_new_effect:
  assumes "save_message U now m db = (Ok m', db')" "mo_updated_at m = 0"
  shows "\<exists>channel conv. uuid_filter U (mo_channel_id m) = Ok channel \<and> U (mo_conversation_id m) = Some conv \<and>
    m' = m\<lparr>mo_id := cd_message_seq db + 1, mo_created_at := mo_created_at m'\<rparr> \<and> cd_message_seq db' = cd_message_seq db + 1 \<and>
    cd_messages db' = cd_messages db @ [new_message_row (cd_message_seq db + 1) channel conv m'] \<and>
    mo_created_at m' = truncate_time (if mo_created_at m = 0 then now else mo_created_at m)"
proof -
  obtain f d where n: "next_statement db = (f, d)" by fastforce
  let ?m = "m\<lparr>mo_id := 0, mo_created_at := truncate_time (if mo_created_at m = 0 then now else mo_created_at m)\<rparr>"
  obtain r d' where i: "insert_message U ?m d = (r, d')" by fastforce
  with assms n obtain k where k: "r = Ok k" "d' = db'" "m' = ?m\<lparr>mo_id := k\<rparr>"
    by (auto simp: save_message_def Let_def split: if_splits sum.splits)
  have "cd_messages d = cd_messages db" "cd_message_seq d = cd_message_seq db"
    using next_statement_rows [OF n] by (simp_all add: same_rows_def)
  moreover have "new_message_row j c v m' = new_message_row j c v ?m" for j c v by (simp add: new_message_row_def content_column_def k(3))
  ultimately show ?thesis using insert_message_effect [OF i [unfolded k(1,2)]] by (auto simp: k(3))
qed

text \<open>C27: A saved message is read back by its id with its sender, conversation, type, text, relations and variables as
  they were saved, the time of its creation cut to milliseconds and the id that it got.  Not so its file: a document
  that has no id of the storage, only the URL of another server, is lost, and the mark of malware is not stored.  And
  its keyboard, contact and postback are stored in the new row, but never read back.\<close>

theorem saved_message_read_back:
  assumes "save_message U now m db = (Ok m', db')" "mo_updated_at m = 0" "message_ids_ok db"
    and "U (mo_conversation_id m) = Some (mo_conversation_id m)" "U (mo_channel_id m) = Some (mo_channel_id m)"
    and "mo_channel_id m \<noteq> []" "db_faults (cd_cache db') = []"
  shows "fst (get_message U (mo_id m') [] [] None db') =
    Ok (Some (m'\<lparr>mo_kind := vget (env_of (mo_vars m)) ''kind'', mo_file := file_kept (mo_file m), mo_vars := null_metadata (mo_vars m),
      mo_keyboard := None, mo_contact := None, mo_postback := None\<rparr>)) \<and>
    (\<exists>row. cd_messages db' = cd_messages db @ [row] \<and> ms_id row = mo_id m' \<and>
      ms_content row = (if mo_keyboard m = None \<and> mo_contact m = None \<and> mo_postback m = None then None
        else Some \<lparr>mt_keyboard = mo_keyboard m, mt_contact = mo_contact m, mt_postback = mo_postback m\<rparr>)) \<and>
    m' = m\<lparr>mo_id := cd_message_seq db + 1, mo_created_at := mo_created_at m'\<rparr> \<and>
    mo_created_at m' = truncate_time (if mo_created_at m = 0 then now else mo_created_at m)"
proof -
  let ?i = "cd_message_seq db + 1"
  let ?r = "new_message_row ?i (Some (mo_channel_id m)) (mo_conversation_id m) m'"
  have e: "m' = m\<lparr>mo_id := ?i, mo_created_at := mo_created_at m'\<rparr>" "cd_messages db' = cd_messages db @ [?r]"
    using save_new_effect [OF assms(1,2)] assms(4-6) by auto
  have f: "mo_id m' = ?i" "mo_vars m' = mo_vars m" "mo_file m' = mo_file m" "mo_channel_id m' = mo_channel_id m"
    "mo_conversation_id m' = mo_conversation_id m" "mo_updated_at m' = 0"
    "content_column m' = content_column m"
    by (subst e(1), simp add: assms(2) content_column_def)+
  have row: "\<exists>row. cd_messages db' = cd_messages db @ [row] \<and> ms_id row = mo_id m' \<and>
      ms_content row = (if mo_keyboard m = None \<and> mo_contact m = None \<and> mo_postback m = None then None
        else Some \<lparr>mt_keyboard = mo_keyboard m, mt_contact = mo_contact m, mt_postback = mo_postback m\<rparr>)"
    using e(2) f unfolding content_column_def [symmetric] by (intro exI [of _ ?r]) (simp add: new_message_row_def)
  have at: "mo_created_at m' = truncate_time (if mo_created_at m = 0 then now else mo_created_at m)"
    using save_new_effect [OF assms(1,2)] by blast
  have "filter (message_matches ?i None None []) (cd_messages db) = []"
    using assms(3) by (auto simp: message_ids_ok_def message_matches_def filter_empty_conv list_all_iff)
  moreover have "message_matches ?i None None [] ?r" by (simp add: message_matches_def new_message_row_def)
  ultimately have rows: "filter (message_matches ?i None None []) (cd_messages db') = [?r]" by (simp add: e(2))
  have "vget (env_of (null_metadata v)) k = vget (env_of v) k" for v k by (simp add: null_metadata_def vget_def)
  then have "message_of_row ?r = m'\<lparr>mo_kind := vget (env_of (mo_vars m)) ''kind'', mo_file := None, mo_vars := null_metadata (mo_vars m),
      mo_keyboard := None, mo_contact := None, mo_postback := None\<rparr>"
    using f by (simp add: message_of_row_def new_message_row_def row_sender_def)
  moreover have "?i \<noteq> 0" using assms(3) by (simp add: message_ids_ok_def)
  ultimately have "fst (get_message U (mo_id m') [] [] None db') =
    Ok (Some (m'\<lparr>mo_kind := vget (env_of (mo_vars m)) ''kind'', mo_file := file_kept (mo_file m), mo_vars := null_metadata (mo_vars m),
      mo_keyboard := None, mo_contact := None, mo_postback := None\<rparr>))"
    using assms(7) f by (simp add: get_message_def Let_def rows message_list_new_row vdel_def del: message_list.simps)
  then show ?thesis using row at e(1) by blast
qed

section \<open>Edits\<close>

lemma edit_no_row:
  assumes "mo_updated_at e \<noteq> 0" "\<forall>r \<in> set (cd_messages db). ms_id r = mo_id e \<longrightarrow> ms_channel_id r = None"
    and "save_message U now e db = (r, db')"
  shows "cd_messages db' = cd_messages db \<and> (\<forall>m. r \<noteq> Ok m)"
proof -
  obtain f d where n: "next_statement db = (f, d)" by fastforce
  have d: "cd_messages d = cd_messages db" using next_statement_rows [OF n] by (simp add: same_rows_def)
  let ?e = "e\<lparr>mo_updated_at := truncate_time (mo_updated_at e)\<rparr>"
  have no: "filter (\<lambda>r. ms_id r = mo_id e \<and> ms_channel_id r = Some c) (cd_messages d) = []" for c
    using assms(2) by (auto simp: d filter_empty_conv)
  then have "map (\<lambda>r. if ms_id r = mo_id e \<and> ms_channel_id r = Some c then h r else r) (cd_messages d) = cd_messages d" for c h
    by (intro map_idI) (auto simp: filter_empty_conv)
  then have "cd_messages (snd (edit_message_row U ?e d)) = cd_messages d \<and> (\<forall>i. fst (edit_message_row U ?e d) \<noteq> Ok i)"
    by (simp add: edit_message_row_def Let_def no split: option.split)
  then show ?thesis
    using assms(1,3) n d by (auto simp: save_message_def Let_def split: if_splits sum.splits prod.splits)
qed

text \<open>A message that a schema sent, whose channel is the conversation itself, can be saved but never
  edited: its row has no channel, and every edit of it fails and changes no message.\<close>

theorem schema_message_not_edited:
  assumes "save_message U now m db = (Ok m', db')" "mo_updated_at m = 0" "message_ids_ok db"
    and "U (mo_channel_id m) = U (mo_conversation_id m)" "mo_channel_id m \<noteq> []"
    and "mo_id e = mo_id m'" "mo_updated_at e \<noteq> 0" "save_message U later e db' = (r, db'')"
  shows "cd_messages db'' = cd_messages db' \<and> (\<forall>m. r \<noteq> Ok m)"
proof (rule edit_no_row [OF assms(7) _ assms(8)])
  let ?i = "cd_message_seq db + 1"
  obtain c where c: "U (mo_conversation_id m) = Some c" "cd_messages db' = cd_messages db @ [new_message_row ?i (Some c) c m']"
      "mo_id m' = ?i"
  proof -
    obtain ch c where s: "uuid_filter U (mo_channel_id m) = Ok ch" "U (mo_conversation_id m) = Some c"
        "m' = m\<lparr>mo_id := ?i, mo_created_at := mo_created_at m'\<rparr>" "cd_messages db' = cd_messages db @ [new_message_row ?i ch c m']"
      using save_new_effect [OF assms(1,2)] by auto
    moreover have "mo_id m' = ?i" by (subst s(3)) simp
    moreover have "ch = Some c" using s(1,2) assms(4,5) by (auto simp: uuid_filter_def split: if_splits)
    ultimately show ?thesis using that by simp
  qed
  show "\<forall>r \<in> set (cd_messages db'). ms_id r = mo_id e \<longrightarrow> ms_channel_id r = None"
    using assms(3) by (auto simp: c(2,3) assms(6) new_message_row_def message_ids_ok_def list_all_iff)
qed

section \<open>Lists\<close>

text \<open>A document without an id stays in the place that the next row is read into.\<close>

lemma unattached_document_leaks:
  assumes "do_id (ms_file r) = 0" "do_url (ms_file r) \<noteq> []" "do_id (ms_file s) \<noteq> 0" "do_url (ms_file s) = []"
  shows "map (map_option (map_option fl_url \<circ> mo_file)) (message_list 0 0 zero_file [r, s]) =
    [Some None, Some (Some (do_url (ms_file r)))]"
  using assms by (simp add: Let_def scan_document_def scan_column_def zero_file_def message_of_row_def)

section \<open>Deletions\<close>

lemma positive_ids_filter: "positive_ids mid = filter (\<lambda>i. 0 < i) mid"
  by (induction mid) (auto simp: positive_ids_def Let_def split: if_splits)


lemma get_message_effect:
  assumes "get_message U oid sender target search db = (r, db')"
  shows "same_rows db db'"
    and "r = Ok (Some m) \<Longrightarrow> \<exists>x \<in> set (cd_messages db). mo_id m = ms_id x \<and> mo_channel_id m = row_sender x \<and>
      mo_conversation_id m = ms_conversation_id x"
proof -
  obtain f d where n: "next_statement db = (f, d)" by fastforce
  note rows = next_statement_rows [OF n]
  show "same_rows db db'" using assms n rows
    by (auto simp: get_message_def Let_def split: if_splits sum.splits list.splits option.splits)
  assume r: "r = Ok (Some m)"
  let ?P = "\<lambda>s t. sort_key (\<lambda>m. - ms_created_at m) (filter (message_matches oid s t (vdel [] (env_of search))) (cd_messages d))"
  obtain s t where l: "message_list 1 0 zero_file (take 2 (?P s t)) = [Some m]"
    using assms n r by (auto simp: get_message_def Let_def split: if_splits sum.splits list.splits option.splits)
  have hd: "\<exists>x f. xs = [x] \<and> m = (message_of_row x)\<lparr>mo_file := f\<rparr>" if "message_list 1 0 zero_file xs = [Some m]" for xs
  proof (cases xs)
    case (Cons x ys)
    then show ?thesis using that
      by (cases ys) (auto simp: Let_def message_of_row_def split: if_splits)
  qed (use that in simp)
  then obtain x f where x: "take 2 (?P s t) = [x]" "m = (message_of_row x)\<lparr>mo_file := f\<rparr>" using l by blast
  then have "x \<in> set (take 2 (?P s t))" by simp
  then have "x \<in> set (?P s t)" by (rule in_set_takeD)
  then have "x \<in> set (cd_messages db)" using rows by (simp add: same_rows_def)
  then show "\<exists>x \<in> set (cd_messages db). mo_id m = ms_id x \<and> mo_channel_id m = row_sender x \<and> mo_conversation_id m = ms_conversation_id x"
    using x(2) by (auto simp: message_of_row_def)
qed

lemma get_session_rows: "get_session U T i w = (r, w') \<Longrightarrow> same_rows (cw_db w) (cw_db w')"
  by (auto simp: get_session_def Let_def split: prod.splits if_splits option.splits sum.splits dest: next_statement_rows)

lemma route_message_deleted_db [simp]: "cw_db (route_message_deleted now c ks s h w) = cw_db w"
proof -
  have "cw_db (fold (\<lambda>k w. if ch_channel (ac_chat k) = ''websocket''
      then snd (publish ''message_deleted'' (ac_domain_id k) (au_id (ac_user k)) (deleted_event now s h) w) else w) ks w) = cw_db w"
    by (induction ks arbitrary: w) (simp_all add: publish_def Let_def split: list.split)
  then show ?thesis by (simp add: route_message_deleted_def)
qed

lemma delete_one:
  assumes "delete_messages [ms_id x] db = (r, db')" "x \<in> set (cd_messages db)" "message_ids_ok db"
  shows "(\<forall>n. r = Ok n \<longrightarrow> n = 1 \<and> cd_messages db' = filter (\<lambda>y. y \<noteq> x) (cd_messages db)) \<and>
    ((\<forall>n. r \<noteq> Ok n) \<longrightarrow> cd_messages db' = cd_messages db)"
proof -
  obtain f d where n: "next_statement db = (f, d)" by fastforce
  have d: "cd_messages d = cd_messages db" using next_statement_rows [OF n] by (simp add: same_rows_def)
  have "distinct (cd_messages db)" "0 < ms_id x" using assms(2,3) by (auto simp: message_ids_ok_def distinct_map list_all_iff)
  moreover have "(ms_id y = ms_id x) = (y = x)" if "y \<in> set (cd_messages db)" for y
    using assms(2,3) that by (auto simp: message_ids_ok_def distinct_map dest: inj_onD)
  then have "filter (\<lambda>m. ms_id m = ms_id x) (cd_messages db) = filter (\<lambda>y. y = x) (cd_messages db)"
      "filter (\<lambda>m. ms_id m \<noteq> ms_id x) (cd_messages db) = filter (\<lambda>y. y \<noteq> x) (cd_messages db)"
    by (auto intro: filter_cong)
  moreover have "length (filter (\<lambda>y. y = x) xs) = 1" if "distinct xs" "x \<in> set xs" for xs
    using that distinct_filter [of xs "\<lambda>y. y = x"] by (subst distinct_card [symmetric]) (auto simp: Collect_conv_if)
  ultimately show ?thesis using assms(1,2) n d
    by (auto simp: delete_messages_def positive_ids_filter Let_def split: if_splits)
qed

text \<open>The user is that of the member of the session with the id of the message's sender.\<close>

definition sender_is :: "(string \<Rightarrow> string option) \<Rightarrow> session_tables \<Rightarrow> chat_world \<Rightarrow> string \<Rightarrow> int \<Rightarrow> bool" where
  "sender_is U T w i user \<longleftrightarrow>
     (case fst (get_session U T i w) of
        Ok (Some (chan, ms)) \<Rightarrow> (\<exists>k \<in> set (chan # ms). equal_fold i (ch_id (ac_chat k)) \<and> au_id (ac_user k) = user)
      | _ \<Rightarrow> False)"

lemma delete_found_effect:
  assumes "delete_found_message U T now user m w = (r, w')" "message_ids_ok (cw_db w)"
    and "x \<in> set (cd_messages (cw_db w))" "mo_id m = ms_id x"
  shows "(\<exists>e. r = Fail e) \<and> cd_messages (cw_db w') = cd_messages (cw_db w) \<or>
    r = Ok (history_of_message m) \<and> (user \<noteq> 0 \<longrightarrow> sender_is U T w (mo_channel_id m) user) \<and>
    cd_messages (cw_db w') = filter (\<lambda>y. y \<noteq> x) (cd_messages (cw_db w))"
proof -
  obtain rs v where s: "get_session U T (mo_channel_id m) w = (rs, v)" by fastforce
  have vm: "cd_messages (cw_db v) = cd_messages (cw_db w)" "message_ids_ok (cw_db v)"
    using get_session_rows [OF s] assms(2) by (simp_all add: same_rows_def message_ids_ok_def)
  let ?member = "\<lambda>chan ms. get_member (Some \<lparr>se_channel = Some chan, se_members = map Some ms\<rparr>) (mo_channel_id m)"
  note q = assms(1) [unfolded delete_found_message_def s prod.case]
  show ?thesis
  proof (cases "\<exists>chan ms k. rs = Ok (Some (chan, ms)) \<and> ?member chan ms = Some k \<and> (user \<noteq> 0 \<longrightarrow> au_id (ac_user k) = user)")
    case False
    then have "(\<exists>e. r = Fail e) \<and> w' = v" using q by (auto split: sum.splits option.splits if_splits prod.splits)
    then show ?thesis using vm by auto
  next
    case True
    then obtain chan ms k where k: "rs = Ok (Some (chan, ms))" "?member chan ms = Some k" "user \<noteq> 0 \<longrightarrow> au_id (ac_user k) = user"
      by blast
    have "k \<in> set (chan # ms)" "equal_fold (mo_channel_id m) (ch_id (ac_chat k))"
      using k(2) by (auto simp: get_member_def Let_def split: if_splits dest: first_member_SomeD)
    then have u: "user \<noteq> 0 \<longrightarrow> sender_is U T w (mo_channel_id m) user" using s k(1,3) by (auto simp: sender_is_def)
    obtain n db where n: "delete_messages [ms_id x] (cw_db v) = (n, db)" by fastforce
    note del = delete_one [OF n _ vm(2), unfolded vm(1), OF assms(3)]
    show ?thesis using q k n del u by (cases n) (auto simp: assms(4))
  qed
qed

text \<open>C28: DeleteMessage removes exactly one row, that of the message that it returns, and only one of the
  sender, the conversation and the user that the request names; when it fails it removes none.\<close>

theorem delete_message_exact:
  assumes "delete_message_request U T now oid user sender dialog search w = (r, w')" "message_ids_ok (cw_db w)"
  shows "case r of
      Fail _ \<Rightarrow> cd_messages (cw_db w') = cd_messages (cw_db w)
    | Ok h \<Rightarrow> \<exists>x \<in> set (cd_messages (cw_db w)). hm_id h = ms_id x \<and> hm_channel_id h = row_sender x \<and>
        (oid \<noteq> 0 \<longrightarrow> ms_id x = oid) \<and> (sender \<noteq> [] \<longrightarrow> row_sender x = sender) \<and>
        (dialog \<noteq> [] \<longrightarrow> ms_conversation_id x = dialog) \<and>
        (user \<noteq> 0 \<longrightarrow> sender_is U T (w\<lparr>cw_db := snd (get_message U oid sender dialog search (cw_db w))\<rparr>) (row_sender x) user) \<and>
        cd_messages (cw_db w') = filter (\<lambda>y. y \<noteq> x) (cd_messages (cw_db w))"
proof -
  obtain g d where g: "get_message U oid sender dialog search (cw_db w) = (g, d)" by fastforce
  have d: "cd_messages d = cd_messages (cw_db w)" "message_ids_ok d"
    using get_message_effect(1) [OF g] assms(2) by (simp_all add: same_rows_def message_ids_ok_def)
  note q = assms(1) [unfolded delete_message_request_def g prod.case]
  show ?thesis
  proof (cases "\<exists>m. g = Ok (Some m) \<and> (oid \<noteq> 0 \<longrightarrow> mo_id m = oid) \<and> (dialog \<noteq> [] \<longrightarrow> mo_conversation_id m = dialog) \<and>
      (sender \<noteq> [] \<longrightarrow> mo_channel_id m = sender)")
    case False
    then have "(\<exists>e. r = Fail e) \<and> cw_db w' = d" using q by (auto split: sum.splits option.splits if_splits)
    then show ?thesis using d by auto
  next
    case True
    then obtain m where m: "g = Ok (Some m)" "oid \<noteq> 0 \<longrightarrow> mo_id m = oid" "dialog \<noteq> [] \<longrightarrow> mo_conversation_id m = dialog"
        "sender \<noteq> [] \<longrightarrow> mo_channel_id m = sender" by blast
    obtain x where x: "x \<in> set (cd_messages (cw_db w))" "mo_id m = ms_id x" "mo_channel_id m = row_sender x"
        "mo_conversation_id m = ms_conversation_id x"
      using get_message_effect(2) [OF g m(1)] by blast
    have "delete_found_message U T now user m (w\<lparr>cw_db := d\<rparr>) = (r, w')" using q m by (auto split: if_splits)
    from delete_found_effect [OF this, of x] x d
    have "(\<exists>e. r = Fail e) \<and> cd_messages (cw_db w') = cd_messages (cw_db w) \<or>
        r = Ok (history_of_message m) \<and> (user \<noteq> 0 \<longrightarrow> sender_is U T (w\<lparr>cw_db := d\<rparr>) (row_sender x) user) \<and>
        cd_messages (cw_db w') = filter (\<lambda>y. y \<noteq> x) (cd_messages (cw_db w))" by simp
    then show ?thesis
    proof (elim disjE conjE exE)
      assume r: "r = Ok (history_of_message m)" and u: "user \<noteq> 0 \<longrightarrow> sender_is U T (w\<lparr>cw_db := d\<rparr>) (row_sender x) user"
        and c: "cd_messages (cw_db w') = filter (\<lambda>y. y \<noteq> x) (cd_messages (cw_db w))"
      have "hm_id (history_of_message m) = ms_id x" "hm_channel_id (history_of_message m) = row_sender x"
        using x by (simp_all add: history_of_message_def)
      with m x u c show ?thesis unfolding r sum.case g snd_conv by (intro bexI [of _ x]) auto
    qed simp
  qed
qed

section \<open>Witnesses\<close>

definition sent_message :: "string \<Rightarrow> message_obj" where
  "sent_message channel = zero_message\<lparr>mo_channel_id := channel, mo_conversation_id := ''c'', mo_type := ''file'', mo_text := ''hi'',
     mo_file := Some (zero_file\<lparr>fl_url := ''http://h/f''\<rparr>), mo_postback := Some \<lparr>pb_mid = 3, pb_code = ''go'', pb_text = []\<rparr>\<rparr>"

lemma example_ids: "message_ids_ok (cw_db example_invited)"
  by code_simp

lemma saved_message_read_back_witness:
  "map_option (\<lambda>m. (mo_file m, mo_postback m, mo_text m)) (case fst (get_message Some 1 [] [] None
       (snd (save_message Some 7654321 (sent_message ''a'') (cw_db example_invited)))) of Ok r \<Rightarrow> r | _ \<Rightarrow> None) = Some (None, None, ''hi'') \<and>
   map_option mt_postback (ms_content (last (cd_messages (snd (save_message Some 7654321 (sent_message ''a'') (cw_db example_invited)))))) =
     Some (Some \<lparr>pb_mid = 3, pb_code = ''go'', pb_text = []\<rparr>)"
proof -
  let ?s = "save_message Some 7654321 (sent_message ''a'') (cw_db example_invited)"
  let ?m = "(sent_message ''a'')\<lparr>mo_id := 1, mo_created_at := 7654000\<rparr>"
  have s: "fst ?s = Ok ?m" "db_faults (cd_cache (snd ?s)) = []" by code_simp+
  then have q: "?s = (Ok ?m, snd ?s)" by (simp add: prod_eq_iff)
  have m: "mo_updated_at (sent_message ''a'') = 0" "mo_channel_id (sent_message ''a'') \<noteq> []"
    "file_kept (mo_file (sent_message ''a'')) = None" "mo_text (sent_message ''a'') = ''hi''"
    "content_column (sent_message ''a'') = Some \<lparr>mt_keyboard = None, mt_contact = None, mt_postback = Some \<lparr>pb_mid = 3, pb_code = ''go'', pb_text = []\<rparr>\<rparr>"
    by code_simp+
  from saved_message_read_back [OF q m(1) example_ids refl refl m(2) s(2), folded content_column_def] m(3-5)
  show ?thesis by auto
qed

lemma schema_message_not_edited_witness:
  "cd_messages (snd (save_message Some 9000000 ((sent_message ''c'')\<lparr>mo_id := 1, mo_updated_at := 9000000\<rparr>)
     (snd (save_message Some 7654321 (sent_message ''c'') (cw_db example_invited))))) =
   cd_messages (snd (save_message Some 7654321 (sent_message ''c'') (cw_db example_invited)))"
proof -
  let ?s = "save_message Some 7654321 (sent_message ''c'') (cw_db example_invited)"
  let ?m = "(sent_message ''c'')\<lparr>mo_id := 1, mo_created_at := 7654000\<rparr>"
  have "fst ?s = Ok ?m" by code_simp
  then have q: "?s = (Ok ?m, snd ?s)" by (simp add: prod_eq_iff)
  have m: "mo_updated_at (sent_message ''c'') = 0" "Some (mo_channel_id (sent_message ''c'')) = Some (mo_conversation_id (sent_message ''c''))"
    "mo_channel_id (sent_message ''c'') \<noteq> []" by code_simp+
  let ?e = "(sent_message ''c'')\<lparr>mo_id := 1, mo_updated_at := 9000000\<rparr>"
  have "mo_id ?e = mo_id ?m" "mo_updated_at ?e \<noteq> 0" by simp_all
  from schema_message_not_edited [OF q m(1) example_ids m(2,3) this, of 9000000 "fst (save_message Some 9000000 ?e (snd ?s))"
      "snd (save_message Some 9000000 ?e (snd ?s))"]
  show ?thesis by (simp add: prod_eq_iff)
qed

definition example_history :: chat_world where
  "example_history = example_invited\<lparr>cw_db := example_chat\<lparr>cd_messages := [example_row\<lparr>ms_channel_id := Some ''a''\<rparr>], cd_message_seq := 41\<rparr>\<rparr>"

lemma delete_message_exact_witness:
  "cd_messages (cw_db (snd (delete_message_request Some example_tables 9000000 41 7 ''a'' [] None example_history))) = [] \<and>
   sender_is Some example_tables (example_history\<lparr>cw_db := snd (get_message Some 41 ''a'' [] None (cw_db example_history))\<rparr>) ''a'' 7"
proof -
  let ?r = "delete_message_request Some example_tables 9000000 41 7 ''a'' [] None example_history"
  let ?h = "\<lparr>hm_id = 41, hm_channel_id = ''a'', hm_kind = [], hm_type = ''text'', hm_text = ''hi'', hm_created_at = 9, hm_updated_at = 0\<rparr>"
  have "fst ?r = Ok ?h" by code_simp
  then have q: "?r = (Ok ?h, snd ?r)" by (simp add: prod_eq_iff)
  have i: "message_ids_ok (cw_db example_history)" by code_simp
  obtain x where x: "x \<in> set (cd_messages (cw_db example_history))" "''a'' \<noteq> [] \<longrightarrow> row_sender x = ''a''"
      "(7::int) \<noteq> 0 \<longrightarrow> sender_is Some example_tables
        (example_history\<lparr>cw_db := snd (get_message Some 41 ''a'' [] None (cw_db example_history))\<rparr>) (row_sender x) 7"
      "cd_messages (cw_db (snd ?r)) = filter (\<lambda>y. y \<noteq> x) (cd_messages (cw_db example_history))"
    using delete_message_exact [OF q i, unfolded sum.case] by blast
  have "cd_messages (cw_db example_history) = [example_row\<lparr>ms_channel_id := Some ''a''\<rparr>]" by code_simp
  with x(1,4) have "cd_messages (cw_db (snd ?r)) = []" by (simp only: list.set) auto
  with x(2,3) show ?thesis by simp
qed

end
