(* ===== verification/Chat_Sending.thy ===== *)
theory Chat_Sending
  imports Chat_Messages
begin

text \<open>
  Sending a message (cmd/chat/service.go): saveMessage, which looks up the messages that the
  new one edits, forwards or replies to, checks it by its type and stores it, and the handlers
  SendMessage and SendServiceMessage.  JoinURL is that of internal/util/format.go.

  The answers of the storage service are data.
\<close>

section \<open>Paths and links\<close>

text \<open>path.Clean and path.Join, path.Base and path.Ext.\<close>

fun clean_step :: "bool \<Rightarrow> string \<Rightarrow> string list \<Rightarrow> string list" where
  "clean_step rooted p st =
     (if p = [] \<or> p = ''.'' then st
      else if p = ''..'' then
        (case st of
           q # st' \<Rightarrow> if q = ''..'' then p # st else st'
         | [] \<Rightarrow> if rooted then [] else [p])
      else p # st)"

definition path_clean :: "string \<Rightarrow> string" where
  "path_clean s =
     (let rooted = (s \<noteq> [] \<and> hd s = CHR ''/'');
          out = join_with ''/'' (rev (fold (clean_step rooted) (split_on (CHR ''/'') s) []))
      in if rooted then CHR ''/'' # out else if out = [] then ''.'' else out)"

definition path_join :: "string list \<Rightarrow> string" where
  "path_join ps = (let ps = filter (\<lambda>p. p \<noteq> []) ps in if ps = [] then [] else path_clean (join_with ''/'' ps))"

definition after_last :: "char \<Rightarrow> string \<Rightarrow> string" where
  "after_last c s = rev (takeWhile (\<lambda>x. x \<noteq> c) (rev s))"

definition path_base :: "string \<Rightarrow> string" where
  "path_base s =
     (if s = [] then ''.''
      else
        (let b = after_last (CHR ''/'') (rev (dropWhile (\<lambda>x. x = CHR ''/'') (rev s)))
         in if b = [] then ''/'' else b))"

definition path_ext :: "string \<Rightarrow> string" where
  "path_ext s =
     (let b = after_last (CHR ''/'') s
      in if CHR ''.'' \<in> set b then CHR ''.'' # after_last (CHR ''.'') b else [])"

definition trim_slashes :: "string \<Rightarrow> string" where
  "trim_slashes s =
     (let is_slash = (\<lambda>x. x = CHR ''/'') in rev (dropWhile is_slash (rev (dropWhile is_slash s))))"

text \<open>The segments and query values of the paths of JoinURL.\<close>

fun join_parts :: "web_lib \<Rightarrow> string list \<Rightarrow> (string list \<times> (string \<times> string) list) option" where
  "join_parts W [] = Some ([], [])"
| "join_parts W (p # ps) =
     (let t = trim_slashes p in
      if CHR ''?'' \<in> set t then
        (case wl_parse_query W (drop 1 (dropWhile (\<lambda>c. c \<noteq> CHR ''?'') t)) of
           None \<Rightarrow> None
         | Some q \<Rightarrow> map_option (\<lambda>(s, v). (takeWhile (\<lambda>c. c \<noteq> CHR ''?'') t # s, q @ v)) (join_parts W ps))
      else map_option (\<lambda>(s, v). (t # s, v)) (join_parts W ps))"

definition join_url :: "web_lib \<Rightarrow> string \<Rightarrow> string list \<Rightarrow> string option" where
  "join_url W base paths =
     (case wl_parse W (rev (dropWhile (\<lambda>x. x = CHR ''/'') (rev base))) of
        None \<Rightarrow> None
      | Some u \<Rightarrow>
          (case join_parts W paths of
             None \<Rightarrow> None
           | Some (segments, values) \<Rightarrow>
               (let u = u\<lparr>pu_path := path_join (trim_slashes (pu_path u) # segments)\<rparr>;
                    u = (if values \<noteq> [] then u\<lparr>pu_query := wl_encode_query W values\<rparr> else u)
                in Some (wl_string W u))))"

section \<open>Lookups\<close>

datatype send_error = SendStatus string | SendFailed chat_error | StorageFailed | SendPanic

definition some_binding :: "vars option \<Rightarrow> vars option" where
  "some_binding b = (let b' = vdel [] (env_of b) in if b' = [] then None else Some b')"

definition binding_holds :: "vars option \<Rightarrow> vars option \<Rightarrow> bool" where
  "binding_holds sought vs \<longleftrightarrow> list_all (\<lambda>(k, v). map_of (env_of vs) k = Some v) (env_of sought)"

text \<open>The message that is found by an id or bindings: any failure of the search is no message.\<close>

definition found_message ::
  "(string \<Rightarrow> string option) \<Rightarrow> int \<Rightarrow> string \<Rightarrow> vars option \<Rightarrow> chat_db \<Rightarrow> message_obj option \<times> chat_db" where
  "found_message U oid target sought db =
     (case get_message U oid [] target sought db of
        (Ok (Some m), db) \<Rightarrow>
          (if (oid = 0 \<or> mo_id m = oid) \<and> binding_holds sought (mo_vars m) then Some m else None, db)
      | (_, db) \<Rightarrow> (None, db))"

text \<open>The message to edit.  The search takes the empty key out of the variables of the message.\<close>

definition edit_target ::
  "(string \<Rightarrow> string option) \<Rightarrow> int \<Rightarrow> string \<Rightarrow> string \<Rightarrow> notice \<Rightarrow> chat_db \<Rightarrow>
   (send_error, message_obj) result \<times> chat_db" where
  "edit_target U now sender target m db =
     (let sought = map_option (vdel []) (nt_vars m) in
      case get_message U (nt_id m) sender target sought db of
        (Fail e, db) \<Rightarrow> (Fail (SendStatus ''chat.message.lookup.error''), db)
      | (Ok None, db) \<Rightarrow> (Fail (SendStatus ''chat.edit.message.not_found''), db)
      | (Ok (Some s), db) \<Rightarrow>
          if (nt_id m \<noteq> 0 \<and> mo_id s \<noteq> nt_id m) \<or> \<not> binding_holds sought (mo_vars s)
            then (Fail (SendStatus ''chat.edit.message.not_found''), db)
          else if \<not> equal_fold sender (mo_channel_id s) then (Fail (SendStatus ''chat.edit.message.forbidden''), db)
          else if mo_forward_from s \<noteq> 0 then (Fail (SendStatus ''chat.edit.message.forwarded''), db)
          else (Ok (s\<lparr>mo_updated_at := now\<rparr>), db))"

definition coded_postback :: "notice \<Rightarrow> chat_postback option" where
  "coded_postback m = (case nt_postback m of None \<Rightarrow> None | Some b \<Rightarrow> if pb_code b = [] then None else Some b)"

text \<open>A new message, with its raw content.  The error of MarkupV2 is dropped.\<close>

definition new_target :: "web_lib \<Rightarrow> int \<Rightarrow> string \<Rightarrow> string \<Rightarrow> notice \<Rightarrow> message_obj" where
  "new_target W now sender target m =
     zero_message\<lparr>mo_created_at := now, mo_channel_id := sender, mo_conversation_id := target,
       mo_kind := trim_space (nt_kind m),
       mo_contact := nt_contact m, mo_keyboard := saved_keyboard W (nt_buttons m) (nt_no_input m),
       mo_postback := coded_postback m,
       mo_text := (case coded_postback m of None \<Rightarrow> [] | Some b \<Rightarrow> pb_text b)\<rparr>"

definition forwarded_file :: "chat_file \<Rightarrow> chat_file" where
  "forwarded_file d = d\<lparr>fl_url := [], fl_malware := False\<rparr>"

definition forward_stage ::
  "(string \<Rightarrow> string option) \<Rightarrow> string \<Rightarrow> vars option \<Rightarrow> notice \<Rightarrow> message_obj \<Rightarrow> chat_db \<Rightarrow>
   notice \<times> message_obj \<times> chat_db" where
  "forward_stage U target sought m saved db =
     (let from = (if nt_forward_chat m = [] then target else nt_forward_chat m) in
      case found_message U (nt_forward_from m) from sought db of
        (None, db) \<Rightarrow> (m, saved, db)
      | (Some f, db) \<Rightarrow>
          (m\<lparr>nt_forward_from := mo_id f, nt_forward_chat := mo_conversation_id f, nt_type := mo_type f, nt_text := mo_text f,
             nt_file := (case mo_file f of Some d \<Rightarrow> Some (forwarded_file d) | None \<Rightarrow> nt_file m)\<rparr>,
           saved\<lparr>mo_forward_from := mo_id f, mo_type := mo_type f, mo_text := mo_text f, mo_file := mo_file f\<rparr>, db))"

definition reply_stage ::
  "(string \<Rightarrow> string option) \<Rightarrow> string \<Rightarrow> vars option \<Rightarrow> notice \<Rightarrow> message_obj \<Rightarrow> chat_db \<Rightarrow>
   notice \<times> message_obj \<times> chat_db" where
  "reply_stage U target sought m saved db =
     (if mo_reply_to saved = 0 \<or> (nt_reply_to m \<noteq> 0 \<and> mo_reply_to saved \<noteq> nt_reply_to m) then
        (case found_message U (nt_reply_to m) target sought db of
           (None, db) \<Rightarrow> (m, saved, db)
         | (Some r, db) \<Rightarrow> (m\<lparr>nt_reply_to := mo_id r\<rparr>, saved\<lparr>mo_reply_to := mo_id r\<rparr>, db))
      else (m, saved, db))"

text \<open>The variables to store.  When the message has some they are one map, to which the
  kind goes too.\<close>

definition variables_stage :: "notice \<Rightarrow> message_obj \<Rightarrow> notice \<times> message_obj" where
  "variables_stage m saved =
     (let vs = map_option (vdel []) (nt_vars m);
          saved = (if env_of vs \<noteq> [] then saved\<lparr>mo_vars := vs\<rparr> else saved);
          keep = (\<lambda>v. vset ''kind'' (mo_kind saved) (env_of v)) in
      if mo_kind saved = [] then (m\<lparr>nt_vars := vs\<rparr>, saved)
      else (m\<lparr>nt_vars := (if env_of vs \<noteq> [] then Some (keep vs) else vs)\<rparr>, saved\<lparr>mo_vars := Some (keep (mo_vars saved))\<rparr>))"

section \<open>The content by its type\<close>

definition normal_type :: "notice \<Rightarrow> string" where
  "normal_type m =
     (let t = to_lower (trim_space (nt_type m)) in
      if t \<noteq> [] then t
      else if nt_file m \<noteq> None then ''file''
      else if nt_contact m \<noteq> None then ''contact'' else ''text'')"

definition text_stage :: "notice \<Rightarrow> message_obj \<Rightarrow> (send_error, notice \<times> message_obj) result" where
  "text_stage m saved =
     (let text = coalesce_text [nt_text m, case nt_postback m of None \<Rightarrow> [] | Some b \<Rightarrow> pb_text b,
                                case nt_postback m of None \<Rightarrow> [] | Some b \<Rightarrow> pb_code b];
          vs = env_of (nt_vars m) in
      if text = [] \<and> (vget vs ''from'' \<noteq> ''bot'' \<or> vget vs ''template'' \<noteq> file_policy_fail)
        then Fail (SendStatus ''chat.send.message.text.missing'')
      else
        Ok (m\<lparr>nt_text := text\<rparr>,
            saved\<lparr>mo_type := ''text'', mo_text := text,
              mo_postback := (if coded_postback m = None then mo_postback saved else coded_postback m)\<rparr>))"

text \<open>The statements on a client; the number of a client is in no row of the model.\<close>

definition update_client :: "int \<Rightarrow> string option \<Rightarrow> chat_world \<Rightarrow> chat_error option \<times> chat_world" where
  "update_client i contact w =
     (let (f, db) = next_statement (cw_db w); w = w\<lparr>cw_db := db\<rparr> in
      if f then (Some (StatementFailed DbFault), w)
      else
        (None, (case contact of
                  None \<Rightarrow> w
                | Some c \<Rightarrow>
                    w\<lparr>cw_clients := map (\<lambda>k. if cc_id k = i \<and> c \<noteq> [] then k\<lparr>cc_external_id := some_string c\<rparr> else k)
                        (cw_clients w)\<rparr>)))"

definition contact_stage ::
  "app_channel \<Rightarrow> notice \<Rightarrow> message_obj \<Rightarrow> chat_world \<Rightarrow> (send_error, notice \<times> message_obj) result \<times> chat_world" where
  "contact_stage sender m saved w =
     (case nt_contact m of
        None \<Rightarrow> (Fail (SendStatus ''chat.send.message.contact.missing''), w)
      | Some c \<Rightarrow>
          if ct_channel c = [] \<or> ct_contact c = [] then (Fail (SendStatus ''chat.send.message.contact.missing''), w)
          else
            (let saved = saved\<lparr>mo_type := ''contact'', mo_text := (if nt_text m = [] then ct_contact c else nt_text m)\<rparr> in
             if ct_id c > 0 \<and> ct_id c = au_id (ac_user sender) \<and> ct_channel c \<in> {ch_channel (ac_chat sender), ''phone''} then
               (case update_client (ct_id c)
                       (if ct_channel c = ch_channel (ac_chat sender) then Some (ct_contact c) else None) w of
                  (Some e, w) \<Rightarrow> (Fail (SendFailed e), w)
                | (None, w) \<Rightarrow> (Ok (m, saved), w))
             else (Ok (m, saved), w)))"

section \<open>Files\<close>

record link_reply =
  lk_name :: string
  lk_size :: int
  lk_mime :: string
  lk_base :: string
  lk_url :: string

record upload_reply =
  ul_id :: int
  ul_size :: int
  ul_mime :: string
  ul_server :: string
  ul_url :: string
  ul_malware :: bool

text \<open>The answers of the storage service, None for an error.\<close>

record storage =
  sg_link :: "link_reply option"
  sg_upload :: "upload_reply option"

definition linked_file :: "web_lib \<Rightarrow> storage \<Rightarrow> chat_file \<Rightarrow> (send_error, chat_file) result" where
  "linked_file W S d =
     (if fl_id d > 0 \<and> (fl_url d = [] \<or> fl_name d = [] \<or> fl_size d = 0) then
        (case wl_media_source W (fl_mime d) of
           None \<Rightarrow> Fail (SendStatus ''chat.send.document.file.mime.invalid'')
         | Some source \<Rightarrow>
             (let source = (if source = [] then ''file'' else source) in
              case sg_link S of
                None \<Rightarrow> Fail (SendStatus ''chat.send.document.file.error'')
              | Some l \<Rightarrow>
                  (case join_url W (lk_base l) [lk_url l] of
                     None \<Rightarrow> Fail (SendStatus ''message.file.save'')
                   | Some u \<Rightarrow>
                       Ok (d\<lparr>fl_name := lk_name l, fl_size := lk_size l,
                             fl_mime := wl_format_media W (lk_mime l) source, fl_url := u\<rparr>))))
      else Ok d)"

definition checked_file :: "web_lib \<Rightarrow> chat_file \<Rightarrow> (send_error, chat_file) result" where
  "checked_file W d =
     (if fl_url d = [] then Fail (SendStatus ''chat.send.document.url.required'')
      else
        (case wl_request_uri W (fl_url d) of
           None \<Rightarrow> Fail (SendStatus ''chat.send.document.url.invalid'')
         | Some u \<Rightarrow>
             if pu_scheme u = [] \<or> pu_host u = [] then Fail (SendStatus ''chat.send.document.url.invalid'')
             else
               (let name = (if fl_name d = [] then path_base (pu_path u) else fl_name d) in
                if fl_name d = [] \<and> name \<in> {[], ''.'', ''/''}
                  then Fail (SendStatus ''chat.send.document.name.invalid'')
                else
                  Ok (d\<lparr>fl_url := wl_string W u, fl_name := name,
                        fl_mime := (if fl_mime d = [] then wl_type_by_extension W (path_ext name) else fl_mime d)\<rparr>))))"

definition is_letter :: "char \<Rightarrow> bool" where
  "is_letter c \<longleftrightarrow> (65 \<le> (of_char c :: nat) \<and> (of_char c :: nat) \<le> 90 \<or> 97 \<le> (of_char c :: nat) \<and> (of_char c :: nat) \<le> 122)"

text \<open>The extension of a file by its media type, when its name has none.\<close>

definition mime_extensions :: "web_lib \<Rightarrow> string \<Rightarrow> string list" where
  "mime_extensions W mime =
     (let t = to_lower mime in
      if t = ''application/octet-stream'' then [''.bin'']
      else if t = ''image/jpeg'' then [''.jpg'']
      else if t = ''image/png'' then [''.png'']
      else if t = ''image/gif'' then [''.gif'']
      else if t = ''audio/mpeg'' then [''.mp3'']
      else if t = ''audio/ogg'' then [''.ogg'']
      else wl_extensions_by_type W mime)"

definition file_extension :: "web_lib \<Rightarrow> string \<Rightarrow> string \<Rightarrow> string" where
  "file_extension W mime ext =
     (if mime = [] then ext
      else
        (let exts = (if ext = [] \<or> ext = ''.'' then mime_extensions W mime else [ext]);
             sub = (if CHR ''/'' \<in> set mime \<and> hd mime \<noteq> CHR ''/'' then drop 1 (dropWhile (\<lambda>c. c \<noteq> CHR ''/'') mime) else []);
             parts = fields_by (\<lambda>c. \<not> is_letter c) [] sub;
             exts = (if exts = [] \<and> parts \<noteq> [] then [CHR ''.'' # last parts] else exts)
         in if exts \<noteq> [] then last exts else ext))"

text \<open>The test whether the extension has a media type is turned around: a known extension gets that of
  the answer, and an unknown one the empty type of the table.\<close>

definition uploaded_mime :: "web_lib \<Rightarrow> string \<Rightarrow> upload_reply \<Rightarrow> string" where
  "uploaded_mime W ext r =
     (let media = wl_type_by_extension W ext; media = (if media \<noteq> [] then ul_mime r else media)
      in wl_format_media W media ''file'')"

definition uploaded_file :: "web_lib \<Rightarrow> storage \<Rightarrow> chat_file \<Rightarrow> (send_error, chat_file) result" where
  "uploaded_file W S d =
     (case sg_upload S of
        None \<Rightarrow> Fail StorageFailed
      | Some r \<Rightarrow>
          if ul_id r = 0 then Fail (SendStatus ''chat.upload.document.error'')
          else
            (case join_url W (ul_server r) [ul_url r] of
               None \<Rightarrow> Fail (SendStatus ''message.file.save'')
             | Some u \<Rightarrow>
                 (let base = path_base (fl_name d); ext = path_ext base;
                      stem = take (length base - length ext) base;
                      ext = file_extension W (fl_mime d) ext
                  in Ok (d\<lparr>fl_id := ul_id r, fl_size := ul_size r, fl_url := u, fl_name := stem @ ext,
                           fl_mime := uploaded_mime W ext r, fl_malware := ul_malware r\<rparr>))))"

definition file_stage ::
  "web_lib \<Rightarrow> storage \<Rightarrow> notice \<Rightarrow> message_obj \<Rightarrow> (send_error, notice \<times> message_obj) result" where
  "file_stage W S m saved =
     (case nt_file m of
        None \<Rightarrow> Fail (SendStatus ''chat.send.document.file.missing'')
      | Some d \<Rightarrow>
          (case linked_file W S d of
             Fail e \<Rightarrow> Fail e
           | Ok d \<Rightarrow>
               (case checked_file W d of
                  Fail e \<Rightarrow> Fail e
                | Ok d \<Rightarrow>
                    (let caption = trim_space (nt_text m) in
                     case (if fl_id d = 0 then uploaded_file W S d
                           else Ok (if fl_id d < 0 then d\<lparr>fl_id := 0\<rparr> else d)) of
                       Fail e \<Rightarrow> Fail e
                     | Ok d \<Rightarrow>
                         Ok (m\<lparr>nt_text := caption, nt_file := Some d\<rparr>,
                             saved\<lparr>mo_type := ''file'', mo_text := caption,
                               mo_file := Some (d\<lparr>fl_url := (if fl_id d = 0 then fl_url d else [])\<rparr>)\<rparr>)))))"

section \<open>Marking messages as read\<close>

text \<open>TimestampDate in microseconds.\<close>

definition timestamp_time :: "int \<Rightarrow> int" where
  "timestamp_time t = (case timestamp_date t of None \<Rightarrow> 0 | Some ns \<Rightarrow> ns div 1000)"

text \<open>The time of update of the session's channel is in seconds and taken for milliseconds; zero is
  no date, which is before every other.\<close>

definition read_stage ::
  "(string \<Rightarrow> string option) \<Rightarrow> int \<Rightarrow> app_channel \<Rightarrow> notice \<Rightarrow> chat_db \<Rightarrow> send_error option \<times> chat_db" where
  "read_stage U now sender m db =
     (let all = truncate_time now;
          till = (if nt_updated m \<noteq> 0 then timestamp_time (nt_updated m) else all) in
      if nt_updated m \<noteq> 0 \<and> (till > all \<or> (ac_updated sender \<noteq> 0 \<and> till < timestamp_time (ac_updated sender)))
        then (Some (SendStatus ''chat.read.message.date.invalid''), db)
      else
        (case update_channel U now (ch_id (ac_chat sender)) (Some till) db of
           (Some e, db) \<Rightarrow> (Some (SendFailed e), db)
         | (None, db) \<Rightarrow> (None, db)))"

section \<open>saveMessage\<close>

definition stored_notice :: "app_channel \<Rightarrow> message_obj \<Rightarrow> notice \<Rightarrow> notice" where
  "stored_notice sender saved m =
     (let stamp = (\<lambda>t. date_timestamp (if t = 0 then None else Some (t * 1000)))
      in m\<lparr>nt_id := mo_id saved, nt_created := stamp (mo_created_at saved), nt_updated := stamp (mo_updated_at saved),
           nt_from := Some (ac_user sender)\<rparr>)"

definition store_message ::
  "(string \<Rightarrow> string option) \<Rightarrow> int \<Rightarrow> app_channel \<Rightarrow> notice \<Rightarrow> message_obj \<Rightarrow> chat_world \<Rightarrow>
   (send_error, message_obj option) result \<times> notice \<times> chat_world" where
  "store_message U now sender m saved w =
     (case save_message U now saved (cw_db w) of
        (Fail e, db) \<Rightarrow> (Fail (SendFailed e), m, w\<lparr>cw_db := db\<rparr>)
      | (Ok saved, db) \<Rightarrow> (Ok (Some saved), stored_notice sender saved m, w\<lparr>cw_db := db\<rparr>))"

text \<open>The message from its content on; None is the service message that is not stored.\<close>

definition save_content ::
  "(string \<Rightarrow> string option) \<Rightarrow> web_lib \<Rightarrow> storage \<Rightarrow> int \<Rightarrow> app_channel \<Rightarrow> notice \<Rightarrow> message_obj \<Rightarrow> chat_world \<Rightarrow>
   (send_error, message_obj option) result \<times> notice \<times> chat_world" where
  "save_content U W S now sender m saved w =
     (let m = m\<lparr>nt_type := normal_type m\<rparr> in
      if nt_type m = ''text'' then
        (case text_stage m saved of
           Fail e \<Rightarrow> (Fail e, m, w) | Ok (m, saved) \<Rightarrow> store_message U now sender m saved w)
      else if nt_type m = ''contact'' then
        (case contact_stage sender m saved w of
           (Fail e, w) \<Rightarrow> (Fail e, m, w) | (Ok (m, saved), w) \<Rightarrow> store_message U now sender m saved w)
      else if nt_type m = ''file'' then
        (case file_stage W S m saved of
           Fail e \<Rightarrow> (Fail e, m, w) | Ok (m, saved) \<Rightarrow> store_message U now sender m saved w)
      else if nt_type m = ''read'' then
        (case read_stage U now sender m (cw_db w) of
           (Some e, db) \<Rightarrow> (Fail e, m, w\<lparr>cw_db := db\<rparr>) | (None, db) \<Rightarrow> (Ok None, m, w\<lparr>cw_db := db\<rparr>))
      else (Fail (SendStatus ''chat.send.message.type.invalid''), m, w))"

text \<open>The checks before anything is looked up, with the status of the refusal.\<close>

definition sender_chat :: "app_channel \<Rightarrow> string" where
  "sender_chat sender = (if ch_id (ac_chat sender) = [] then ch_invite (ac_chat sender) else ch_id (ac_chat sender))"

definition is_forward :: "notice \<Rightarrow> bool" where
  "is_forward m \<longleftrightarrow> nt_forward_from m \<noteq> 0 \<or> env_of (nt_forward_vars m) \<noteq> []"

definition is_reply :: "notice \<Rightarrow> bool" where
  "is_reply m \<longleftrightarrow> nt_reply_to m \<noteq> 0 \<or> env_of (nt_reply_vars m) \<noteq> []"

definition save_refusal :: "app_channel \<Rightarrow> notice \<Rightarrow> string option" where
  "save_refusal sender m =
     (if sender_chat sender = [] then Some ''chat.message.channel.required''
      else if is_forward m \<and> nt_forward_from m = 0 \<and> some_binding (nt_forward_vars m) = None
        then Some ''chat.forward.message.binding.required''
      else if is_reply m \<and> nt_reply_to m = 0 \<and> some_binding (nt_reply_vars m) = None
        then Some ''chat.reply.message.binding.required''
      else if nt_updated m \<noteq> 0 \<and> is_forward m then Some ''chat.edit.message.forwarded''
      else None)"

definition save_target ::
  "(string \<Rightarrow> string option) \<Rightarrow> web_lib \<Rightarrow> int \<Rightarrow> app_channel \<Rightarrow> notice \<Rightarrow> chat_db \<Rightarrow>
   (send_error, message_obj) result \<times> chat_db" where
  "save_target U W now sender m db =
     (if nt_updated m \<noteq> 0 then edit_target U now (sender_chat sender) (ch_invite (ac_chat sender)) m db
      else (Ok (new_target W now (sender_chat sender) (ch_invite (ac_chat sender)) m), db))"

text \<open>The bindings of the lookups are hidden from the message that is sent.\<close>

definition related_stage ::
  "(string \<Rightarrow> string option) \<Rightarrow> app_channel \<Rightarrow> notice \<Rightarrow> message_obj \<Rightarrow> chat_db \<Rightarrow> notice \<times> message_obj \<times> chat_db" where
  "related_stage U sender m saved db =
     (let hidden = m\<lparr>nt_forward_vars := None, nt_reply_vars := None\<rparr>; target = ch_invite (ac_chat sender) in
      if is_forward m then forward_stage U target (some_binding (nt_forward_vars m)) hidden saved db
      else if is_reply m then reply_stage U target (some_binding (nt_reply_vars m)) hidden saved db
      else (hidden, saved, db))"

definition save_chat_message ::
  "(string \<Rightarrow> string option) \<Rightarrow> web_lib \<Rightarrow> storage \<Rightarrow> int \<Rightarrow> app_channel \<Rightarrow> notice option \<Rightarrow> chat_world \<Rightarrow>
   (send_error, message_obj option) result \<times> notice \<times> chat_world" where
  "save_chat_message U W S now sender msg w =
     (case msg of
        None \<Rightarrow> (Fail (SendStatus ''chat.message.required''), zero_notice, w)
      | Some m \<Rightarrow>
          (case save_refusal sender m of
             Some status \<Rightarrow> (Fail (SendStatus status), m, w)
           | None \<Rightarrow>
               (case save_target U W now sender m (cw_db w) of
                  (Fail e, db) \<Rightarrow> (Fail e, m, w\<lparr>cw_db := db\<rparr>)
                | (Ok saved, db) \<Rightarrow>
                    (let (m, saved, db) = related_stage U sender m saved db;
                         (m, saved) = variables_stage m saved
                     in save_content U W S now sender m saved (w\<lparr>cw_db := db\<rparr>)))))"

section \<open>The handlers\<close>

datatype message_request_error = RequestStatus string | RequestSession session_error | RequestSave send_error | RequestRoute route_error

definition send_message_request ::
  "(string \<Rightarrow> string option) \<Rightarrow> session_tables \<Rightarrow> web_lib \<Rightarrow> storage \<Rightarrow> int \<Rightarrow> (attempt list \<times> attempt list) list \<Rightarrow>
   int \<Rightarrow> string \<Rightarrow> string \<Rightarrow> notice option \<Rightarrow> chat_world \<Rightarrow> (message_request_error, notice) result \<times> chat_world" where
  "send_message_request U T W S now calls user channel conv msg w =
     (let from = (if channel = [] then conv else channel) in
      if from = [] then (Fail (RequestStatus ''chat.send.channel.from.required''), w)
      else
        (case get_session U T from w of
           (Fail e, w) \<Rightarrow> (Fail (RequestSession e), w)
         | (Ok None, w) \<Rightarrow> (Fail (RequestStatus ''chat.send.channel.from.not_found''), w)
         | (Ok (Some (chat, members)), w) \<Rightarrow>
             if ch_id (ac_chat chat) \<noteq> from then (Fail (RequestStatus ''chat.send.channel.from.not_found''), w)
             else if user \<noteq> 0 \<and> au_id (ac_user chat) \<noteq> user
               then (Fail (RequestStatus ''chat.send.channel.user.mismatch''), w)
             else if channel_is_closed (Some chat) then (Fail (RequestStatus ''chat.send.channel.from.closed''), w)
             else
               (case save_chat_message U W S now chat msg w of
                  (Fail e, _, w) \<Rightarrow> (Fail (RequestSave e), w)
                | (Ok _, m, w) \<Rightarrow>
                    (case send_to_room U calls chat members m w of
                       (Some e, _, _, w) \<Rightarrow> (Fail (RequestRoute e), w)
                     | (None, _, m, w) \<Rightarrow> (Ok m, w)))))"

text \<open>The last open channel of a kind.\<close>

definition last_open :: "string \<Rightarrow> app_channel list \<Rightarrow> app_channel option" where
  "last_open kind ms =
     (let ks = filter (\<lambda>k. ac_closed k = 0 \<and> ch_channel (ac_chat k) = kind) ms in if ks = [] then None else Some (last ks))"

definition service_sender :: "notice \<Rightarrow> app_channel list \<Rightarrow> app_channel option" where
  "service_sender m ms =
     (let agent = last_open ''websocket'' ms; flow = last_open ''chatflow'' ms in
      if vget (env_of (nt_vars m)) ''from'' = ''bot'' \<and> flow \<noteq> None then flow
      else if agent \<noteq> None then agent else flow)"

text \<open>SendServiceMessage; a session that is not found is a pointer that is nil.\<close>

definition send_service_message ::
  "(string \<Rightarrow> string option) \<Rightarrow> session_tables \<Rightarrow> web_lib \<Rightarrow> storage \<Rightarrow> int \<Rightarrow> string \<Rightarrow> notice option \<Rightarrow> chat_world \<Rightarrow>
   message_request_error option \<times> chat_world" where
  "send_service_message U T W S now chat msg w =
     (case msg of
        None \<Rightarrow> (Some (RequestStatus ''chat.service.save_agent_join_message.check_args.message''), w)
      | Some m \<Rightarrow>
          (case get_session U T chat w of
             (Fail e, w) \<Rightarrow> (Some (RequestSession e), w)
           | (Ok None, w) \<Rightarrow> (Some (RequestSave SendPanic), w)
           | (Ok (Some (c, members)), w) \<Rightarrow>
               (case service_sender m (c # members) of
                  None \<Rightarrow> (Some (RequestStatus ''chat.send.channel.from.not_found''), w)
                | Some sender \<Rightarrow>
                    (case save_chat_message U W S now sender (Some m) w of
                       (Fail e, _, w) \<Rightarrow> (Some (RequestSave e), w)
                     | (Ok _, m, w) \<Rightarrow>
                         (case send_system_message U sender (c # members) None 0 m w of
                            (Fail e, _, w) \<Rightarrow> (Some (RequestRoute e), w)
                          | (Ok _, _, w) \<Rightarrow> (None, w))))))"

section \<open>What a saved message changes\<close>

text \<open>The tables of messages and channels, the message sequence and the events are as before.\<close>

definition quiet :: "chat_world \<Rightarrow> chat_world \<Rightarrow> bool" where
  "quiet w w' \<longleftrightarrow> same_rows (cw_db w) (cw_db w') \<and> cw_events w' = cw_events w"

lemma quiet_refl [simp]: "quiet w w"
  by (simp add: quiet_def)

lemma quiet_trans: "quiet a b \<Longrightarrow> quiet b c \<Longrightarrow> quiet a c"
  by (auto simp: quiet_def intro: same_rows_trans)

lemma quiet_db: "same_rows (cw_db w) db \<Longrightarrow> quiet w (w\<lparr>cw_db := db\<rparr>)"
  by (simp add: quiet_def)

lemma found_message_rows: "found_message U oid t b db = (r, db') \<Longrightarrow> same_rows db db'"
  by (auto simp: found_message_def split: prod.splits sum.splits option.splits dest: get_message_effect(1))

lemma edit_target_rows: "edit_target U now s t m db = (r, db') \<Longrightarrow> same_rows db db'"
  by (auto simp: edit_target_def Let_def split: prod.splits sum.splits option.splits if_splits dest: get_message_effect(1))

lemma stages_rows:
  "forward_stage U t b m s db = (m', s', db') \<Longrightarrow> same_rows db db'"
  "reply_stage U t b m s db = (m', s', db') \<Longrightarrow> same_rows db db'"
  by (auto simp: forward_stage_def reply_stage_def Let_def split: prod.splits option.splits if_splits
      dest: found_message_rows)

lemma contact_stage_quiet: "contact_stage sender m s w = (r, w') \<Longrightarrow> quiet w w'"
  by (auto simp: contact_stage_def update_client_def Let_def quiet_def
      split: option.splits if_splits prod.splits dest: next_statement_rows)

lemma save_message_fails:
  assumes "save_message U now m db = (Fail e, db')"
  shows "cd_messages db' = cd_messages db"
proof -
  have i: "insert_message U k d = (Fail e, d') \<Longrightarrow> cd_messages d' = cd_messages d" for k d e d'
    by (auto simp: insert_message_def Let_def split: sum.splits option.splits if_splits)
  have "map (\<lambda>r. if ms_id r = n \<and> ms_channel_id r = Some c then h r else r) xs = xs"
    if "filter (\<lambda>r. ms_id r = n \<and> ms_channel_id r = Some c) xs = []" for n c h xs
    using that by (intro map_idI) (auto simp: filter_empty_conv)
  then have d: "edit_message_row U k d = (Fail e, d') \<Longrightarrow> cd_messages d' = cd_messages d" for k d e d'
    by (auto simp: edit_message_row_def Let_def split: option.splits if_splits)
  show ?thesis using assms
    by (auto simp: save_message_def Let_def next_statement_messages split: if_splits prod.splits sum.splits dest: i d)
qed

lemma update_channel_messages: "update_channel U now i t db = (r, db') \<Longrightarrow> cd_messages db' = cd_messages db"
  by (auto simp: update_channel_def Let_def next_statement_messages split: prod.splits if_splits option.splits)

lemma read_stage_messages: "read_stage U now s m db = (r, db') \<Longrightarrow> cd_messages db' = cd_messages db"
  by (auto simp: read_stage_def Let_def split: prod.splits if_splits option.splits dest: update_channel_messages)

text \<open>What the content stages make: the type that is stored is that of the message, and the place of
  the message is kept.\<close>

definition same_place :: "message_obj \<Rightarrow> message_obj \<Rightarrow> bool" where
  "same_place s s' \<longleftrightarrow> mo_id s' = mo_id s \<and> mo_channel_id s' = mo_channel_id s \<and> mo_conversation_id s' = mo_conversation_id s \<and>
     mo_created_at s' = mo_created_at s \<and> mo_updated_at s' = mo_updated_at s"

lemma text_stage_effect:
  "text_stage m s = Ok (m', s') \<Longrightarrow> same_place s s' \<and> nt_type m' = nt_type m \<and> mo_type s' = ''text'' \<and> mo_text s' = nt_text m'"
  by (auto simp: text_stage_def same_place_def Let_def split: if_splits)

lemma contact_stage_effect:
  "contact_stage sender m s w = (Ok (m', s'), w') \<Longrightarrow> same_place s s' \<and> nt_type m' = nt_type m \<and> mo_type s' = ''contact''"
  by (auto simp: contact_stage_def same_place_def Let_def split: option.splits if_splits prod.splits)

lemma file_stage_effect:
  "file_stage W S m s = Ok (m', s') \<Longrightarrow> same_place s s' \<and> nt_type m' = nt_type m \<and> mo_type s' = ''file'' \<and> mo_text s' = nt_text m'"
  by (auto simp: file_stage_def same_place_def Let_def split: option.splits if_splits sum.splits)

lemma store_message_effect:
  assumes "store_message U now sender k s' v = (r, m', w')" "same_place saved s'" "mo_type s' = nt_type k" "quiet w v"
  shows "cw_events w' = cw_events w \<and>
    (case r of
       Fail e \<Rightarrow> cd_messages (cw_db w') = cd_messages (cw_db w)
     | Ok None \<Rightarrow> False
     | Ok (Some s) \<Rightarrow> (\<exists>s' v. quiet w v \<and> save_message U now s' (cw_db v) = (Ok s, cw_db w') \<and> same_place saved s' \<and>
         mo_type s' = nt_type m' \<and> nt_id m' = mo_id s))"
proof -
  obtain q db where q: "save_message U now s' (cw_db v) = (q, db)" by fastforce
  have "cw_events v = cw_events w" "cd_messages (cw_db v) = cd_messages (cw_db w)"
    using assms(4) by (simp_all add: quiet_def same_rows_def)
  then show ?thesis using q assms save_message_fails [of U now s' "cw_db v"]
    by (cases q) (auto simp: store_message_def stored_notice_def intro!: exI [of _ s'] exI [of _ v])
qed

lemma save_content_effect:
  assumes "save_content U W S now sender m saved w = (r, m', w')"
  shows "cw_events w' = cw_events w \<and>
    (case r of
       Fail e \<Rightarrow> cd_messages (cw_db w') = cd_messages (cw_db w)
     | Ok None \<Rightarrow> cd_messages (cw_db w') = cd_messages (cw_db w) \<and> nt_type m' = ''read''
     | Ok (Some s) \<Rightarrow> (\<exists>s' v. quiet w v \<and> save_message U now s' (cw_db v) = (Ok s, cw_db w') \<and> same_place saved s' \<and>
         mo_type s' = nt_type m' \<and> nt_id m' = mo_id s))"
proof -
  let ?m = "m\<lparr>nt_type := normal_type m\<rparr>"
  let ?goal = "?thesis"
  have weaken: ?goal if "cw_events w' = cw_events w \<and>
    (case r of
       Fail e \<Rightarrow> cd_messages (cw_db w') = cd_messages (cw_db w)
     | Ok None \<Rightarrow> False
     | Ok (Some s) \<Rightarrow> (\<exists>s' v. quiet w v \<and> save_message U now s' (cw_db v) = (Ok s, cw_db w') \<and> same_place saved s' \<and>
         mo_type s' = nt_type m' \<and> nt_id m' = mo_id s))"
    using that by (auto split: sum.splits option.splits)
  note store = weaken [OF store_message_effect]
  have stop: ?goal if "r = Fail e" "quiet w w'" for e
    using that by (simp add: quiet_def same_rows_def)
  consider "normal_type m = ''text''" | "normal_type m = ''contact''" | "normal_type m = ''file''" | "normal_type m = ''read''" |
      "normal_type m \<notin> {''text'', ''contact'', ''file'', ''read''}" by blast
  then show ?thesis
  proof cases
    case 1
    show ?thesis
    proof (cases "text_stage ?m saved")
      case (Inl e)
      then show ?thesis using assms 1 by (intro stop [of e]) (simp_all add: save_content_def Let_def)
    next
      case (Inr p)
      obtain k s where p: "p = (k, s)" by (cases p)
      have "store_message U now sender k s w = (r, m', w')" using assms 1 Inr p by (simp add: save_content_def Let_def)
      then show ?thesis using text_stage_effect [OF Inr [unfolded p]] 1 by (intro store) auto
    qed
  next
    case 2
    obtain q v where q: "contact_stage sender ?m saved w = (q, v)" by fastforce
    show ?thesis
    proof (cases q)
      case (Inl e)
      then show ?thesis using assms 2 q contact_stage_quiet [OF q] by (intro stop [of e]) (simp_all add: save_content_def Let_def)
    next
      case (Inr p)
      obtain k s where p: "p = (k, s)" by (cases p)
      have "store_message U now sender k s v = (r, m', w')" using assms 2 Inr p q by (simp add: save_content_def Let_def)
      then show ?thesis using contact_stage_effect [of sender ?m saved w k s v] q Inr p 2 contact_stage_quiet [OF q]
        by (intro store) auto
    qed
  next
    case 3
    show ?thesis
    proof (cases "file_stage W S ?m saved")
      case (Inl e)
      then show ?thesis using assms 3 by (intro stop [of e]) (simp_all add: save_content_def Let_def)
    next
      case (Inr p)
      obtain k s where p: "p = (k, s)" by (cases p)
      have "store_message U now sender k s w = (r, m', w')" using assms 3 Inr p by (simp add: save_content_def Let_def)
      then show ?thesis using file_stage_effect [OF Inr [unfolded p]] 3 by (intro store) auto
    qed
  next
    case 4
    obtain q db where q: "read_stage U now sender ?m (cw_db w) = (q, db)" by fastforce
    show ?thesis using assms 4 q read_stage_messages [OF q] by (cases q) (auto simp: save_content_def Let_def)
  next
    case 5
    then show ?thesis using assms by (auto simp: save_content_def Let_def)
  qed
qed

text \<open>From the request on: the message that is saved is the one to edit or a new one in the conversation of
  the sender.\<close>

lemma save_target_effect:
  assumes "save_target U W now sender m db = (r, db')"
  shows "same_rows db db'" "r = Ok s \<Longrightarrow> nt_updated m = 0 \<Longrightarrow> mo_channel_id s = sender_chat sender \<and>
    mo_conversation_id s = ch_invite (ac_chat sender) \<and> mo_updated_at s = 0"
  using assms by (auto simp: save_target_def new_target_def zero_message_def split: if_splits dest: edit_target_rows)

lemma related_stage_effect:
  assumes "related_stage U sender m s db = (m', s', db')"
  shows "same_rows db db'" "same_place s s'"
  using assms
  by (auto simp: related_stage_def forward_stage_def reply_stage_def same_place_def Let_def
      split: if_splits prod.splits option.splits dest: found_message_rows)

lemma variables_stage_place: "variables_stage m s = (m', s') \<Longrightarrow> same_place s s'"
  by (auto simp: variables_stage_def same_place_def Let_def split: if_splits)

lemma save_chat_message_effect:
  assumes "save_chat_message U W S now sender (Some m) w = (r, m', w')"
  shows "(\<exists>e. r = Fail e) \<and> quiet w w' \<or>
    (\<exists>k saved v. quiet w v \<and> save_content U W S now sender k saved v = (r, m', w') \<and>
       (nt_updated m = 0 \<longrightarrow> mo_channel_id saved = sender_chat sender \<and> sender_chat sender \<noteq> [] \<and>
         mo_conversation_id saved = ch_invite (ac_chat sender) \<and> mo_updated_at saved = 0))"
proof (cases "save_refusal sender m")
  case (Some st)
  then show ?thesis using assms by (auto simp: save_chat_message_def)
next
  case None
  then have nonempty: "sender_chat sender \<noteq> []" by (auto simp: save_refusal_def split: if_splits)
  obtain q d where q: "save_target U W now sender m (cw_db w) = (q, d)" by fastforce
  note d = save_target_effect [OF q]
  show ?thesis
  proof (cases q)
    case (Inl e)
    then show ?thesis using assms None q quiet_db [OF d(1)] by (auto simp: save_chat_message_def)
  next
    case (Inr s)
    obtain k1 s1 d1 where s1: "related_stage U sender m s d = (k1, s1, d1)" by (metis prod_cases3)
    obtain k2 s2 where s2: "variables_stage k1 s1 = (k2, s2)" by fastforce
    have "save_content U W S now sender k2 s2 (w\<lparr>cw_db := d1\<rparr>) = (r, m', w')"
      using assms None q Inr s1 s2 by (simp add: save_chat_message_def)
    moreover have "quiet w (w\<lparr>cw_db := d1\<rparr>)"
      by (intro quiet_db same_rows_trans [OF d(1)] related_stage_effect(1) [OF s1])
    moreover have "nt_updated m = 0 \<longrightarrow> mo_channel_id s2 = sender_chat sender \<and> mo_conversation_id s2 = ch_invite (ac_chat sender) \<and>
        mo_updated_at s2 = 0"
      using d(2) [OF Inr] related_stage_effect(2) [OF s1] variables_stage_place [OF s2] by (simp add: same_place_def)
    ultimately show ?thesis using nonempty by blast
  qed
qed

section \<open>Refused messages\<close>

text \<open>C19: A message that SendMessage refuses, for its sender, its content or because it could not be stored,
  leaves the stored messages as they are and nothing was sent to anybody.\<close>

theorem refused_message_unseen:
  assumes "send_message_request U T W S now calls user channel conv msg w = (Fail e, w')"
    and "\<forall>r. e \<noteq> RequestRoute r"
  shows "cd_messages (cw_db w') = cd_messages (cw_db w) \<and> cw_events w' = cw_events w"
proof -
  let ?from = "if channel = [] then conv else channel"
  obtain g v where g: "get_session U T ?from w = (g, v)" by fastforce
  have v: "same_rows (cw_db w) (cw_db v)" "cw_events v = cw_events w"
    using get_session_rows [OF g] g
    by (auto simp: get_session_def Let_def split: prod.splits if_splits option.splits sum.splits)
  show ?thesis
  proof (cases "w' = w \<or> w' = v")
    case True
    then show ?thesis using v by (auto simp: same_rows_def)
  next
    case False
    then obtain c ms q k where c: "g = Ok (Some (c, ms))" "save_chat_message U W S now c msg v = (Fail q, k, w')"
      using assms g by (auto simp: send_message_request_def Let_def split: if_splits sum.splits option.splits prod.splits)
    then obtain m where m: "msg = Some m" using False by (auto simp: save_chat_message_def split: option.splits)
    from save_chat_message_effect [OF c(2) [unfolded m]] have "cd_messages (cw_db w') = cd_messages (cw_db v) \<and> cw_events w' = cw_events v"
      by (auto simp: quiet_def same_rows_def dest: save_content_effect)
    then show ?thesis using v by (simp add: same_rows_def)
  qed
qed


section \<open>Sent messages\<close>




section \<open>Dated read marks\<close>

lemma get_message_ambiguous:
  assumes "length (filter (message_matches oid s t (vdel [] (env_of search))) (cd_messages db)) \<noteq> 1"
    and "uuid_filter U sender = Ok s" "uuid_filter U target = Ok t" "get_message U oid sender target search db = (r, db')"
  shows "r \<noteq> Ok (Some m)"
proof
  assume r: "r = Ok (Some m)"
  obtain f d where n: "next_statement db = (f, d)" by fastforce
  let ?rows = "sort_key (\<lambda>m. - ms_created_at m) (filter (message_matches oid s t (vdel [] (env_of search))) (cd_messages d))"
  have "length ?rows \<noteq> 1" using assms(1) next_statement_rows [OF n] by (simp add: same_rows_def)
  moreover have "message_list 1 0 zero_file (take 2 ?rows) = [Some m']" if "r = Ok (Some m')" for m'
    using that assms(2-4) n
    by (auto simp: get_message_def Let_def split: if_splits list.splits option.splits)
  ultimately show False using r
    by (cases ?rows; cases "tl ?rows") (auto simp: Let_def split: if_splits)
qed

text \<open>A message of type read with a date, as one would mark the messages up to it, is taken for the
  edit of a message first.  Without an id it is refused unless the sender has sent exactly one message in
  the conversation, and no channel is marked.\<close>

theorem dated_read_is_an_edit:
  assumes "save_chat_message U W S now sender (Some m) w = (r, m', w')"
    and "nt_updated m \<noteq> 0" "nt_id m = 0" "nt_vars m = None" "\<not> is_forward m" "\<not> is_reply m"
    and "sender_chat sender \<noteq> []" "U (sender_chat sender) = Some s" "ch_invite (ac_chat sender) \<noteq> []"
    and "U (ch_invite (ac_chat sender)) = Some t"
    and "length (filter (\<lambda>x. row_sender x = s \<and> ms_conversation_id x = t) (cd_messages (cw_db w))) \<noteq> 1"
  shows "(r = Fail (SendStatus ''chat.edit.message.not_found'') \<or> r = Fail (SendStatus ''chat.message.lookup.error'')) \<and>
    cd_channels (cw_db w') = cd_channels (cw_db w)"
proof -
  obtain g d where g: "get_message U 0 (sender_chat sender) (ch_invite (ac_chat sender)) None (cw_db w) = (g, d)" by fastforce
  have "message_matches 0 (Some s) (Some t) (vdel [] (env_of None)) = (\<lambda>x. row_sender x = s \<and> ms_conversation_id x = t)"
    by (simp add: message_matches_def vdel_def fun_eq_iff)
  then have no: "g \<noteq> Ok (Some x)" for x
    using get_message_ambiguous [OF _ _ _ g, of "Some s" "Some t"] assms(7-11) by (simp add: uuid_filter_def)
  have "save_refusal sender m = None" using assms(2,5-7) by (simp add: save_refusal_def)
  then show ?thesis
    using assms(1-4) g no get_message_effect(1) [OF g]
    by (auto simp: save_chat_message_def save_target_def edit_target_def Let_def same_rows_def
        split: sum.splits option.splits)
qed


section \<open>Witnesses\<close>

definition no_storage :: storage where "no_storage = \<lparr>sg_link = None, sg_upload = None\<rparr>"

definition example_text_request :: "string \<Rightarrow> notice" where
  "example_text_request text = zero_notice\<lparr>nt_text := text\<rparr>"

abbreviation example_send :: "notice \<Rightarrow> chat_world \<Rightarrow> (message_request_error, notice) result \<times> chat_world" where
  "example_send m w \<equiv> send_message_request Some example_tables example_web no_storage 9000000 [] 7 ''a'' [] (Some m) w"

lemma refused_message_unseen_witness:
  "cd_messages (cw_db (snd (example_send (example_text_request '' '') example_history))) = cd_messages (cw_db example_history)"
proof -
  let ?r = "example_send (example_text_request '' '') example_history"
  have "case fst ?r of Fail e \<Rightarrow> (case e of RequestRoute _ \<Rightarrow> False | _ \<Rightarrow> True) | Ok _ \<Rightarrow> False" by code_simp
  then obtain e where e: "fst ?r = Fail e" "\<forall>r. e \<noteq> RequestRoute r" by (auto split: sum.splits message_request_error.splits)
  from e(1) have "?r = (Fail e, snd ?r)" by (simp add: prod_eq_iff)
  from refused_message_unseen [OF this e(2)] show ?thesis by simp
qed


lemma dated_read_is_an_edit_witness:
  "cd_channels (cw_db (snd (snd (save_chat_message Some example_web no_storage 9000000 (room_member ''b'' ''websocket'' ''engine'' 8 0)
      (Some (zero_notice\<lparr>nt_type := ''read'', nt_updated := 8000\<rparr>)) example_history)))) = cd_channels (cw_db example_history)"
proof -
  let ?m = "zero_notice\<lparr>nt_type := ''read'', nt_updated := 8000\<rparr>"
  let ?k = "room_member ''b'' ''websocket'' ''engine'' 8 0"
  let ?r = "save_chat_message Some example_web no_storage 9000000 ?k (Some ?m) example_history"
  have q: "?r = (fst ?r, fst (snd ?r), snd (snd ?r))" by simp
  have h: "nt_updated ?m \<noteq> 0" "nt_id ?m = 0" "nt_vars ?m = None" "\<not> is_forward ?m" "\<not> is_reply ?m"
    "sender_chat ?k \<noteq> []" "Some (sender_chat ?k) = Some ''b''" "ch_invite (ac_chat ?k) \<noteq> []"
    "Some (ch_invite (ac_chat ?k)) = Some ''c''"
    "length (filter (\<lambda>x. row_sender x = ''b'' \<and> ms_conversation_id x = ''c'') (cd_messages (cw_db example_history))) \<noteq> 1"
    by code_simp+
  from dated_read_is_an_edit [OF q h] show ?thesis by simp
qed

end
