(* ===== verification/Bot_Gateway.thy ===== *)
theory Bot_Gateway
  imports Chat_Sending
begin

text \<open>
  The gateways of chat bots (bot/gateway.go, bot/channel.go, bot/message.go): the channels that
  a gateway keeps for the customers of a provider, and the messages between the provider and the
  chat service.

  A channel is shared between the caches of its gateway and the updates that are being handled, a
  gateway between the index of the service and its channels, and the caches between the revisions
  of a gateway: channels, gateways and caches are cells of a store and are named by their addresses.
  The answers of the chat service and of the provider are data; what is asked of them goes to a log.
\<close>

section \<open>Contacts\<close>

record bot_account =
  bn_id :: int
  bn_first :: string
  bn_last :: string
  bn_username :: string
  bn_channel :: string
  bn_contact :: string

text \<open>The names without blanks, and without those that repeat one before.\<close>

fun name_parts :: "string list \<Rightarrow> string list \<Rightarrow> string list" where
  "name_parts kept [] = kept"
| "name_parts kept (p # ps) =
     (let q = trim_space p in
      if q = [] \<or> list_ex (equal_fold q) kept then name_parts kept ps else name_parts (kept @ [q]) ps)"

definition display_name :: "bot_account \<Rightarrow> string" where
  "display_name a =
     (let n = join_with '' '' (name_parts [] [bn_first a, bn_last a, bn_username a])
      in if n = [] then ''noname'' else n)"

definition is_command_close :: "string \<Rightarrow> bool" where
  "is_command_close text \<longleftrightarrow> text = ''Conversation closed'' \<or> text = ''/close''"

definition update_is_close :: "notice option \<Rightarrow> bool" where
  "update_is_close m =
     (case m of
        None \<Rightarrow> False
      | Some m \<Rightarrow> if nt_type m = ''closed'' then True else if nt_type m = ''text'' then is_command_close (nt_text m) else False)"

section \<open>The store of channels and gateways\<close>

text \<open>Properties: no value, a map that is nil, or a map.\<close>

datatype bot_props = NoProps | NilMap | Props vars

record bot_channel =
  bc_host :: string
  bc_title :: string
  bc_chat :: string
  bc_account :: bot_account
  bc_id :: string
  bc_session :: string
  bc_props :: bot_props
  bc_closed :: int
  bc_gate :: nat

text \<open>The profile of a bot with its five templates, and its gateway with the address of the caches.\<close>

record bot_profile =
  bg_id :: int
  bg_uri :: string
  bg_enabled :: bool
  bg_provider :: string
  bg_domain :: int
  bg_flow :: int
  bg_name :: string
  bg_meta :: vars
  bg_updates :: "string list option"

record bot_gate = bot_profile +
  bg_deleted :: bool
  bg_cache :: nat

record channel_cache =
  cx_external :: "(string \<times> nat) list"
  cx_internal :: "(int \<times> nat) list"

record call_error =
  ce_id :: string
  ce_detail :: string

record start_request =
  sr_domain :: int
  sr_title :: string
  sr_user :: int
  sr_type :: string
  sr_connection :: string
  sr_message :: notice
  sr_props :: vars

datatype bot_event =
    SessionChecked int string string string
  | StartRequested start_request
  | SendRequested string string int notice
  | DeleteRequested string string int int "vars option"
  | CloseRequested string string int
  | ServiceRequested string notice
  | Notified nat nat notice
  | ContactStored int string string string
  | ProviderRegistered nat string
  | ProviderDeregistered nat
  | ProviderClosed nat

record bot_world =
  bw_channels :: "bot_channel list"
  bw_gates :: "bot_gate list"
  bw_caches :: "channel_cache list"
  bw_profiles :: "(int \<times> nat) list"
  bw_uris :: "(string \<times> int) list"
  bw_events :: "bot_event list"

definition chan :: "nat \<Rightarrow> bot_world \<Rightarrow> bot_channel" where
  "chan a w = bw_channels w ! a"

definition gate :: "nat \<Rightarrow> bot_world \<Rightarrow> bot_gate" where
  "gate g w = bw_gates w ! g"

definition cache_of :: "nat \<Rightarrow> bot_world \<Rightarrow> channel_cache" where
  "cache_of g w = bw_caches w ! bg_cache (gate g w)"

definition set_chan :: "nat \<Rightarrow> bot_channel \<Rightarrow> bot_world \<Rightarrow> bot_world" where
  "set_chan a c w = w\<lparr>bw_channels := (bw_channels w)[a := c]\<rparr>"

definition set_gate :: "nat \<Rightarrow> bot_gate \<Rightarrow> bot_world \<Rightarrow> bot_world" where
  "set_gate g x w = w\<lparr>bw_gates := (bw_gates w)[g := x]\<rparr>"

definition set_cache :: "nat \<Rightarrow> channel_cache \<Rightarrow> bot_world \<Rightarrow> bot_world" where
  "set_cache g x w = w\<lparr>bw_caches := (bw_caches w)[bg_cache (gate g w) := x]\<rparr>"

definition log_event :: "bot_event \<Rightarrow> bot_world \<Rightarrow> bot_world" where
  "log_event e w = w\<lparr>bw_events := bw_events w @ [e]\<rparr>"

section \<open>Calls to the chat service\<close>

record 'r bot_attempt =
  ba_hosts :: "string list"
  ba_next :: "string option"
  ba_reply :: "(call_error, 'r) result"

text \<open>Select: the host of the channel while it is up, else what the round robin gives.\<close>

definition chat_select :: "string list \<Rightarrow> string option \<Rightarrow> bot_channel \<Rightarrow> string option \<times> bot_channel" where
  "chat_select hosts next c =
     (let c = (if bc_host c = ''lookup'' then c\<lparr>bc_host := []\<rparr> else c) in
      if bc_host c = [] then (next, c)
      else if bc_host c \<in> set hosts then (Some (bc_host c), c)
      else (next, c))"

definition chat_call_wrap :: "string \<Rightarrow> bool \<Rightarrow> bot_channel \<Rightarrow> bot_channel" where
  "chat_call_wrap addr failed c =
     (if failed then c\<lparr>bc_host := []\<rparr>
      else if bc_host c = [] then c\<lparr>bc_host := addr\<rparr>
      else if addr \<noteq> bc_host c then c\<lparr>bc_host := addr\<rparr> else c)"

definition none_available :: call_error where
  "none_available = \<lparr>ce_id = ''go.micro.client'', ce_detail = ''no available node''\<rparr>"

fun chat_call :: "'r bot_attempt list \<Rightarrow> bot_channel \<Rightarrow> (call_error, 'r) result \<times> bot_channel" where
  "chat_call [] c = (Fail none_available, c)"
| "chat_call (a # ats) c =
     (case chat_select (ba_hosts a) (ba_next a) c of
        (None, c) \<Rightarrow> if ats = [] then (Fail none_available, c) else chat_call ats c
      | (Some addr, c) \<Rightarrow>
          (case ba_reply a of
             Ok r \<Rightarrow> (Ok r, chat_call_wrap addr False c)
           | Fail e \<Rightarrow> (let c = chat_call_wrap addr True c in if ats = [] then (Fail e, c) else chat_call ats c)))"

definition channel_call :: "'r bot_attempt list \<Rightarrow> nat \<Rightarrow> bot_world \<Rightarrow> (call_error, 'r) result \<times> bot_world" where
  "channel_call ats a w = (let (r, c) = chat_call ats (chan a w) in (r, set_chan a c w))"

section \<open>Registration\<close>

datatype bot_error =
  BotRpc call_error | BotStatus string | BotTemplate | BotPolicy | BotProvider | BotPanic

text \<open>The errors of a provider that deregisters are only logged.\<close>

definition deregister :: "nat \<Rightarrow> bot_world \<Rightarrow> bot_world" where
  "deregister g w =
     (let uri = bg_uri (gate g w) in
      if map_of (bw_uris w) uri = Some (bg_id (gate g w))
        then log_event (ProviderDeregistered g) (w\<lparr>bw_uris := AList.delete uri (bw_uris w)\<rparr>)
      else w)"

definition remove_gate :: "nat \<Rightarrow> bot_world \<Rightarrow> bot_world" where
  "remove_gate g w =
     (let pid = bg_id (gate g w) in
      if map_of (bw_profiles w) pid = Some g
        then w\<lparr>bw_profiles := AList.delete pid (bw_profiles w), bw_uris := AList.delete (bg_uri (gate g w)) (bw_uris w)\<rparr>
      else w)"

definition gate_uri :: "web_lib \<Rightarrow> string \<Rightarrow> string option" where
  "gate_uri W uri =
     (case wl_parse W uri of
        None \<Rightarrow> None
      | Some rel \<Rightarrow> Some (if has_prefix (pu_path rel) ''/'' then pu_path rel else CHR ''/'' # pu_path rel))"

text \<open>The revision that ran before takes over whether the bot is enabled.\<close>

definition retire_revision :: "nat option \<Rightarrow> nat \<Rightarrow> string \<Rightarrow> bot_world \<Rightarrow> bot_world" where
  "retire_revision e g uri w =
     (case e of
        None \<Rightarrow> w
      | Some e \<Rightarrow>
          (let w = set_gate e ((gate e w)\<lparr>bg_enabled := bg_enabled (gate g w)\<rparr>) w in
           if \<not> bg_enabled (gate e w) \<and> cx_external (cache_of e w) = [] \<and> bg_uri (gate e w) \<noteq> uri
             then deregister e w else w))"

definition register_gate ::
  "web_lib \<Rightarrow> string \<Rightarrow> nat \<Rightarrow> bool \<Rightarrow> bool \<Rightarrow> bot_world \<Rightarrow> bot_error option \<times> bot_world" where
  "register_gate W site g force refused w =
     (let pid = bg_id (gate g w) in
      if pid = 0 \<or> bg_uri (gate g w) = [] then (Some BotPanic, w)
      else
        (case gate_uri W (bg_uri (gate g w)) of
           None \<Rightarrow> (Some BotPanic, w)
         | Some uri \<Rightarrow>
             (let w = set_gate g ((gate g w)\<lparr>bg_uri := uri\<rparr>) w;
                  e = map_of (bw_profiles w) pid;
                  w = w\<lparr>bw_profiles := AList.update pid g (bw_profiles w), bw_uris := AList.update uri pid (bw_uris w)\<rparr>;
                  w = retire_revision e g uri w;
                  link = rev (dropWhile (\<lambda>x. x = CHR ''/'') (rev site)) @ uri;
                  w = (if force then log_event (ProviderRegistered g link) w else w) in
              if force \<and> refused then (Some BotProvider, remove_gate g w) else (None, w))))"

section \<open>Closing\<close>

definition is_new :: "bot_channel \<Rightarrow> bool" where
  "is_new c \<longleftrightarrow> bc_id c = []"

definition is_cached :: "nat \<Rightarrow> bot_world \<Rightarrow> bool" where
  "is_cached a w \<longleftrightarrow> map_of (cx_external (cache_of (bc_gate (chan a w)) w)) (bc_chat (chan a w)) = Some a"

definition uncache :: "nat \<Rightarrow> bot_world \<Rightarrow> bot_world" where
  "uncache a w =
     (let c = chan a w; x = cache_of (bc_gate c) w in
      set_cache (bc_gate c)
        (x\<lparr>cx_external := AList.delete (bc_chat c) (cx_external x),
           cx_internal := AList.delete (bn_id (bc_account c)) (cx_internal x)\<rparr>) w)"

text \<open>The channel leaves the caches; the last one of a gateway that was deleted takes it along.\<close>

definition drop_channel :: "nat \<Rightarrow> bot_world \<Rightarrow> bot_world" where
  "drop_channel a w =
     (let g = bc_gate (chan a w); w = uncache a w in
      if cx_external (cache_of g w) = [] \<and> bg_deleted (gate g w)
        then log_event (ProviderClosed g) (remove_gate g (deregister g w))
      else w)"

text \<open>Close, in the steps between which it holds no lock.  Under the lock of the gateway it looks whether the channel is
  cached, and drops one that is closed.  After that it tests Closed, sets it and calls the chat service: each of
  these is a step of its own.\<close>

definition close_enter :: "nat \<Rightarrow> bot_world \<Rightarrow> bool \<times> bot_world" where
  "close_enter a w =
     (if \<not> is_cached a w then (False, w)
      else (True, if bc_closed (chan a w) \<noteq> 0 then drop_channel a w else w))"

definition close_test :: "nat \<Rightarrow> bot_world \<Rightarrow> bool" where
  "close_test a w \<longleftrightarrow> bc_closed (chan a w) = 0"

definition close_mark :: "int \<Rightarrow> nat \<Rightarrow> bot_world \<Rightarrow> bot_world" where
  "close_mark now a w =
     (let c = chan a w in
      log_event (CloseRequested (bc_session c) (bc_id c) (bn_id (bc_account c))) (set_chan a (c\<lparr>bc_closed := now\<rparr>) w))"

definition close_call :: "unit bot_attempt list \<Rightarrow> nat \<Rightarrow> bot_world \<Rightarrow> bot_error option \<times> bot_world" where
  "close_call ats a w =
     (case channel_call ats a w of
        (Ok _, w) \<Rightarrow> (None, w)
      | (Fail e, w) \<Rightarrow> (Some (BotRpc e), if is_cached a w then drop_channel a w else w))"

text \<open>A call of Close with nothing in between.\<close>

definition close_bot_channel :: "int \<Rightarrow> unit bot_attempt list \<Rightarrow> nat \<Rightarrow> bot_world \<Rightarrow> bot_error option \<times> bot_world" where
  "close_bot_channel now ats a w =
     (case close_enter a w of
        (False, w) \<Rightarrow> (None, w)
      | (True, w) \<Rightarrow> if close_test a w then close_call ats a (close_mark now a w) else (None, w))"

lemma drop_channel_chan: "chan b (drop_channel a w) = chan b w"
  by (simp add: drop_channel_def uncache_def deregister_def remove_gate_def Let_def log_event_def set_cache_def chan_def)

lemma close_bot_channel_eq:
  "close_bot_channel now ats a w =
     (if \<not> is_cached a w then (None, w)
      else if bc_closed (chan a w) \<noteq> 0 then (None, drop_channel a w)
      else close_call ats a (close_mark now a w))"
  by (simp add: close_bot_channel_def close_enter_def close_test_def drop_channel_chan)

section \<open>Starting\<close>

record start_reply =
  st_channel :: string
  st_conversation :: string

definition props_vars :: "bot_props \<Rightarrow> vars" where
  "props_vars p = (case p of Props v \<Rightarrow> v | _ \<Rightarrow> [])"

definition start_metadata :: "bot_channel \<Rightarrow> bot_gate \<Rightarrow> vars" where
  "start_metadata c g =
     (let u = bc_account c in
      vset ''flow'' (itoa (bg_flow g))
        (vset ''from'' (display_name u)
          (vset ''user'' (bn_contact u)
            (vset ''chat'' (bn_channel u) (vset ''cid'' (itoa (bn_id u)) (props_vars (bc_props c)))))))"

definition index_channel :: "nat \<Rightarrow> nat \<Rightarrow> bot_world \<Rightarrow> bot_world" where
  "index_channel g a w =
     (let c = chan a w; x = cache_of g w in
      set_cache g
        (x\<lparr>cx_external := AList.update (bc_chat c) a (cx_external x),
           cx_internal := AList.update (bn_id (bc_account c)) a (cx_internal x)\<rparr>) w)"

text \<open>What Start sets before the call; metadata that replaces a nil map is not kept.\<close>

definition prepared_channel :: "bot_channel \<Rightarrow> bot_gate \<Rightarrow> bot_channel" where
  "prepared_channel c g =
     (let c = (if bc_title c = [] then c\<lparr>bc_title := display_name (bc_account c)\<rparr> else c)
      in c\<lparr>bc_props := (if bc_props c = NilMap then NilMap else Props (start_metadata c g)),
           bc_host := (if bc_host c = [] then ''lookup'' else bc_host c)\<rparr>)"

definition start_of :: "bot_channel \<Rightarrow> bot_gate \<Rightarrow> notice \<Rightarrow> start_request" where
  "start_of c g m =
     \<lparr>sr_domain = bg_domain g, sr_title = bc_title (prepared_channel c g), sr_user = bn_id (bc_account c),
      sr_type = bn_channel (bc_account c), sr_connection = itoa (bg_id g), sr_message = m,
      sr_props = start_metadata c g\<rparr>"

definition start_bot_channel ::
  "start_reply bot_attempt list \<Rightarrow> nat \<Rightarrow> notice \<Rightarrow> bot_world \<Rightarrow> bot_error option \<times> bot_world" where
  "start_bot_channel ats a m w =
     (if nt_updated m \<noteq> 0 then (None, w)
      else
        (let c = chan a w; g = gate (bc_gate c) w;
             w = log_event (StartRequested (start_of c g m)) (set_chan a (prepared_channel c g) w) in
         case channel_call ats a w of
           (Fail e, w) \<Rightarrow> (Some (BotRpc e), w)
         | (Ok r, w) \<Rightarrow>
             (let w = set_chan a ((chan a w)\<lparr>bc_closed := 0, bc_id := st_channel r, bc_session := st_conversation r\<rparr>) w
              in (None, index_channel (bc_gate c) a w))))"

type_synonym bot_template = "nat \<Rightarrow> string \<Rightarrow> bot_account option \<Rightarrow> string option"

definition is_policy_error :: "call_error \<Rightarrow> notice \<Rightarrow> bool" where
  "is_policy_error e m \<longleftrightarrow> nt_file m \<noteq> None \<and> ce_detail e = ''policy.file.allow''"

definition policy_message :: "string \<Rightarrow> notice \<Rightarrow> notice" where
  "policy_message text m =
     m\<lparr>nt_text := (if text = [] then ''Forbidden file format'' else text), nt_file := None, nt_type := ''text''\<rparr>"

definition start_with_policy ::
  "bot_template \<Rightarrow> start_reply bot_attempt list \<Rightarrow> start_reply bot_attempt list \<Rightarrow> nat \<Rightarrow> notice \<Rightarrow> bot_world \<Rightarrow>
   bot_error option \<times> bot_world" where
  "start_with_policy T ats ats' a m w =
     (case start_bot_channel ats a m w of
        (Some (BotRpc e), w) \<Rightarrow>
          if is_policy_error e m then
            (case T (bc_gate (chan a w)) file_policy_fail None of
               None \<Rightarrow> (Some BotTemplate, w)
             | Some text \<Rightarrow> start_bot_channel ats' a (policy_message text m) w)
          else (Some (BotRpc e), w)
      | (r, w) \<Rightarrow> (r, w))"

section \<open>Messages of the customer\<close>

record check_reply =
  ck_client :: int
  ck_exists :: bool
  ck_channel :: string
  ck_props :: "vars option"

text \<open>The answers of the chat service and of the provider while an update is handled.\<close>

record bot_replies =
  br_check :: "(call_error, check_reply) result"
  br_start :: "start_reply bot_attempt list"
  br_restart :: "start_reply bot_attempt list"
  br_send :: "notice option bot_attempt list"
  br_delete :: "unit bot_attempt list"
  br_close :: "unit bot_attempt list"
  br_service :: "call_error option"
  br_refused :: bool
  br_bindings :: "vars option"

text \<open>Recv: the message is what the chat service made of it.\<close>

definition recover_bot_channel ::
  "bot_template \<Rightarrow> bot_replies \<Rightarrow> nat \<Rightarrow> notice \<Rightarrow> bot_world \<Rightarrow> bot_error option \<times> bot_world" where
  "recover_bot_channel T R a m w =
     (let w = set_chan a ((chan a w)\<lparr>bc_id := [], bc_session := [], bc_closed := 0\<rparr>) w in
      case start_with_policy T (br_start R) (br_restart R) a m w of
        (None, w) \<Rightarrow> (None, w)
      | (Some e, w) \<Rightarrow> (Some e, if is_cached a w then uncache a w else w))"

definition recv_message ::
  "bot_template \<Rightarrow> int \<Rightarrow> bot_replies \<Rightarrow> nat \<Rightarrow> notice \<Rightarrow> bot_world \<Rightarrow> bot_error option \<times> notice \<times> bot_world" where
  "recv_message T now R a m w =
     (let c = chan a w; closing = (nt_text m = ''/close'' \<and> nt_type m = ''text'') in
      if is_new c then
        (if closing then (None, m, w)
         else (let (e, w) = start_with_policy T (br_start R) (br_restart R) a m w in (e, m, w)))
      else if closing then (let (e, w) = close_bot_channel now (br_close R) a w in (e, m, w))
      else
        (case channel_call (br_send R) a
                (log_event (SendRequested (bc_id c) (bc_session c) (bn_id (bc_account c)) m) w) of
           (Ok r, w) \<Rightarrow> (None, (case r of None \<Rightarrow> m | Some m' \<Rightarrow> m'), w)
         | (Fail e, w) \<Rightarrow>
             if ce_id e = ''chat.send.channel.from.closed''
               then (let (e, w) = recover_bot_channel T R a m w in (e, m, w))
             else if is_policy_error e m then (Some BotPolicy, m, w)
             else (Some (BotRpc e), m, w)))"

definition delete_bot_message :: "bot_replies \<Rightarrow> nat \<Rightarrow> notice \<Rightarrow> bot_world \<Rightarrow> bot_error option \<times> bot_world" where
  "delete_bot_message R a m w =
     (let c = chan a w in
      case channel_call (br_delete R) a
             (log_event (DeleteRequested (bc_id c) (bc_session c) (bn_id (bc_account c)) (nt_id m) (nt_vars m)) w) of
        (Ok _, w) \<Rightarrow> (None, w)
      | (Fail e, w) \<Rightarrow> (Some (BotRpc e), w))"

definition delete_update :: "bot_replies \<Rightarrow> nat \<Rightarrow> bot_account option \<Rightarrow> notice \<Rightarrow> bot_world \<Rightarrow> bot_error option \<times> bot_world" where
  "delete_update R a contact m w =
     (case contact of None \<Rightarrow> (Some BotPanic, w) | Some _ \<Rightarrow> delete_bot_message R a m w)"

section \<open>GetChannel\<close>

definition cached_channel :: "nat \<Rightarrow> string \<Rightarrow> bot_account \<Rightarrow> bot_world \<Rightarrow> nat option" where
  "cached_channel g chat contact w =
     (let x = cache_of g w;
          a = (if bn_id contact \<noteq> 0 then map_of (cx_internal x) (bn_id contact) else None) in
      if a = None \<and> chat \<noteq> [] then map_of (cx_external x) chat else a)"

definition external_chat :: "string" where
  "external_chat = ''externalChatID''"

definition add_channel :: "bot_channel \<Rightarrow> nat \<Rightarrow> bot_world \<Rightarrow> nat \<times> bot_world" where
  "add_channel c g w =
     (let a = List.length (bw_channels w) in (a, index_channel g a (w\<lparr>bw_channels := bw_channels w @ [c]\<rparr>)))"

text \<open>The channel that the chat service knows, or a new one; with the chat it stands for.\<close>

definition load_channel ::
  "nat \<Rightarrow> string \<Rightarrow> bot_account \<Rightarrow> bot_replies \<Rightarrow> bot_world \<Rightarrow>
   (bot_error, nat \<times> string) result \<times> bot_account \<times> bot_world" where
  "load_channel g chat contact R w =
     (let title = display_name contact;
          w = log_event (SessionChecked (bg_id (gate g w)) (bn_contact contact) title (bn_channel contact)) w in
      case br_check R of
        Fail e \<Rightarrow> (Fail (BotRpc e), contact, w)
      | Ok r \<Rightarrow>
          (let contact = contact\<lparr>bn_id := ck_client r\<rparr>;
               c = \<lparr>bc_host = [], bc_title = title, bc_chat = chat, bc_account = contact, bc_id = [], bc_session = [],
                    bc_props = NoProps, bc_closed = 0, bc_gate = g\<rparr> in
           if ck_exists r \<and> ck_channel r \<noteq> [] then
             (let outer = vget (env_of (ck_props r)) external_chat;
                  chat = (if outer \<noteq> [] then outer else if chat = [] then bn_contact contact else chat);
                  (a, w) = add_channel (c\<lparr>bc_chat := chat, bc_id := ck_channel r,
                             bc_props := (case ck_props r of None \<Rightarrow> NilMap | Some v \<Rightarrow> Props v)\<rparr>) g w
              in (Ok (a, chat), contact, w))
           else
             (let chat = (if chat = [] then bn_contact contact else chat) in
              if \<not> bg_enabled (gate g w) then (Fail (BotStatus ''chat.bot.channel.disabled''), contact, w)
              else
                (let (a, w) = add_channel (c\<lparr>bc_chat := chat, bc_props := Props [(external_chat, chat)]\<rparr>) g w
                 in (Ok (a, chat), contact, w)))))"

text \<open>The name of the customer has changed.\<close>

definition set_prop :: "string \<Rightarrow> string \<Rightarrow> bot_props \<Rightarrow> bot_props" where
  "set_prop k v p = (case p of Props m \<Rightarrow> Props (vset k v m) | _ \<Rightarrow> p)"

definition renamed_channel :: "bot_template \<Rightarrow> nat \<Rightarrow> bot_account \<Rightarrow> bot_channel \<Rightarrow> bot_channel" where
  "renamed_channel T g contact c =
     (let u = (bc_account c)\<lparr>bn_first := bn_first contact, bn_last := bn_last contact, bn_username := bn_username contact\<rparr>;
          c = c\<lparr>bc_account := u, bc_props := set_prop ''from'' (display_name u) (bc_props c)\<rparr>
      in if is_new c then c else c\<lparr>bc_title := (case T g ''title'' (Some u) of None \<Rightarrow> [] | Some t \<Rightarrow> t)\<rparr>)"

text \<open>The customer has another number: only a chat that is in the cache is moved there.\<close>

definition move_chat :: "nat \<Rightarrow> nat \<Rightarrow> string \<Rightarrow> string \<Rightarrow> bot_world \<Rightarrow> bot_world" where
  "move_chat g a chat chat' w =
     (let c = chan a w;
          w = set_chan a (c\<lparr>bc_account := (bc_account c)\<lparr>bn_contact := chat'\<rparr>, bc_chat := chat',
                            bc_props := set_prop ''user'' chat' (bc_props c)\<rparr>) w;
          x = cache_of g w; ext = cx_external x in
      case map_of ext chat of
        None \<Rightarrow> w
      | Some e \<Rightarrow>
          (let ext = (if e = a then AList.delete chat ext else ext)
           in set_cache g (x\<lparr>cx_external := AList.update chat' a ext\<rparr>) w))"

definition stored_contact :: "bot_account \<Rightarrow> bot_event" where
  "stored_contact u =
     ContactStored (bn_id u) (bn_channel u) (bn_contact u) (if display_name u = ''noname'' then [] else display_name u)"

definition update_contact ::
  "bot_template \<Rightarrow> nat \<Rightarrow> nat \<Rightarrow> string \<Rightarrow> bot_account \<Rightarrow> bot_world \<Rightarrow> bot_world" where
  "update_contact T g a chat contact w =
     (let title = display_name contact;
          rename = (title \<noteq> ''noname'' \<and> title \<noteq> display_name (bc_account (chan a w)));
          w = (if rename then set_chan a (renamed_channel T g contact (chan a w)) w else w);
          chat' = bn_contact contact;
          move = (chat' \<noteq> [] \<and> chat \<noteq> [] \<and> chat' \<noteq> chat) in
      if move \<and> bn_channel (bc_account (chan a w)) \<noteq> ''whatsapp'' then w
      else
        (let w = (if move then move_chat g a chat chat' w else w) in
         if move \<or> rename then log_event (stored_contact (bc_account (chan a w))) w else w))"

definition given_contact :: "string \<Rightarrow> string \<Rightarrow> bot_account option \<Rightarrow> bot_account" where
  "given_contact provider chat contact =
     (case contact of
        None \<Rightarrow> \<lparr>bn_id = 0, bn_first = [], bn_last = [], bn_username = [], bn_channel = provider, bn_contact = chat\<rparr>
      | Some u \<Rightarrow> if bn_channel u = [] then u\<lparr>bn_channel := provider\<rparr> else u)"

definition get_bot_channel ::
  "bot_template \<Rightarrow> nat \<Rightarrow> string \<Rightarrow> bot_account option \<Rightarrow> bot_replies \<Rightarrow> bot_world \<Rightarrow>
   (bot_error, nat) result \<times> bot_world" where
  "get_bot_channel T g chat contact R w =
     (if contact = None \<and> chat = [] then (Fail (BotStatus ''not enough information''), w)
      else
        (let contact = given_contact (bg_provider (gate g w)) chat contact in
         case cached_channel g chat contact w of
           Some a \<Rightarrow> (Ok a, update_contact T g a chat contact w)
         | None \<Rightarrow>
             (case load_channel g chat contact R w of
                (Fail e, contact, w) \<Rightarrow> (Fail e, w)
              | (Ok (a, chat), contact, w) \<Rightarrow> (Ok a, update_contact T g a chat contact w))))"

section \<open>Messages to the customer\<close>

text \<open>Send: the notice of the end of the conversation closes the channel after it was delivered.\<close>

definition final_notice :: "notice \<Rightarrow> bool" where
  "final_notice m \<longleftrightarrow> nt_file m = None \<and> nt_text m \<noteq> [] \<and> nt_type m = ''closed''"

definition deliver_notice :: "int \<Rightarrow> nat \<Rightarrow> notice \<Rightarrow> bot_replies \<Rightarrow> bot_world \<Rightarrow> notice \<times> bot_world" where
  "deliver_notice now a m R w =
     (let c = chan a w;
          closing = (final_notice m \<and> \<not> is_new c);
          m = (if final_notice m then m\<lparr>nt_text := ''closed''\<rparr> else m);
          w = (if closing \<and> bc_closed c = 0 then set_chan a (c\<lparr>bc_closed := now\<rparr>) w else w);
          w = log_event (Notified (bc_gate c) a m) w
      in (m\<lparr>nt_vars := br_bindings R\<rparr>, if closing then snd (close_bot_channel now (br_close R) a w) else w))"

definition send_notify ::
  "bot_template \<Rightarrow> int \<Rightarrow> nat \<Rightarrow> int \<Rightarrow> string \<Rightarrow> notice \<Rightarrow> bot_replies \<Rightarrow> bot_world \<Rightarrow>
   bot_error option \<times> notice \<times> bot_world" where
  "send_notify T now g pid chat m R w =
     (if pid \<noteq> bg_id (gate g w) then (Some BotPanic, m, w)
      else
        (case get_bot_channel T g chat None R w of
           (Fail e, w) \<Rightarrow> (Some e, m, w)
         | (Ok a, w) \<Rightarrow> (if br_refused R then Some BotProvider else None, deliver_notice now a m R w)))"

definition service_message ::
  "string \<Rightarrow> notice \<Rightarrow> bot_replies \<Rightarrow> bot_world \<Rightarrow> bot_error option \<times> bot_world" where
  "service_message chat m R w = (map_option BotRpc (br_service R), log_event (ServiceRequested chat m) w)"

definition send_service_text :: "string \<Rightarrow> string \<Rightarrow> bot_replies \<Rightarrow> bot_world \<Rightarrow> bot_error option \<times> bot_world" where
  "send_service_text text chat R w =
     (if chat = [] then (Some (BotStatus ''empty chat id''), w)
      else if text = [] then (Some (BotStatus ''system messages can't be without text''), w)
      else service_message chat (zero_notice\<lparr>nt_type := ''text'', nt_text := text\<rparr>) R w)"

definition send_service_template ::
  "bot_template \<Rightarrow> nat \<Rightarrow> string \<Rightarrow> string \<Rightarrow> bot_account option \<Rightarrow> bot_replies \<Rightarrow> bot_world \<Rightarrow> bot_error option \<times> bot_world" where
  "send_service_template T g name chat context R w =
     (if chat = [] then (Some (BotStatus ''empty chat id''), w)
      else
        (case T g name context of
           None \<Rightarrow> (Some BotTemplate, w)
         | Some text \<Rightarrow>
             if text = [] \<and> name \<noteq> file_policy_fail then (None, w)
             else service_message chat
                    (zero_notice\<lparr>nt_type := ''text'', nt_text := text,
                       nt_vars := Some [(''from'', ''bot''), (''template'', name)]\<rparr>) R w))"

definition read_update ::
  "bot_template \<Rightarrow> int \<Rightarrow> nat \<Rightarrow> nat \<Rightarrow> bot_account option \<Rightarrow> notice \<Rightarrow> bot_replies \<Rightarrow> bot_world \<Rightarrow>
   bot_error option \<times> notice \<times> bot_world" where
  "read_update T now g a contact m R w =
     (case contact of
        None \<Rightarrow> (Some BotPanic, m, w)
      | Some u \<Rightarrow>
          (let c = chan a w;
               u = (if bn_channel u = [] then u\<lparr>bn_channel := bg_provider (gate (bc_gate c) w)\<rparr> else u);
               w = (if is_new c
                    then set_chan a (c\<lparr>bc_title := (case T g ''title'' (Some u) of None \<Rightarrow> [] | Some t \<Rightarrow> t)\<rparr>) w else w) in
           case recv_message T now R a m w of
             (Some BotPolicy, m, w) \<Rightarrow>
               (let c = chan a w; chat = (if bc_session c = [] then bc_id c else bc_session c);
                    (e, w) = send_service_template T g file_policy_fail chat None R w
                in (e, m, w))
           | (e, m, w) \<Rightarrow> (e, m, w)))"

end
