(* ===== verification/Bot_Service.thy ===== *)
theory Bot_Service
  imports Bot_Gateway Auth_Access
begin

text \<open>
  The service of the chat bots (bot/service.go, bot/bot.go, bot/store.go, bot/api.go): it keeps the
  gateways that run, sets up a gateway when its bot is first needed, routes webhooks to it and
  creates, updates and deletes the profiles of bots.

  The answers of the database, of the license service and of the drivers of the providers are data.
\<close>

section \<open>What the environment answers\<close>

record license_grant =
  lg_product :: string
  lg_errors :: "string list"
  lg_limit :: int

text \<open>The outcome of the authorization, the license, the number of enabled bots, the rows that a search
  finds, the id of a created row or the failure of a statement, and of the driver: whether it is known,
  its error when it is set up, whether it compiles templates, and whether it refuses to register.\<close>

record bot_env =
  be_auth :: "(string, authorization) result"
  be_license :: "(call_error, license_grant list) result"
  be_count :: "(call_error, int) result"
  be_found :: "(call_error, bot_profile list) result"
  be_created :: "(call_error, int) result"
  be_stored :: "call_error option"
  be_known :: bool
  be_driver :: "string option"
  be_templates :: bool
  be_refused :: bool

section \<open>Validation and setup\<close>

text \<open>Validate gives the profile with its URI in normal form.\<close>

definition validate_bot :: "web_lib \<Rightarrow> bool \<Rightarrow> 'm bot_profile_scheme \<Rightarrow> (bot_error, string) result" where
  "validate_bot W known e =
     (if bg_uri e = [] then Fail (BotStatus ''chat.bot.uri.required'')
      else
        (case wl_parse W (if has_prefix (bg_uri e) ''/'' then bg_uri e else CHR ''/'' # bg_uri e) of
           None \<Rightarrow> Fail (BotStatus ''chat.bot.uri.invalid'')
         | Some u \<Rightarrow>
             if pu_scheme u \<noteq> [] \<or> pu_host u \<noteq> [] \<or> pu_query u \<noteq> [] \<or> pu_more u \<noteq> []
               then Fail (BotStatus ''chat.bot.uri.invalid'')
             else if bg_enabled e \<and> bg_flow e = 0 then Fail (BotStatus ''chat.bot.flow.required'')
             else if bg_provider e = [] then Fail (BotStatus ''chat.bot.provider.required'')
             else if \<not> known then Fail (BotStatus ''chat.bot.provider.invalid'')
             else Ok (wl_string W u)))"

definition has_updates :: "bot_profile \<Rightarrow> bool" where
  "has_updates e = (case bg_updates e of None \<Rightarrow> False | Some ts \<Rightarrow> list_ex (\<lambda>t. trim_space t \<noteq> []) ts)"

text \<open>setup: the gateway shares the caches of the one that runs for the bot.\<close>

definition setup_gate :: "web_lib \<Rightarrow> bot_env \<Rightarrow> bot_profile \<Rightarrow> bot_world \<Rightarrow> (bot_error, nat) result \<times> bot_world" where
  "setup_gate W env e w =
     (case validate_bot W (be_known env) e of
        Fail x \<Rightarrow> (Fail x, w)
      | Ok uri \<Rightarrow>
          if be_driver env \<noteq> None then (Fail (BotStatus (the (be_driver env))), w)
          else if \<not> be_templates env \<and> has_updates e
            then (Fail (BotStatus (''chat.bot.'' @ bg_provider e @ ''.updates.not_implemented'')), w)
          else
            (let (k, caches) =
                   (case map_of (bw_profiles w) (bg_id e) of
                      Some run \<Rightarrow> (bg_cache (gate run w), bw_caches w)
                    | None \<Rightarrow> (List.length (bw_caches w), bw_caches w @ [\<lparr>cx_external = [], cx_internal = []\<rparr>]))
             in (Ok (List.length (bw_gates w)),
                 w\<lparr>bw_gates := bw_gates w @ [bot_profile.extend (e\<lparr>bg_uri := uri\<rparr>) \<lparr>bg_deleted = False, bg_cache = k\<rparr>],
                   bw_caches := caches\<rparr>)))"

section \<open>Lookup of a gateway\<close>

definition locate_bot :: "bot_env \<Rightarrow> (bot_error, bot_profile) result" where
  "locate_bot env =
     (case be_found env of
        Fail e \<Rightarrow> Fail (BotRpc e)
      | Ok [] \<Rightarrow> Fail (BotStatus ''chat.bot.locate.not_found'')
      | Ok [e] \<Rightarrow> Ok e
      | Ok _ \<Rightarrow> Fail (BotStatus ''chat.bot.locate.conflict''))"

definition lookup_refusal :: "int \<Rightarrow> string \<Rightarrow> bot_profile \<Rightarrow> string option" where
  "lookup_refusal pid uri e =
     (if bg_id e = 0 then Some ''chat.gateway.profile.not_found''
      else if pid \<noteq> 0 \<and> pid \<noteq> bg_id e then Some ''chat.bot.profile.not_found''
      else if bg_uri e = [] then Some ''chat.gateway.profile.url.missing''
      else if uri \<noteq> [] \<and> uri \<noteq> bg_uri e then Some ''chat.bot.profile.not_found''
      else None)"

definition start_gate :: "web_lib \<Rightarrow> string \<Rightarrow> bot_env \<Rightarrow> bot_profile \<Rightarrow> bot_world \<Rightarrow> (bot_error, nat) result \<times> bot_world" where
  "start_gate W site env e w =
     (case setup_gate W env e w of
        (Fail x, w) \<Rightarrow> (Fail x, w)
      | (Ok g, w) \<Rightarrow>
          (case register_gate W site g False False w of
             (Some x, w) \<Rightarrow> (Fail x, w)
           | (None, w) \<Rightarrow>
               (case map_of (bw_profiles w) (bg_id e) of
                  None \<Rightarrow> (Fail (BotStatus ''Failed startup bot's profile; something went wrong''), w)
                | Some g \<Rightarrow> (Ok g, w))))"

definition resolve_bot :: "int \<Rightarrow> string \<Rightarrow> bot_world \<Rightarrow> int" where
  "resolve_bot pid uri w =
     (if pid = 0 then (case map_of (bw_uris w) uri of None \<Rightarrow> 0 | Some p \<Rightarrow> p) else pid)"

definition service_gateway ::
  "web_lib \<Rightarrow> string \<Rightarrow> bot_env \<Rightarrow> int \<Rightarrow> string \<Rightarrow> bot_world \<Rightarrow> (bot_error, nat) result \<times> bot_world" where
  "service_gateway W site env pid uri w =
     (if pid = 0 \<and> uri = [] then (Fail (BotStatus ''chat.bot.lookup.missing''), w)
      else
        (let pid = resolve_bot pid uri w in
         case (if pid = 0 then None else map_of (bw_profiles w) pid) of
           Some g \<Rightarrow> (Ok g, w)
         | None \<Rightarrow>
             (case locate_bot env of
                Fail e \<Rightarrow> (Fail e, w)
              | Ok e \<Rightarrow>
                  (case lookup_refusal pid uri e of
                     Some x \<Rightarrow> (Fail (BotStatus x), w)
                   | None \<Rightarrow> start_gate W site env e w))))"

section \<open>Webhooks\<close>

datatype web_method = MethodOptions | MethodGet | MethodPost | MethodOther

datatype web_answer = AnswerOk | AnswerFile | AnswerHook nat | AnswerStatus nat

definition not_found_error :: "bot_error \<Rightarrow> bool" where
  "not_found_error e \<longleftrightarrow>
     e \<in> {BotStatus ''chat.bot.locate.not_found'', BotStatus ''chat.gateway.profile.not_found'',
          BotStatus ''chat.bot.profile.not_found''}"

definition trim_suffix :: "string \<Rightarrow> string \<Rightarrow> string" where
  "trim_suffix s x =
     (let n = List.length s - List.length x in if List.length x \<le> List.length s \<and> drop n s = x then take n s else s)"

text \<open>ServeHTTP; the argument says whether the path is a file below the root of the site.\<close>

definition serve_http ::
  "web_lib \<Rightarrow> string \<Rightarrow> bot_env \<Rightarrow> bool \<Rightarrow> web_method \<Rightarrow> string \<Rightarrow> bot_world \<Rightarrow> web_answer \<times> bot_world" where
  "serve_http W site env is_file meth path w =
     (if meth = MethodOther then (AnswerStatus 405, w)
      else if meth = MethodOptions then (AnswerOk, w)
      else if meth = MethodGet \<and> is_file then (AnswerFile, w)
      else
        (let uri = trim_suffix path ''/captcha'' in
         if uri = ''/favicon.ico'' then (AnswerStatus 404, w)
         else
           (case service_gateway W site env 0 uri w of
              (Fail e, w) \<Rightarrow> (AnswerStatus (if not_found_error e then 404 else 502), w)
            | (Ok g, w) \<Rightarrow> (AnswerHook g, w))))"

section \<open>Start and stop of the service\<close>

definition start_bots :: "web_lib \<Rightarrow> string \<Rightarrow> (bot_profile \<times> bot_env) list \<Rightarrow> bot_world \<Rightarrow> bot_world" where
  "start_bots W site =
     fold (\<lambda>(e, env) w.
       case setup_gate W env e w of
         (Fail _, w) \<Rightarrow> w
       | (Ok g, w) \<Rightarrow> snd (register_gate W site g False False w))"

definition close_service :: "bot_world \<Rightarrow> bot_world" where
  "close_service w =
     fold (\<lambda>(pid, g) w. log_event (ProviderClosed g) (remove_gate g w)) (bw_profiles w) w"

section \<open>Access\<close>

definition bot_access :: "bot_env \<Rightarrow> access_mode \<Rightarrow> (bot_error, authorization) result" where
  "bot_access env mode =
     (case be_auth env of
        Fail e \<Rightarrow> Fail (BotStatus e)
      | Ok a \<Rightarrow>
          (case has_objclass a ''chat_bots'' of
             None \<Rightarrow> Fail (BotStatus ''chat.bot.access.denied'')
           | Some s \<Rightarrow>
               if can_access a (Some s) mode then Ok a else Fail (BotStatus ''chat.bot.access.forbidden'')))"

text \<open>The license that counts: of the product, valid or exhausted.\<close>

definition license_counts :: "license_grant \<Rightarrow> bool" where
  "license_counts l \<longleftrightarrow>
     lg_product l = ''CHAT'' \<and> (lg_errors l = [] \<or> lg_errors l = [''product exhausted''])"

definition license_limit :: "license_grant list \<Rightarrow> int" where
  "license_limit ls = fold (\<lambda>l n. if license_counts l \<and> n < lg_limit l then lg_limit l else n) ls 0"

definition bots_limit :: "bot_env \<Rightarrow> int \<Rightarrow> bot_error option" where
  "bots_limit env delta =
     (case be_license env of
        Fail e \<Rightarrow> Some (BotRpc e)
      | Ok ls \<Rightarrow>
          if license_limit ls = 0 then Some (BotStatus ''bot.register.product.not_found'')
          else
            (case be_count env of
               Fail e \<Rightarrow> Some (BotRpc e)
             | Ok n \<Rightarrow>
                 if license_limit ls < n + delta then Some (BotStatus ''bot.register.limit.exhausted'') else None))"

section \<open>The profiles of bots\<close>

text \<open>CreateBot: a bot that is not enabled is stored and not started.\<close>

definition create_bot ::
  "web_lib \<Rightarrow> string \<Rightarrow> bot_env \<Rightarrow> bot_profile \<Rightarrow> bot_world \<Rightarrow> (bot_error, bot_profile) result \<times> bot_world" where
  "create_bot W site env add w =
     (case bot_access env mode_add of
        Fail e \<Rightarrow> (Fail e, w)
      | Ok a \<Rightarrow>
          (case (if bg_enabled add then bots_limit env 1 else None) of
             Some e \<Rightarrow> (Fail e, w)
           | None \<Rightarrow>
               (let add = add\<lparr>bg_id := 0, bg_domain := get_dc (au_creds a)\<rparr> in
                case setup_gate W env add w of
                  (Fail e, w) \<Rightarrow> (Fail e, w)
                | (Ok g, w) \<Rightarrow>
                    (case be_created env of
                       Fail e \<Rightarrow> (Fail (BotRpc e), w)
                     | Ok pid \<Rightarrow>
                         if pid = 0 then (Fail (BotStatus ''chat.bot.create.error''), w)
                         else
                           (let w = set_gate g ((gate g w)\<lparr>bg_id := pid\<rparr>) w in
                            if \<not> bg_enabled add then (Ok (bot_profile.truncate (gate g w)), w)
                            else
                              (case register_gate W site g True (be_refused env) w of
                                 (Some e, w) \<Rightarrow> (Fail e, w)
                               | (None, w) \<Rightarrow> (Ok (bot_profile.truncate (gate g w)), w)))))))"

definition readonly_fields :: "string list" where
  "readonly_fields =
     [''id'', ''dc'', ''uri'', ''provider'', ''created_at'', ''created_by'', ''updated_at'', ''updated_by'']"

definition writable_fields :: "string list" where
  "writable_fields = [''name'', ''flow'', ''enabled'', ''updates'', ''metadata'']"

definition fields_refusal :: "string list \<Rightarrow> bot_error option" where
  "fields_refusal fs =
     (case List.find (\<lambda>f. f \<notin> set writable_fields) fs of
        None \<Rightarrow> None
      | Some f \<Rightarrow>
          Some (BotStatus (if f \<in> set readonly_fields then ''chat.bot.update.field.readonly''
                           else ''chat.bot.update.field.invalid'')))"

definition merge_bot :: "string list \<Rightarrow> bot_profile \<Rightarrow> bot_profile \<Rightarrow> bot_profile" where
  "merge_bot fs old new =
     old\<lparr>bg_name := (if ''name'' \<in> set fs then bg_name new else bg_name old),
         bg_flow := (if ''flow'' \<in> set fs then bg_flow new else bg_flow old),
         bg_enabled := (if ''enabled'' \<in> set fs then bg_enabled new else bg_enabled old),
         bg_updates := (if ''updates'' \<in> set fs then bg_updates new else bg_updates old),
         bg_meta := (if ''metadata'' \<in> set fs then bg_meta new else bg_meta old)\<rparr>"

text \<open>UpdateBot with the mask of fields that FieldsMask made of the request's.\<close>

definition update_bot ::
  "web_lib \<Rightarrow> string \<Rightarrow> bot_env \<Rightarrow> string list \<Rightarrow> bot_profile \<Rightarrow> bot_world \<Rightarrow>
   (bot_error, bot_profile) result \<times> bot_world" where
  "update_bot W site env paths new w =
     (let fs = (if paths = [] then [''name'', ''flow'', ''enabled'', ''metadata'', ''updates''] else paths) in
      if bg_id new = 0 then (Fail (BotStatus ''chat.bot.update.id.required''), w)
      else
        (case fields_refusal fs of
           Some e \<Rightarrow> (Fail e, w)
         | None \<Rightarrow>
             (case bot_access env mode_write of
                Fail e \<Rightarrow> (Fail e, w)
              | Ok a \<Rightarrow>
                  (case locate_bot env of
                     Fail e \<Rightarrow> (Fail e, w)
                   | Ok old \<Rightarrow>
                       if bg_id old \<noteq> bg_id new then (Fail (BotStatus ''chat.bot.locate.not_found''), w)
                       else
                         (let res = merge_bot fs old new in
                          case (if bg_enabled res \<and> \<not> bg_enabled old then bots_limit env 1 else None) of
                            Some e \<Rightarrow> (Fail e, w)
                          | None \<Rightarrow>
                              (case setup_gate W env res w of
                                 (Fail e, w) \<Rightarrow> (Fail e, w)
                               | (Ok g, w) \<Rightarrow>
                                   (case be_stored env of
                                      Some e \<Rightarrow> (Fail (BotRpc e), w)
                                    | None \<Rightarrow>
                                        (let force = (bg_enabled res \<and> \<not> bg_enabled old) in
                                         case register_gate W site g force (be_refused env) w of
                                           (Some e, w) \<Rightarrow>
                                             (Fail e, set_gate g ((gate g w)\<lparr>bg_enabled := False\<rparr>) w)
                                         | (None, w) \<Rightarrow> (Ok (bot_profile.truncate (gate g w)), w)))))))))"

text \<open>What becomes of the gateway of a bot that was deleted.\<close>

definition retire_bot :: "int \<Rightarrow> bot_world \<Rightarrow> bot_world" where
  "retire_bot pid w =
     (case map_of (bw_profiles w) pid of
        None \<Rightarrow> w
      | Some g \<Rightarrow>
          (let w = set_gate g ((gate g w)\<lparr>bg_enabled := False, bg_deleted := True\<rparr>) w in
           if cx_external (cache_of g w) = [] then log_event (ProviderClosed g) (remove_gate g (deregister g w)) else w))"

definition delete_bots :: "bot_env \<Rightarrow> int list \<Rightarrow> bot_world \<Rightarrow> bot_error option \<times> bot_world" where
  "delete_bots env ids w =
     (if ids = [] \<or> hd ids = 0 then (Some (BotStatus ''chat.bot.delete.id.required''), w)
      else
        (case bot_access env mode_delete of
           Fail e \<Rightarrow> (Some e, w)
         | Ok a \<Rightarrow>
             (case be_found env of
                Fail e \<Rightarrow> (Some (BotRpc e), w)
              | Ok es \<Rightarrow>
                  if list_ex (\<lambda>i. i \<notin> bg_id ` set es) ids then (Some (BotStatus ''chat.bot.delete.not_found''), w)
                  else
                    (case be_stored env of
                       Some e \<Rightarrow> (Some (BotRpc e), w)
                     | None \<Rightarrow> (None, fold retire_bot ids w)))))"

text \<open>SelectBot asks for an authorization only.\<close>

definition select_bot :: "bot_env \<Rightarrow> int \<Rightarrow> string \<Rightarrow> (bot_error, bot_profile) result" where
  "select_bot env oid uri =
     (if oid = 0 \<and> uri = [] then Fail (BotStatus ''chat.bot.select.cond.missing'')
      else
        (case be_auth env of
           Fail e \<Rightarrow> Fail (BotStatus e)
         | Ok a \<Rightarrow>
             (case be_found env of
                Fail e \<Rightarrow> Fail (BotRpc e)
              | Ok [] \<Rightarrow> Fail (BotStatus ''chat.bot.select.not_found'')
              | Ok [e] \<Rightarrow> Ok e
              | Ok _ \<Rightarrow> Fail (BotStatus ''chat.bot.select.conflict''))))"

text \<open>SearchBot: the page and whether there is a next one; the limit is GetSize of the request.\<close>

definition search_bots :: "bot_env \<Rightarrow> int \<Rightarrow> (bot_error, bot_profile list \<times> bool) result" where
  "search_bots env limit =
     (case bot_access env mode_read of
        Fail e \<Rightarrow> Fail e
      | Ok a \<Rightarrow>
          (case be_found env of
             Fail e \<Rightarrow> Fail (BotRpc e)
           | Ok es \<Rightarrow>
               (let more = (0 < limit \<and> limit < int (List.length es))
                in Ok (if more then take (nat limit) es else es, more))))"

section \<open>Messages\<close>

text \<open>SendMessage answers with the bindings that the provider left in the message.\<close>

definition bot_send_message ::
  "web_lib \<Rightarrow> string \<Rightarrow> bot_env \<Rightarrow> bot_template \<Rightarrow> int \<Rightarrow> int \<Rightarrow> string \<Rightarrow> notice option \<Rightarrow> bot_replies \<Rightarrow> bot_world \<Rightarrow>
   (bot_error, vars option) result \<times> bot_world" where
  "bot_send_message W site env T now pid user msg R w =
     (if pid = 0 then (Fail (BotStatus ''chat.bot.send.profile_id.required''), w)
      else
        (case msg of
           None \<Rightarrow> (Fail (BotStatus ''chat.bot.send.message.required''), w)
         | Some m \<Rightarrow>
             (case service_gateway W site env pid [] w of
                (Fail e, w) \<Rightarrow> (Fail e, w)
              | (Ok g, w) \<Rightarrow>
                  (case send_notify T now g pid user m R w of
                     (Some e, _, w) \<Rightarrow> (Fail e, w)
                   | (None, m, w) \<Rightarrow>
                       (let sent = map_option (vdel []) (nt_vars m)
                        in (Ok (if env_of sent = [] then None else sent), w))))))"

text \<open>SendUserAction: None is a driver without the method.\<close>

definition bot_user_action ::
  "web_lib \<Rightarrow> string \<Rightarrow> bot_env \<Rightarrow> int \<Rightarrow> (call_error, bool) result option \<Rightarrow> bot_world \<Rightarrow> (bot_error, bool) result \<times> bot_world" where
  "bot_user_action W site env pid reply w =
     (case service_gateway W site env pid [] w of
        (Fail e, w) \<Rightarrow> (Fail e, w)
      | (Ok g, w) \<Rightarrow>
          if bg_id (gate g w) \<noteq> pid then (Fail (BotStatus ''chat.action.via.not_found''), w)
          else
            (case reply of
               None \<Rightarrow> (Ok False, w)
             | Some (Fail e) \<Rightarrow> (Fail (BotRpc e), w)
             | Some (Ok b) \<Rightarrow> (Ok b, w)))"

definition broadcast_type :: "notice \<Rightarrow> string" where
  "broadcast_type m =
     (let t = to_lower (trim_space (nt_type m)) in
      if t = [] then (if nt_file m \<noteq> None then ''file'' else ''text'') else t)"

definition broadcast_refusal :: "notice \<Rightarrow> string option" where
  "broadcast_refusal m =
     (if broadcast_type m = ''text'' then
        (if nt_text m = [] then Some ''chat.broadcast.message.text.required''
         else if nt_file m \<noteq> None then Some ''chat.broadcast.message.file.invalid'' else None)
      else if broadcast_type m = ''file'' then
        (case nt_file m of
           None \<Rightarrow> Some ''chat.broadcast.message.file.required''
         | Some f \<Rightarrow>
             if trim_space (fl_url f) = [] then Some ''chat.broadcast.message.file.url.required''
             else if trim_space (fl_name f) = [] then Some ''chat.broadcast.message.file.name.required''
             else if trim_space (fl_mime f) = [] then Some ''chat.broadcast.message.file.mime.required'' else None)
      else Some ''chat.broadcast.message.type.invalid'')"

text \<open>BroadcastMessage gives the gateway whose driver takes the message.\<close>

definition bot_broadcast ::
  "web_lib \<Rightarrow> string \<Rightarrow> bot_env \<Rightarrow> int \<Rightarrow> bool \<Rightarrow> notice option \<Rightarrow> bot_world \<Rightarrow> (bot_error, nat) result \<times> bot_world" where
  "bot_broadcast W site env pid supported msg w =
     (case msg of
        None \<Rightarrow> (Fail (BotStatus ''chat.broadcast.message.required''), w)
      | Some m \<Rightarrow>
          (case service_gateway W site env pid [] w of
             (Fail e, w) \<Rightarrow> (Fail e, w)
           | (Ok g, w) \<Rightarrow>
               if bg_id (gate g w) \<noteq> pid then (Fail (BotStatus ''chat.broadcast.from.not_found''), w)
               else if \<not> bg_enabled (gate g w) then (Fail (BotStatus ''chat.broadcast.from.disabled''), w)
               else if \<not> supported then (Fail (BotStatus ''chat.broadcast.from.not_supported''), w)
               else
                 (case broadcast_refusal m of
                    Some e \<Rightarrow> (Fail (BotStatus e), w)
                  | None \<Rightarrow> (Ok g, w))))"

end
