(* ===== verification/Bot_Channels.thy ===== *)
theory Bot_Channels
  imports Bot_Service
begin

text \<open>
  The store of the bots' channels: in every state that the service reaches, a gateway finds in its
  caches only channels of its own bot, each under the chat and the customer it stands for, and the
  index of the service leads to gateways of the bot that is asked for.
\<close>

section \<open>The invariant\<close>

definition cache_ok :: "bot_world \<Rightarrow> nat \<Rightarrow> channel_cache \<Rightarrow> bool" where
  "cache_ok w k x \<longleftrightarrow>
     distinct (map fst (cx_external x)) \<and>
     (\<forall>(s, a) \<in> set (cx_external x). a < length (bw_channels w) \<and> bc_chat (chan a w) = s \<and>
        bg_cache (gate (bc_gate (chan a w)) w) = k) \<and>
     (\<forall>(i, a) \<in> set (cx_internal x). a < length (bw_channels w) \<and> bn_id (bc_account (chan a w)) = i \<and>
        bg_cache (gate (bc_gate (chan a w)) w) = k)"

definition shares_ok :: "bot_world \<Rightarrow> bool" where
  "shares_ok w \<longleftrightarrow>
     (\<forall>g < length (bw_gates w). \<forall>h < length (bw_gates w).
        bg_cache (gate g w) = bg_cache (gate h w) \<longrightarrow> bg_id (gate g w) = bg_id (gate h w))"

definition gates_ok :: "bot_world \<Rightarrow> bool" where
  "gates_ok w \<longleftrightarrow>
     (\<forall>a < length (bw_channels w). bc_gate (chan a w) < length (bw_gates w)) \<and>
     (\<forall>g < length (bw_gates w). bg_cache (gate g w) < length (bw_caches w)) \<and>
     shares_ok w \<and>
     (\<forall>(p, g) \<in> set (bw_profiles w). p \<noteq> 0 \<and> g < length (bw_gates w) \<and> bg_id (gate g w) = p)"

definition store_ok :: "bot_world \<Rightarrow> bool" where
  "store_ok w \<longleftrightarrow> gates_ok w \<and> (\<forall>k < length (bw_caches w). cache_ok w k (bw_caches w ! k))"

definition place :: "bot_channel \<Rightarrow> string \<times> int \<times> nat" where
  "place c = (bc_chat c, bn_id (bc_account c), bc_gate c)"

text \<open>What leaves the addresses valid.\<close>

definition extends :: "bot_world \<Rightarrow> bot_world \<Rightarrow> bool" where
  "extends w w' \<longleftrightarrow> length (bw_channels w) \<le> length (bw_channels w') \<and> length (bw_gates w) \<le> length (bw_gates w')"

lemma extends_refl [simp]: "extends w w"
  and extends_trans: "extends u v \<Longrightarrow> extends v w \<Longrightarrow> extends u w"
  by (simp_all add: extends_def)

section \<open>The primitives\<close>

lemma world_simps [simp]:
  "chan a (log_event e w) = chan a w" "gate g (log_event e w) = gate g w" "cache_of g (log_event e w) = cache_of g w"
  "gate g (set_chan a c w) = gate g w" "cache_of g (set_chan a c w) = cache_of g w"
  "chan a (set_cache g x w) = chan a w" "gate h (set_cache g x w) = gate h w"
  "chan a (set_gate g y w) = chan a w"
  "bw_channels (log_event e w) = bw_channels w" "bw_gates (log_event e w) = bw_gates w"
  "bw_caches (log_event e w) = bw_caches w" "bw_profiles (log_event e w) = bw_profiles w"
  "bw_uris (log_event e w) = bw_uris w" "bw_events (log_event e w) = bw_events w @ [e]"
  "bw_gates (set_chan a c w) = bw_gates w" "bw_caches (set_chan a c w) = bw_caches w"
  "bw_profiles (set_chan a c w) = bw_profiles w" "bw_uris (set_chan a c w) = bw_uris w"
  "bw_events (set_chan a c w) = bw_events w" "length (bw_channels (set_chan a c w)) = length (bw_channels w)"
  "bw_channels (set_cache g x w) = bw_channels w" "bw_gates (set_cache g x w) = bw_gates w"
  "bw_profiles (set_cache g x w) = bw_profiles w" "bw_uris (set_cache g x w) = bw_uris w"
  "bw_events (set_cache g x w) = bw_events w" "length (bw_caches (set_cache g x w)) = length (bw_caches w)"
  "bw_channels (set_gate g y w) = bw_channels w" "bw_caches (set_gate g y w) = bw_caches w"
  "bw_profiles (set_gate g y w) = bw_profiles w" "bw_uris (set_gate g y w) = bw_uris w"
  "bw_events (set_gate g y w) = bw_events w" "length (bw_gates (set_gate g y w)) = length (bw_gates w)"
  by (simp_all add: chan_def gate_def cache_of_def log_event_def set_chan_def set_cache_def set_gate_def)

lemma chan_set_chan: "chan b (set_chan a c w) = (if b = a \<and> a < length (bw_channels w) then c else chan b w)"
  by (cases "b = a"; cases "a < length (bw_channels w)") (simp_all add: chan_def set_chan_def list_update_beyond)

lemma gate_set_gate: "gate h (set_gate g y w) = (if h = g \<and> g < length (bw_gates w) then y else gate h w)"
  by (cases "h = g"; cases "g < length (bw_gates w)") (simp_all add: gate_def set_gate_def list_update_beyond)

lemma cache_set_cache:
  "bg_cache (gate g w) < length (bw_caches w) \<Longrightarrow>
   cache_of h (set_cache g x w) = (if bg_cache (gate h w) = bg_cache (gate g w) then x else cache_of h w)"
  by (simp add: cache_of_def set_cache_def gate_def nth_list_update)

lemma extends_simps [simp]:
  "extends w (log_event e w)" "extends w (set_chan a c w)" "extends w (set_cache g x w)" "extends w (set_gate g y w)"
  by (simp_all add: extends_def)

lemma set_update_subset: "set (AList.update k v xs) \<subseteq> insert (k, v) (set xs)"
  by (induction xs) (auto split: if_splits)

lemma set_delete_subset: "set (AList.delete k xs) \<subseteq> set xs"
  by (auto simp: AList.delete_eq)

lemma shares_ok_cong:
  "length (bw_gates w') = length (bw_gates w) \<Longrightarrow> \<forall>g. bg_cache (gate g w') = bg_cache (gate g w) \<and> bg_id (gate g w') = bg_id (gate g w) \<Longrightarrow>
   shares_ok w' = shares_ok w"
  unfolding shares_ok_def by presburger

lemma shares_ok_simps [simp]:
  "shares_ok (log_event e w) = shares_ok w" "shares_ok (set_chan a c w) = shares_ok w"
  "shares_ok (set_cache g x w) = shares_ok w" "shares_ok (w\<lparr>bw_uris := u\<rparr>) = shares_ok w"
  "shares_ok (w\<lparr>bw_profiles := ps\<rparr>) = shares_ok w" "shares_ok (w\<lparr>bw_channels := cs\<rparr>) = shares_ok w"
  by (rule shares_ok_cong; simp add: gate_def)+

lemma store_okD:
  assumes "store_ok w"
  shows "a < length (bw_channels w) \<Longrightarrow> bc_gate (chan a w) < length (bw_gates w)"
    and "g < length (bw_gates w) \<Longrightarrow> bg_cache (gate g w) < length (bw_caches w)"
    and "g < length (bw_gates w) \<Longrightarrow> cache_ok w (bg_cache (gate g w)) (cache_of g w)"
  using assms by (auto simp: store_ok_def gates_ok_def cache_of_def)

lemma store_ok_log [simp]: "store_ok (log_event e w) = store_ok w"
  by (simp add: store_ok_def gates_ok_def cache_ok_def)

lemma store_ok_uris [simp]: "store_ok (w\<lparr>bw_uris := u\<rparr>) = store_ok w"
  by (simp add: store_ok_def gates_ok_def cache_ok_def chan_def gate_def)

lemma place_set_chan: "place c = place (chan a w) \<Longrightarrow> place (chan b (set_chan a c w)) = place (chan b w)"
  by (simp add: chan_set_chan)

lemma cache_ok_place:
  assumes "length (bw_channels w') = length (bw_channels w)" "\<forall>a. place (chan a w') = place (chan a w)"
    and "\<forall>g. bg_cache (gate g w') = bg_cache (gate g w)"
  shows "cache_ok w' k x = cache_ok w k x"
proof -
  have "bc_chat (chan a w') = bc_chat (chan a w)" "bn_id (bc_account (chan a w')) = bn_id (bc_account (chan a w))"
    "bc_gate (chan a w') = bc_gate (chan a w)" for a
    using assms(2) by (simp_all add: place_def)
  then show ?thesis using assms(1,3) by (simp add: cache_ok_def)
qed

lemma store_ok_set_chan:
  assumes "store_ok w" "place c = place (chan a w)"
  shows "store_ok (set_chan a c w)"
proof -
  have p: "\<forall>b. place (chan b (set_chan a c w)) = place (chan b w)" using assms(2) by (simp add: place_set_chan)
  then have g: "bc_gate (chan b (set_chan a c w)) = bc_gate (chan b w)" for b by (simp add: place_def)
  have "cache_ok (set_chan a c w) k x = cache_ok w k x" for k x
    by (rule cache_ok_place) (simp_all add: p)
  then show ?thesis using assms(1) g by (simp add: store_ok_def gates_ok_def)
qed

lemma cache_ok_set_cache [simp]: "cache_ok (set_cache g x w) k y = cache_ok w k y"
  by (simp add: cache_ok_def)

lemma store_ok_set_cache:
  assumes "store_ok w" "cache_ok w (bg_cache (gate g w)) x"
  shows "store_ok (set_cache g x w)"
proof -
  have "cache_ok w k (bw_caches (set_cache g x w) ! k)" if "k < length (bw_caches w)" for k
    using that assms by (cases "k = bg_cache (gate g w)") (simp_all add: set_cache_def store_ok_def)
  then show ?thesis using assms(1) by (simp add: store_ok_def gates_ok_def)
qed

lemma store_ok_set_gate:
  assumes "store_ok w" "bg_cache y = bg_cache (gate g w)" "bg_id y = bg_id (gate g w)"
  shows "store_ok (set_gate g y w)"
proof -
  have g: "bg_cache (gate h (set_gate g y w)) = bg_cache (gate h w)" "bg_id (gate h (set_gate g y w)) = bg_id (gate h w)" for h
    using assms(2,3) by (simp_all add: gate_set_gate)
  have "cache_ok (set_gate g y w) k x = cache_ok w k x" for k x
    by (rule cache_ok_place) (simp_all add: g)
  moreover have "shares_ok (set_gate g y w) = shares_ok w" by (rule shares_ok_cong) (simp_all add: g)
  ultimately show ?thesis using assms(1) g by (simp add: store_ok_def gates_ok_def)
qed

lemma store_ok_profiles:
  assumes "store_ok w" "\<forall>(p, g) \<in> set ps. p \<noteq> 0 \<and> g < length (bw_gates w) \<and> bg_id (gate g w) = p"
  shows "store_ok (w\<lparr>bw_profiles := ps\<rparr>)"
  using assms by (simp add: store_ok_def gates_ok_def cache_ok_def chan_def gate_def)

lemma cache_ok_subset:
  assumes "cache_ok w k x" "set (cx_external y) \<subseteq> set (cx_external x)" "set (cx_internal y) \<subseteq> set (cx_internal x)"
    and "distinct (map fst (cx_external y))"
  shows "cache_ok w k y"
  using assms unfolding cache_ok_def by blast

lemma cache_ok_index:
  assumes "cache_ok w k x" "a < length (bw_channels w)" "bg_cache (gate (bc_gate (chan a w)) w) = k"
    and "s = bc_chat (chan a w)" "i = bn_id (bc_account (chan a w))"
  shows "cache_ok w k (x\<lparr>cx_external := AList.update s a (cx_external x), cx_internal := AList.update i a (cx_internal x)\<rparr>)"
  using assms set_update_subset [of s a "cx_external x"] set_update_subset [of i a "cx_internal x"]
  by (auto simp: cache_ok_def distinct_update)

lemma store_ok_uncache: "store_ok w \<Longrightarrow> a < length (bw_channels w) \<Longrightarrow> store_ok (uncache a w)"
  unfolding uncache_def Let_def
  by (rule store_ok_set_cache, assumption, rule cache_ok_subset [OF store_okD(3)])
    (use store_okD(1,3) in \<open>auto simp: cache_ok_def distinct_delete set_delete_subset\<close>)

lemma store_ok_index:
  assumes "store_ok w" "a < length (bw_channels w)" "bg_cache (gate (bc_gate (chan a w)) w) = bg_cache (gate g w)"
    and "g < length (bw_gates w)"
  shows "store_ok (index_channel g a w)"
  unfolding index_channel_def Let_def
  using assms by (intro store_ok_set_cache cache_ok_index) (simp_all add: store_okD)


section \<open>The operations\<close>

text \<open>An operation keeps the invariant, and addresses stay what they are.\<close>

definition keeps :: "bot_world \<Rightarrow> bot_world \<Rightarrow> bool" where
  "keeps w w' \<longleftrightarrow> extends w w' \<and> (store_ok w \<longrightarrow> store_ok w')"

lemma keeps_refl [simp]: "keeps w w"
  and keeps_trans: "keeps u v \<Longrightarrow> keeps v w \<Longrightarrow> keeps u w"
  by (auto simp: keeps_def intro: extends_trans)

lemma keeps_prims:
  "keeps w (log_event e w)"
  "place c = place (chan a w) \<Longrightarrow> keeps w (set_chan a c w)"
  "bg_cache y = bg_cache (gate g w) \<Longrightarrow> bg_id y = bg_id (gate g w) \<Longrightarrow> keeps w (set_gate g y w)"
  "keeps w (w\<lparr>bw_uris := u\<rparr>)"
  "a < length (bw_channels w) \<Longrightarrow> keeps w (uncache a w)"
  by (simp_all add: keeps_def store_ok_set_chan store_ok_set_gate store_ok_uncache)
    (simp_all add: extends_def uncache_def Let_def)

lemma chat_call_host: "chat_call ats c = (r, c') \<Longrightarrow> \<exists>h. c' = c\<lparr>bc_host := h\<rparr>"
proof (induction ats arbitrary: c)
  case Nil
  then show ?case by (intro exI [of _ "bc_host c"]) simp
next
  case (Cons x xs)
  obtain p d where d: "chat_select (ba_hosts x) (ba_next x) c = (p, d)" by fastforce
  then have "\<exists>h. d = c\<lparr>bc_host := h\<rparr>"
    by (auto simp: chat_select_def Let_def split: if_splits intro: exI [of _ "bc_host c"])
  then obtain h where h: "d = c\<lparr>bc_host := h\<rparr>" by blast
  have wrap: "\<exists>h. chat_call_wrap addr f d = c\<lparr>bc_host := h\<rparr>" for addr f
    unfolding h by (auto simp: chat_call_wrap_def)
  have step: "\<exists>h. c' = c\<lparr>bc_host := h\<rparr>" if "chat_call xs e = (r, c')" "e = c\<lparr>bc_host := k\<rparr>" for e k
    using Cons.IH [OF that(1)] that(2) by auto
  show ?case
  proof (cases p)
    case None
    then show ?thesis using Cons.prems d h step by (auto split: if_splits)
  next
    case (Some addr)
    from wrap [of addr True] obtain k where k: "chat_call_wrap addr True d = c\<lparr>bc_host := k\<rparr>" by blast
    from wrap [of addr False] obtain k' where k': "chat_call_wrap addr False d = c\<lparr>bc_host := k'\<rparr>" by blast
    have "c' = c\<lparr>bc_host := k'\<rparr> \<or> c' = c\<lparr>bc_host := k\<rparr> \<or> chat_call xs (c\<lparr>bc_host := k\<rparr>) = (r, c')"
      using Cons.prems d Some k k' by (cases "ba_reply x"; cases "xs = []") simp_all
    then show ?thesis using step by blast
  qed
qed

lemma channel_call_effect:
  assumes "channel_call ats a w = (r, w')"
  shows "\<exists>h. w' = set_chan a ((chan a w)\<lparr>bc_host := h\<rparr>) w"
  using assms chat_call_host by (fastforce simp: channel_call_def split: prod.splits)

lemma channel_call_keeps: "channel_call ats a w = (r, w') \<Longrightarrow> keeps w w'"
  by (auto dest!: channel_call_effect intro!: keeps_prims(2) simp: place_def)

lemma set_chan_twice [simp]: "set_chan a d (set_chan a c w) = set_chan a d w"
  by (simp add: set_chan_def)

lemma profiles_subset:
  assumes "set ps \<subseteq> set (bw_profiles w)"
  shows "keeps w (w\<lparr>bw_profiles := ps\<rparr>)"
proof -
  have "store_ok w \<Longrightarrow> store_ok (w\<lparr>bw_profiles := ps\<rparr>)"
    using assms by (intro store_ok_profiles) (auto simp: store_ok_def gates_ok_def)
  then show ?thesis by (simp add: keeps_def extends_def)
qed

lemma deregister_keeps: "keeps w (deregister g w)"
proof -
  have "keeps w (log_event e (w\<lparr>bw_uris := u\<rparr>))" for e u by (rule keeps_trans [OF keeps_prims(4) keeps_prims(1)])
  then show ?thesis by (simp add: deregister_def Let_def)
qed

lemma remove_gate_keeps: "keeps w (remove_gate g w)"
proof -
  let ?ps = "AList.delete (bg_id (gate g w)) (bw_profiles w)" and ?us = "AList.delete (bg_uri (gate g w)) (bw_uris w)"
  have "keeps w ((w\<lparr>bw_profiles := ?ps\<rparr>)\<lparr>bw_uris := ?us\<rparr>)"
    by (rule keeps_trans [OF profiles_subset keeps_prims(4)]) (rule set_delete_subset)
  then show ?thesis by (simp add: remove_gate_def Let_def)
qed

lemma drop_channel_keeps: "a < length (bw_channels w) \<Longrightarrow> keeps w (drop_channel a w)"
  by (auto simp: drop_channel_def Let_def
      intro!: keeps_prims(5) keeps_trans [OF keeps_trans [OF keeps_trans [OF keeps_prims(5) deregister_keeps] remove_gate_keeps] keeps_prims(1)])

lemma retire_revision_keeps: "keeps w (retire_revision e g uri w)"
  by (auto simp: retire_revision_def Let_def split: option.splits
      intro!: keeps_prims(3) keeps_trans [OF keeps_prims(3) deregister_keeps])

lemma profiles_register:
  assumes "g < length (bw_gates w)" "bg_id (gate g w) \<noteq> 0"
  shows "keeps w (w\<lparr>bw_profiles := AList.update (bg_id (gate g w)) g (bw_profiles w)\<rparr>)"
proof -
  have "store_ok w \<Longrightarrow> store_ok (w\<lparr>bw_profiles := AList.update (bg_id (gate g w)) g (bw_profiles w)\<rparr>)"
    using assms set_update_subset [of "bg_id (gate g w)" g "bw_profiles w"]
    by (intro store_ok_profiles) (auto simp: store_ok_def gates_ok_def)
  then show ?thesis by (simp add: keeps_def extends_def)
qed

lemma register_gate_keeps:
  assumes "register_gate W site g force refused w = (e, w')" "g < length (bw_gates w)"
  shows "keeps w w'"
proof (cases "bg_id (gate g w) = 0 \<or> bg_uri (gate g w) = [] \<or> gate_uri W (bg_uri (gate g w)) = None")
  case True
  then show ?thesis using assms(1) by (auto simp: register_gate_def Let_def split: option.splits)
next
  case False
  then obtain uri where u: "gate_uri W (bg_uri (gate g w)) = Some uri" "bg_id (gate g w) \<noteq> 0" by auto
  let ?p = "bg_id (gate g w)"
  let ?a = "set_gate g ((gate g w)\<lparr>bg_uri := uri\<rparr>) w"
  let ?b = "?a\<lparr>bw_profiles := AList.update (bg_id (gate g ?a)) g (bw_profiles ?a)\<rparr>"
  let ?c = "?b\<lparr>bw_uris := AList.update uri ?p (bw_uris ?a)\<rparr>"
  let ?d = "retire_revision (map_of (bw_profiles ?a) ?p) g uri ?c"
  have i: "bg_id (gate g ?a) = ?p" by (simp add: gate_set_gate)
  have k: "keeps w ?a" by (rule keeps_prims(3)) simp_all
  have "keeps ?a ?b" using assms(2) u(2) by (intro profiles_register) (simp_all add: i)
  then have "keeps w ?d"
    by (intro keeps_trans [OF keeps_trans [OF keeps_trans [OF k _] keeps_prims(4)] retire_revision_keeps])
  moreover have c: "?c = ?a\<lparr>bw_profiles := AList.update ?p g (bw_profiles ?a), bw_uris := AList.update uri ?p (bw_uris ?a)\<rparr>"
    by (simp add: i)
  moreover have "keeps v (remove_gate g (log_event x v))" "keeps v (log_event x v)" for v x
    by (rule keeps_trans [OF keeps_prims(1) remove_gate_keeps], rule keeps_prims(1))
  ultimately show ?thesis
    using assms(1) False u(1) unfolding c
    by (auto simp: register_gate_def Let_def split: if_splits intro: keeps_trans)
qed

lemma setup_gate_keeps:
  assumes "setup_gate W env e w = (r, w')"
  shows "keeps w w' \<and> (\<forall>g. r = Ok g \<longrightarrow> g < length (bw_gates w'))"
proof (cases "\<exists>x. r = Fail x")
  case True
  then have "w' = w" using assms by (auto simp: setup_gate_def split: sum.splits if_splits prod.splits)
  then show ?thesis using True by auto
next
  case False
  define run where "run = map_of (bw_profiles w) (bg_id e)"
  define k where "k = (case run of Some g \<Rightarrow> bg_cache (gate g w) | None \<Rightarrow> length (bw_caches w))"
  define caches where "caches = (case run of Some g \<Rightarrow> bw_caches w | None \<Rightarrow> bw_caches w @ [\<lparr>cx_external = [], cx_internal = []\<rparr>])"
  obtain uri where w': "w' = w\<lparr>bw_gates := bw_gates w @ [bot_profile.extend (e\<lparr>bg_uri := uri\<rparr>) \<lparr>bg_deleted = False, bg_cache = k\<rparr>],
      bw_caches := caches\<rparr>" and r: "r = Ok (length (bw_gates w))"
    using assms False unfolding k_def caches_def run_def
    by (auto simp: setup_gate_def split: sum.splits if_splits option.splits)
  have l: "length (bw_gates w') = Suc (length (bw_gates w))" "bw_channels w' = bw_channels w" "bw_profiles w' = bw_profiles w"
    by (simp_all add: w')
  have g: "g < length (bw_gates w) \<Longrightarrow> gate g w' = gate g w" for g by (simp add: w' gate_def nth_append)
  have n: "bg_cache (gate (length (bw_gates w)) w') = k" "bg_id (gate (length (bw_gates w)) w') = bg_id e"
    by (simp_all add: w' gate_def bot_profile.extend_def)
  have c: "chan a w' = chan a w" for a by (simp add: w' chan_def)
  have "store_ok w'" if s: "store_ok w"
  proof -
    have run: "h < length (bw_gates w) \<and> bg_id (gate h w) = bg_id e" if "run = Some h" for h
      using s that map_of_SomeD [of "bw_profiles w" "bg_id e" h] by (auto simp: run_def store_ok_def gates_ok_def)
    have old: "bg_id (gate h w) = bg_id (gate i w)"
      if "h < length (bw_gates w)" "i < length (bw_gates w)" "bg_cache (gate h w) = bg_cache (gate i w)" for h i
      using s that unfolding store_ok_def gates_ok_def shares_ok_def by blast
    have share: "bg_id (gate h w) = bg_id e" if "h < length (bw_gates w)" "bg_cache (gate h w) = k" for h
    proof (cases run)
      case None
      then show ?thesis using that store_okD(2) [OF s that(1)] by (simp add: k_def)
    next
      case (Some i)
      then show ?thesis using old [of h i] that run [OF Some] by (simp add: k_def)
    qed
    have "bg_id (gate h w') = bg_id (gate i w')"
      if "h < length (bw_gates w')" "i < length (bw_gates w')" "bg_cache (gate h w') = bg_cache (gate i w')" for h i
    proof (cases "h = length (bw_gates w)"; cases "i = length (bw_gates w)")
      assume "h = length (bw_gates w)" "i \<noteq> length (bw_gates w)"
      then show ?thesis using that g share [of i] by (simp add: l less_Suc_eq n)
    next
      assume "h \<noteq> length (bw_gates w)" "i = length (bw_gates w)"
      then show ?thesis using that g share [of h] by (simp add: l less_Suc_eq n)
    next
      assume "h \<noteq> length (bw_gates w)" "i \<noteq> length (bw_gates w)"
      then show ?thesis using that g old [of h i] by (simp add: l less_Suc_eq)
    qed simp
    then have sh: "shares_ok w'" unfolding shares_ok_def by blast
    have len: "length (bw_caches w) \<le> length (bw_caches w')" "k < length (bw_caches w')"
      using run s by (cases run; auto simp: w' caches_def k_def dest: store_okD(2))+
    have gates: "gates_ok w'"
      using s sh len g n unfolding gates_ok_def store_ok_def l c
      by (auto simp: less_Suc_eq dest: store_okD(1) order.strict_trans2)
    have same: "cache_ok w i x \<Longrightarrow> cache_ok w' i x" for i x
      using store_okD(1) [OF s] g unfolding cache_ok_def l c by fastforce
    have "cache_ok w' i (bw_caches w' ! i)" if "i < length (bw_caches w')" for i
    proof (cases "i < length (bw_caches w)")
      case True
      then have "bw_caches w' ! i = bw_caches w ! i" by (cases run) (simp_all add: w' caches_def nth_append)
      then show ?thesis using s True same by (simp add: store_ok_def)
    next
      case False
      then have "bw_caches w' ! i = \<lparr>cx_external = [], cx_internal = []\<rparr>"
        using that by (cases run) (auto simp: w' caches_def nth_append)
      then show ?thesis by (simp add: cache_ok_def)
    qed
    then show ?thesis using gates by (simp add: store_ok_def)
  qed
  then show ?thesis using r l by (simp add: keeps_def extends_def)
qed

lemma close_steps_keep:
  "a < length (bw_channels w) \<Longrightarrow> keeps w (snd (close_enter a w))"
  "keeps w (close_mark now a w)"
  "a < length (bw_channels w) \<Longrightarrow> keeps w (snd (close_call ats a w))"
proof -
  show "keeps w (snd (close_enter a w))" if "a < length (bw_channels w)"
    using drop_channel_keeps [OF that] by (simp add: close_enter_def)
  show "keeps w (close_mark now a w)"
    unfolding close_mark_def Let_def by (rule keeps_trans [OF keeps_prims(2) keeps_prims(1)]) (simp add: place_def)
  show "keeps w (snd (close_call ats a w))" if l: "a < length (bw_channels w)"
  proof -
    obtain r u where u: "channel_call ats a w = (r, u)" by fastforce
    then have k: "keeps w u" by (rule channel_call_keeps)
    then have "keeps u (drop_channel a u)" using l by (intro drop_channel_keeps) (simp add: keeps_def extends_def)
    then show ?thesis using k keeps_trans [OF k] u by (simp add: close_call_def split: sum.split)
  qed
qed

lemma close_bot_channel_keeps:
  assumes "close_bot_channel now ats a w = (e, w')" "a < length (bw_channels w)"
  shows "keeps w w'"
proof -
  have l: "a < length (bw_channels (close_mark now a w))" using assms(2) by (simp add: close_mark_def Let_def)
  note k = keeps_trans [OF close_steps_keep(2) close_steps_keep(3) [OF l]]
  have "w' = w \<or> w' = drop_channel a w \<or> w' = snd (close_call ats a (close_mark now a w))"
    using assms(1) by (auto simp: close_bot_channel_eq split: if_splits)
  then show ?thesis using k drop_channel_keeps [OF assms(2)] keeps_refl by auto
qed

lemma start_bot_channel_keeps:
  assumes "start_bot_channel ats a m w = (e, w')" "a < length (bw_channels w)"
  shows "keeps w w'"
proof (cases "nt_updated m = 0")
  case True
  let ?g = "bc_gate (chan a w)"
  let ?v = "log_event (StartRequested (start_of (chan a w) (gate ?g w) m)) (set_chan a (prepared_channel (chan a w) (gate ?g w)) w)"
  have p: "place (prepared_channel (chan a w) x) = place (chan a w)" for x
    by (simp add: place_def prepared_channel_def Let_def)
  obtain r u where u: "channel_call ats a ?v = (r, u)" by fastforce
  from p have v: "keeps w ?v" by (intro keeps_trans [OF keeps_prims(2) keeps_prims(1)])
  with u have k: "keeps w u" using channel_call_keeps keeps_trans by blast
  obtain h where h: "u = set_chan a ((chan a ?v)\<lparr>bc_host := h\<rparr>) ?v" using channel_call_effect [OF u] by blast
  have pu: "place (chan a u) = place (chan a w)"
    using assms(2) p unfolding h by (simp add: chan_set_chan place_def)
  let ?x = "\<lambda>q. set_chan a ((chan a u)\<lparr>bc_closed := 0, bc_id := st_channel q, bc_session := st_conversation q\<rparr>) u"
  have x: "keeps u (?x q)" for q by (rule keeps_prims(2)) (simp add: place_def)
  have "keeps (?x q) (index_channel ?g a (?x q))" if "store_ok w" for q
  proof -
    have s: "store_ok (?x q)" using that k x by (simp add: keeps_def)
    have l: "a < length (bw_channels (?x q))" using assms(2) unfolding h by simp
    have g: "bc_gate (chan a (?x q)) = ?g" using pu l by (simp add: chan_set_chan place_def)
    have "store_ok (index_channel ?g a (?x q))"
      using store_okD(1) [OF s l] by (intro store_ok_index [OF s l]) (simp_all add: g)
    then show ?thesis by (simp add: keeps_def extends_def index_channel_def Let_def)
  qed
  moreover have "extends w (index_channel ?g a (?x q))" for q
    using keeps_trans [OF k x [of q]] by (simp add: keeps_def extends_def index_channel_def Let_def)
  ultimately have "keeps w (index_channel ?g a (?x q))" for q
    using keeps_trans [OF k x [of q]] by (auto simp: keeps_def)
  then show ?thesis using assms(1) True u k by (auto simp: start_bot_channel_def Let_def split: sum.splits)
next
  case False
  then show ?thesis using assms(1) by (simp add: start_bot_channel_def)
qed


section \<open>Messages and lookups\<close>

lemma keepsD: "keeps w w' \<Longrightarrow> a < length (bw_channels w) \<Longrightarrow> a < length (bw_channels w')"
  "keeps w w' \<Longrightarrow> g < length (bw_gates w) \<Longrightarrow> g < length (bw_gates w')"
  by (simp_all add: keeps_def extends_def)

lemma start_with_policy_keeps:
  assumes "start_with_policy T ats ats' a m w = (e, w')" "a < length (bw_channels w)"
  shows "keeps w w'"
proof -
  obtain r u where u: "start_bot_channel ats a m w = (r, u)" by fastforce
  note k = start_bot_channel_keeps [OF u assms(2)]
  have "keeps w v" if "start_bot_channel ats' a m' u = (q, v)" for m' q v
    using start_bot_channel_keeps [OF that keepsD(1) [OF k assms(2)]] k keeps_trans by blast
  then show ?thesis using assms(1) u k
    by (auto simp: start_with_policy_def split: option.splits bot_error.splits if_splits)
qed

lemma recover_bot_channel_keeps:
  assumes "recover_bot_channel T R a m w = (e, w')" "a < length (bw_channels w)"
  shows "keeps w w'"
proof -
  let ?v = "set_chan a ((chan a w)\<lparr>bc_id := [], bc_session := [], bc_closed := 0\<rparr>) w"
  have v: "keeps w ?v" by (rule keeps_prims(2)) (simp add: place_def)
  obtain r u where u: "start_with_policy T (br_start R) (br_restart R) a m ?v = (r, u)" by fastforce
  have k: "keeps w u" by (rule keeps_trans [OF v start_with_policy_keeps [OF u keepsD(1) [OF v assms(2)]]])
  then have "keeps w (uncache a u)" using keeps_prims(5) [of a u] keepsD(1) [OF k assms(2)] keeps_trans by blast
  then show ?thesis using assms(1) u k
    by (auto simp: recover_bot_channel_def Let_def split: option.splits if_splits)
qed

lemma recv_message_keeps:
  assumes "recv_message T now R a m w = (e, m', w')" "a < length (bw_channels w)"
  shows "keeps w w'"
proof -
  let ?v = "log_event (SendRequested (bc_id (chan a w)) (bc_session (chan a w)) (bn_id (bc_account (chan a w))) m) w"
  obtain r u where u: "channel_call (br_send R) a ?v = (r, u)" by fastforce
  have k: "keeps w u" using channel_call_keeps [OF u] keeps_prims(1) keeps_trans by blast
  have "keeps w v" if "recover_bot_channel T R a m u = (q, v)" for q v
    using recover_bot_channel_keeps [OF that keepsD(1) [OF k assms(2)]] k keeps_trans by blast
  moreover have "keeps w v" if "start_with_policy T (br_start R) (br_restart R) a m w = (q, v)" for q v
    using start_with_policy_keeps [OF that assms(2)] .
  moreover have "keeps w v" if "close_bot_channel now (br_close R) a w = (q, v)" for q v
    using close_bot_channel_keeps [OF that assms(2)] .
  ultimately show ?thesis using assms(1) u k
    by (auto simp: recv_message_def Let_def split: sum.splits if_splits prod.splits)
qed

lemma delete_update_keeps: "delete_update R a contact m w = (e, w') \<Longrightarrow> keeps w w'"
  by (auto simp: delete_update_def delete_bot_message_def Let_def split: option.splits sum.splits prod.splits
      dest!: channel_call_keeps intro: keeps_trans [OF keeps_prims(1)])

text \<open>The channel that stands for a chat of a gateway.\<close>

definition linked :: "nat \<Rightarrow> nat \<Rightarrow> string \<Rightarrow> bot_world \<Rightarrow> bool" where
  "linked g a chat w \<longleftrightarrow>
     g < length (bw_gates w) \<and> a < length (bw_channels w) \<and> bc_chat (chan a w) = chat \<and>
     bg_cache (gate (bc_gate (chan a w)) w) = bg_cache (gate g w)"

lemma store_ok_move:
  assumes "store_ok w" "\<forall>k < length (bw_caches w). a \<notin> snd ` set (cx_external (bw_caches w ! k))"
    and "bc_gate c = bc_gate (chan a w)" "bn_id (bc_account c) = bn_id (bc_account (chan a w))"
  shows "store_ok (set_chan a c w)"
proof -
  have g: "bc_gate (chan b (set_chan a c w)) = bc_gate (chan b w)"
    "bn_id (bc_account (chan b (set_chan a c w))) = bn_id (bc_account (chan b w))" for b
    using assms(3,4) by (simp_all add: chan_set_chan)
  have b: "b \<noteq> a \<Longrightarrow> bc_chat (chan b (set_chan a c w)) = bc_chat (chan b w)" for b by (simp add: chan_set_chan)
  have "cache_ok (set_chan a c w) k (bw_caches w ! k)" if k: "k < length (bw_caches w)" for k
  proof -
    have "cache_ok w k (bw_caches w ! k)" using assms(1) k by (simp add: store_ok_def)
    moreover have "a \<notin> snd ` set (cx_external (bw_caches w ! k))" using assms(2) k by blast
    moreover have n: "(s, d) \<in> set (cx_external (bw_caches w ! k)) \<Longrightarrow> d \<noteq> a" for s d
      using assms(2) k by (metis image_eqI snd_conv)
    ultimately show ?thesis unfolding cache_ok_def using b [OF n] by (simp add: g) fast
  qed
  then show ?thesis using assms(1) g by (simp add: store_ok_def gates_ok_def)
qed

lemma no_entry_elsewhere:
  assumes "store_ok w" "linked g a chat w" "k < length (bw_caches w)" "a \<in> snd ` set (cx_external (bw_caches w ! k))"
  shows "k = bg_cache (gate g w) \<and> (chat, a) \<in> set (cx_external (bw_caches w ! k))"
proof -
  from assms(4) obtain s where e: "(s, a) \<in> set (cx_external (bw_caches w ! k))" by auto
  have "cache_ok w k (bw_caches w ! k)" using assms(1,3) by (simp add: store_ok_def)
  with e have "bc_chat (chan a w) = s" "bg_cache (gate (bc_gate (chan a w)) w) = k" unfolding cache_ok_def by blast+
  then show ?thesis using e assms(2) by (simp add: linked_def)
qed

lemma set_cache_after: "set_cache g y (set_chan a c (set_cache g x w)) = set_cache g y (set_chan a c w)"
  by (simp add: set_cache_def set_chan_def gate_def)

lemma move_chat_keeps:
  assumes "linked g a chat w"
  shows "keeps w (move_chat g a chat chat' w)"
proof -
  let ?c = "(chan a w)\<lparr>bc_account := (bc_account (chan a w))\<lparr>bn_contact := chat'\<rparr>, bc_chat := chat',
      bc_props := set_prop ''user'' chat' (bc_props (chan a w))\<rparr>"
  let ?x = "cache_of g w"
  have c: "bc_gate ?c = bc_gate (chan a w)" "bn_id (bc_account ?c) = bn_id (bc_account (chan a w))" by simp_all
  have kg: "cache_of g w = bw_caches w ! bg_cache (gate g w)" by (simp add: cache_of_def)
  have "store_ok (move_chat g a chat chat' w)" if s: "store_ok w"
  proof (cases "map_of (cx_external ?x) chat")
    case None
    then have "chat \<notin> fst ` set (cx_external ?x)" by (simp add: map_of_eq_None_iff)
    then have "\<forall>k < length (bw_caches w). a \<notin> snd ` set (cx_external (bw_caches w ! k))"
      using no_entry_elsewhere [OF s assms] unfolding kg by (metis fst_conv image_eqI)
    then show ?thesis using None store_ok_move [OF s _ c] by (simp add: move_chat_def Let_def)
  next
    case (Some e)
    define ext where "ext = (if e = a then AList.delete chat (cx_external ?x) else cx_external ?x)"
    let ?y = "?x\<lparr>cx_external := ext\<rparr>"
    note d = store_okD(3) [OF s, of g]
    have g: "g < length (bw_gates w)" "a < length (bw_channels w)" using assms by (simp_all add: linked_def)
    have dist: "distinct (map fst (cx_external ?x))" using d g by (simp add: cache_ok_def)
    have sub: "set ext \<subseteq> set (cx_external ?x)" "distinct (map fst ext)"
      using dist set_delete_subset [of chat "cx_external ?x"] by (auto simp: ext_def distinct_delete)
    have no: "(chat, a) \<notin> set ext"
    proof (cases "e = a")
      case True
      then show ?thesis using delete_notin_dom [of chat "cx_external ?x"] by (auto simp: ext_def rev_image_eqI)
    next
      case False
      have "(chat, a) \<notin> set (cx_external ?x)"
      proof
        assume "(chat, a) \<in> set (cx_external ?x)"
        then have "map_of (cx_external ?x) chat = Some a" by (rule map_of_is_SomeI [OF dist])
        then show False using Some False by simp
      qed
      then show ?thesis using False by (simp add: ext_def)
    qed
    have s1: "store_ok (set_cache g ?y w)"
      using s sub d g by (intro store_ok_set_cache cache_ok_subset [OF d]) auto
    have l1: "linked g a chat (set_cache g ?y w)" using assms by (simp add: linked_def)
    have kl: "bg_cache (gate g w) < length (bw_caches w)" using store_okD(2) [OF s g(1)] .
    have "a \<notin> snd ` set (cx_external (bw_caches (set_cache g ?y w) ! k))" if "k < length (bw_caches w)" for k
    proof
      assume "a \<in> snd ` set (cx_external (bw_caches (set_cache g ?y w) ! k))"
      note e = this
      have "k < length (bw_caches (set_cache g ?y w))" using that by simp
      note n = no_entry_elsewhere [OF s1 l1 this e]
      from n have k: "k = bg_cache (gate g w)" by simp
      have "(chat, a) \<in> set (cx_external (bw_caches (set_cache g ?y w) ! bg_cache (gate g w)))"
        using conjunct2 [OF n] unfolding k .
      then have "(chat, a) \<in> set ext" using kl by (simp add: set_cache_def)
      then show False using no by simp
    qed
    then have s2: "store_ok (set_chan a ?c (set_cache g ?y w))"
      using store_ok_move [OF s1, of a ?c] c by simp
    let ?v = "set_chan a ?c (set_cache g ?y w)"
    have cv: "cache_of g ?v = ?y" using cache_set_cache [OF kl] by simp
    have ch: "chan a ?v = ?c" using g(2) by (simp add: chan_set_chan)
    have "cache_ok ?v (bg_cache (gate g ?v)) (?y\<lparr>cx_external := AList.update chat' a ext\<rparr>)"
    proof -
      have "cache_ok ?v (bg_cache (gate g ?v)) ?y" using store_okD(3) [OF s2, of g] g cv by simp
      then show ?thesis
        using g(2) assms set_update_subset [of chat' a ext] sub(2) ch
        by (auto simp: cache_ok_def linked_def distinct_update)
    qed
    then have "store_ok (set_cache g (?y\<lparr>cx_external := AList.update chat' a ext\<rparr>) ?v)"
      using s2 by (intro store_ok_set_cache)
    moreover have "move_chat g a chat chat' w = set_cache g (?y\<lparr>cx_external := AList.update chat' a ext\<rparr>) ?v"
      using Some by (simp add: move_chat_def Let_def ext_def set_cache_after)
    ultimately show ?thesis by simp
  qed
  then show ?thesis
    by (auto simp: keeps_def extends_def move_chat_def Let_def split: option.splits)
qed


lemma renamed_channel_place: "place (renamed_channel T g u c) = place c"
  by (simp add: renamed_channel_def Let_def place_def)

lemma linked_set_chan: "linked g a chat w \<Longrightarrow> place c = place (chan b w) \<Longrightarrow> linked g a chat (set_chan b c w)"
  by (auto simp: linked_def chan_set_chan place_def)

lemma update_contact_keeps:
  assumes "linked g a chat w"
  shows "keeps w (update_contact T g a chat u w)"
proof -
  define v where "v = (if display_name u \<noteq> ''noname'' \<and> display_name u \<noteq> display_name (bc_account (chan a w))
    then set_chan a (renamed_channel T g u (chan a w)) w else w)"
  have v: "keeps w v" by (simp add: v_def keeps_prims(2) renamed_channel_place)
  have l: "linked g a chat v" using assms by (simp add: v_def linked_set_chan renamed_channel_place)
  have m: "keeps w (move_chat g a chat chat' v)" for chat' by (rule keeps_trans [OF v move_chat_keeps [OF l]])
  have "keeps w (log_event x y)" if "keeps w y" for x y by (rule keeps_trans [OF that keeps_prims(1)])
  then show ?thesis using v m unfolding update_contact_def Let_def v_def [symmetric] by (simp split: if_split)
qed

lemma add_channel_linked:
  assumes "add_channel c g w = (a, w')" "bc_gate c = g" "g < length (bw_gates w)"
  shows "keeps w w' \<and> linked g a (bc_chat c) w'"
proof -
  let ?v = "w\<lparr>bw_channels := bw_channels w @ [c]\<rparr>"
  have a: "a = length (bw_channels w)" "w' = index_channel g a ?v" using assms(1) by (auto simp: add_channel_def Let_def)
  have ch: "chan b ?v = (if b = a then c else chan b w)" if "b \<le> a" for b
    using that a by (auto simp: chan_def nth_append)
  have g: "gate h ?v = gate h w" for h by (simp add: gate_def)
  have l: "linked g a (bc_chat c) ?v" using assms(2,3) ch [of a] a by (simp add: linked_def g)
  have "store_ok w'" if s: "store_ok w"
  proof -
    have "cache_ok ?v k x" if "cache_ok w k x" for k x
      using that a ch unfolding cache_ok_def by (fastforce simp: g)
    moreover have "gates_ok ?v" using s assms(2,3) a ch by (auto simp: store_ok_def gates_ok_def g less_Suc_eq)
    ultimately have "store_ok ?v" using s by (simp add: store_ok_def)
    then show ?thesis unfolding a(2) using l by (intro store_ok_index) (simp_all add: linked_def)
  qed
  moreover have "extends w w'" unfolding a(2) by (simp add: extends_def index_channel_def Let_def)
  moreover have "linked g a (bc_chat c) w'" using l unfolding a(2) by (simp add: linked_def index_channel_def Let_def)
  ultimately show ?thesis by (simp add: keeps_def)
qed

lemma load_channel_effect:
  assumes "load_channel g chat u R w = (r, u', w')" "g < length (bw_gates w)"
  shows "keeps w w' \<and> (\<forall>a c. r = Ok (a, c) \<longrightarrow> linked g a c w')"
proof -
  let ?v = "log_event (SessionChecked (bg_id (gate g w)) (bn_contact u) (display_name u) (bn_channel u)) w"
  have v: "keeps w ?v" by (rule keeps_prims(1))
  have "keeps w y \<and> linked g x (bc_chat c) y" if "add_channel c g ?v = (x, y)" "bc_gate c = g" for c x y
    using add_channel_linked [OF that] assms(2) v keeps_trans by auto
  then show ?thesis using assms(1) v
    by (fastforce simp: load_channel_def Let_def split: sum.splits if_splits prod.splits)
qed

lemma cached_channel_linked:
  assumes "cached_channel g chat u w = Some a" "bn_id u = 0" "store_ok w" "g < length (bw_gates w)"
  shows "linked g a chat w"
proof -
  have "(chat, a) \<in> set (cx_external (cache_of g w))"
    using assms(1,2) by (auto simp: cached_channel_def Let_def split: if_splits dest: map_of_SomeD)
  then show ?thesis using store_okD(3) [OF assms(3,4)] assms(4) unfolding cache_ok_def linked_def by blast
qed

text \<open>The drivers of the providers look customers up by their contact, not by an id.\<close>

definition by_contact :: "bot_account option \<Rightarrow> bool" where
  "by_contact u \<longleftrightarrow> (case u of None \<Rightarrow> True | Some u \<Rightarrow> bn_id u = 0)"

lemma update_contact_lengths [simp]:
  "length (bw_channels (update_contact T g a chat u w)) = length (bw_channels w)"
  by (simp add: update_contact_def Let_def move_chat_def split: option.splits)

lemma get_bot_channel_effect:
  assumes "get_bot_channel T g chat u R w = (r, w')" "g < length (bw_gates w)" "by_contact u" "store_ok w"
  shows "keeps w w' \<and> (\<forall>a. r = Ok a \<longrightarrow> a < length (bw_channels w'))"
proof -
  define u' where "u' = given_contact (bg_provider (gate g w)) chat u"
  have z: "bn_id u' = 0" using assms(3) by (auto simp: u'_def given_contact_def by_contact_def split: option.splits)
  show ?thesis
  proof (cases "u = None \<and> chat = []")
    case True
    then show ?thesis using assms(1) by (auto simp: get_bot_channel_def)
  next
    case False
    then have r: "(case cached_channel g chat u' w of
           Some a \<Rightarrow> (Ok a, update_contact T g a chat u' w)
         | None \<Rightarrow> (case load_channel g chat u' R w of
                (Fail e, contact, w) \<Rightarrow> (Fail e, w)
              | (Ok (a, chat), contact, w) \<Rightarrow> (Ok a, update_contact T g a chat contact w))) = (r, w')"
      using assms(1) unfolding get_bot_channel_def u'_def Let_def by (simp only: False if_False)
    show ?thesis
    proof (cases "cached_channel g chat u' w")
      case (Some a)
      note l = cached_channel_linked [OF Some z assms(4,2)]
      from Some r have "r = Ok a" "w' = update_contact T g a chat u' w" by simp_all
      then show ?thesis using update_contact_keeps [OF l, of T u'] l by (simp add: linked_def)
    next
      case None
      obtain q x v where q: "load_channel g chat u' R w = (q, x, v)" by (metis prod.exhaust)
      note e = load_channel_effect [OF q assms(2)]
      show ?thesis
      proof (cases q)
        case (Inl e')
        then show ?thesis using r None q e by auto
      next
        case (Inr p)
        obtain a c where p: "p = (a, c)" by fastforce
        then have l: "linked g a c v" using e Inr by simp
        from r None q Inr p have "r = Ok a" "w' = update_contact T g a c x v" by simp_all
        then show ?thesis using e update_contact_keeps [OF l, of T x] l keeps_trans by (auto simp: linked_def)
      qed
    qed
  qed
qed

lemma deliver_notice_keeps:
  assumes "deliver_notice now a m R w = (m', w')" "a < length (bw_channels w)"
  shows "keeps w w'"
proof -
  define x where "x = (if (final_notice m \<and> \<not> is_new (chan a w)) \<and> bc_closed (chan a w) = 0
    then set_chan a ((chan a w)\<lparr>bc_closed := now\<rparr>) w else w)"
  have x: "keeps w x" "a < length (bw_channels x)" using assms(2) by (simp_all add: x_def place_def keeps_prims(2))
  have y: "keeps w (log_event b x)" for b by (rule keeps_trans [OF x(1) keeps_prims(1)])
  have "keeps w (snd (close_bot_channel now (br_close R) a (log_event b x)))" for b
    by (rule keeps_trans [OF y close_bot_channel_keeps [OF prod.collapse [symmetric]]]) (simp add: x(2))
  then show ?thesis using assms(1) y unfolding deliver_notice_def Let_def x_def [symmetric] by (auto split: if_splits)
qed

lemma send_notify_keeps:
  assumes "send_notify T now g pid chat m R w = (e, m', w')" "g < length (bw_gates w)" "store_ok w"
  shows "keeps w w'"
proof -
  obtain r v where v: "get_bot_channel T g chat None R w = (r, v)" by fastforce
  have k: "keeps w v" "\<And>a. r = Ok a \<Longrightarrow> a < length (bw_channels v)"
    using get_bot_channel_effect [OF v assms(2) _ assms(3)] by (auto simp: by_contact_def)
  have "keeps w (snd (deliver_notice now a m R v))" if "r = Ok a" for a
    by (rule keeps_trans [OF k(1) deliver_notice_keeps [OF prod.collapse [symmetric] k(2) [OF that]]])
  then show ?thesis using assms(1) v k(1) by (auto simp: send_notify_def split: if_splits sum.splits)
qed

lemma service_template_keeps: "send_service_template T g n chat x R w = (e, w') \<Longrightarrow> keeps w w'"
  by (auto simp: send_service_template_def service_message_def keeps_prims(1) split: if_splits option.splits)

lemma read_update_keeps:
  assumes "read_update T now g a u m R w = (e, m', w')" "a < length (bw_channels w)"
  shows "keeps w w'"
proof (cases u)
  case None
  then show ?thesis using assms(1) by (simp add: read_update_def)
next
  case (Some x)
  obtain t where t: "read_update T now g a u m R w =
      (case recv_message T now R a m (if is_new (chan a w) then set_chan a ((chan a w)\<lparr>bc_title := t\<rparr>) w else w) of
         (Some BotPolicy, m, w) \<Rightarrow>
           (let c = chan a w; chat = (if bc_session c = [] then bc_id c else bc_session c);
                (e, w) = send_service_template T g file_policy_fail chat None R w in (e, m, w))
       | (e, m, w) \<Rightarrow> (e, m, w))"
    unfolding read_update_def Some Let_def option.case by blast
  let ?v = "if is_new (chan a w) then set_chan a ((chan a w)\<lparr>bc_title := t\<rparr>) w else w"
  have v: "keeps w ?v" "a < length (bw_channels ?v)" using assms(2) by (simp_all add: keeps_prims(2) place_def)
  obtain q n y where y: "recv_message T now R a m ?v = (q, n, y)" by (metis prod.exhaust)
  have k: "keeps w y" by (rule keeps_trans [OF v(1) recv_message_keeps [OF y v(2)]])
  have "keeps w z" if "send_service_template T g s chat None R y = (p, z)" for s chat p z
    by (rule keeps_trans [OF k service_template_keeps [OF that]])
  then show ?thesis using assms(1) k unfolding t y
    by (auto simp: Let_def split: option.splits bot_error.splits prod.splits)
qed


section \<open>The service\<close>

lemma start_gate_keeps:
  assumes "start_gate W site env e w = (r, w')"
  shows "keeps w w'"
proof -
  obtain q v where v: "setup_gate W env e w = (q, v)" by fastforce
  note s = setup_gate_keeps [OF v]
  have "keeps w x" if "q = Ok g" "register_gate W site g False False v = (p, x)" for g p x
    using s register_gate_keeps [OF that(2)] that(1) keeps_trans by blast
  then show ?thesis using assms v s
    by (auto simp: start_gate_def split: sum.splits option.splits prod.splits)
qed

lemma service_gateway_effect:
  assumes "service_gateway W site env pid uri w = (r, w')" "store_ok w"
  shows "keeps w w' \<and> (\<forall>g. r = Ok g \<longrightarrow> g < length (bw_gates w'))"
proof -
  have p: "g < length (bw_gates v)" if "store_ok v" "map_of (bw_profiles v) i = Some g" for v i g
    using that map_of_SomeD [of "bw_profiles v" i g] by (auto simp: store_ok_def gates_ok_def)
  have s: "keeps w x \<and> (\<forall>g. q = Ok g \<longrightarrow> g < length (bw_gates x))" if "start_gate W site env e w = (q, x)" for e q x
  proof -
    have k: "keeps w x" by (rule start_gate_keeps [OF that])
    then have "store_ok x" using assms(2) by (simp add: keeps_def)
    moreover have "\<exists>i. map_of (bw_profiles x) i = Some g" if "q = Ok g" for g
      using \<open>start_gate W site env e w = (q, x)\<close> that
      by (auto simp: start_gate_def split: sum.splits option.splits prod.splits)
    ultimately show ?thesis using k p by blast
  qed
  show ?thesis
  proof (cases "\<exists>e. start_gate W site env e w = (r, w')")
    case True
    then show ?thesis using s by blast
  next
    case False
    then have "w' = w \<and> (\<forall>g. r = Ok g \<longrightarrow> (\<exists>i. map_of (bw_profiles w) i = Some g))"
      using assms(1) by (auto simp: service_gateway_def Let_def split: if_splits option.splits sum.splits)
    then show ?thesis using p [OF assms(2)] by auto
  qed
qed

lemma bot_send_message_keeps:
  assumes "bot_send_message W site env T now pid user msg R w = (r, w')" "store_ok w"
  shows "keeps w w'"
proof -
  obtain q v where v: "service_gateway W site env pid [] w = (q, v)" by fastforce
  note s = service_gateway_effect [OF v assms(2)]
  have o: "store_ok v" using s assms(2) by (simp add: keeps_def)
  have "keeps w x" if "q = Ok g" "send_notify T now g pid user m R v = (e, n, x)" for g m e n x
    using s that(1) send_notify_keeps [OF that(2) _ o] keeps_trans by blast
  then show ?thesis using assms(1) v s
    by (auto simp: bot_send_message_def Let_def split: if_splits option.splits sum.splits prod.splits)
qed

lemma set_new_id:
  assumes "setup_gate W env e w = (Ok g, w')" "bg_id e = 0" "store_ok w" "pid \<noteq> 0"
  shows "keeps w (set_gate g ((gate g w')\<lparr>bg_id := pid\<rparr>) w')"
proof -
  let ?y = "(gate g w')\<lparr>bg_id := pid\<rparr>"
  have z: "map_of (bw_profiles w) 0 = None"
    using assms(3) by (auto simp: store_ok_def gates_ok_def map_of_eq_None_iff)
  then obtain uri where w': "g = length (bw_gates w)" "w' = w\<lparr>bw_gates := bw_gates w @
        [bot_profile.extend (e\<lparr>bg_uri := uri\<rparr>) \<lparr>bg_deleted = False, bg_cache = length (bw_caches w)\<rparr>],
      bw_caches := bw_caches w @ [\<lparr>cx_external = [], cx_internal = []\<rparr>]\<rparr>"
    using assms(1,2) by (auto simp: setup_gate_def split: sum.splits if_splits)
  have k: "keeps w w'" using setup_gate_keeps [OF assms(1)] by blast
  then have o: "store_ok w'" using assms(3) by (simp add: keeps_def)
  have gg: "bg_cache (gate g w') = length (bw_caches w)" by (simp add: w' gate_def bot_profile.extend_def)
  have old: "gate h w' = gate h w" if "h < g" for h using that by (simp add: w' gate_def nth_append)
  have oc: "bg_cache (gate h w') < length (bw_caches w)" if "h < g" for h
    using store_okD(2) [OF assms(3), of h] that old by (simp add: w')
  have len: "length (bw_gates w') = Suc g" "bw_profiles w' = bw_profiles w" by (simp_all add: w')
  let ?v = "set_gate g ?y w'"
  have c: "bg_cache (gate h ?v) = bg_cache (gate h w')" for h by (simp add: gate_set_gate)
  have sh: "bg_id (gate h w') = bg_id (gate i w')"
    if "h < Suc g" "i < Suc g" "bg_cache (gate h w') = bg_cache (gate i w')" for h i
    using o that unfolding store_ok_def gates_ok_def shares_ok_def len by blast
  have "shares_ok ?v"
    unfolding shares_ok_def c
  proof (intro allI impI)
    fix h i
    assume a: "h < length (bw_gates ?v)" "i < length (bw_gates ?v)" "bg_cache (gate h w') = bg_cache (gate i w')"
    then have "(h = g) = (i = g)" using oc [of h] oc [of i] gg len by (cases "h = g"; cases "i = g") auto
    moreover have "bg_id (gate h w') = bg_id (gate i w')"
      using sh [of h i] a len by simp
    ultimately show "bg_id (gate h ?v) = bg_id (gate i ?v)" by (simp add: gate_set_gate)
  qed
  moreover have "p \<noteq> 0 \<and> h < length (bw_gates ?v) \<and> bg_id (gate h ?v) = p" if "(p, h) \<in> set (bw_profiles ?v)" for p h
  proof -
    from that assms(3) have "p \<noteq> 0 \<and> h < g \<and> bg_id (gate h w) = p"
      by (auto simp: len store_ok_def gates_ok_def w')
    then show ?thesis using old [of h] by (simp add: gate_set_gate len)
  qed
  moreover have "cache_ok ?v k x = cache_ok w' k x" for k x by (rule cache_ok_place) (simp_all add: c)
  ultimately have "store_ok ?v" using o c by (auto simp: store_ok_def gates_ok_def)
  then show ?thesis using k by (simp add: keeps_def extends_def)
qed

lemma create_bot_keeps:
  assumes "create_bot W site env add w = (r, w')" "store_ok w"
  shows "keeps w w'"
proof -
  have s: "keeps w v" if "setup_gate W env b w = (q, v)" for b q v using setup_gate_keeps [OF that] by blast
  have n: "keeps w (set_gate g ((gate g v)\<lparr>bg_id := pid\<rparr>) v)"
    if "setup_gate W env b w = (Ok g, v)" "bg_id b = 0" "pid \<noteq> 0" for b g v pid
    using set_new_id [OF that(1,2) assms(2) that(3)] .
  have "keeps w x" if "setup_gate W env b w = (Ok g, v)" "bg_id b = 0" "pid \<noteq> 0"
    "register_gate W site g True f (set_gate g ((gate g v)\<lparr>bg_id := pid\<rparr>) v) = (e, x)" for b g v pid f e x
    using keeps_trans [OF n [OF that(1,2,3)] register_gate_keeps [OF that(4)]] setup_gate_keeps [OF that(1)] by simp
  then show ?thesis using assms(1) s n unfolding create_bot_def Let_def
    by (auto split: sum.splits option.splits if_splits prod.splits)
qed

lemma update_bot_keeps:
  assumes "update_bot W site env paths new w = (r, w')"
  shows "keeps w w'"
proof -
  have s: "keeps w v" if "setup_gate W env b w = (q, v)" for b q v using setup_gate_keeps [OF that] by blast
  have g: "keeps w x" if "setup_gate W env b w = (Ok g, v)" "register_gate W site g f f' v = (e, x)" for b g v f f' e x
    using setup_gate_keeps [OF that(1)] register_gate_keeps [OF that(2)] keeps_trans by blast
  have "keeps w (set_gate g ((gate g x)\<lparr>bg_enabled := False\<rparr>) x)" if "keeps w x" for g x
    by (rule keeps_trans [OF that keeps_prims(3)]) simp_all
  then show ?thesis using assms s g unfolding update_bot_def Let_def
    by (auto split: sum.splits option.splits if_splits prod.splits)
qed

lemma retire_bot_keeps: "keeps w (retire_bot pid w)"
proof -
  have a: "keeps w (set_gate g ((gate g w)\<lparr>bg_enabled := False, bg_deleted := True\<rparr>) w)" for g
    by (rule keeps_prims(3)) simp_all
  then have "keeps w (log_event e (remove_gate g (deregister g (set_gate g ((gate g w)\<lparr>bg_enabled := False, bg_deleted := True\<rparr>) w))))" for e g
    by (rule keeps_trans [OF keeps_trans [OF keeps_trans [OF _ deregister_keeps] remove_gate_keeps] keeps_prims(1)])
  then show ?thesis using a by (auto simp: retire_bot_def Let_def split: option.splits)
qed

lemma fold_keeps: "(\<And>x w. keeps w (f x w)) \<Longrightarrow> keeps w (fold f xs w)"
  by (induction xs arbitrary: w) (auto intro: keeps_trans)

lemma delete_bots_keeps: "delete_bots env ids w = (e, w') \<Longrightarrow> keeps w w'"
  by (auto simp: delete_bots_def split: if_splits sum.splits option.splits intro: fold_keeps retire_bot_keeps)

lemma start_bots_keeps: "keeps w (start_bots W site es w)"
  unfolding start_bots_def
proof (rule fold_keeps)
  fix x :: "bot_profile \<times> bot_env" and v
  obtain e env where x: "x = (e, env)" by fastforce
  obtain q u where u: "setup_gate W env e v = (q, u)" by fastforce
  note k = setup_gate_keeps [OF u]
  have "keeps v (snd (register_gate W site g False False u))" if "q = Ok g" for g
  proof -
    obtain p t where t: "register_gate W site g False False u = (p, t)" by fastforce
    then show ?thesis using k that register_gate_keeps [OF t] keeps_trans by auto
  qed
  then show "keeps v ((case x of (e, env) \<Rightarrow> \<lambda>w. case setup_gate W env e w of (Inl _, w) \<Rightarrow> w
      | (Inr g, w) \<Rightarrow> snd (register_gate W site g False False w)) v)"
    using k unfolding x by (cases q) (simp_all add: u)
qed

lemma close_service_keeps: "keeps w (close_service w)"
  unfolding close_service_def
  by (rule fold_keeps) (auto intro: keeps_trans [OF remove_gate_keeps keeps_prims(1)])

section \<open>The states that the service reaches\<close>

text \<open>Requests and updates in any order, with any answers.  A driver reads an update with a channel that
  GetChannel has given it.\<close>

inductive bot_step :: "bot_world \<Rightarrow> bot_world \<Rightarrow> bool" where
  Started: "bot_step w (start_bots W site es w)"
| Closed: "bot_step w (close_service w)"
| Lookup: "service_gateway W site env pid uri w = (r, w') \<Longrightarrow> bot_step w w'"
| Created: "create_bot W site env e w = (r, w') \<Longrightarrow> bot_step w w'"
| Updated: "update_bot W site env paths e w = (r, w') \<Longrightarrow> bot_step w w'"
| Deleted: "delete_bots env ids w = (x, w') \<Longrightarrow> bot_step w w'"
| Contacted: "get_bot_channel T g chat u R w = (r, w') \<Longrightarrow> g < length (bw_gates w) \<Longrightarrow> by_contact u \<Longrightarrow> bot_step w w'"
| Read: "read_update T now g a u m R w = (x, m', w') \<Longrightarrow> a < length (bw_channels w) \<Longrightarrow> bot_step w w'"
| Erased: "delete_update R a u m w = (x, w') \<Longrightarrow> bot_step w w'"
| Left: "close_bot_channel now ats a w = (x, w') \<Longrightarrow> a < length (bw_channels w) \<Longrightarrow> bot_step w w'"
| Entered: "close_enter a w = (ok, w') \<Longrightarrow> a < length (bw_channels w) \<Longrightarrow> bot_step w w'"
| Marked: "close_mark now a w = w' \<Longrightarrow> a < length (bw_channels w) \<Longrightarrow> bot_step w w'"
| Called: "close_call ats a w = (x, w') \<Longrightarrow> a < length (bw_channels w) \<Longrightarrow> bot_step w w'"
| Sent: "bot_send_message W site env T now pid user msg R w = (r, w') \<Longrightarrow> bot_step w w'"

inductive_cases bot_stepE: "bot_step w w'"

definition new_bot_world :: bot_world where
  "new_bot_world =
     \<lparr>bw_channels = [], bw_gates = [], bw_caches = [], bw_profiles = [], bw_uris = [], bw_events = []\<rparr>"

definition bot_reach :: "bot_world \<Rightarrow> bool" where
  "bot_reach w \<longleftrightarrow> bot_step\<^sup>*\<^sup>* new_bot_world w"

lemma bot_step_ok: "bot_step w w' \<Longrightarrow> store_ok w \<Longrightarrow> store_ok w'"
proof (induction rule: bot_step.induct)
  case Started
  then show ?case using start_bots_keeps by (simp add: keeps_def)
next
  case Closed
  then show ?case using close_service_keeps by (simp add: keeps_def)
next
  case Lookup
  then show ?case using service_gateway_effect by (simp add: keeps_def)
next
  case Created
  then show ?case using create_bot_keeps by (simp add: keeps_def)
next
  case Updated
  then show ?case using update_bot_keeps by (simp add: keeps_def)
next
  case Deleted
  then show ?case using delete_bots_keeps by (simp add: keeps_def)
next
  case Contacted
  then show ?case using get_bot_channel_effect by (simp add: keeps_def)
next
  case Read
  then show ?case using read_update_keeps by (simp add: keeps_def)
next
  case Erased
  then show ?case using delete_update_keeps by (simp add: keeps_def)
next
  case Left
  then show ?case using close_bot_channel_keeps by (simp add: keeps_def)
next
  case (Entered a w ok w')
  then show ?case using close_steps_keep(1) [of a w] by (simp add: keeps_def)
next
  case (Marked now a w w')
  then show ?case using close_steps_keep(2) [of w now a] by (simp add: keeps_def)
next
  case (Called ats a w x w')
  then show ?case using close_steps_keep(3) [of a w ats] by (simp add: keeps_def)
next
  case Sent
  then show ?case using bot_send_message_keeps by (simp add: keeps_def)
qed

lemma bot_reach_ok: "bot_reach w \<Longrightarrow> store_ok w"
  unfolding bot_reach_def
proof (induction rule: rtranclp_induct)
  case base
  then show ?case by (simp add: new_bot_world_def store_ok_def gates_ok_def shares_ok_def)
qed (rule bot_step_ok)

text \<open>C9: In every state that the service of the bots reaches, a chat that a gateway finds in its cache is
  that of a channel of the same bot, and the index leads to a gateway of the bot that it is asked for: no
  message of a customer goes to the gateway of another bot, whatever was created, updated and deleted.\<close>

theorem bot_channels_separate:
  assumes "bot_reach w"
  shows "(g < length (bw_gates w) \<and> map_of (cx_external (cache_of g w)) chat = Some a \<longrightarrow>
      a < length (bw_channels w) \<and> bc_chat (chan a w) = chat \<and> bg_id (gate (bc_gate (chan a w)) w) = bg_id (gate g w)) \<and>
    (g < length (bw_gates w) \<and> map_of (cx_internal (cache_of g w)) user = Some b \<longrightarrow>
      b < length (bw_channels w) \<and> bn_id (bc_account (chan b w)) = user \<and> bg_id (gate (bc_gate (chan b w)) w) = bg_id (gate g w)) \<and>
    (map_of (bw_profiles w) pid = Some h \<longrightarrow> h < length (bw_gates w) \<and> bg_id (gate h w) = pid)"
proof -
  note s = bot_reach_ok [OF assms]
  have share: "bg_id (gate (bc_gate (chan c w)) w) = bg_id (gate g w)"
    if "g < length (bw_gates w)" "c < length (bw_channels w)" "bg_cache (gate (bc_gate (chan c w)) w) = bg_cache (gate g w)" for c
    using s store_okD(1) [OF s that(2)] that unfolding store_ok_def gates_ok_def shares_ok_def by blast
  have x: "a < length (bw_channels w) \<and> bc_chat (chan a w) = chat \<and> bg_id (gate (bc_gate (chan a w)) w) = bg_id (gate g w)"
    if a: "g < length (bw_gates w) \<and> map_of (cx_external (cache_of g w)) chat = Some a"
  proof -
    from a have "(chat, a) \<in> set (cx_external (cache_of g w))" by (simp add: map_of_SomeD)
    then have "a < length (bw_channels w) \<and> bc_chat (chan a w) = chat \<and> bg_cache (gate (bc_gate (chan a w)) w) = bg_cache (gate g w)"
      using store_okD(3) [OF s, of g] a unfolding cache_ok_def by blast
    then show ?thesis using share a by blast
  qed
  have i: "b < length (bw_channels w) \<and> bn_id (bc_account (chan b w)) = user \<and> bg_id (gate (bc_gate (chan b w)) w) = bg_id (gate g w)"
    if a: "g < length (bw_gates w) \<and> map_of (cx_internal (cache_of g w)) user = Some b"
  proof -
    from a have "(user, b) \<in> set (cx_internal (cache_of g w))" by (simp add: map_of_SomeD)
    then have "b < length (bw_channels w) \<and> bn_id (bc_account (chan b w)) = user \<and> bg_cache (gate (bc_gate (chan b w)) w) = bg_cache (gate g w)"
      using store_okD(3) [OF s, of g] a unfolding cache_ok_def by blast
    then show ?thesis using share a by blast
  qed
  have "h < length (bw_gates w) \<and> bg_id (gate h w) = pid" if "map_of (bw_profiles w) pid = Some h"
    using map_of_SomeD [OF that] s by (auto simp: store_ok_def gates_ok_def)
  then show ?thesis using x i by simp
qed

end
