(* ===== verification/Bot_Lifecycle.thy ===== *)
theory Bot_Lifecycle
  imports Bot_Channels
begin

text \<open>
  What becomes of a conversation of a bot: how it starts, is taken up again when the chat service has
  closed it, and ends; and what becomes of the gateways of bots that are started, licensed and deleted.
\<close>

section \<open>Closing\<close>

fun is_close_request :: "bot_event \<Rightarrow> bool" where
  "is_close_request (CloseRequested _ _ _) = True"
| "is_close_request _ = False"

definition close_requests :: "bot_world \<Rightarrow> nat" where
  "close_requests w = length (filter is_close_request (bw_events w))"

definition close_times :: "nat \<Rightarrow> (int \<times> unit bot_attempt list) list \<Rightarrow> bot_world \<Rightarrow> bot_world" where
  "close_times a ts w = fold (\<lambda>(now, ats) w. snd (close_bot_channel now ats a w)) ts w"

lemma close_requests_simps [simp]:
  "close_requests (log_event e w) = close_requests w + (if is_close_request e then 1 else 0)"
  "close_requests (set_cache g x w) = close_requests w" "close_requests (set_chan a c w) = close_requests w"
  "close_requests (set_gate g y w) = close_requests w"
  by (simp_all add: close_requests_def)

lemma removal_same:
  "chan a (deregister g w) = chan a w" "chan a (remove_gate g w) = chan a w"
  "close_requests (deregister g w) = close_requests w" "close_requests (remove_gate g w) = close_requests w"
  "bw_caches (deregister g w) = bw_caches w" "bw_caches (remove_gate g w) = bw_caches w"
  "gate h (deregister g w) = gate h w" "gate h (remove_gate g w) = gate h w"
  by (simp_all add: deregister_def remove_gate_def Let_def close_requests_def chan_def gate_def log_event_def)

lemma drop_channel_same:
  "chan b (drop_channel a w) = chan b w" "close_requests (drop_channel a w) = close_requests w"
  "gate h (drop_channel a w) = gate h w" "bw_caches (drop_channel a w) = bw_caches (uncache a w)"
  by (auto simp: drop_channel_def Let_def removal_same uncache_def)

lemma close_closed:
  assumes "close_bot_channel now ats a w = (e, w')" "bc_closed (chan a w) \<noteq> 0 \<or> \<not> is_cached a w"
  shows "close_requests w' = close_requests w \<and> chan a w' = chan a w \<and> (\<not> is_cached a w \<longrightarrow> w' = w)"
  using assms by (auto simp: close_bot_channel_eq drop_channel_same split: if_splits)

lemma close_open:
  assumes "close_bot_channel now ats a w = (e, w')" "bc_closed (chan a w) = 0" "is_cached a w"
    and "now \<noteq> 0" "a < length (bw_channels w)"
  shows "close_requests w' = Suc (close_requests w) \<and> bc_closed (chan a w') \<noteq> 0"
proof -
  let ?v = "log_event (CloseRequested (bc_session (chan a w)) (bc_id (chan a w)) (bn_id (bc_account (chan a w))))
      (set_chan a ((chan a w)\<lparr>bc_closed := now\<rparr>) w)"
  obtain r u where u: "channel_call ats a ?v = (r, u)" by fastforce
  obtain h where h: "u = set_chan a ((chan a ?v)\<lparr>bc_host := h\<rparr>) ?v" using channel_call_effect [OF u] by blast
  then have c: "bc_closed (chan a u) = now" "close_requests u = Suc (close_requests w)"
    using assms(5) by (simp_all add: chan_set_chan close_requests_def)
  moreover have "w' = u \<or> w' = drop_channel a u"
    using assms u by (auto simp: close_bot_channel_eq close_mark_def close_call_def Let_def split: sum.splits if_splits)
  ultimately show ?thesis using assms(4) by (auto simp: drop_channel_same)
qed

lemma close_times_closed:
  "bc_closed (chan a w) \<noteq> 0 \<or> \<not> is_cached a w \<Longrightarrow> close_requests (close_times a ts w) = close_requests w"
proof (induction ts arbitrary: w)
  case Nil
  then show ?case by (simp add: close_times_def)
next
  case (Cons t ts)
  obtain now ats e w' where t: "t = (now, ats)" "close_bot_channel now ats a w = (e, w')" by (metis prod.exhaust)
  note c = close_closed [OF t(2) Cons.prems]
  then have "bc_closed (chan a w') \<noteq> 0 \<or> \<not> is_cached a w'" using Cons.prems by auto
  from Cons.IH [OF this] show ?case using c t by (simp add: close_times_def)
qed

subsection \<open>Closing from several goroutines\<close>

text \<open>The customer, the writer of a room of the web chat and the message of the service that the conversation is
  closed may call Close at the same time.  A call is where it stands; the steps of several calls of one channel
  come in any order.\<close>

datatype closer = Entering | Testing | Marking | Calling | Returned

inductive close_step :: "nat \<Rightarrow> closer list \<times> bot_world \<Rightarrow> closer list \<times> bot_world \<Rightarrow> bool" for a where
  Enter: "i < length ps \<Longrightarrow> ps ! i = Entering \<Longrightarrow> close_enter a w = (ok, w') \<Longrightarrow>
    close_step a (ps, w) (ps[i := if ok then Testing else Returned], w')"
| Test: "i < length ps \<Longrightarrow> ps ! i = Testing \<Longrightarrow> close_step a (ps, w) (ps[i := if close_test a w then Marking else Returned], w)"
| Mark: "i < length ps \<Longrightarrow> ps ! i = Marking \<Longrightarrow> now \<noteq> 0 \<Longrightarrow> close_step a (ps, w) (ps[i := Calling], close_mark now a w)"
| Call: "i < length ps \<Longrightarrow> ps ! i = Calling \<Longrightarrow> close_step a (ps, w) (ps[i := Returned], snd (close_call ats a w))"

abbreviation close_reach :: "nat \<Rightarrow> closer list \<times> bot_world \<Rightarrow> closer list \<times> bot_world \<Rightarrow> bool" where
  "close_reach a \<equiv> (close_step a)\<^sup>*\<^sup>*"

lemma close_steps_same:
  "close_requests (snd (close_enter a w)) = close_requests w" "chan a (snd (close_enter a w)) = chan a w"
  "close_requests (close_mark now a w) = Suc (close_requests w)"
  "close_requests (snd (close_call ats a w)) = close_requests w"
proof -
  obtain r u where u: "channel_call ats a w = (r, u)" by fastforce
  obtain h where h: "u = set_chan a ((chan a w)\<lparr>bc_host := h\<rparr>) w" using channel_call_effect [OF u] by blast
  then have "close_requests u = close_requests w" by simp
  then show "close_requests (snd (close_call ats a w)) = close_requests w"
    using u by (simp add: close_call_def drop_channel_same split: sum.split)
qed (simp_all add: close_enter_def close_mark_def Let_def drop_channel_same)

text \<open>A call asks at most once, and the requests still to come are those of the calls that have not asked.\<close>

fun may_ask :: "closer \<Rightarrow> bool" where
  "may_ask Calling = False"
| "may_ask Returned = False"
| "may_ask _ = True"

lemma may_ask_update:
  assumes "i < length ps"
  shows "length (filter may_ask (ps[i := p])) + (if may_ask (ps ! i) then 1 else 0) =
    length (filter may_ask ps) + (if may_ask p then 1 else 0)"
  using assms
proof (induction ps arbitrary: i)
  case (Cons q qs)
  then show ?case by (cases i) auto
qed simp

lemma close_step_asks:
  "close_step a s s' \<Longrightarrow>
    close_requests (snd s') + length (filter may_ask (fst s')) \<le> close_requests (snd s) + length (filter may_ask (fst s))"
proof (induction rule: close_step.induct)
  case (Enter i ps w ok w')
  have "close_requests w' = close_requests w" using close_steps_same(1) [of a w] Enter(3) by simp
  then show ?case using may_ask_update [OF Enter(1), of "if ok then Testing else Returned"] by (simp add: Enter(2) split: if_splits)
next
  case (Test i ps w)
  then show ?case using may_ask_update [OF Test(1), of "if close_test a w then Marking else Returned"]
    by (simp add: Test(2) split: if_splits)
next
  case (Mark i ps now w)
  then show ?case using may_ask_update [OF Mark(1), of Calling] close_steps_same(3) [of now a w] by (simp add: Mark(2))
next
  case (Call i ps w ats)
  then show ?case using may_ask_update [OF Call(1), of Returned] close_steps_same(4) [of ats a w] by (simp add: Call(2))
qed

text \<open>A channel that is closed, or that is not cached, stays so, and nobody asks.\<close>

definition nothing_to_close :: "nat \<Rightarrow> closer list \<Rightarrow> bot_world \<Rightarrow> bool" where
  "nothing_to_close a ps w \<longleftrightarrow> Marking \<notin> set ps \<and> Calling \<notin> set ps \<and>
     (bc_closed (chan a w) \<noteq> 0 \<or> \<not> is_cached a w \<and> Testing \<notin> set ps)"

lemma in_set_update: "q \<in> set (ps[i := p]) \<Longrightarrow> q = p \<or> q \<in> set ps"
  using set_update_subset_insert [of ps i p] by blast

lemma close_step_nothing:
  "close_step a s s' \<Longrightarrow> nothing_to_close a (fst s) (snd s) \<Longrightarrow>
    nothing_to_close a (fst s') (snd s') \<and> close_requests (snd s') = close_requests (snd s)"
proof (induction rule: close_step.induct)
  case (Enter i ps w ok w')
  have "close_requests w' = close_requests w" "chan a w' = chan a w" using close_steps_same(1,2) [of a w] Enter(3) by simp_all
  moreover have "\<not> ok \<and> w' = w" if "\<not> is_cached a w" using Enter(3) that by (simp add: close_enter_def)
  ultimately show ?case using Enter(4) unfolding nothing_to_close_def by (auto dest!: in_set_update split: if_splits)
next
  case (Test i ps w)
  have "Testing \<in> set ps" using Test(1,2) nth_mem by metis
  then have "\<not> close_test a w" using Test(3) by (auto simp: nothing_to_close_def close_test_def)
  then show ?case using Test(3) unfolding nothing_to_close_def by (auto dest!: in_set_update)
next
  case (Mark i ps now w)
  have "Marking \<in> set ps" using Mark(1,2) nth_mem by metis
  then show ?case using Mark(4) by (simp add: nothing_to_close_def)
next
  case (Call i ps w ats)
  have "Calling \<in> set ps" using Call(1,2) nth_mem by metis
  then show ?case using Call(3) by (simp add: nothing_to_close_def)
qed

lemma close_reach_asks:
  assumes "close_reach a s s'"
  shows "close_requests (snd s') + length (filter may_ask (fst s')) \<le> close_requests (snd s) + length (filter may_ask (fst s)) \<and>
    (nothing_to_close a (fst s) (snd s) \<longrightarrow> nothing_to_close a (fst s') (snd s') \<and> close_requests (snd s') = close_requests (snd s))"
  using assms
proof (induction rule: rtranclp_induct)
  case (step y z)
  show ?case using close_step_asks [OF step(2)] close_step_nothing [OF step(2)] step(3) by auto
qed simp

text \<open>All calls take the same step, one after the other.\<close>

lemma close_sweep:
  assumes step: "\<And>ps w i. i < length ps \<Longrightarrow> ps ! i = P \<Longrightarrow> I w \<Longrightarrow>
      \<exists>w'. close_step a (ps, w) (ps[i := Q], w') \<and> I w' \<and> close_requests w' = close_requests w + d"
    and I: "I w"
  shows "\<exists>w'. close_reach a (replicate k Q @ replicate m P, w) (replicate (k + m) Q, w') \<and> I w' \<and>
    close_requests w' = close_requests w + m * d"
  using I
proof (induction m arbitrary: k w)
  case (Suc m)
  let ?ps = "replicate k Q @ replicate (Suc m) P"
  have "k < length ?ps" "?ps ! k = P" by (simp_all add: nth_append)
  from step [OF this Suc.prems] obtain u where u: "close_step a (?ps, w) (?ps[k := Q], u)" "I u" "close_requests u = close_requests w + d"
    by blast
  have ps: "?ps[k := Q] = replicate (Suc k) Q @ replicate m P"
    by (simp add: list_update_append replicate_app_Cons_same)
  from Suc.IH [OF u(2), of "Suc k"] obtain w' where w': "close_reach a (replicate (Suc k) Q @ replicate m P, u) (replicate (Suc k + m) Q, w')"
      "I w'" "close_requests w' = close_requests u + m * d" by blast
  have "close_reach a (?ps, w) (replicate (k + Suc m) Q, w')"
    using converse_rtranclp_into_rtranclp [OF u(1) [unfolded ps] w'(1)] by simp
  then show ?case using w'(2,3) u(3) by (intro exI [of _ w']) simp
qed auto

lemma close_sweep_all:
  assumes "\<And>ps w i. i < length ps \<Longrightarrow> ps ! i = P \<Longrightarrow> I w \<Longrightarrow>
      \<exists>w'. close_step a (ps, w) (ps[i := Q], w') \<and> I w' \<and> close_requests w' = close_requests w + d"
    and "I w"
  obtains w' where "close_reach a (replicate n P, w) (replicate n Q, w')" "I w'" "close_requests w' = close_requests w + n * d"
proof -
  have "\<exists>w'. close_reach a (replicate 0 Q @ replicate n P, w) (replicate (0 + n) Q, w') \<and> I w' \<and> close_requests w' = close_requests w + n * d"
    by (rule close_sweep [of P I a Q d, OF assms])
  then show thesis using that by fastforce
qed

lemma close_together:
  assumes "bc_closed (chan a w) = 0" "is_cached a w"
  shows "\<exists>w'. close_reach a (replicate n Entering, w) (replicate n Returned, w') \<and> close_requests w' = close_requests w + n"
proof -
  let ?open = "\<lambda>u. bc_closed (chan a u) = 0 \<and> is_cached a u"
  let ?any = "\<lambda>u :: bot_world. True"
  have s1: "\<exists>v. close_step a (ps, u) (ps[i := Testing], v) \<and> ?open v \<and> close_requests v = close_requests u + 0"
    if "i < length ps" "ps ! i = Entering" "?open u" for ps u i
    using Enter [OF that(1,2), of a u True u] that(3) by (intro exI [of _ u]) (simp add: close_enter_def)
  have s2: "\<exists>v. close_step a (ps, u) (ps[i := Marking], v) \<and> ?open v \<and> close_requests v = close_requests u + 0"
    if "i < length ps" "ps ! i = Testing" "?open u" for ps u i
    using Test [OF that(1,2), of a u] that(3) by (intro exI [of _ u]) (simp add: close_test_def)
  have s3: "\<exists>v. close_step a (ps, u) (ps[i := Calling], v) \<and> ?any v \<and> close_requests v = close_requests u + 1"
    if "i < length ps" "ps ! i = Marking" "?any u" for ps u i
    using Mark [OF that(1,2), of 1 a u] by (intro exI [of _ "close_mark 1 a u"]) (simp add: close_steps_same)
  have s4: "\<exists>v. close_step a (ps, u) (ps[i := Returned], v) \<and> ?any v \<and> close_requests v = close_requests u + 0"
    if "i < length ps" "ps ! i = Calling" "?any u" for ps u i
    using Call [OF that(1,2), of a u "[]"] by (intro exI [of _ "snd (close_call [] a u)"]) (simp add: close_steps_same)
  obtain w1 where 1: "close_reach a (replicate n Entering, w) (replicate n Testing, w1)" "?open w1" "close_requests w1 = close_requests w + n * 0"
    by (rule close_sweep_all [of Entering ?open a Testing 0 w n, OF s1 conjI [OF assms]])
  obtain w2 where 2: "close_reach a (replicate n Testing, w1) (replicate n Marking, w2)" "close_requests w2 = close_requests w1 + n * 0"
    by (rule close_sweep_all [of Testing ?open a Marking 0 w1 n, OF s2 1(2)])
  obtain w3 where 3: "close_reach a (replicate n Marking, w2) (replicate n Calling, w3)" "close_requests w3 = close_requests w2 + n * 1"
    by (rule close_sweep_all [of Marking ?any a Calling 1 w2 n, OF s3 TrueI])
  obtain w4 where 4: "close_reach a (replicate n Calling, w3) (replicate n Returned, w4)" "close_requests w4 = close_requests w3 + n * 0"
    by (rule close_sweep_all [of Calling ?any a Returned 0 w3 n, OF s4 TrueI])
  from rtranclp_trans [OF rtranclp_trans [OF rtranclp_trans [OF 1(1) 2(1)] 3(1)] 4(1)] show ?thesis
    using 1(3) 2(2) 3(2) 4(2) by (intro exI [of _ w4]) simp
qed

text \<open>C11: When a chat of a bot is closed again and again, one call after the other, the chat service is asked to close
  the conversation once at most, and not at all when it was the one that closed it.  Calls at the same time do not
  have this guarantee, because Close tests and sets the mark without the lock: n of them ask at most n times, never
  about a chat that was closed before, and there is an order of their steps in which all n ask.\<close>

theorem close_requested_once:
  assumes "\<forall>(now, ats) \<in> set ts. now \<noteq> 0" "a < length (bw_channels w)"
  shows "close_requests (close_times a ts w) \<le> close_requests w + (if bc_closed (chan a w) = 0 \<and> is_cached a w then 1 else 0) \<and>
    (\<forall>ps w'. close_reach a (replicate n Entering, w) (ps, w') \<longrightarrow>
      close_requests w' \<le> close_requests w + (if bc_closed (chan a w) = 0 \<and> is_cached a w then n else 0)) \<and>
    (bc_closed (chan a w) = 0 \<and> is_cached a w \<longrightarrow>
      (\<exists>w'. close_reach a (replicate n Entering, w) (replicate n Returned, w') \<and> close_requests w' = close_requests w + n))"
proof (intro conjI allI impI)
  show "close_requests (close_times a ts w) \<le> close_requests w + (if bc_closed (chan a w) = 0 \<and> is_cached a w then 1 else 0)"
  proof (cases ts)
    case Nil
    then show ?thesis by (simp add: close_times_def)
  next
    case (Cons t us)
    obtain now ats e w' where t: "t = (now, ats)" "close_bot_channel now ats a w = (e, w')" by (metis prod.exhaust)
    show ?thesis
    proof (cases "bc_closed (chan a w) = 0 \<and> is_cached a w")
      case True
      then have "close_requests w' = Suc (close_requests w) \<and> bc_closed (chan a w') \<noteq> 0"
        using close_open [OF t(2)] assms Cons t(1) by simp
      then show ?thesis using close_times_closed [of a w' us] True Cons t by (simp add: close_times_def)
    next
      case False
      then show ?thesis using close_times_closed [of a w ts] by auto
    qed
  qed
  show "close_requests w' \<le> close_requests w + (if bc_closed (chan a w) = 0 \<and> is_cached a w then n else 0)"
    if "close_reach a (replicate n Entering, w) (ps, w')" for ps w'
    using close_reach_asks [OF that] by (auto simp: nothing_to_close_def split: if_splits)
qed (use close_together in blast)

section \<open>Starting and recovering\<close>

lemma uncached:
  assumes "store_ok w" "a < length (bw_channels w)"
  shows "\<not> is_cached a (uncache a w)"
proof -
  let ?g = "bc_gate (chan a w)"
  have "bg_cache (gate ?g w) < length (bw_caches w)" using assms store_okD(1,2) by blast
  then show ?thesis by (simp add: is_cached_def uncache_def Let_def cache_set_cache delete_conv')
qed

lemma chat_call_reply: "chat_call ats c = (Ok r, c') \<Longrightarrow> \<exists>x \<in> set ats. ba_reply x = Ok r"
proof (induction ats arbitrary: c)
  case (Cons x xs)
  then show ?case
    by (cases "chat_select (ba_hosts x) (ba_next x) c"; cases "fst (chat_select (ba_hosts x) (ba_next x) c)"; cases "ba_reply x")
      (fastforce simp: Let_def split: if_splits)+
qed simp

lemma channel_call_reply: "channel_call ats a w = (Ok r, w') \<Longrightarrow> \<exists>x \<in> set ats. ba_reply x = Ok r"
  by (auto simp: channel_call_def dest: chat_call_reply split: prod.splits)

lemma start_effect:
  assumes "start_bot_channel ats a m w = (e, w')" "nt_updated m = 0" "store_ok w" "a < length (bw_channels w)"
  shows "bw_events w' = bw_events w @ [StartRequested (start_of (chan a w) (gate (bc_gate (chan a w)) w) m)] \<and>
    place (chan a w') = place (chan a w) \<and>
    (e = None \<longrightarrow> is_cached a w' \<and> bc_closed (chan a w') = 0 \<and>
       (\<exists>x \<in> set ats. \<exists>r. ba_reply x = Ok r \<and> bc_id (chan a w') = st_channel r \<and> bc_session (chan a w') = st_conversation r)) \<and>
    (e \<noteq> None \<longrightarrow> bc_id (chan a w') = bc_id (chan a w) \<and> (\<exists>x. e = Some (BotRpc x)))"
proof -
  let ?g = "bc_gate (chan a w)"
  let ?q = "StartRequested (start_of (chan a w) (gate ?g w) m)"
  let ?v = "log_event ?q (set_chan a (prepared_channel (chan a w) (gate ?g w)) w)"
  have p: "place (prepared_channel (chan a w) x) = place (chan a w)" "bc_id (prepared_channel (chan a w) x) = bc_id (chan a w)" for x
    by (simp_all add: place_def prepared_channel_def Let_def)
  obtain r u where u: "channel_call ats a ?v = (r, u)" by fastforce
  obtain h where h: "u = set_chan a ((chan a ?v)\<lparr>bc_host := h\<rparr>) ?v" using channel_call_effect [OF u] by blast
  have cu: "place (chan a u) = place (chan a w)" "bc_id (chan a u) = bc_id (chan a w)" "bw_events u = bw_events w @ [?q]"
    using assms(4) p unfolding h by (simp_all add: chan_set_chan place_def)
  show ?thesis
  proof (cases r)
    case (Inl x)
    then show ?thesis using assms(1,2) u cu by (auto simp: start_bot_channel_def Let_def)
  next
    case (Inr q)
    let ?x = "set_chan a ((chan a u)\<lparr>bc_closed := 0, bc_id := st_channel q, bc_session := st_conversation q\<rparr>) u"
    have e: "e = None" "w' = index_channel ?g a ?x" using assms(1,2) u Inr by (simp_all add: start_bot_channel_def Let_def)
    have lx: "a < length (bw_channels u)" using assms(4) unfolding h by simp
    then have cx: "chan a ?x = (chan a u)\<lparr>bc_closed := 0, bc_id := st_channel q, bc_session := st_conversation q\<rparr>"
      by (simp add: chan_set_chan)
    have g: "bc_gate (chan a ?x) = ?g" using cu cx by (simp add: place_def)
    have "keeps w ?v" using p by (intro keeps_trans [OF keeps_prims(2) keeps_prims(1)])
    then have "keeps w ?x"
      by (rule keeps_trans [OF keeps_trans [OF _ channel_call_keeps [OF u]] keeps_prims(2)]) (simp add: place_def)
    then have s: "store_ok ?x" using assms(3) by (simp add: keeps_def)
    have "bg_cache (gate ?g ?x) < length (bw_caches ?x)"
      using store_okD(2) [OF s store_okD(1) [OF s, of a]] lx g by simp
    then have "is_cached a w'"
      unfolding e is_cached_def index_channel_def Let_def by (simp add: cache_set_cache g update_conv')
    moreover have "chan a w' = chan a ?x" "bw_events w' = bw_events u" unfolding e by (simp_all add: index_channel_def Let_def)
    ultimately show ?thesis using e(1) cu cx channel_call_reply [OF u [unfolded Inr]] by (auto simp: place_def)
  qed
qed

text \<open>The same with the second attempt, with a text that says so, after a file that the policy forbids.\<close>

lemma start_with_policy_effect:
  assumes "start_with_policy T ats ats' a m w = (e, w')" "nt_updated m = 0" "store_ok w" "a < length (bw_channels w)"
    and q: "q = start_of (chan a w) (gate (bc_gate (chan a w)) w) m"
  shows "(bw_events w' = bw_events w @ [StartRequested q] \<or>
      nt_file m \<noteq> None \<and> (\<exists>text r. bw_events w' = bw_events w @ [StartRequested q, StartRequested r] \<and>
        sr_message r = policy_message text m \<and> sr_user r = sr_user q)) \<and>
    place (chan a w') = place (chan a w) \<and> keeps w w' \<and>
    (e = None \<longrightarrow> is_cached a w' \<and> bc_closed (chan a w') = 0 \<and>
       (\<exists>x \<in> set ats \<union> set ats'. \<exists>r. ba_reply x = Ok r \<and> bc_id (chan a w') = st_channel r \<and> bc_session (chan a w') = st_conversation r)) \<and>
    (e \<noteq> None \<longrightarrow> bc_id (chan a w') = bc_id (chan a w))"
proof -
  obtain x v where v: "start_bot_channel ats a m w = (x, v)" by fastforce
  note s = start_effect [OF v assms(2-4), folded q] and kv = start_bot_channel_keeps [OF v assms(4)]
  consider (once) "e = x" "w' = v" | (failed) "x \<noteq> None" "e \<noteq> None" "w' = v"
    | (again) t where "nt_file m \<noteq> None" "x \<noteq> None" "start_bot_channel ats' a (policy_message t m) v = (e, w')"
    using assms(1) v s by (auto simp: start_with_policy_def is_policy_error_def split: option.splits if_splits bot_error.splits)
  then show ?thesis
  proof cases
    case once
    then show ?thesis using s kv by auto
  next
    case failed
    then show ?thesis using s kv by auto
  next
    case again
    have l: "store_ok v" "a < length (bw_channels v)" using kv assms(3,4) by (auto simp: keeps_def extends_def)
    have u: "nt_updated (policy_message t m) = 0" using assms(2) by (simp add: policy_message_def)
    note st = start_effect [OF again(3) u l]
    have k: "keeps w w'" using keeps_trans [OF kv start_bot_channel_keeps [OF again(3) l(2)]] .
    let ?r = "start_of (chan a v) (gate (bc_gate (chan a v)) v) (policy_message t m)"
    have "bw_events w' = bw_events w @ [StartRequested q, StartRequested ?r]" using s st by simp
    moreover have "sr_message ?r = policy_message t m" "sr_user ?r = sr_user q"
      using s unfolding q by (auto simp: start_of_def place_def)
    moreover have "place (chan a w') = place (chan a w)" "bc_id (chan a w') = bc_id (chan a w)" if "e \<noteq> None"
      using s st again(2) that by auto
    ultimately show ?thesis using s st again(1,2) k by auto
  qed
qed

text \<open>C12: The first message of a customer, unless it is the closing command or an edit, which start nothing, starts a
  conversation for the customer and with the message.  It is started once more, with a text in place of the file,
  only after a message with a file.  When it was started the channel has the ids that the chat service gave, and is
  found under its chat; else it is as new as it was.\<close>

theorem first_message_starts:
  assumes "recv_message T now R a m w = (e, m', w')" "bot_reach w" "a < length (bw_channels w)" "is_new (chan a w)"
  shows "m' = m \<and>
    (if nt_text m = ''/close'' \<and> nt_type m = ''text'' \<or> nt_updated m \<noteq> 0 then e = None \<and> w' = w
     else
       (\<exists>q. (bw_events w' = bw_events w @ [StartRequested q] \<or>
            nt_file m \<noteq> None \<and> (\<exists>text r. bw_events w' = bw_events w @ [StartRequested q, StartRequested r] \<and>
              sr_message r = policy_message text m \<and> sr_user r = sr_user q)) \<and>
          sr_message q = m \<and> sr_user q = bn_id (bc_account (chan a w)) \<and>
          vget (sr_props q) ''user'' = bn_contact (bc_account (chan a w))) \<and>
       (if e = None
        then is_cached a w' \<and> (\<exists>x \<in> set (br_start R) \<union> set (br_restart R). \<exists>r. ba_reply x = Ok r \<and>
               bc_id (chan a w') = st_channel r \<and> bc_session (chan a w') = st_conversation r)
        else is_new (chan a w')))"
proof -
  let ?closing = "nt_text m = ''/close'' \<and> nt_type m = ''text''"
  let ?q = "start_of (chan a w) (gate (bc_gate (chan a w)) w) m"
  have q: "sr_message ?q = m" "sr_user ?q = bn_id (bc_account (chan a w))"
      "vget (sr_props ?q) ''user'' = bn_contact (bc_account (chan a w))"
    by (simp_all add: start_of_def start_metadata_def Let_def)
  obtain x v where v: "start_with_policy T (br_start R) (br_restart R) a m w = (x, v)" by fastforce
  have r: "(e, m', w') = (if ?closing then (None, m, w) else (x, m, v))"
    using assms(1,4) v by (auto simp: recv_message_def)
  show ?thesis
  proof (cases "?closing \<or> nt_updated m \<noteq> 0")
    case True
    then have "?closing \<or> x = None \<and> v = w" using v by (auto simp: start_with_policy_def start_bot_channel_def)
    then show ?thesis using r True by auto
  next
    case False
    then have u: "nt_updated m = 0" by simp
    note s = start_with_policy_effect [OF v u bot_reach_ok [OF assms(2)] assms(3) refl]
    have e: "e = x" "m' = m" "w' = v" using r False by auto
    show ?thesis unfolding if_not_P [OF False] unfolding e
    proof (intro conjI exI [of _ ?q])
      show "if x = None then is_cached a v \<and> (\<exists>x \<in> set (br_start R) \<union> set (br_restart R). \<exists>r. ba_reply x = Ok r \<and>
          bc_id (chan a v) = st_channel r \<and> bc_session (chan a v) = st_conversation r) else is_new (chan a v)"
        using s assms(4) by (simp add: is_new_def)
    qed (use s q in blast)+
  qed
qed

text \<open>C13: A message to a conversation that the chat service has closed, unless it is the closing command, is sent and
  then starts a new conversation, with the same customer and the same message (and once more, with a text in place
  of the file, only when the message has a file); when this fails the channel leaves the cache.  An edit is the
  exception: it is sent, taken without an error, and leaves the channel without a conversation.\<close>

theorem closed_chat_restarts:
  assumes "recv_message T now R a m w = (e, m', w')" "bot_reach w" "a < length (bw_channels w)"
    and "\<not> is_new (chan a w)" "\<not> (nt_text m = ''/close'' \<and> nt_type m = ''text'')"
    and "fst (chat_call (br_send R) (chan a w)) = Fail x" "ce_id x = ''chat.send.channel.from.closed''"
    and ev: "ev = SendRequested (bc_id (chan a w)) (bc_session (chan a w)) (bn_id (bc_account (chan a w))) m"
  shows "if nt_updated m \<noteq> 0 then e = None \<and> is_new (chan a w') \<and> bw_events w' = bw_events w @ [ev]
    else
      (\<exists>q. (bw_events w' = bw_events w @ [ev, StartRequested q] \<or>
           nt_file m \<noteq> None \<and> (\<exists>text r. bw_events w' = bw_events w @ [ev, StartRequested q, StartRequested r] \<and>
             sr_message r = policy_message text m \<and> sr_user r = sr_user q)) \<and>
         sr_message q = m \<and> sr_user q = bn_id (bc_account (chan a w))) \<and>
      (e = None \<longleftrightarrow> is_cached a w') \<and>
      (e = None \<longrightarrow> (\<exists>x \<in> set (br_start R) \<union> set (br_restart R). \<exists>r. ba_reply x = Ok r \<and> bc_id (chan a w') = st_channel r \<and>
        bc_session (chan a w') = st_conversation r))"
proof -
  obtain u where u: "channel_call (br_send R) a (log_event ev w) = (Fail x, u)"
    using assms(6) unfolding ev by (cases "chat_call (br_send R) (chan a w)") (simp add: channel_call_def)
  obtain h where h: "u = set_chan a ((chan a w)\<lparr>bc_host := h\<rparr>) (log_event ev w)"
    using channel_call_effect [OF u] by auto
  have rec: "recover_bot_channel T R a m u = (e, w')"
    using assms(1,4,5,7) u ev by (auto simp: recv_message_def Let_def split: prod.splits)
  show ?thesis
  proof (cases "nt_updated m = 0")
    case False
    then show ?thesis using assms(3) rec unfolding h
      by (auto simp: recover_bot_channel_def start_with_policy_def start_bot_channel_def chan_set_chan is_new_def)
  next
    case True
    let ?y = "set_chan a ((chan a u)\<lparr>bc_id := [], bc_session := [], bc_closed := 0\<rparr>) u"
    have "keeps w ?y"
      by (rule keeps_trans [OF keeps_trans [OF keeps_prims(1) channel_call_keeps [OF u]] keeps_prims(2)]) (simp add: place_def)
    then have s: "store_ok ?y" and l: "a < length (bw_channels ?y)"
      using bot_reach_ok [OF assms(2)] assms(3) by (auto simp: keeps_def extends_def)
    have cy: "place (chan a ?y) = place (chan a w)" "bw_events ?y = bw_events w @ [ev]"
      using assms(3) unfolding h by (simp_all add: chan_set_chan place_def)
    let ?q = "start_of (chan a ?y) (gate (bc_gate (chan a ?y)) ?y) m"
    have q: "sr_message ?q = m" "sr_user ?q = bn_id (bc_account (chan a w))" using cy(1) by (simp_all add: start_of_def place_def)
    obtain z v where v: "start_with_policy T (br_start R) (br_restart R) a m ?y = (z, v)" by fastforce
    note st = start_with_policy_effect [OF v True s l refl]
    have sv: "store_ok v" "a < length (bw_channels v)" using st s l by (auto simp: keeps_def extends_def)
    have r: "e = z" "w' = (if z = None then v else if is_cached a v then uncache a v else v)"
      using rec v by (auto simp: recover_bot_channel_def Let_def split: option.splits if_splits)
    have ev': "bw_events w' = bw_events v" using r by (simp add: uncache_def Let_def)
    have c: "is_cached a w' \<longleftrightarrow> z = None" using r st uncached [OF sv] by (auto split: if_splits)
    have "bw_events w' = bw_events w @ [ev, StartRequested ?q] \<or>
        nt_file m \<noteq> None \<and> (\<exists>text r. bw_events w' = bw_events w @ [ev, StartRequested ?q, StartRequested r] \<and>
          sr_message r = policy_message text m \<and> sr_user r = sr_user ?q)"
      using st unfolding ev' cy(2) by simp
    moreover have "z = None \<longrightarrow> (\<exists>x \<in> set (br_start R) \<union> set (br_restart R). \<exists>r. ba_reply x = Ok r \<and> bc_id (chan a w') = st_channel r \<and>
        bc_session (chan a w') = st_conversation r)"
      using st r(2) by auto
    ultimately show ?thesis unfolding r(1) using True c q by auto
  qed
qed

section \<open>Gateways\<close>

lemma map_of_delete_iff: "map_of (AList.delete k xs) = (map_of xs)(k := None)"
  by (rule delete_conv')

lemma uncache_indexes:
  "bw_profiles (uncache a w) = bw_profiles w" "bw_uris (uncache a w) = bw_uris w"
  "gate g (uncache a w) = gate g w" "chan b (uncache a w) = chan b w"
  by (simp_all add: uncache_def Let_def)

lemma removal_profiles:
  "bw_profiles (deregister g w) = bw_profiles w"
  "bw_profiles (remove_gate g w) =
     (if map_of (bw_profiles w) (bg_id (gate g w)) = Some g then AList.delete (bg_id (gate g w)) (bw_profiles w) else bw_profiles w)"
  by (simp_all add: deregister_def remove_gate_def Let_def log_event_def)

text \<open>C22: The gateway of a bot that was deleted goes with the last of its channels exactly when that channel
  was started on its latest revision: a channel of an earlier revision leaves the gateway in the index of
  the service for good, although its caches are empty.\<close>

theorem deleted_bot_leaves:
  assumes "bot_reach w" "map_of (bw_profiles w) pid = Some g" "cx_external (cache_of g w) = [(chat, a)]"
    and "bc_closed (chan a w) \<noteq> 0" "close_bot_channel now ats a (retire_bot pid w) = (e, w')"
  shows "cx_external (cache_of g w') = [] \<and> (map_of (bw_profiles w') pid = None \<longleftrightarrow> bc_gate (chan a w) = g)"
proof -
  note s = bot_reach_ok [OF assms(1)]
  have g: "g < length (bw_gates w)" "bg_id (gate g w) = pid" using s map_of_SomeD [OF assms(2)] by (auto simp: store_ok_def gates_ok_def)
  note x = store_okD(3) [OF s g(1)]
  have a: "a < length (bw_channels w)" "bc_chat (chan a w) = chat" "bg_cache (gate (bc_gate (chan a w)) w) = bg_cache (gate g w)"
    using x assms(3) by (auto simp: cache_ok_def)
  let ?r = "set_gate g ((gate g w)\<lparr>bg_enabled := False, bg_deleted := True\<rparr>) w"
  let ?h = "bc_gate (chan a w)"
  have gr: "bg_cache (gate h ?r) = bg_cache (gate h w)" "bg_id (gate h ?r) = bg_id (gate h w)"
    "bg_deleted (gate h ?r) = (if h = g then True else bg_deleted (gate h w))" for h
    using g(1) by (simp_all add: gate_set_gate)
  have cr: "cache_of h ?r = cache_of h w" for h using gr by (simp add: cache_of_def)
  have h: "?h < length (bw_gates w)" by (rule store_okD(1) [OF s a(1)])
  have id: "bg_id (gate ?h w) = pid"
    using s h g a(3) unfolding store_ok_def gates_ok_def shares_ok_def by blast
  have hc: "cache_of ?h w = cache_of g w" using a(3) by (simp add: cache_of_def)
  have r: "retire_bot pid w = ?r" using assms(2,3) by (simp add: retire_bot_def cr)
  have cached: "is_cached a ?r" using assms(3) a(2) by (simp add: is_cached_def cr hc)
  have w': "w' = drop_channel a ?r"
    using assms(4,5) cached unfolding r by (simp add: close_bot_channel_eq)
  let ?u = "uncache a ?r"
  have kl: "bg_cache (gate ?h ?r) < length (bw_caches ?r)" using store_okD(2) [OF s h] gr by simp
  have empty: "cx_external (cache_of i ?u) = []" if "bg_cache (gate i w) = bg_cache (gate g w)" for i
    using that a assms(3) gr unfolding uncache_def Let_def
    by (simp add: cache_set_cache [OF kl] cr hc)
  have "bw_caches w' = bw_caches ?u" "gate i w' = gate i ?r" for i unfolding w' by (simp_all add: drop_channel_same)
  then have "cache_of g w' = cache_of g ?u" by (simp add: cache_of_def uncache_indexes)
  then have 1: "cx_external (cache_of g w') = []" using empty by simp
  have p: "bw_profiles ?r = bw_profiles w" by simp
  show ?thesis
  proof (cases "?h = g")
    case True
    then have "w' = log_event (ProviderClosed g) (remove_gate g (deregister g ?u))"
      unfolding w' drop_channel_def Let_def using empty [of g] gr by (simp add: uncache_indexes)
    then have "map_of (bw_profiles w') pid = None"
      using assms(2) g(2) gr by (simp add: removal_profiles removal_same uncache_indexes map_of_delete_iff)
    then show ?thesis using 1 True by simp
  next
    case False
    have "map_of (bw_profiles (remove_gate ?h (deregister ?h ?u))) pid = Some g"
      using assms(2) False id gr by (simp add: removal_profiles removal_same uncache_indexes map_of_delete_iff)
    then have "map_of (bw_profiles w') pid = Some g"
      unfolding w' drop_channel_def Let_def using assms(2) by (simp add: uncache_indexes)
    then show ?thesis using 1 False by simp
  qed
qed

lemma start_gate_runs:
  "start_gate W site env e w = (Ok g, w') \<Longrightarrow> map_of (bw_profiles w') (bg_id e) = Some g"
  by (auto simp: start_gate_def split: sum.splits option.splits prod.splits)

text \<open>A gateway that was looked up by its bot is served from the index from then on, without the database,
  the driver or a change of the state.\<close>

theorem gateway_started_once:
  assumes "service_gateway W site env pid uri w = (Ok g, w')" "pid \<noteq> 0"
  shows "service_gateway W' site' env' pid uri' w' = (Ok g, w')"
proof -
  have "map_of (bw_profiles w') pid = Some g"
  proof (cases "map_of (bw_profiles w) pid")
    case (Some h)
    then show ?thesis using assms by (simp add: service_gateway_def resolve_bot_def)
  next
    case None
    then obtain e where e: "lookup_refusal pid uri e = None" "start_gate W site env e w = (Ok g, w')"
      using assms by (auto simp: service_gateway_def resolve_bot_def split: sum.splits option.splits)
    then show ?thesis using start_gate_runs [OF e(2)] assms(2) by (auto simp: lookup_refusal_def split: if_splits)
  qed
  then show ?thesis using assms(2) by (simp add: service_gateway_def resolve_bot_def)
qed

lemma license_limit_max:
  "fold (\<lambda>l n. if license_counts l \<and> n < lg_limit l then lg_limit l else n) ls m = k \<Longrightarrow>
   k = m \<or> (\<exists>l \<in> set ls. license_counts l \<and> lg_limit l = k)"
  by (induction ls arbitrary: m) (fastforce split: if_splits)+

lemma bots_limit_ok:
  assumes "bots_limit env 1 = None"
  shows "\<exists>ls n. be_license env = Ok ls \<and> be_count env = Ok n \<and> (\<exists>l \<in> set ls. license_counts l \<and> n + 1 \<le> lg_limit l)"
proof -
  obtain ls n where l: "be_license env = Ok ls" "be_count env = Ok n" "license_limit ls \<noteq> 0" "n + 1 \<le> license_limit ls"
    using assms by (auto simp: bots_limit_def split: sum.splits if_splits)
  then show ?thesis using license_limit_max [of ls 0 "license_limit ls"] unfolding license_limit_def by force
qed

text \<open>C23: A bot is created enabled, or enabled by an update, only for a user who may do that with bots, and only
  when one valid license for chats, not the sum of several, allows one more than those that are enabled.\<close>

theorem enabled_bots_licensed:
  assumes "create_bot W site env new w = (Ok b, w') \<and> mode = mode_add \<or>
    update_bot W site env paths new w = (Ok b, w') \<and> (paths = [] \<or> ''enabled'' \<in> set paths) \<and>
      locate_bot env = Ok old \<and> \<not> bg_enabled old \<and> mode = mode_write"
    and "bg_enabled new"
  shows "(\<exists>a s. be_auth env = Ok a \<and> has_objclass a ''chat_bots'' = Some s \<and> can_access a (Some s) mode) \<and>
    (\<exists>ls n. be_license env = Ok ls \<and> be_count env = Ok n \<and> (\<exists>l \<in> set ls. license_counts l \<and> n + 1 \<le> lg_limit l))"
proof -
  have e: "bg_enabled (merge_bot (if paths = [] then [''name'', ''flow'', ''enabled'', ''metadata'', ''updates''] else paths) old new)"
    if "paths = [] \<or> ''enabled'' \<in> set paths"
    using that assms(2) by (auto simp: merge_bot_def)
  have "bots_limit env 1 = None \<and> (\<exists>a. bot_access env mode = Ok a)"
    using assms e by (auto simp: create_bot_def update_bot_def Let_def split: sum.splits option.splits if_splits)
  then show ?thesis using bots_limit_ok [of env]
    by (auto simp: bot_access_def split: sum.splits option.splits if_splits)
qed


section \<open>Witnesses\<close>

definition bot_web :: web_lib where
  "bot_web = example_web\<lparr>wl_parse := (\<lambda>s. Some \<lparr>pu_scheme = [], pu_host = [], pu_path = s, pu_query = [], pu_more = []\<rparr>)\<rparr>"

definition example_bot :: bot_profile where
  "example_bot =
     \<lparr>bg_id = 3, bg_uri = ''b'', bg_enabled = True, bg_provider = ''telegram'', bg_domain = 1, bg_flow = 5, bg_name = ''B'',
      bg_meta = [], bg_updates = None\<rparr>"

definition example_bot_env :: bot_env where
  "example_bot_env =
     \<lparr>be_auth = Ok (zero_authorization\<lparr>au_creds := Some \<lparr>ui_dc = 1, ui_user_id = 2, ui_expires_at = 0,
        ui_scope = [\<lparr>oc_class = ''chat_bots'', oc_access = ''xrwd''\<rparr>], ui_permissions = []\<rparr>\<rparr>),
      be_license = Ok [\<lparr>lg_product = ''CHAT'', lg_errors = [], lg_limit = 4\<rparr>], be_count = Ok 3,
      be_found = Ok [example_bot], be_created = Ok 4, be_stored = None, be_known = True, be_driver = None,
      be_templates = True, be_refused = False\<rparr>"

definition example_customer :: bot_account where
  "example_customer =
     \<lparr>bn_id = 0, bn_first = ''Ann'', bn_last = [], bn_username = ''ann'', bn_channel = [], bn_contact = ''77''\<rparr>"

definition answered :: "'r \<Rightarrow> 'r bot_attempt" where
  "answered r = \<lparr>ba_hosts = [''n1''], ba_next = Some ''n1'', ba_reply = Ok r\<rparr>"

definition example_bot_replies :: bot_replies where
  "example_bot_replies =
     \<lparr>br_check = Ok \<lparr>ck_client = 8, ck_exists = False, ck_channel = [], ck_props = None\<rparr>,
      br_start = [answered \<lparr>st_channel = ''ch1'', st_conversation = ''cv1''\<rparr>], br_restart = [],
      br_send = [\<lparr>ba_hosts = [''n1''], ba_next = None, ba_reply = Fail \<lparr>ce_id = ''chat.send.channel.from.closed'', ce_detail = []\<rparr>\<rparr>],
      br_delete = [], br_close = [answered ()], br_service = None, br_refused = False, br_bindings = None\<rparr>"

abbreviation plain_template :: bot_template where
  "plain_template \<equiv> \<lambda>g name context. Some []"

definition bot_started :: bot_world where
  "bot_started = start_bots bot_web ''http://h/'' [(example_bot, example_bot_env)] new_bot_world"

definition bot_contacted :: bot_world where
  "bot_contacted = snd (get_bot_channel plain_template 0 ''77'' (Some example_customer) example_bot_replies bot_started)"

definition bot_talking :: bot_world where
  "bot_talking = snd (snd (read_update plain_template 9 0 0 (Some example_customer) (example_text_request ''hi'') example_bot_replies bot_contacted))"

definition bot_updated :: bot_world where
  "bot_updated = snd (update_bot bot_web ''http://h/'' example_bot_env [''name''] example_bot bot_talking)"

definition bot_left :: bot_world where
  "bot_left = snd (close_bot_channel 9 [answered ()] 0 bot_updated)"

lemma bot_reach_step: "bot_reach w \<Longrightarrow> bot_step w w' \<Longrightarrow> bot_reach w'"
  unfolding bot_reach_def by (rule rtranclp.rtrancl_into_rtrancl)

lemma example_bots_reached: "bot_reach bot_started" "bot_reach bot_contacted" "bot_reach bot_talking" "bot_reach bot_updated" "bot_reach bot_left"
proof -
  show s: "bot_reach bot_started"
    unfolding bot_started_def by (rule bot_reach_step [OF _ Started]) (simp add: bot_reach_def)
  have g: "0 < length (bw_gates bot_started)" "by_contact (Some example_customer)" by code_simp+
  show c: "bot_reach bot_contacted"
    unfolding bot_contacted_def by (rule bot_reach_step [OF s Contacted [OF prod.collapse [symmetric] g]])
  have a: "0 < length (bw_channels bot_contacted)" by code_simp
  let ?r = "read_update plain_template 9 0 0 (Some example_customer) (example_text_request ''hi'') example_bot_replies bot_contacted"
  have "?r = (fst ?r, fst (snd ?r), snd (snd ?r))" by simp
  from Read [OF this a] show t: "bot_reach bot_talking" unfolding bot_talking_def by (rule bot_reach_step [OF c])
  show u: "bot_reach bot_updated"
    unfolding bot_updated_def by (rule bot_reach_step [OF t Updated [OF prod.collapse [symmetric]]])
  have "0 < length (bw_channels bot_updated)" by code_simp
  from Left [OF prod.collapse [symmetric] this] show "bot_reach bot_left"
    unfolding bot_left_def by (rule bot_reach_step [OF u])
qed

lemma bot_updated_gates: "1 < length (bw_gates bot_updated)"
  by code_simp

lemma bot_updated_cached: "map_of (cx_external (cache_of 1 bot_updated)) ''77'' = Some 0"
  by code_simp

lemma bot_updated_channel: "bc_gate (chan 0 bot_updated) = 0"
  by code_simp

lemma bot_updated_bot: "bg_id (gate 1 bot_updated) = 3"
  by code_simp

lemma bot_channels_separate_witness:
  "bg_id (gate (bc_gate (chan 0 bot_updated)) bot_updated) = 3 \<and> bc_gate (chan 0 bot_updated) = 0 \<and> bg_id (gate 1 bot_updated) = 3"
proof -
  show ?thesis
    using bot_channels_separate [OF example_bots_reached(4), of 1 "''77''" 0 8 0 3 1] bot_updated_gates
      bot_updated_cached bot_updated_channel bot_updated_bot by simp
qed

lemma close_requested_once_witness:
  "close_requests (close_times 0 [(9, [answered ()]), (10, []), (11, [])] bot_talking) \<le> 1 \<and>
    (\<exists>w'. close_reach 0 ([Entering, Entering], bot_talking) ([Returned, Returned], w') \<and> close_requests w' = 2)"
proof -
  let ?ts = "[(9, [answered ()]), (10, []), (11, [])] :: (int \<times> unit bot_attempt list) list"
  have h: "\<forall>(now, ats) \<in> set ?ts. now \<noteq> 0" by simp
  have l: "0 < length (bw_channels bot_talking)" "close_requests bot_talking = 0" "bc_closed (chan 0 bot_talking) = 0"
      "is_cached 0 bot_talking" by code_simp+
  have n: "replicate 2 Entering = [Entering, Entering]" "replicate 2 Returned = [Returned, Returned]" by (simp_all add: numeral_2_eq_2)
  note c = close_requested_once [OF h l(1), of 2, unfolded n l(2)]
  from c l(3,4) show ?thesis by auto
qed

lemma first_message_starts_witness: "is_cached 0 (snd (snd (recv_message plain_template 9 example_bot_replies 0 (example_text_request ''hi'') bot_contacted)))"
proof -
  let ?r = "recv_message plain_template 9 example_bot_replies 0 (example_text_request ''hi'') bot_contacted"
  have r: "?r = (fst ?r, fst (snd ?r), snd (snd ?r))" by simp
  have h: "0 < length (bw_channels bot_contacted)" "is_new (chan 0 bot_contacted)" by code_simp+
  have t: "\<not> (nt_text (example_text_request ''hi'') = ''/close'' \<and> nt_type (example_text_request ''hi'') = ''text'' \<or>
      nt_updated (example_text_request ''hi'') \<noteq> 0)" by code_simp
  have "fst ?r = None" by code_simp
  with first_message_starts [OF r example_bots_reached(2) h, unfolded if_not_P [OF t]] show ?thesis by simp
qed

lemma closed_chat_restarts_witness: "is_cached 0 (snd (snd (recv_message plain_template 9 example_bot_replies 0 (example_text_request ''hi'') bot_talking)))"
proof -
  let ?r = "recv_message plain_template 9 example_bot_replies 0 (example_text_request ''hi'') bot_talking"
  have r: "?r = (fst ?r, fst (snd ?r), snd (snd ?r))" by simp
  have h: "0 < length (bw_channels bot_talking)" "\<not> is_new (chan 0 bot_talking)"
    "\<not> (nt_text (example_text_request ''hi'') = ''/close'' \<and> nt_type (example_text_request ''hi'') = ''text'')"
    "fst (chat_call (br_send example_bot_replies) (chan 0 bot_talking)) = Fail \<lparr>ce_id = ''chat.send.channel.from.closed'', ce_detail = []\<rparr>"
    "ce_id \<lparr>ce_id = ''chat.send.channel.from.closed'', ce_detail = []\<rparr> = ''chat.send.channel.from.closed''" by code_simp+
  have t: "\<not> nt_updated (example_text_request ''hi'') \<noteq> 0" by code_simp
  have "fst ?r = None" by code_simp
  with closed_chat_restarts [OF r example_bots_reached(3) h refl, unfolded if_not_P [OF t]] show ?thesis by simp
qed

lemma deleted_bot_leaves_witness:
  "map_of (bw_profiles (snd (close_bot_channel 10 [] 0 (retire_bot 3 bot_left)))) 3 \<noteq> None"
proof -
  have h: "map_of (bw_profiles bot_left) 3 = Some 1" "cx_external (cache_of 1 bot_left) = [(''77'', 0)]"
    "bc_closed (chan 0 bot_left) \<noteq> 0" by code_simp+
  have "bc_gate (chan 0 bot_left) = 0" by code_simp
  then show ?thesis using deleted_bot_leaves [OF example_bots_reached(5) h prod.collapse [symmetric]] by simp
qed

lemma gateway_started_once_witness:
  "fst (service_gateway bot_web ''http://h/'' (example_bot_env\<lparr>be_found := Ok []\<rparr>) 3 []
      (snd (service_gateway bot_web ''http://h/'' example_bot_env 3 [] new_bot_world))) = Ok 0"
proof -
  let ?r = "service_gateway bot_web ''http://h/'' example_bot_env 3 [] new_bot_world"
  have "fst ?r = Ok 0" by code_simp
  then have "?r = (Ok 0, snd ?r)" by (simp add: prod_eq_iff)
  from gateway_started_once [OF this] show ?thesis by simp
qed

lemma enabled_bots_licensed_witness:
  "\<exists>ls n. be_license example_bot_env = Ok ls \<and> be_count example_bot_env = Ok n \<and> (\<exists>l. l \<in> set ls \<and> n + 1 \<le> lg_limit l)"
proof -
  let ?r = "create_bot bot_web ''http://h/'' example_bot_env example_bot new_bot_world"
  let ?b = "case fst ?r of Ok b \<Rightarrow> b | _ \<Rightarrow> example_bot"
  have "fst ?r = Ok ?b" by code_simp
  then have r: "?r = (Ok ?b, snd ?r)" by (simp add: prod_eq_iff)
  have "bg_enabled example_bot" by code_simp
  from enabled_bots_licensed [OF disjI1 [OF conjI [OF r refl]] this] show ?thesis by blast
qed

end
