(* ===== verification/Chat_Start.thy ===== *)
theory Chat_Start
  imports Bot_Lifecycle
begin

text \<open>
  The first contact of a customer with the chat service (cmd/chat/service.go, cmd/chat/helpers.go,
  internal/repo/sqlx/client.go): CheckSession, which finds or creates the client and its open channel,
  and StartConversation; and both sides of the bots' calls to them together.
\<close>

section \<open>Clients\<close>

definition get_client_by_external :: "string \<Rightarrow> chat_world \<Rightarrow> (chat_error, chat_client option) result \<times> chat_world" where
  "get_client_by_external contact w =
     (let (f, db) = next_statement (cw_db w); w = w\<lparr>cw_db := db\<rparr> in
      if f then (Fail (StatementFailed DbFault), w)
      else (Ok (List.find (\<lambda>k. cc_external_id k = some_string contact) (cw_clients w)), w))"

definition valid_string :: "string \<Rightarrow> null_string" where
  "valid_string s = \<lparr>ns_string = s, ns_valid = (s \<noteq> [])\<rparr>"

text \<open>CreateClient; the id comes from the sequence of the table.\<close>

definition create_client ::
  "int \<Rightarrow> string \<Rightarrow> string \<Rightarrow> string \<Rightarrow> chat_world \<Rightarrow> (chat_error, chat_client) result \<times> chat_world" where
  "create_client fresh contact name kind w =
     (let k = \<lparr>cc_id = fresh, cc_external_id = valid_string contact, cc_name = valid_string name, cc_type = valid_string kind\<rparr>;
          (f, db) = next_statement (cw_db w); w = w\<lparr>cw_db := db\<rparr> in
      if f then (Fail (StatementFailed DbFault), w) else (Ok k, w\<lparr>cw_clients := cw_clients w @ [k]\<rparr>))"

text \<open>UpdateClientName; the errors of the statement are only logged.\<close>

definition update_client_name :: "int \<Rightarrow> string \<Rightarrow> chat_world \<Rightarrow> chat_world" where
  "update_client_name i name w =
     (if i < 1 then w
      else
        (let (f, db) = next_statement (cw_db w); w = w\<lparr>cw_db := db\<rparr> in
         if f then w
         else w\<lparr>cw_clients := map (\<lambda>k. if cc_id k = i then k\<lparr>cc_name := some_string name\<rparr> else k) (cw_clients w)\<rparr>))"

section \<open>CheckSession\<close>

definition open_channels_of ::
  "(string \<Rightarrow> string option) \<Rightarrow> int \<Rightarrow> int \<Rightarrow> chat_db \<Rightarrow> (chat_error, store_channel list) result \<times> chat_db" where
  "open_channels_of U client profile db =
     get_channels U
       (no_filter\<lparr>cf_user := Some client, cf_contact := (if profile > 0 then Some (itoa profile) else None),
          cf_internal := Some False, cf_active := Some True\<rparr>) db"

definition check_session ::
  "(string \<Rightarrow> string option) \<Rightarrow> int \<Rightarrow> int \<Rightarrow> string \<Rightarrow> string \<Rightarrow> string \<Rightarrow> chat_world \<Rightarrow>
   (chat_error, check_reply) result \<times> chat_world" where
  "check_session U fresh profile contact name kind w =
     (case get_client_by_external contact w of
        (Fail e, w) \<Rightarrow> (Fail e, w)
      | (Ok None, w) \<Rightarrow>
          (case create_client fresh contact name kind w of
             (Fail e, w) \<Rightarrow> (Fail e, w)
           | (Ok k, w) \<Rightarrow> (Ok \<lparr>ck_client = cc_id k, ck_exists = False, ck_channel = [], ck_props = None\<rparr>, w))
      | (Ok (Some k), w) \<Rightarrow>
          (let w = (if name \<noteq> [] \<and> name \<noteq> ns_string (cc_name k) then update_client_name (cc_id k) name w else w) in
           case open_channels_of U (cc_id k) profile (cw_db w) of
             (Fail e, db) \<Rightarrow> (Fail e, w\<lparr>cw_db := db\<rparr>)
           | (Ok [], db) \<Rightarrow>
               (Ok \<lparr>ck_client = cc_id k, ck_exists = False, ck_channel = [], ck_props = None\<rparr>, w\<lparr>cw_db := db\<rparr>)
           | (Ok (c # _), db) \<Rightarrow>
               (Ok \<lparr>ck_client = cc_id k, ck_exists = (sc_id c \<noteq> []), ck_channel = sc_id c, ck_props = sc_vars c\<rparr>,
                w\<lparr>cw_db := db\<rparr>)))"

section \<open>StartConversation\<close>

text \<open>The message with its type in normal form, or the refusal.\<close>

definition start_message :: "notice option \<Rightarrow> (string, notice) result" where
  "start_message m =
     (case m of
        None \<Rightarrow> Ok (zero_notice\<lparr>nt_type := ''text'', nt_text := ''/start''\<rparr>)
      | Some m \<Rightarrow>
          (let t = to_lower (trim_space (nt_type m));
               t' = (if t = [] \<and> \<not> is_forward m then (if nt_file m \<noteq> None then ''file'' else ''text'') else t) in
           if t \<notin> {[], ''text'', ''file'', ''contact''} then Fail ''chat.start.message.invalid''
           else if nt_updated m \<noteq> 0 then Fail ''chat.start.message.type.invalid''
           else Ok (m\<lparr>nt_type := t'\<rparr>)))"

record conversation_request =
  cq_domain :: int
  cq_title :: string
  cq_user :: int
  cq_type :: string
  cq_connection :: string
  cq_internal :: bool
  cq_host :: string
  cq_vars :: "vars option"

definition request_vars :: "conversation_request \<Rightarrow> vars option" where
  "request_vars q = map_option (vdel []) (cq_vars q)"

definition start_channel_row :: "int \<Rightarrow> conversation_request \<Rightarrow> store_channel" where
  "start_channel_row now q =
     zero_channel\<lparr>sc_type := cq_type q, sc_user_id := cq_user q, sc_created_at := now, sc_updated_at := now,
       sc_host := valid_string (cq_host q), sc_connection := valid_string (cq_connection q), sc_internal := cq_internal q,
       sc_domain_id := cq_domain q, sc_name := cq_title q, sc_vars := request_vars q\<rparr>"

text \<open>The conversation is a millisecond younger than the channel of the customer.\<close>

definition start_conv_row :: "int \<Rightarrow> conversation_request \<Rightarrow> chat_conv" where
  "start_conv_row now q =
     \<lparr>cv_id = [], cv_title = cq_title q, cv_created_at = now + 1000, cv_closed_at = None, cv_updated_at = now + 1000,
      cv_domain_id = cq_domain q, cv_vars = request_vars q\<rparr>"

definition start_sender :: "store_channel \<Rightarrow> string \<Rightarrow> app_channel" where
  "start_sender c title =
     zero_app_channel\<lparr>
       ac_chat := (ac_chat zero_app_channel)\<lparr>ch_id := sc_id c, ch_title := sc_name c, ch_channel := sc_type c,
                     ch_invite := sc_conversation_id c\<rparr>,
       ac_user := zero_user\<lparr>au_id := sc_user_id c, au_channel := sc_type c, au_first_name := title\<rparr>,
       ac_domain_id := sc_domain_id c, ac_vars := sc_vars c,
       ac_created := date_timestamp (Some (sc_created_at c * 1000)), ac_updated := date_timestamp (Some (sc_updated_at c * 1000))\<rparr>"

datatype start_error =
  StartStatus string | StartDb chat_error | StartSave send_error | StartFlow flow_error

text \<open>A transaction that is rolled back: only the sequence of the messages has moved on.\<close>

definition rolled_back :: "chat_db \<Rightarrow> chat_db \<Rightarrow> chat_db" where
  "rolled_back db db' =
     db\<lparr>cd_cache := (cd_cache db)\<lparr>db_faults := db_faults (cd_cache db')\<rparr>, cd_message_seq := cd_message_seq db'\<rparr>"

text \<open>The body of the transaction.  The statements on clients are not part of it.\<close>

definition start_rows ::
  "(string \<Rightarrow> string option) \<Rightarrow> web_lib \<Rightarrow> storage \<Rightarrow> string \<times> string \<Rightarrow> int \<Rightarrow> conversation_request \<Rightarrow> notice \<Rightarrow>
   chat_world \<Rightarrow> (start_error, store_channel \<times> notice) result \<times> chat_world" where
  "start_rows U W S fresh now q m w =
     (case new_session (fst fresh) now (start_conv_row now q) (cw_db w) of
        (Some e, _, db) \<Rightarrow> (Fail (StartDb e), w\<lparr>cw_db := db\<rparr>)
      | (None, v, db) \<Rightarrow>
          (case new_chat_channel U (snd fresh) now ((start_channel_row now q)\<lparr>sc_conversation_id := cv_id v\<rparr>) db of
             (Some e, _, db) \<Rightarrow> (Fail (StartDb e), w\<lparr>cw_db := db\<rparr>)
           | (None, c, db) \<Rightarrow>
               (case save_chat_message U W S now (start_sender c (cq_title q)) (Some m) (w\<lparr>cw_db := db\<rparr>) of
                  (Fail e, _, w) \<Rightarrow> (Fail (StartSave e), w)
                | (Ok _, m, w) \<Rightarrow> (Ok (c, m), w))))"

definition start_transaction ::
  "(string \<Rightarrow> string option) \<Rightarrow> web_lib \<Rightarrow> storage \<Rightarrow> string \<times> string \<Rightarrow> int \<Rightarrow> conversation_request \<Rightarrow> notice \<Rightarrow>
   chat_world \<Rightarrow> (start_error, store_channel \<times> notice) result \<times> chat_world" where
  "start_transaction U W S fresh now q m w =
     (let (f, db) = next_statement (cw_db w) in
      if f then (Fail (StartDb (StatementFailed DbFault)), w\<lparr>cw_db := db\<rparr>)
      else
        (case start_rows U W S fresh now q m (w\<lparr>cw_db := db\<rparr>) of
           (Fail e, w) \<Rightarrow> (Fail e, w\<lparr>cw_db := rolled_back db (cw_db w)\<rparr>)
         | (Ok r, w) \<Rightarrow>
             (let (f, db') = next_statement (cw_db w) in
              if f then (Fail (StartDb (StatementFailed DbFault)), w\<lparr>cw_db := rolled_back db db'\<rparr>)
              else (Ok r, w\<lparr>cw_db := db'\<rparr>))))"

definition flow_start_message :: "notice \<Rightarrow> flow_message" where
  "flow_start_message m =
     \<lparr>fm_id = nt_id m, fm_type = nt_type m, fm_text = nt_text m, fm_postback = map_option pb_code (nt_postback m),
      fm_vars = nt_vars m, fm_from = nt_from m, fm_created = nt_created m\<rparr>"

text \<open>The workflow is started after the commit: when that fails the conversation stays.\<close>

definition start_conversation ::
  "(string \<Rightarrow> string option) \<Rightarrow> web_lib \<Rightarrow> storage \<Rightarrow> string \<times> string \<Rightarrow> int \<Rightarrow> attempt list \<Rightarrow> conversation_request \<Rightarrow>
   notice option \<Rightarrow> chat_world \<Rightarrow> (start_error, start_reply) result \<times> chat_world" where
  "start_conversation U W S fresh now ats q m w =
     (case start_message m of
        Fail e \<Rightarrow> (Fail (StartStatus e), w)
      | Ok m \<Rightarrow>
          (case start_transaction U W S fresh now q m w of
             (Fail e, w) \<Rightarrow> (Fail e, w)
           | (Ok (c, m), w) \<Rightarrow>
               (let reply = \<lparr>st_channel = sc_id c, st_conversation = sc_conversation_id c\<rparr> in
                if cq_internal q then (Ok reply, w)
                else
                  (case on_flow (\<lambda>ag. let (e, _, _, ag) = agent_init c (flow_start_message m) ats ag in (e, ag)) w of
                     (Some e, w) \<Rightarrow> (Fail (StartFlow e), w)
                   | (None, w) \<Rightarrow> (Ok reply, w)))))"

section \<open>The rows of a started conversation\<close>

text \<open>The rows but for the times at which a channel was seen.\<close>

definition unseen :: "store_channel \<Rightarrow> store_channel" where
  "unseen c = c\<lparr>sc_updated_at := 0\<rparr>"

definition same_channels :: "chat_db \<Rightarrow> chat_db \<Rightarrow> bool" where
  "same_channels d d' \<longleftrightarrow> map unseen (cd_channels d') = map unseen (cd_channels d) \<and> map cv_id (cd_convs d') = map cv_id (cd_convs d)"

lemma same_channels_refl [simp]: "same_channels d d"
  by (simp add: same_channels_def)

lemma same_channels_trans: "same_channels a b \<Longrightarrow> same_channels b c \<Longrightarrow> same_channels a c"
  by (simp add: same_channels_def)

lemma same_rows_channels: "same_rows d d' \<Longrightarrow> same_channels d d'"
  by (simp add: same_rows_def same_channels_def)

lemma unseen_simps [simp]: "unseen (c\<lparr>sc_updated_at := t\<rparr>) = unseen c"
  by (simp add: unseen_def)

lemma marks_same_channels [simp]:
  "same_channels d (touch_conv v t e) = same_channels d e"
  "same_channels d (seen_user i t e) = same_channels d e"
  "same_channels d (e\<lparr>cd_messages := ms\<rparr>) = same_channels d e"
  "same_channels d (e\<lparr>cd_message_seq := n\<rparr>) = same_channels d e"
  "same_channels d (e\<lparr>cd_cache := x\<rparr>) = same_channels d e"
  by (simp_all add: same_channels_def seen_user_def comp_def if_distrib cong: if_cong)

lemma save_message_channels: "save_message U now m db = (r, db') \<Longrightarrow> same_channels db db'"
  by (auto simp: save_message_def insert_message_def edit_message_row_def Let_def
      split: if_splits prod.splits sum.splits option.splits dest!: next_statement_rows same_rows_channels)

lemma update_channel_channels: "update_channel U now i t db = (r, db') \<Longrightarrow> same_channels db db'"
  by (auto simp: update_channel_def Let_def same_channels_def comp_def same_rows_def if_distrib
      split: if_splits prod.splits option.splits dest!: next_statement_rows cong: if_cong)

lemma store_message_channels: "store_message U now sender m s w = (r, m', w') \<Longrightarrow> same_channels (cw_db w) (cw_db w')"
  by (auto simp: store_message_def split: prod.splits sum.splits dest: save_message_channels)

lemma read_stage_channels: "read_stage U now sender m db = (r, db') \<Longrightarrow> same_channels db db'"
  by (auto simp: read_stage_def Let_def split: if_splits prod.splits option.splits dest: update_channel_channels)

lemma contact_stage_channels: "contact_stage sender m s w = (r, w') \<Longrightarrow> same_channels (cw_db w) (cw_db w')"
  using contact_stage_quiet [of sender m s w r w'] by (simp add: quiet_def same_rows_channels)

lemma save_content_channels:
  assumes "save_content U W S now sender m s w = (r, m', w')"
  shows "same_channels (cw_db w) (cw_db w')"
  using assms
  by (auto simp: save_content_def Let_def split: if_splits prod.splits sum.splits option.splits
      dest: store_message_channels contact_stage_channels read_stage_channels intro: same_channels_trans)

lemma save_chat_message_channels:
  assumes "save_chat_message U W S now sender (Some m) w = (r, m', w')"
  shows "same_channels (cw_db w) (cw_db w')"
  using save_chat_message_effect [OF assms]
  by (auto simp: quiet_def dest!: same_rows_channels save_content_channels intro: same_channels_trans)

text \<open>The channel of the customer as the transaction leaves it.\<close>

definition started_channel :: "string \<times> string \<Rightarrow> int \<Rightarrow> conversation_request \<Rightarrow> store_channel" where
  "started_channel fresh now q =
     normal_channel (snd fresh) now ((start_channel_row now q)\<lparr>sc_conversation_id := fst fresh\<rparr>)"

lemma started_channel_simps:
  assumes "0 < now"
  shows "sc_id (started_channel fresh now q) = snd fresh"
    "sc_conversation_id (started_channel fresh now q) = fst fresh" "sc_user_id (started_channel fresh now q) = cq_user q"
    "sc_internal (started_channel fresh now q) = cq_internal q" "sc_closed_at (started_channel fresh now q) = None"
    "sc_vars (started_channel fresh now q) = request_vars q"
    "sc_connection (started_channel fresh now q) = valid_string (fst (contact_service_node (cq_connection q)))"
  using assms
  by (simp_all add: started_channel_def normal_channel_def start_channel_row_def zero_channel_def valid_string_def
      Let_def split: prod.split)

lemma new_session_rows:
  assumes "new_session fresh now v db = (None, v', db')"
  shows "cv_id v' = fresh" "cd_channels db' = cd_channels db" "map cv_id (cd_convs db') = map cv_id (cd_convs db) @ [fresh]"
    "cd_messages db' = cd_messages db"
  using assms by (auto simp: new_session_def Let_def same_rows_def split: prod.splits if_splits dest!: next_statement_rows)

lemma new_channel_rows:
  assumes "new_chat_channel U fresh now c db = (None, c', db')" "U (sc_id c') = Some (sc_id c')"
    "U (sc_conversation_id c') = Some (sc_conversation_id c')"
  shows "c' = normal_channel fresh now c"
    "cd_channels db' = cd_channels db @ [c'\<lparr>sc_vars := null_metadata (sc_vars c')\<rparr>]"
    "map cv_id (cd_convs db') = map cv_id (cd_convs db)" "cd_messages db' = cd_messages db"
  using assms
  by (auto simp: new_chat_channel_def insert_channel_def channel_row_def Let_def same_rows_def
      split: prod.splits if_splits option.splits dest!: next_statement_rows)

lemma start_rows_effect:
  assumes "start_rows U W S fresh now q m w = (Ok (c, k), w')" "0 < now" "U (fst fresh) = Some (fst fresh)"
    "U (snd fresh) = Some (snd fresh)"
  shows "c = started_channel fresh now q"
    "map unseen (cd_channels (cw_db w')) = map unseen (cd_channels (cw_db w)) @ [unseen (c\<lparr>sc_vars := null_metadata (sc_vars c)\<rparr>)]"
    "map cv_id (cd_convs (cw_db w')) = map cv_id (cd_convs (cw_db w)) @ [fst fresh]"
proof -
  obtain v d d' r where v: "new_session (fst fresh) now (start_conv_row now q) (cw_db w) = (None, v, d)"
      "new_chat_channel U (snd fresh) now ((start_channel_row now q)\<lparr>sc_conversation_id := cv_id v\<rparr>) d = (None, c, d')"
      "save_chat_message U W S now (start_sender c (cq_title q)) (Some m) (w\<lparr>cw_db := d'\<rparr>) = (Ok r, k, w')"
    using assms(1) by (auto simp: start_rows_def split: prod.splits option.splits sum.splits)
  note s = new_session_rows [OF v(1)]
  have c: "c = started_channel fresh now q"
    using v(2) s(1) by (auto simp: new_chat_channel_def started_channel_def Let_def split: prod.splits if_splits option.splits sum.splits)
  then have "U (sc_id c) = Some (sc_id c)" "U (sc_conversation_id c) = Some (sc_conversation_id c)"
    using assms(2-4) by (simp_all add: started_channel_simps)
  note n = new_channel_rows [OF v(2) this]
  have "same_channels d' (cw_db w')" using save_chat_message_channels [OF v(3)] by simp
  then show "map unseen (cd_channels (cw_db w')) = map unseen (cd_channels (cw_db w)) @ [unseen (c\<lparr>sc_vars := null_metadata (sc_vars c)\<rparr>)]"
    "map cv_id (cd_convs (cw_db w')) = map cv_id (cd_convs (cw_db w)) @ [fst fresh]"
    using s n by (simp_all add: same_channels_def)
  show "c = started_channel fresh now q" by (rule c)
qed

lemma start_transaction_effect:
  assumes "start_transaction U W S fresh now q m w = (Ok (c, k), w')" "0 < now" "U (fst fresh) = Some (fst fresh)"
    "U (snd fresh) = Some (snd fresh)"
  shows "c = started_channel fresh now q"
    "map unseen (cd_channels (cw_db w')) = map unseen (cd_channels (cw_db w)) @ [unseen (c\<lparr>sc_vars := null_metadata (sc_vars c)\<rparr>)]"
    "map cv_id (cd_convs (cw_db w')) = map cv_id (cd_convs (cw_db w)) @ [fst fresh]"
proof -
  obtain f d v f' d' where t: "next_statement (cw_db w) = (f, d)"
      "start_rows U W S fresh now q m (w\<lparr>cw_db := d\<rparr>) = (Ok (c, k), v)" "next_statement (cw_db v) = (f', d')" "w' = v\<lparr>cw_db := d'\<rparr>"
    using assms(1)
    by (auto simp: start_transaction_def Let_def split: prod.splits if_splits sum.splits)
  note e = start_rows_effect [OF t(2) assms(2-4)]
  show "c = started_channel fresh now q" by (rule e(1))
  show "map unseen (cd_channels (cw_db w')) = map unseen (cd_channels (cw_db w)) @ [unseen (c\<lparr>sc_vars := null_metadata (sc_vars c)\<rparr>)]"
    "map cv_id (cd_convs (cw_db w')) = map cv_id (cd_convs (cw_db w)) @ [fst fresh]"
    using e(2,3) next_statement_rows [OF t(1)] next_statement_rows [OF t(3)] t(4) by (simp_all add: same_rows_def)
qed

lemma on_flow_rows:
  "on_flow f w = (x, w') \<Longrightarrow> same_channels (cw_db w) (cw_db w') \<and> cw_clients w' = cw_clients w"
  by (auto simp: on_flow_def Let_def same_channels_def split: prod.splits)

text \<open>A start that failed in the transaction is no failure of the workflow.\<close>

lemma start_transaction_fails: "start_transaction U W S fresh now q m w = (Fail e, w') \<Longrightarrow> \<forall>x. e \<noteq> StartFlow x"
  by (auto simp: start_transaction_def start_rows_def Let_def split: prod.splits if_splits sum.splits option.splits)

text \<open>A start that returned a reply, or whose workflow refused, is committed.\<close>

definition committed :: "(start_error, start_reply) result \<Rightarrow> bool" where
  "committed r \<longleftrightarrow> (case r of Ok _ \<Rightarrow> True | Fail (StartFlow _) \<Rightarrow> True | Fail _ \<Rightarrow> False)"

lemma start_conversation_effect:
  assumes "start_conversation U W S fresh now ats q m w = (r, w')" "committed r" "0 < now" "U (fst fresh) = Some (fst fresh)"
    "U (snd fresh) = Some (snd fresh)"
  shows "map unseen (cd_channels (cw_db w')) = map unseen (cd_channels (cw_db w)) @
      [unseen ((started_channel fresh now q)\<lparr>sc_vars := null_metadata (request_vars q)\<rparr>)]"
    "map cv_id (cd_convs (cw_db w')) = map cv_id (cd_convs (cw_db w)) @ [fst fresh]"
    "r = Ok e \<Longrightarrow> e = \<lparr>st_channel = snd fresh, st_conversation = fst fresh\<rparr>"
proof -
  obtain k c k' v where v: "start_transaction U W S fresh now q k w = (Ok (c, k'), v)"
    and e: "same_channels (cw_db v) (cw_db w')" "\<And>e. r = Ok e \<Longrightarrow> e = \<lparr>st_channel = sc_id c, st_conversation = sc_conversation_id c\<rparr>"
    using assms(1,2)
    by (auto simp: start_conversation_def committed_def Let_def
        split: sum.splits prod.splits if_splits option.splits start_error.splits dest: on_flow_rows start_transaction_fails)
  note t = start_transaction_effect [OF v assms(3-5)]
  show "map unseen (cd_channels (cw_db w')) = map unseen (cd_channels (cw_db w)) @
      [unseen ((started_channel fresh now q)\<lparr>sc_vars := null_metadata (request_vars q)\<rparr>)]"
    "map cv_id (cd_convs (cw_db w')) = map cv_id (cd_convs (cw_db w)) @ [fst fresh]"
    "r = Ok e \<Longrightarrow> e = \<lparr>st_channel = snd fresh, st_conversation = fst fresh\<rparr>"
    using t e assms(3) by (simp_all add: same_channels_def started_channel_simps)
qed

section \<open>A customer who comes back\<close>

text \<open>The request of a bot as the chat service sees it.\<close>

definition conversation_of :: "string \<Rightarrow> start_request \<Rightarrow> conversation_request" where
  "conversation_of host q =
     \<lparr>cq_domain = sr_domain q, cq_title = sr_title q, cq_user = sr_user q, cq_type = sr_type q, cq_connection = sr_connection q,
      cq_internal = False, cq_host = host, cq_vars = Some (sr_props q)\<rparr>"

lemma contact_service_itoa [simp]: "contact_service_node (itoa i) = (itoa i, [])"
proof -
  have "last_index (itoa i) CHR ''@'' = None" using itoa_no_space by (auto simp: last_index_None)
  then show ?thesis by (simp add: contact_service_node_def)
qed

lemma filter_unseen: "(\<And>c. P (unseen c) = P c) \<Longrightarrow> map unseen (filter P cs) = filter P (map unseen cs)"
  by (induction cs) simp_all

lemma filter_matches_unseen [simp]: "filter_matches q (unseen c) = filter_matches q c"
  by (simp add: filter_matches_def unseen_def open_channel_def)

lemma get_channels_single:
  assumes "db_faults (cd_cache db) = []" "canonical_filter U q = Some q'" "cf_id q = None"
    and "filter (filter_matches q') (cd_channels db) = [c]"
  shows "get_channels U q db = (Ok [c\<lparr>sc_public_name := null_string\<rparr>], db)"
  using assms
  by (simp add: get_channels_def search_channels_def search_size_def search_page_def db_search_size_def fetch_rows_def Let_def)

lemma check_session_found:
  assumes "db_faults (cd_cache (cw_db w)) = []" "List.find (\<lambda>k. cc_external_id k = some_string contact) (cw_clients w) = Some k"
    and "filter (filter_matches (no_filter\<lparr>cf_user := Some (cc_id k), cf_contact := Some (itoa pid), cf_internal := Some False,
      cf_active := Some True\<rparr>)) (cd_channels (cw_db w)) = [c]" "0 < pid"
  shows "fst (check_session U fresh pid contact name kind w) =
    Ok \<lparr>ck_client = cc_id k, ck_exists = (sc_id c \<noteq> []), ck_channel = sc_id c, ck_props = sc_vars c\<rparr>"
proof -
  let ?q = "no_filter\<lparr>cf_user := Some (cc_id k), cf_contact := Some (itoa pid), cf_internal := Some False, cf_active := Some True\<rparr>"
  have q: "canonical_filter U ?q = Some ?q" by (simp add: canonical_filter_def Chat_Store.uuid_filter_def no_filter_def)
  have "cf_id ?q = None" by (simp add: no_filter_def)
  from get_channels_single [OF assms(1) q this assms(3)]
  have "open_channels_of U (cc_id k) pid (cw_db w) = (Ok [c\<lparr>sc_public_name := null_string\<rparr>], cw_db w)"
    using assms(4) by (simp add: open_channels_of_def)
  moreover have "cw_db (update_client_name i n w) = cw_db w" for i n
    using assms(1) by (simp add: update_client_name_def)
  ultimately show ?thesis
    using assms(1,2) by (simp add: check_session_def get_client_by_external_def Let_def)
qed

lemma load_known_channel:
  assumes "br_check R = Ok r" "ck_exists r" "ck_channel r \<noteq> []" "vget (env_of (ck_props r)) external_chat = ext" "ext \<noteq> []"
    and "bot_reach b" "h < length (bw_gates b)"
  shows "\<exists>a u' b'. load_channel h asked u R b = (Ok (a, ext), u', b') \<and> bc_id (chan a b') = ck_channel r \<and>
    bc_chat (chan a b') = ext \<and> bn_id (bc_account (chan a b')) = ck_client r \<and> map_of (cx_external (cache_of h b')) ext = Some a"
proof -
  have "bg_cache (gate h b) < length (bw_caches b)" by (rule store_okD(2) [OF bot_reach_ok [OF assms(6)] assms(7)])
  then show ?thesis
    using assms(1-5)
    by (simp add: load_channel_def Let_def add_channel_def index_channel_def chan_def nth_append cache_set_cache gate_def cache_of_def
        set_cache_def log_event_def update_conv')
qed

text \<open>C10: A chat that a bot has started is found again when the bot has forgotten it, as after a restart.
  Once the start is committed, also when its workflow then refused, CheckSession finds the one open
  channel of the customer and answers with its id and the variables of the start, by which the bot's
  Gateway.GetChannel indexes the same chat of the provider with the same channel.\<close>

theorem restarted_bot_finds_chat:
  assumes "start_conversation U W S (conv, chat) now ats (conversation_of host (start_of c g m)) (Some m) w = (r, w')" "committed r"
    and "0 < now" "U conv = Some conv" "U chat = Some chat" "chat \<noteq> []" "0 < bg_id g"
    and "vget (props_vars (bc_props c)) external_chat = ext" "ext \<noteq> []"
    and "List.find (\<lambda>k. cc_external_id k = some_string contact) (cw_clients w') = Some k" "cc_id k = bn_id (bc_account c)"
    and "\<forall>x \<in> set (cd_channels (cw_db w)). sc_user_id x = cc_id k \<longrightarrow> \<not> open_channel x"
    and "db_faults (cd_cache (cw_db w')) = []"
  shows "\<exists>reply. fst (check_session U fresh (bg_id g) contact name kind w') = Ok reply \<and> ck_channel reply = chat \<and>
    (\<forall>h asked u R b. br_check R = Ok reply \<and> bot_reach b \<and> h < length (bw_gates b) \<longrightarrow>
      (\<exists>a u' b'. load_channel h asked u R b = (Ok (a, ext), u', b') \<and> bc_id (chan a b') = chat \<and> bc_chat (chan a b') = ext \<and>
         bn_id (bc_account (chan a b')) = cc_id k \<and> map_of (cx_external (cache_of h b')) ext = Some a))"
proof -
  let ?q = "conversation_of host (start_of c g m)" and ?m = "start_metadata c g"
  let ?s = "(started_channel (conv, chat) now ?q)\<lparr>sc_vars := null_metadata (request_vars ?q)\<rparr>"
  let ?P = "filter_matches (no_filter\<lparr>cf_user := Some (cc_id k), cf_contact := Some (itoa (bg_id g)), cf_internal := Some False,
      cf_active := Some True\<rparr>)"
  have rows: "map unseen (cd_channels (cw_db w')) = map unseen (cd_channels (cw_db w)) @ [unseen ?s]"
    using start_conversation_effect(1) [OF assms(1-3)] assms(4,5) by simp
  have none: "filter ?P (map unseen (cd_channels (cw_db w))) = []"
    using assms(12) by (auto simp: filter_empty_conv) (auto simp: filter_matches_def asks_def no_filter_def)
  have "?P (unseen ?s)"
    using assms(3,11)
    by (simp add: started_channel_simps) (simp add: filter_matches_def asks_def no_filter_def started_channel_simps conversation_of_def
        start_of_def open_channel_def valid_string_def some_string_def)
  then have "map unseen (filter ?P (cd_channels (cw_db w'))) = [unseen ?s]"
    by (simp add: filter_unseen rows none del: filter_map)
  then obtain x where x: "filter ?P (cd_channels (cw_db w')) = [x]" "unseen x = unseen ?s" by (cases "filter ?P (cd_channels (cw_db w'))") auto
  from arg_cong [OF x(2), of sc_id] arg_cong [OF x(2), of sc_vars]
  have "sc_id x = sc_id ?s" "sc_vars x = sc_vars ?s" by (simp_all add: unseen_def)
  then have xs: "sc_id x = chat" "env_of (sc_vars x) = vdel [] ?m"
    using assms(3) by (simp_all add: started_channel_simps request_vars_def conversation_of_def start_of_def null_metadata_def)
  have "vget (env_of (sc_vars x)) external_chat = ext" using assms(8) by (simp add: xs(2) external_chat_def start_metadata_def Let_def)
  note v = this
  let ?r = "\<lparr>ck_client = cc_id k, ck_exists = True, ck_channel = chat, ck_props = sc_vars x\<rparr>"
  have "fst (check_session U fresh (bg_id g) contact name kind w') = Ok ?r"
    using check_session_found [OF assms(13,10) x(1) assms(7), of U fresh name kind] xs(1) assms(6) by simp
  moreover have "\<exists>a u' b'. load_channel h asked u R b = (Ok (a, ext), u', b') \<and> bc_id (chan a b') = chat \<and> bc_chat (chan a b') = ext \<and>
      bn_id (bc_account (chan a b')) = cc_id k \<and> map_of (cx_external (cache_of h b')) ext = Some a"
    if "br_check R = Ok ?r" "bot_reach b" "h < length (bw_gates b)" for h asked u R b
    using load_known_channel [OF that(1) _ _ _ _ that(2,3)] v assms(6,9) by simp
  ultimately show ?thesis by (intro exI [of _ ?r]) auto
qed

section \<open>A lookup that renames the customer\<close>

definition logged :: "bot_world \<Rightarrow> bot_world \<Rightarrow> bool" where
  "logged w w' \<longleftrightarrow> (\<exists>es. bw_events w' = bw_events w @ es)"

lemma logged_trans: "logged a b \<Longrightarrow> logged b c \<Longrightarrow> logged a c"
  by (auto simp: logged_def)

lemma logged_same: "bw_events w' = bw_events w \<Longrightarrow> logged w w'"
  by (simp add: logged_def)

lemma logged_event: "logged w (log_event e w)"
  by (simp add: logged_def log_event_def)

lemma removal_logged: "logged w (remove_gate g (deregister g w))" "bw_events (uncache a w) = bw_events w"
  by (auto simp: logged_def log_event_def deregister_def remove_gate_def uncache_def Let_def)

lemma drop_channel_logged: "logged w (drop_channel a w)"
proof -
  let ?g = "bc_gate (chan a w)"
  have u: "logged w (uncache a w)" by (rule logged_same [OF removal_logged(2)])
  note r = logged_trans [OF logged_trans [OF u removal_logged(1) [of "uncache a w" ?g]] logged_event [of _ "ProviderClosed ?g"]]
  show ?thesis using u r by (simp add: drop_channel_def Let_def)
qed

lemma close_bot_channel_logged: "logged w (snd (close_bot_channel now ats a w))"
proof -
  let ?c = "chan a w"
  let ?v = "log_event (CloseRequested (bc_session ?c) (bc_id ?c) (bn_id (bc_account ?c))) (set_chan a (?c\<lparr>bc_closed := now\<rparr>) w)"
  obtain r u where u: "channel_call ats a ?v = (r, u)" by fastforce
  have v: "logged w ?v" by (simp add: logged_def)
  have "bw_events u = bw_events ?v" using channel_call_effect [OF u] by auto
  with v have l: "logged w u" by (simp add: logged_def)
  note d = logged_trans [OF l drop_channel_logged [of u a]]
  show ?thesis
    using l d drop_channel_logged [of w a] u logged_same [of w w]
    by (simp add: close_bot_channel_eq close_mark_def close_call_def Let_def split: sum.split)
qed

lemma deliver_notice_logged: "logged w (snd (deliver_notice now a m R w))"
proof -
  let ?c = "chan a w"
  let ?n = "if final_notice m then m\<lparr>nt_text := ''closed''\<rparr> else m"
  let ?v = "log_event (Notified (bc_gate ?c) a ?n)
      (if (final_notice m \<and> \<not> is_new ?c) \<and> bc_closed ?c = 0 then set_chan a (?c\<lparr>bc_closed := now\<rparr>) w else w)"
  have v: "logged w ?v" by (simp add: logged_def)
  note c = logged_trans [OF v close_bot_channel_logged [of ?v now "br_close R" a]]
  show ?thesis using v c by (simp only: deliver_notice_def Let_def prod.sel if_split) simp
qed

lemma logged_if: "(P \<Longrightarrow> logged w a) \<Longrightarrow> (\<not> P \<Longrightarrow> logged w b) \<Longrightarrow> logged w (if P then a else b)"
  by simp

lemma move_chat_events: "bw_events (move_chat g a chat chat' w) = bw_events w"
  by (simp add: move_chat_def Let_def split: option.split)

lemma update_contact_logged: "logged w (update_contact T g a chat u w)"
proof -
  have "logged v (if P then v else let y = (if Q then move_chat g a chat x v else v) in if Q \<or> P' then log_event (F y) y else y)" for P Q P' v F x
    unfolding Let_def by (intro logged_if logged_trans [OF _ logged_event] logged_same) (simp_all add: move_chat_events)
  note e = this
  show ?thesis
    unfolding update_contact_def Let_def
    by (rule logged_trans [OF _ e [unfolded Let_def]]) (intro logged_if logged_same, simp_all)
qed

lemma add_channel_events: "bw_events (snd (add_channel c g w)) = bw_events w"
  by (simp add: add_channel_def index_channel_def Let_def)

lemma load_channel_logged:
  assumes "load_channel g chat u R w = (r, u', w')"
  shows "logged (log_event (SessionChecked (bg_id (gate g w)) (bn_contact u) (display_name u) (bn_channel u)) w) w'"
proof -
  let ?e = "SessionChecked (bg_id (gate g w)) (bn_contact u) (display_name u) (bn_channel u)"
  define v where "v = log_event ?e w"
  have "\<exists>c. snd (snd (load_channel g chat u R w)) \<in> {v, snd (add_channel c g v)}"
  proof (cases "br_check R")
    case (Inl x)
    then show ?thesis by (simp add: load_channel_def v_def [symmetric] Let_def)
  next
    case (Inr q)
    note l = load_channel_def Let_def v_def [symmetric] Inr sum.case split_beta snd_conv
    consider "ck_exists q \<and> ck_channel q \<noteq> []" | "\<not> (ck_exists q \<and> ck_channel q \<noteq> [])" "\<not> bg_enabled (gate g v)"
      | "\<not> (ck_exists q \<and> ck_channel q \<noteq> [])" "bg_enabled (gate g v)" by blast
    then show ?thesis
    proof cases
      case 1
      show ?thesis unfolding l if_P [OF 1] by blast
    next
      case 2
      show ?thesis unfolding l if_not_P [OF 2(1)] if_P [OF 2(2)] by blast
    next
      case 3
      then have n: "\<not> \<not> bg_enabled (gate g v)" by simp
      show ?thesis unfolding l if_not_P [OF 3(1)] if_not_P [OF n] by blast
    qed
  qed
  then have "bw_events w' = bw_events v" using assms by (auto simp: add_channel_events)
  then show ?thesis unfolding v_def [symmetric] by (rule logged_same)
qed

lemma update_client_name_effect:
  assumes "db_faults (cd_cache (cw_db w)) = []" "1 \<le> i"
  shows "\<forall>k \<in> set (cw_clients (update_client_name i n w)). cc_id k = i \<longrightarrow> cc_name k = some_string n"
proof -
  have "cw_clients (update_client_name i n w) = map (\<lambda>k. if cc_id k = i then k\<lparr>cc_name := some_string n\<rparr> else k) (cw_clients w)"
    using assms by (simp add: update_client_name_def no_statement_fault [OF assms(1)])
  then show ?thesis by (simp only: set_map ball_simps(9)) (simp split: if_split)
qed

text \<open>C21: A bot that sends to a customer of whom it has only the chat, as after a restart, asks the chat service
  for the session under the name noname; and CheckSession, which takes the name of the request for the
  one that the customer has now, renames the customer.\<close>

theorem lookup_renames_customer:
  assumes "send_notify T now g (bg_id (gate g b)) chat m R b = (e, m', b')" "chat \<noteq> []"
    and "map_of (cx_external (cache_of g b)) chat = None"
    and "List.find (\<lambda>k. cc_external_id k = some_string chat) (cw_clients w) = Some k" "ns_string (cc_name k) \<noteq> ''noname''"
    and "1 \<le> cc_id k" "db_faults (cd_cache (cw_db w)) = []"
  shows "\<exists>name es. bw_events b' = bw_events b @ SessionChecked (bg_id (gate g b)) chat name (bg_provider (gate g b)) # es \<and>
    (\<forall>x \<in> set (cw_clients (snd (check_session U fresh (bg_id (gate g b)) chat name (bg_provider (gate g b)) w))).
       cc_id x = cc_id k \<longrightarrow> cc_name x = some_string ''noname'')"
proof -
  let ?u = "\<lparr>bn_id = 0, bn_first = [], bn_last = [], bn_username = [], bn_channel = bg_provider (gate g b), bn_contact = chat\<rparr>"
  let ?v = "log_event (SessionChecked (bg_id (gate g b)) chat ''noname'' (bg_provider (gate g b))) b"
  have u: "display_name ?u = ''noname''" by (simp add: display_name_def trim_space_def)
  have miss: "cached_channel g chat ?u b = None" using assms(3) by (simp add: cached_channel_def)
  obtain r u' y where l: "load_channel g chat ?u R b = (r, u', y)" by (metis prod.exhaust)
  have y: "logged ?v y" using load_channel_logged [OF l] by (simp add: u)
  have "logged ?v b'"
  proof (cases r)
    case (Inl x)
    then show ?thesis using assms(1,2) miss l y by (simp add: send_notify_def get_bot_channel_def given_contact_def)
  next
    case (Inr p)
    obtain a chat' where p: "p = (a, chat')" by fastforce
    have "b' = snd (deliver_notice now a m R (update_contact T g a chat' u' y))"
      using assms(1,2) miss l Inr p by (auto simp: send_notify_def get_bot_channel_def given_contact_def)
    then show ?thesis using logged_trans [OF y logged_trans [OF update_contact_logged deliver_notice_logged]] by simp
  qed
  then have "\<exists>es. bw_events b' = bw_events b @ SessionChecked (bg_id (gate g b)) chat ''noname'' (bg_provider (gate g b)) # es"
    by (auto simp: logged_def log_event_def)
  moreover have "cw_clients (snd (check_session U fresh (bg_id (gate g b)) chat ''noname'' (bg_provider (gate g b)) w)) =
      cw_clients (update_client_name (cc_id k) ''noname'' w)"
    using assms(4,5,7)
    by (auto simp: check_session_def get_client_by_external_def Let_def split: prod.split sum.split list.split)
  ultimately show ?thesis using update_client_name_effect [OF assms(7,6), of "''noname''"] by auto
qed

section \<open>Witnesses\<close>

definition known_customer :: chat_client where
  "known_customer = \<lparr>cc_id = 8, cc_external_id = some_string ''77'', cc_name = some_string ''Ann'', cc_type = some_string ''telegram''\<rparr>"

definition example_lobby :: chat_world where
  "example_lobby = (example_world [])\<lparr>cw_clients := [known_customer]\<rparr>"

text \<open>A start for which no node of the workflow is there.\<close>

definition example_start :: "(start_error, start_reply) result \<times> chat_world" where
  "example_start = start_conversation Some example_web no_storage (''cv1'', ''ch1'') 9000000 []
     (conversation_of ''n1'' (start_of (chan 0 bot_contacted) (gate 0 bot_contacted) (example_text_request ''hi'')))
     (Some (example_text_request ''hi'')) example_lobby"

lemma restarted_bot_finds_chat_witness:
  "(\<exists>e. fst example_start = Fail (StartFlow e)) \<and>
    (\<exists>reply. fst (check_session Some 9 3 ''77'' ''Ann'' ''telegram'' (snd example_start)) = Ok reply \<and> ck_channel reply = ''ch1'')"
proof -
  have f: "case fst example_start of Fail (StartFlow e) \<Rightarrow> True | _ \<Rightarrow> False" by code_simp
  have c: "committed (fst example_start)" by code_simp
  have e: "start_conversation Some example_web no_storage (''cv1'', ''ch1'') 9000000 []
     (conversation_of ''n1'' (start_of (chan 0 bot_contacted) (gate 0 bot_contacted) (example_text_request ''hi'')))
     (Some (example_text_request ''hi'')) example_lobby = (fst example_start, snd example_start)"
    by (simp add: example_start_def)
  have h: "0 < (9000000 :: int)" "Some ''cv1'' = Some ''cv1''" "Some ''ch1'' = Some ''ch1''" "''ch1'' \<noteq> []"
    "0 < bg_id (gate 0 bot_contacted)" by code_simp+
  have v: "vget (props_vars (bc_props (chan 0 bot_contacted))) external_chat = ''77''" "''77'' \<noteq> []" by code_simp+
  have k: "List.find (\<lambda>k. cc_external_id k = some_string ''77'') (cw_clients (snd example_start)) = Some known_customer"
    "cc_id known_customer = bn_id (bc_account (chan 0 bot_contacted))" by code_simp+
  have n: "\<forall>x \<in> set (cd_channels (cw_db example_lobby)). sc_user_id x = cc_id known_customer \<longrightarrow> \<not> open_channel x"
    "db_faults (cd_cache (cw_db (snd example_start))) = []" by code_simp+
  have g: "bg_id (gate 0 bot_contacted) = 3" by code_simp
  from restarted_bot_finds_chat [OF e c h v k n, of 9 "''Ann''" "''telegram''"] g
  have "\<exists>reply. fst (check_session Some 9 3 ''77'' ''Ann'' ''telegram'' (snd example_start)) = Ok reply \<and> ck_channel reply = ''ch1''" by auto
  then show ?thesis using f by (auto split: sum.splits start_error.splits)
qed

lemma lookup_renames_customer_witness:
  "map cc_name (cw_clients (snd (check_session Some 9 3 ''77'' ''noname'' ''telegram'' example_lobby))) = [some_string ''noname'']"
proof -
  let ?r = "send_notify plain_template 9 0 (bg_id (gate 0 bot_started)) ''77'' (example_text_request ''hi'') example_bot_replies bot_started"
  have r: "?r = (fst ?r, fst (snd ?r), snd (snd ?r))" by simp
  have h: "''77'' \<noteq> []" "map_of (cx_external (cache_of 0 bot_started)) ''77'' = None"
    "List.find (\<lambda>k. cc_external_id k = some_string ''77'') (cw_clients example_lobby) = Some known_customer"
    "ns_string (cc_name known_customer) \<noteq> ''noname''" "1 \<le> cc_id known_customer" "db_faults (cd_cache (cw_db example_lobby)) = []"
    by code_simp+
  have g: "bg_id (gate 0 bot_started) = 3" "bg_provider (gate 0 bot_started) = ''telegram''" by code_simp+
  have b: "length (bw_events bot_started) < length (bw_events (snd (snd ?r)))"
    "bw_events (snd (snd ?r)) ! length (bw_events bot_started) = SessionChecked 3 ''77'' ''noname'' ''telegram''" by code_simp+
  obtain name es where n: "bw_events (snd (snd ?r)) = bw_events bot_started @ SessionChecked 3 ''77'' name ''telegram'' # es"
      "\<forall>x \<in> set (cw_clients (snd (check_session Some 9 3 ''77'' name ''telegram'' example_lobby))).
         cc_id x = cc_id known_customer \<longrightarrow> cc_name x = some_string ''noname''"
    using lookup_renames_customer [OF r h, of Some 9] unfolding g by blast
  have "name = ''noname''" using b(2) unfolding n(1) by simp
  with n(2) have a: "\<forall>x \<in> set (cw_clients (snd (check_session Some 9 3 ''77'' ''noname'' ''telegram'' example_lobby))).
         cc_id x = cc_id known_customer \<longrightarrow> cc_name x = some_string ''noname''" by simp
  have "map cc_id (cw_clients (snd (check_session Some 9 3 ''77'' ''noname'' ''telegram'' example_lobby))) = [cc_id known_customer]" by code_simp
  then obtain x where "cw_clients (snd (check_session Some 9 3 ''77'' ''noname'' ''telegram'' example_lobby)) = [x]" "cc_id x = cc_id known_customer"
    by (cases "cw_clients (snd (check_session Some 9 3 ''77'' ''noname'' ''telegram'' example_lobby))") auto
  with a show ?thesis by simp
qed

end
