(* ===== verification/Web_Room.thy ===== *)
theory Web_Room
  imports Chat_Start
begin

text \<open>
  The rooms of the chat of a web site (bot/webchat/webchat.go): the history of a room, its buffer for the
  encoded frames, and the tasks that its write routine runs one after the other.  A connection is a
  number; the functions that the code sends over the channel of a room are the constructors of a
  datatype.  Which writes to a connection fail is data of the world.
\<close>

section \<open>The state\<close>

text \<open>What is encoded: the state of the chat, and the envelope of an answer or an update.\<close>

datatype web_body =
    InfoBody string bot_account "notice list" int int
  | ReplyBody "string option" string "notice option"

text \<open>The encoder of JSON on these; the text of its error otherwise.\<close>

type_synonym web_json = "web_body \<Rightarrow> (string, string) result"

datatype web_frame = TextFrame string | ByeFrame | PingFrame

text \<open>A slice is an array and a length: its bytes are what the array holds when it is read.\<close>

type_synonym web_slice = "nat \<times> nat"

datatype web_task =
    TaskInfo nat
  | TaskUpdate notice
  | TaskBye
  | TaskRemove nat
  | TaskReply nat "(string, notice) result" web_slice

record web_room =
  wr_channel :: nat
  wr_gate :: nat
  wr_conn :: "nat list"
  wr_closed :: bool
  wr_queue :: "web_task list"
  wr_shut :: bool
  wr_arrays :: "string list"
  wr_buf :: nat
  wr_index :: "(int \<times> nat) list"
  wr_msgs :: "notice list"
  wr_writer :: bool

text \<open>A reader listens in its room, or holds an answer that it is about to post.\<close>

datatype web_reader = Listening nat | Answering nat web_task

record web_world =
  ww_bot :: bot_world
  ww_chat :: "(string \<times> nat) list"
  ww_rooms :: "web_room list"
  ww_owner :: "nat list"
  ww_joins :: "(nat \<times> nat \<times> bool \<times> bool) list"
  ww_readers :: "(nat \<times> web_reader) list"
  ww_senders :: "(nat \<times> web_task list) list"
  ww_gone :: "nat list"
  ww_faults :: "bool list"
  ww_frames :: "(nat \<times> web_frame) list"
  ww_panics :: nat

record web_options =
  wo_write_timeout :: int
  wo_media_max :: int

definition room :: "nat \<Rightarrow> web_world \<Rightarrow> web_room" where
  "room i w = ww_rooms w ! i"

definition set_room :: "nat \<Rightarrow> web_room \<Rightarrow> web_world \<Rightarrow> web_world" where
  "set_room i r w = w\<lparr>ww_rooms := (ww_rooms w)[i := r]\<rparr>"

section \<open>History\<close>

text \<open>pushMessage: a message that is there is replaced; service messages, without an id, are not kept.\<close>

definition push_message :: "notice \<Rightarrow> web_room \<Rightarrow> web_room" where
  "push_message m r =
     (if nt_id m = 0 then r
      else
        (case map_of (wr_index r) (nt_id m) of
           Some i \<Rightarrow> r\<lparr>wr_msgs := (wr_msgs r)[i := m]\<rparr>
         | None \<Rightarrow>
             r\<lparr>wr_index := AList.update (nt_id m) (List.length (wr_msgs r)) (wr_index r), wr_msgs := wr_msgs r @ [m]\<rparr>))"

section \<open>The buffer\<close>

text \<open>The bytes of a slice now.\<close>

definition slice_bytes :: "web_slice \<Rightarrow> web_room \<Rightarrow> string" where
  "slice_bytes s r = take (snd s) (wr_arrays r ! fst s)"

text \<open>Reset and Write of the buffer of the Go library: what fits is written over the array, else the buffer
  gets a new array, twice as large or of the length that is needed.\<close>

definition write_buffer :: "string \<Rightarrow> web_room \<Rightarrow> web_slice \<times> web_room" where
  "write_buffer s r =
     (let a = wr_arrays r ! wr_buf r; n = List.length s in
      if n \<le> List.length a
        then ((wr_buf r, n), r\<lparr>wr_arrays := (wr_arrays r)[wr_buf r := s @ drop n a]\<rparr>)
      else
        (let k = List.length (wr_arrays r); cap = max n (2 * List.length a)
         in ((k, n), r\<lparr>wr_arrays := wr_arrays r @ [s @ replicate (cap - n) (CHR 0x00)], wr_buf := k\<rparr>)))"

text \<open>encodeJSON: an error is encoded in the envelope of an answer.\<close>

definition body_seq :: "web_body \<Rightarrow> string option" where
  "body_seq b = (case b of ReplyBody seq _ _ \<Rightarrow> seq | _ \<Rightarrow> None)"

definition encode_json :: "web_json \<Rightarrow> web_body \<Rightarrow> web_room \<Rightarrow> web_slice \<times> bool \<times> web_room" where
  "encode_json J b r =
     (case J b of
        Ok s \<Rightarrow> (let (sl, r) = write_buffer s r in (sl, True, r))
      | Fail e \<Rightarrow>
          (case J (ReplyBody (body_seq b) e None) of
             Ok s \<Rightarrow> (let (sl, r) = write_buffer s r in (sl, False, r))
           | Fail _ \<Rightarrow> ((wr_buf r, 0), False, r)))"

section \<open>Frames\<close>

definition close_conn :: "nat \<Rightarrow> web_world \<Rightarrow> web_world" where
  "close_conn c w = (if c \<in> set (ww_gone w) then w else w\<lparr>ww_gone := c # ww_gone w\<rparr>)"

text \<open>A write to a connection that was closed fails.\<close>

definition write_conn :: "nat \<Rightarrow> web_frame \<Rightarrow> web_world \<Rightarrow> bool \<times> web_world" where
  "write_conn c f w =
     (let fault = (case ww_faults w of [] \<Rightarrow> False | b # _ \<Rightarrow> b); w = w\<lparr>ww_faults := tl (ww_faults w)\<rparr> in
      if fault \<or> c \<in> set (ww_gone w) then (False, w) else (True, w\<lparr>ww_frames := ww_frames w @ [(c, f)]\<rparr>))"

text \<open>sendFrame: a connection that fails leaves the room and is closed.\<close>

definition send_frame :: "nat \<Rightarrow> nat \<Rightarrow> web_slice \<Rightarrow> web_world \<Rightarrow> bool \<times> web_world" where
  "send_frame i c s w =
     (let (ok, w) = write_conn c (TextFrame (slice_bytes s (room i w))) w in
      if ok then (True, w)
      else (False, close_conn c (set_room i ((room i w)\<lparr>wr_conn := remove1 c (wr_conn (room i w))\<rparr>) w)))"

text \<open>The loop of broadcast over the connections below an index, the last one first.\<close>

fun broadcast_below :: "nat \<Rightarrow> web_slice \<Rightarrow> nat \<Rightarrow> web_world \<Rightarrow> web_world" where
  "broadcast_below i s 0 w = w"
| "broadcast_below i s (Suc k) w = broadcast_below i s k (snd (send_frame i (wr_conn (room i w) ! k) s w))"

definition encode_in :: "web_json \<Rightarrow> nat \<Rightarrow> web_body \<Rightarrow> web_world \<Rightarrow> web_slice \<times> bool \<times> web_world" where
  "encode_in J i b w = (let (s, ok, r) = encode_json J b (room i w) in (s, ok, set_room i r w))"

definition broadcast :: "web_json \<Rightarrow> nat \<Rightarrow> web_body \<Rightarrow> web_world \<Rightarrow> web_world" where
  "broadcast J i b w =
     (let (s, _, w) = encode_in J i b w in broadcast_below i s (List.length (wr_conn (room i w))) w)"

section \<open>The tasks\<close>

definition update_body :: "notice \<Rightarrow> web_body" where
  "update_body m = ReplyBody None [] (Some m)"

text \<open>The state of the chat for a connection, which then takes part in the room.\<close>

definition run_info :: "web_json \<Rightarrow> web_options \<Rightarrow> nat \<Rightarrow> nat \<Rightarrow> web_world \<Rightarrow> web_world" where
  "run_info J opts i c w =
     (let ch = chan (wr_channel (room i w)) (ww_bot w);
          b = InfoBody (bc_id ch) (bc_account ch) (wr_msgs (room i w)) (to_int32 (wo_write_timeout opts)) (wo_media_max opts);
          (s, ok, w) = encode_in J i b w;
          (sent, w) = send_frame i c s w
      in if ok \<and> sent then set_room i ((room i w)\<lparr>wr_conn := wr_conn (room i w) @ [c]\<rparr>) w else w)"

definition run_update :: "web_json \<Rightarrow> nat \<Rightarrow> notice \<Rightarrow> web_world \<Rightarrow> web_world" where
  "run_update J i m w = broadcast J i (update_body m) (set_room i (push_message m (room i w)) w)"

text \<open>Closing frames; their errors are only logged.\<close>

definition bye_conn :: "nat \<Rightarrow> web_world \<Rightarrow> web_world" where
  "bye_conn c w = close_conn c (snd (write_conn c ByeFrame w))"

definition run_bye :: "nat \<Rightarrow> web_world \<Rightarrow> web_world" where
  "run_bye i w =
     (let w = fold bye_conn (rev (wr_conn (room i w))) w in set_room i ((room i w)\<lparr>wr_conn := [], wr_closed := True\<rparr>) w)"

definition run_remove :: "nat \<Rightarrow> nat \<Rightarrow> web_world \<Rightarrow> web_world" where
  "run_remove i c w = set_room i ((room i w)\<lparr>wr_conn := remove1 c (wr_conn (room i w))\<rparr>) w"

text \<open>The note of a reply to the other connections of its room: encoded for the first of them.\<close>

fun note_below :: "web_json \<Rightarrow> nat \<Rightarrow> nat \<Rightarrow> notice \<Rightarrow> web_slice option \<Rightarrow> nat \<Rightarrow> web_world \<Rightarrow> web_world" where
  "note_below J i self m s 0 w = w"
| "note_below J i self m s (Suc k) w =
     (let peer = wr_conn (room i w) ! k in
      if peer = self then note_below J i self m s k w
      else
        (let (sl, w) = (case s of
                          Some sl \<Rightarrow> (sl, w)
                        | None \<Rightarrow> (let (sl, _, w) = encode_in J i (update_body m) w in (sl, w)))
         in note_below J i self m (if snd sl = 0 then None else Some sl) k (snd (send_frame i peer sl w))))"

definition run_reply :: "web_json \<Rightarrow> nat \<Rightarrow> nat \<Rightarrow> (string, notice) result \<Rightarrow> web_slice \<Rightarrow> web_world \<Rightarrow> web_world" where
  "run_reply J i c res s w =
     (case res of
        Fail e \<Rightarrow> snd (send_frame i c s w)
      | Ok m \<Rightarrow>
          (let w = set_room i (push_message m (room i w)) w;
               w = snd (send_frame i c s w)
           in note_below J i c m None (List.length (wr_conn (room i w))) w))"

fun run_task :: "web_json \<Rightarrow> web_options \<Rightarrow> nat \<Rightarrow> web_task \<Rightarrow> web_world \<Rightarrow> web_world" where
  "run_task J opts i (TaskInfo c) w = run_info J opts i c w"
| "run_task J opts i (TaskUpdate m) w = run_update J i m w"
| "run_task J opts i TaskBye w = run_bye i w"
| "run_task J opts i (TaskRemove c) w = run_remove i c w"
| "run_task J opts i (TaskReply c res s) w = run_reply J i c res s w"

section \<open>The write routine\<close>

text \<open>When it ends the room leaves the index and the chat is closed, unless it was.\<close>

definition writer_exit :: "int \<Rightarrow> unit bot_attempt list \<Rightarrow> nat \<Rightarrow> web_world \<Rightarrow> web_world" where
  "writer_exit now ats i w =
     (let a = wr_channel (room i w); chat = bc_chat (chan a (ww_bot w));
          w = (if map_of (ww_chat w) chat = Some i then w\<lparr>ww_chat := AList.delete chat (ww_chat w)\<rparr> else w);
          w = (if bc_closed (chan a (ww_bot w)) = 0 then w\<lparr>ww_bot := snd (close_bot_channel now ats a (ww_bot w))\<rparr> else w)
      in set_room i ((room i w)\<lparr>wr_writer := False\<rparr>) w)"

definition writer_check :: "int \<Rightarrow> unit bot_attempt list \<Rightarrow> nat \<Rightarrow> web_world \<Rightarrow> web_world" where
  "writer_check now ats i w =
     (if wr_closed (room i w) \<and> wr_conn (room i w) = [] then writer_exit now ats i w else w)"

text \<open>What comes from the channel: a task, or that the channel was closed.\<close>

definition writer_recv ::
  "web_json \<Rightarrow> web_options \<Rightarrow> int \<Rightarrow> unit bot_attempt list \<Rightarrow> nat \<Rightarrow> web_world \<Rightarrow> web_world option" where
  "writer_recv J opts now ats i w =
     (case wr_queue (room i w) of
        t # q \<Rightarrow> Some (writer_check now ats i (run_task J opts i t (set_room i ((room i w)\<lparr>wr_queue := q\<rparr>) w)))
      | [] \<Rightarrow>
          if wr_shut (room i w)
          then (let w = fold bye_conn (wr_conn (room i w)) w
                in Some (writer_check now ats i (set_room i ((room i w)\<lparr>wr_conn := [], wr_closed := True\<rparr>) w)))
          else None)"

text \<open>The ping of the connections below an index: one that fails leaves the room but is not closed.\<close>

fun ping_below :: "nat \<Rightarrow> nat \<Rightarrow> web_world \<Rightarrow> web_world" where
  "ping_below i 0 w = w"
| "ping_below i (Suc k) w =
     (let (ok, w) = write_conn (wr_conn (room i w) ! k) PingFrame w in
      ping_below i k
        (if ok then w
         else set_room i ((room i w)\<lparr>wr_conn := take k (wr_conn (room i w)) @ drop (Suc k) (wr_conn (room i w))\<rparr>) w))"

definition writer_tick :: "int \<Rightarrow> unit bot_attempt list \<Rightarrow> nat \<Rightarrow> web_world \<Rightarrow> web_world" where
  "writer_tick now ats i w =
     (let w = ping_below i (List.length (wr_conn (room i w))) w;
          w = (if wr_conn (room i w) = [] then set_room i ((room i w)\<lparr>wr_closed := True\<rparr>) w else w)
      in writer_check now ats i w)"

end
