(* ===== verification/Web_Chat.thy ===== *)
theory Web_Chat
  imports Web_Room
begin

text \<open>
  The provider of the chat of a web site (bot/webchat/webchat.go) around its rooms: the notices of the chat
  service, the requests that open a connection, the routine that reads from one, and the close of the
  provider.  Each handler is split where other goroutines may run: at every send over the channel of a
  room, which holds one task and then blocks, and at every lock.
\<close>

section \<open>Notices of the chat service\<close>

definition template_text :: "bot_template \<Rightarrow> nat \<Rightarrow> string \<Rightarrow> notice_account option \<Rightarrow> string" where
  "template_text T g name peer =
     (case T g name (map_option (\<lambda>p. \<lparr>bn_id = na_id p, bn_first = na_first_name p, bn_last = na_last_name p, bn_username = [],
                                       bn_channel = na_channel p, bn_contact = []\<rparr>) peer) of
        None \<Rightarrow> [] | Some t \<Rightarrow> t)"

definition from_peer :: "notice_account \<Rightarrow> app_user" where
  "from_peer p = \<lparr>au_id = na_id p, au_channel = na_channel p, au_contact = [], au_first_name = na_first_name p,
                  au_last_name = na_last_name p, au_user_name = [], au_language = []\<rparr>"

text \<open>What SendNotify does with a message: the tasks that it posts to the room, one after the other, the
  service message that it saves instead, or the panic of an update without a member.\<close>

datatype web_notice = NoticeTasks "web_task list" | NoticeService string notice | NoticePanic

definition notice_tasks :: "bot_template \<Rightarrow> int \<Rightarrow> nat \<Rightarrow> string \<Rightarrow> notice \<Rightarrow> web_notice" where
  "notice_tasks T now g channel m =
     (let as_text = (\<lambda>t. m\<lparr>nt_type := ''text'', nt_text := t\<rparr>) in
      if nt_type m = ''text'' \<or> nt_type m = ''file'' then NoticeTasks [TaskUpdate m]
      else if nt_type m = ''left'' then
        (let t = template_text T g ''left'' (nt_left_member m) in NoticeTasks (if t = [] then [] else [TaskUpdate (as_text t)]))
      else if nt_type m = ''joined'' then
        (case nt_new_members m of
           [] \<Rightarrow> NoticePanic
         | p # _ \<Rightarrow>
             (let t = template_text T g ''join'' (Some p) in
              if t = [] then NoticeTasks []
              else if channel \<noteq> [] then
                NoticeService channel (zero_notice\<lparr>nt_type := ''text'', nt_text := t, nt_created := now, nt_from := Some (from_peer p)\<rparr>)
              else NoticeTasks [TaskUpdate (as_text t)]))
      else if nt_type m = ''closed'' then
        (let t = template_text T g ''close'' None in NoticeTasks ((if t = [] then [] else [TaskUpdate (as_text t)]) @ [TaskBye]))
      else NoticeTasks [])"

datatype web_error = WebNoRoom | WebBot bot_error | WebPanic

text \<open>A notice for a chat without a room closes the chat, unless it says that it is closed.\<close>

definition send_web_notice ::
  "bot_template \<Rightarrow> int \<Rightarrow> nat \<Rightarrow> nat \<Rightarrow> notice \<Rightarrow> bot_replies \<Rightarrow> web_world \<Rightarrow> web_error option \<times> web_world" where
  "send_web_notice T now g a m R w =
     (let ch = chan a (ww_bot w) in
      case map_of (ww_chat w) (bc_chat ch) of
        None \<Rightarrow>
          if nt_type m = ''closed'' then (None, w)
          else (Some WebNoRoom, w\<lparr>ww_bot := snd (close_bot_channel now (br_close R) a (ww_bot w))\<rparr>)
      | Some i \<Rightarrow>
          (case notice_tasks T now g (bc_id ch) m of
             NoticePanic \<Rightarrow> (Some WebPanic, w\<lparr>ww_panics := Suc (ww_panics w)\<rparr>)
           | NoticeService chat k \<Rightarrow>
               (let (e, b) = service_message chat k R (ww_bot w) in (map_option WebBot e, w\<lparr>ww_bot := b\<rparr>))
           | NoticeTasks ts \<Rightarrow> (None, w\<lparr>ww_senders := ww_senders w @ [(i, ts)]\<rparr>)))"

section \<open>Sending over the channel of a room\<close>

text \<open>A send to a closed channel is a panic; one to a full channel blocks, or is passed over.\<close>

datatype post = Posted | PostFull | PostPanic

definition post_task :: "nat \<Rightarrow> web_task \<Rightarrow> web_world \<Rightarrow> post \<times> web_world" where
  "post_task i t w =
     (if wr_shut (room i w) then (PostPanic, w\<lparr>ww_panics := Suc (ww_panics w)\<rparr>)
      else if wr_queue (room i w) \<noteq> [] then (PostFull, w)
      else (Posted, set_room i ((room i w)\<lparr>wr_queue := wr_queue (room i w) @ [t]\<rparr>) w))"

text \<open>The next task of a notice; None while it blocks.\<close>

definition sender_post :: "nat \<Rightarrow> web_world \<Rightarrow> web_world option" where
  "sender_post k w =
     (case ww_senders w ! k of
        (i, []) \<Rightarrow> None
      | (i, t # ts) \<Rightarrow>
          (case post_task i t w of
             (Posted, w) \<Rightarrow> Some (w\<lparr>ww_senders := (ww_senders w)[k := (i, ts)]\<rparr>)
           | (PostPanic, w) \<Rightarrow> Some (w\<lparr>ww_senders := (ww_senders w)[k := (i, [])]\<rparr>)
           | (PostFull, _) \<Rightarrow> None))"

section \<open>Connections\<close>

text \<open>The room for a device: that of the index when the request came with its id, or a new one for the chat that
  GetChannel gives.  The account is the one that WebHook makes up.\<close>

definition web_user :: "string \<Rightarrow> bot_account" where
  "web_user device =
     \<lparr>bn_id = 0, bn_first = ''Web'', bn_last = ''Chat'', bn_username = [], bn_channel = ''webchat'', bn_contact = device\<rparr>"

definition new_room :: "nat \<Rightarrow> nat \<Rightarrow> nat \<Rightarrow> web_room" where
  "new_room a g bufsize =
     \<lparr>wr_channel = a, wr_gate = g, wr_conn = [], wr_closed = False, wr_queue = [], wr_shut = False,
      wr_arrays = [replicate bufsize (CHR 0x00)], wr_buf = 0, wr_index = [], wr_msgs = [], wr_writer = False\<rparr>"

definition find_room ::
  "bot_template \<Rightarrow> nat \<Rightarrow> nat \<Rightarrow> string \<Rightarrow> bool \<Rightarrow> bot_replies \<Rightarrow> web_world \<Rightarrow> (bot_error, nat) result \<times> web_world" where
  "find_room T g bufsize device known R w =
     (case (if known then map_of (ww_chat w) device else None) of
        Some i \<Rightarrow> (Ok i, w)
      | None \<Rightarrow>
          (case get_bot_channel T g device (Some (web_user device)) R (ww_bot w) of
             (Fail e, b) \<Rightarrow> (Fail e, w\<lparr>ww_bot := b\<rparr>)
           | (Ok a, b) \<Rightarrow>
               (Ok (List.length (ww_rooms w)), w\<lparr>ww_bot := b, ww_rooms := ww_rooms w @ [new_room a g bufsize]\<rparr>)))"

text \<open>A connection that was upgraded enters join: whether the room had no connection is read first.\<close>

definition connect_room ::
  "bot_template \<Rightarrow> nat \<Rightarrow> nat \<Rightarrow> string \<Rightarrow> bool \<Rightarrow> bool \<Rightarrow> bot_replies \<Rightarrow> web_world \<Rightarrow> bot_error option \<times> web_world" where
  "connect_room T g bufsize device known upgraded R w =
     (case find_room T g bufsize device known R w of
        (Fail e, w) \<Rightarrow> (Some e, w)
      | (Ok i, w) \<Rightarrow>
          if upgraded
          then (None, w\<lparr>ww_joins := ww_joins w @ [(List.length (ww_owner w), i, wr_conn (room i w) = [], False)],
                       ww_owner := ww_owner w @ [i]\<rparr>)
          else (None, w))"

text \<open>join posts the state of the chat for its connection; None while it blocks.\<close>

definition join_post :: "nat \<Rightarrow> web_world \<Rightarrow> web_world option" where
  "join_post k w =
     (case ww_joins w ! k of
        (c, i, primary, True) \<Rightarrow> None
      | (c, i, primary, False) \<Rightarrow>
          (case post_task i (TaskInfo c) w of
             (Posted, w) \<Rightarrow> Some (w\<lparr>ww_joins := (ww_joins w)[k := (c, i, primary, True)]\<rparr>)
           | (PostPanic, w) \<Rightarrow> Some (w\<lparr>ww_joins := take k (ww_joins w) @ drop (Suc k) (ww_joins w)\<rparr>)
           | (PostFull, _) \<Rightarrow> None))"

text \<open>Then it registers the room, for the first connection starts the chat and the writer, and the reader.\<close>

definition start_update :: notice where
  "start_update = zero_notice\<lparr>nt_type := ''text'', nt_text := ''/start''\<rparr>"

definition join_enter ::
  "bot_template \<Rightarrow> int \<Rightarrow> nat \<Rightarrow> bot_replies \<Rightarrow> web_world \<Rightarrow> web_world option" where
  "join_enter T now k R w =
     (case ww_joins w ! k of
        (c, i, primary, False) \<Rightarrow> None
      | (c, i, primary, True) \<Rightarrow>
          (let a = wr_channel (room i w); chat = bc_chat (chan a (ww_bot w)); here = map_of (ww_chat w) chat;
               w = w\<lparr>ww_joins := take k (ww_joins w) @ drop (Suc k) (ww_joins w)\<rparr> in
           if here \<noteq> None \<and> here \<noteq> Some i then Some (w\<lparr>ww_panics := Suc (ww_panics w)\<rparr>)
           else
             (let primary = (primary \<and> here = None);
                  w = w\<lparr>ww_chat := AList.update chat i (ww_chat w)\<rparr>;
                  b = ww_bot w;
                  w = (if primary \<and> is_new (chan a b)
                       then w\<lparr>ww_bot := snd (snd (read_update T now (bc_gate (chan a b)) a (Some (bc_account (chan a b))) start_update R b))\<rparr>
                       else w);
                  w = (if primary then set_room i ((room i w)\<lparr>wr_writer := True\<rparr>) w else w)
              in Some (w\<lparr>ww_readers := AList.update c (Listening i) (ww_readers w)\<rparr>))))"

section \<open>The read routine\<close>

text \<open>A frame that was read, as the decoder of JSON sees it: its error, the envelope's sequence and method, and the
  message.\<close>

record web_request =
  wq_error :: "string option"
  wq_seq :: "string option"
  wq_method :: string
  wq_message :: "notice option"

text \<open>The verb %q of a format, on ASCII.\<close>

definition hex_digit :: "nat \<Rightarrow> char" where
  "hex_digit n = char_of (if n < 10 then n + 48 else n + 87)"

definition quote_char :: "char \<Rightarrow> string" where
  "quote_char c =
     (let n = of_char c :: nat in
      if n = 34 \<or> n = 92 then [CHR 0x5C, c]
      else if 32 \<le> n \<and> n < 127 then [c]
      else (case map_of [(7, CHR ''a''), (8, CHR ''b''), (9, CHR ''t''), (10, CHR ''n''), (11, CHR ''v''), (12, CHR ''f''), (13, CHR ''r'')] n of
              Some x \<Rightarrow> [CHR 0x5C, x]
            | None \<Rightarrow> [CHR 0x5C, CHR ''x'', hex_digit (n div 16), hex_digit (n mod 16)]))"

definition go_quote :: "string \<Rightarrow> string" where
  "go_quote s = [CHR 0x22] @ concat (map quote_char s) @ [CHR 0x22]"

definition method_refusal :: "web_request \<Rightarrow> string option" where
  "method_refusal q =
     (if to_lower (wq_method q) = ''send'' \<or> wq_method q = [] then
        (if wq_message q = None then Some ''send: message is missing'' else wq_error q)
      else Some (''method='' @ go_quote (wq_method q) @ '' not allowed''))"

text \<open>The message goes to the chat; its answer is encoded at once, outside the write routine.  E gives the text
  of an error.\<close>

definition reader_recv ::
  "web_json \<Rightarrow> (bot_error \<Rightarrow> string) \<Rightarrow> bot_template \<Rightarrow> int \<Rightarrow> nat \<Rightarrow> nat \<Rightarrow> web_request \<Rightarrow> bot_replies \<Rightarrow> web_world \<Rightarrow> web_world" where
  "reader_recv J E T now c i q R w =
     (let a = wr_channel (room i w);
          (res, w) =
            (case method_refusal q of
               Some e \<Rightarrow> (Fail e, w)
             | None \<Rightarrow>
                 (case read_update T now (wr_gate (room i w)) a (Some (bc_account (chan a (ww_bot w)))) (the (wq_message q)) R (ww_bot w) of
                    (Some e, _, b) \<Rightarrow> (Fail (E e), w\<lparr>ww_bot := b\<rparr>)
                  | (None, m, b) \<Rightarrow> (Ok m, w\<lparr>ww_bot := b\<rparr>)));
          body = (case res of Fail e \<Rightarrow> ReplyBody (wq_seq q) e None | Ok m \<Rightarrow> ReplyBody (wq_seq q) [] (Some m));
          (s, _, w) = encode_in J i body w
      in w\<lparr>ww_readers := AList.update c (Answering i (TaskReply c res s)) (ww_readers w)\<rparr>)"

text \<open>The end of the routine: the removal of the connection is passed over when the channel is full.\<close>

definition reader_exit :: "nat \<Rightarrow> nat \<Rightarrow> web_world \<Rightarrow> web_world" where
  "reader_exit c i w =
     (let w = w\<lparr>ww_readers := AList.delete c (ww_readers w)\<rparr> in
      case post_task i (TaskRemove c) w of
        (PostPanic, w) \<Rightarrow> w
      | (_, w) \<Rightarrow> close_conn c w)"

text \<open>The answer is posted, or else the routine ends.\<close>

definition reader_post :: "nat \<Rightarrow> nat \<Rightarrow> web_task \<Rightarrow> web_world \<Rightarrow> web_world" where
  "reader_post c i t w =
     (case post_task i t w of
        (Posted, w) \<Rightarrow> w\<lparr>ww_readers := AList.update c (Listening i) (ww_readers w)\<rparr>
      | (PostFull, w) \<Rightarrow> reader_exit c i w
      | (PostPanic, w) \<Rightarrow> reader_exit c i w)"

section \<open>The close of the provider\<close>

text \<open>Every room of the index: a channel that is closed already is a panic too.\<close>

definition shut_room :: "nat \<Rightarrow> web_world \<Rightarrow> web_world" where
  "shut_room i w =
     (if wr_shut (room i w) then w\<lparr>ww_panics := Suc (ww_panics w)\<rparr>
      else set_room i ((room i w)\<lparr>wr_shut := True\<rparr>) w)"

definition close_web :: "web_world \<Rightarrow> web_world" where
  "close_web w = fold (\<lambda>p. shut_room (snd p)) (ww_chat w) w"

section \<open>Steps\<close>

definition new_web_world :: "bot_world \<Rightarrow> web_world" where
  "new_web_world b =
     \<lparr>ww_bot = b, ww_chat = [], ww_rooms = [], ww_owner = [], ww_joins = [], ww_readers = [], ww_senders = [], ww_gone = [],
      ww_faults = [], ww_frames = [], ww_panics = 0\<rparr>"

inductive web_step :: "web_json \<Rightarrow> (bot_error \<Rightarrow> string) \<Rightarrow> bot_template \<Rightarrow> web_options \<Rightarrow> web_world \<Rightarrow> web_world \<Rightarrow> bool"
  for J E T opts where
  Notified: "send_web_notice T now g a m R w = (e, w') \<Longrightarrow> web_step J E T opts w w'"
| Sent: "k < List.length (ww_senders w) \<Longrightarrow> sender_post k w = Some w' \<Longrightarrow> web_step J E T opts w w'"
| Connected: "connect_room T g bufsize device known up R w = (e, w') \<Longrightarrow> web_step J E T opts w w'"
| JoinPosted: "k < List.length (ww_joins w) \<Longrightarrow> join_post k w = Some w' \<Longrightarrow> web_step J E T opts w w'"
| JoinEntered: "k < List.length (ww_joins w) \<Longrightarrow> join_enter T now k R w = Some w' \<Longrightarrow> web_step J E T opts w w'"
| Received: "map_of (ww_readers w) c = Some (Listening i) \<Longrightarrow> web_step J E T opts w (reader_recv J E T now c i q R w)"
| Answered: "map_of (ww_readers w) c = Some (Answering i t) \<Longrightarrow> web_step J E T opts w (reader_post c i t w)"
| Hung: "map_of (ww_readers w) c = Some (Listening i) \<Longrightarrow> web_step J E T opts w (reader_exit c i w)"
| Wrote: "i < List.length (ww_rooms w) \<Longrightarrow> wr_writer (room i w) \<Longrightarrow> writer_recv J opts now ats i w = Some w' \<Longrightarrow>
    web_step J E T opts w w'"
| Ticked: "i < List.length (ww_rooms w) \<Longrightarrow> wr_writer (room i w) \<Longrightarrow> web_step J E T opts w (writer_tick now ats i w)"
| Shut: "web_step J E T opts w (close_web w)"
| Elsewhere: "bot_step (ww_bot w) b \<Longrightarrow> web_step J E T opts w (w\<lparr>ww_bot := b\<rparr>)"

inductive_cases web_stepE: "web_step J E T opts w w'"

definition web_reach :: "web_json \<Rightarrow> (bot_error \<Rightarrow> string) \<Rightarrow> bot_template \<Rightarrow> web_options \<Rightarrow> bot_world \<Rightarrow> web_world \<Rightarrow> bool" where
  "web_reach J E T opts b w \<longleftrightarrow> (web_step J E T opts)\<^sup>*\<^sup>* (new_web_world b) w"

end
