(* ===== verification/Web_Safety.thy ===== *)
theory Web_Safety
  imports Web_Chat "HOL-Library.Multiset"
begin

text \<open>
  What holds of the rooms of the web chat: in every reachable state the history of a room has every
  message once and a connection belongs to one room, once.  And what a task does to the connections.
\<close>

section \<open>The invariant\<close>

definition history_ok :: "web_room \<Rightarrow> bool" where
  "history_ok r \<longleftrightarrow>
     (\<forall>k j. map_of (wr_index r) k = Some j \<longleftrightarrow> j < length (wr_msgs r) \<and> nt_id (wr_msgs r ! j) = k) \<and>
     (\<forall>m \<in> set (wr_msgs r). nt_id m \<noteq> 0) \<and> wr_buf r < length (wr_arrays r)"

fun task_entry :: "web_task \<Rightarrow> nat list" where
  "task_entry (TaskInfo c) = [c]"
| "task_entry _ = []"

text \<open>The connections of a room, with those that are about to enter it.\<close>

definition members :: "web_room \<Rightarrow> nat multiset" where
  "members r = mset (wr_conn r) + mset (concat (map task_entry (wr_queue r)))"

definition joining :: "nat \<Rightarrow> web_world \<Rightarrow> nat multiset" where
  "joining i w = mset (map fst (filter (\<lambda>(c, j, p, posted). j = i \<and> \<not> posted) (ww_joins w)))"

definition holders :: "nat \<Rightarrow> web_world \<Rightarrow> nat multiset" where
  "holders i w = (if i < length (ww_rooms w) then members (room i w) else {#}) + joining i w"

definition owned :: "nat \<Rightarrow> web_world \<Rightarrow> bool" where
  "owned i w \<longleftrightarrow> (\<forall>c. count (holders i w) c \<le> 1 \<and> (c \<in># holders i w \<longrightarrow> c < length (ww_owner w) \<and> ww_owner w ! c = i))"

definition web_ok :: "web_world \<Rightarrow> bool" where
  "web_ok w \<longleftrightarrow> (\<forall>i. owned i w) \<and> (\<forall>r \<in> set (ww_rooms w). history_ok r)"

text \<open>What waits outside of the rooms: the rooms are there, and only join posts the entry of a connection.\<close>

fun reader_bound :: "nat \<Rightarrow> web_reader \<Rightarrow> bool" where
  "reader_bound n (Listening i) = (i < n)"
| "reader_bound n (Answering i t) = (i < n \<and> task_entry t = [])"

definition web_bound :: "web_world \<Rightarrow> bool" where
  "web_bound w \<longleftrightarrow>
     (\<forall>(c, i, p, b) \<in> set (ww_joins w). i < length (ww_rooms w)) \<and> (\<forall>(chat, i) \<in> set (ww_chat w). i < length (ww_rooms w)) \<and>
     (\<forall>(i, ts) \<in> set (ww_senders w). \<forall>t \<in> set ts. task_entry t = []) \<and>
     (\<forall>(c, x) \<in> set (ww_readers w). reader_bound (length (ww_rooms w)) x)"

text \<open>What keeps it: no connection is added, and the histories stay in order.\<close>

definition calm :: "web_world \<Rightarrow> web_world \<Rightarrow> bool" where
  "calm w w' \<longleftrightarrow> ww_owner w' = ww_owner w \<and> length (ww_rooms w') = length (ww_rooms w) \<and>
     (\<forall>i. holders i w' \<subseteq># holders i w) \<and> (web_bound w \<longrightarrow> web_bound w') \<and>
     ((\<forall>r \<in> set (ww_rooms w). history_ok r) \<longrightarrow> (\<forall>r \<in> set (ww_rooms w'). history_ok r))"

lemma calm_refl [simp]: "calm w w"
  by (simp add: calm_def)

lemma calm_trans: "calm a b \<Longrightarrow> calm b c \<Longrightarrow> calm a c"
  unfolding calm_def by (metis subset_mset.order_trans)

lemma calm_ok:
  assumes "calm w w'" "web_ok w"
  shows "web_ok w'"
proof -
  have "owned i w'" for i
  proof -
    have s: "holders i w' \<subseteq># holders i w" and o: "ww_owner w' = ww_owner w" using assms(1) by (simp_all add: calm_def)
    have "owned i w" using assms(2) by (simp add: web_ok_def)
    then show ?thesis unfolding owned_def o using mset_subset_eq_count [OF s] mset_subset_eqD [OF s] le_trans by blast
  qed
  then show ?thesis using assms by (simp add: web_ok_def calm_def)
qed

lemma calm_outer:
  assumes "ww_rooms w' = ww_rooms w" "ww_owner w' = ww_owner w" "ww_joins w' = ww_joins w" "web_bound w \<Longrightarrow> web_bound w'"
  shows "calm w w'"
  using assms by (simp add: calm_def holders_def joining_def room_def)

lemma calm_same:
  assumes "ww_rooms w' = ww_rooms w" "ww_owner w' = ww_owner w" "ww_joins w' = ww_joins w" "ww_chat w' = ww_chat w"
    "ww_senders w' = ww_senders w" "ww_readers w' = ww_readers w"
  shows "calm w w'"
  using assms by (intro calm_outer) (simp_all add: web_bound_def)

lemma room_simps [simp]:
  "ww_owner (set_room i r w) = ww_owner w" "ww_joins (set_room i r w) = ww_joins w"
  "length (ww_rooms (set_room i r w)) = length (ww_rooms w)" "ww_bot (set_room i r w) = ww_bot w"
  "ww_chat (set_room i r w) = ww_chat w" "ww_frames (set_room i r w) = ww_frames w" "ww_gone (set_room i r w) = ww_gone w"
  "ww_faults (set_room i r w) = ww_faults w" "ww_panics (set_room i r w) = ww_panics w"
  "ww_readers (set_room i r w) = ww_readers w" "ww_senders (set_room i r w) = ww_senders w"
  by (simp_all add: set_room_def)

lemma room_set_room: "room j (set_room i r w) = (if j = i \<and> i < length (ww_rooms w) then r else room j w)"
  by (cases "i < length (ww_rooms w)") (simp_all add: room_def set_room_def nth_list_update not_less list_update_beyond)

lemma room_set_same [simp]: "i < length (ww_rooms w) \<Longrightarrow> room i (set_room i r w) = r"
  by (simp add: room_set_room)

lemma bound_set_room [simp]: "web_bound (set_room i r w) = web_bound w"
  by (simp add: web_bound_def)

lemma calm_set_room:
  assumes "members r \<subseteq># members (room i w)" "history_ok (room i w) \<Longrightarrow> history_ok r"
  shows "calm w (set_room i r w)"
proof -
  have "holders j (set_room i r w) \<subseteq># holders j w" for j
    using assms(1) by (simp add: holders_def joining_def room_set_room)
  moreover have "\<forall>x \<in> set (ww_rooms (set_room i r w)). history_ok x" if "\<forall>x \<in> set (ww_rooms w). history_ok x"
  proof (cases "i < length (ww_rooms w)")
    case True
    then have "history_ok r" using that assms(2) by (simp add: room_def)
    then show ?thesis using that set_update_subset_insert [of "ww_rooms w" i r] by (auto simp: set_room_def)
  next
    case False
    then show ?thesis using that by (simp add: set_room_def list_update_beyond)
  qed
  moreover have "web_bound w \<longrightarrow> web_bound (set_room i r w)" by (simp add: web_bound_def)
  ultimately show ?thesis by (simp add: calm_def)
qed

lemma bound_readers:
  assumes "set rs \<subseteq> insert (c, x) (set (ww_readers w))" "reader_bound (length (ww_rooms w)) x" "web_bound w"
  shows "web_bound (w\<lparr>ww_readers := rs\<rparr>)"
proof -
  have "\<forall>(c, y) \<in> insert (c, x) (set (ww_readers w)). reader_bound (length (ww_rooms w)) y"
    using assms(2,3) by (simp add: web_bound_def)
  then have "\<forall>(c, y) \<in> set rs. reader_bound (length (ww_rooms w)) y" using assms(1) by blast
  then show ?thesis using assms(3) by (simp add: web_bound_def)
qed

lemma calm_reader:
  assumes "reader_bound (length (ww_rooms w)) x"
  shows "calm w (w\<lparr>ww_readers := AList.update c x (ww_readers w)\<rparr>)"
  using bound_readers [OF set_update_subset assms] by (intro calm_outer) simp_all

lemma calm_no_reader: "calm w (w\<lparr>ww_readers := AList.delete c (ww_readers w)\<rparr>)"
proof (rule calm_outer)
  assume b: "web_bound w"
  have "\<forall>(c, y) \<in> set (AList.delete c (ww_readers w)). reader_bound (length (ww_rooms w)) y"
    using b set_delete_subset [of c "ww_readers w"] unfolding web_bound_def by blast
  then show "web_bound (w\<lparr>ww_readers := AList.delete c (ww_readers w)\<rparr>)" using b by (simp add: web_bound_def)
qed simp_all

section \<open>History\<close>

lemma push_message_members [simp]:
  "members (push_message m r) = members r" "wr_conn (push_message m r) = wr_conn r" "wr_queue (push_message m r) = wr_queue r"
  "wr_arrays (push_message m r) = wr_arrays r" "wr_buf (push_message m r) = wr_buf r" "wr_channel (push_message m r) = wr_channel r"
  "wr_shut (push_message m r) = wr_shut r" "wr_closed (push_message m r) = wr_closed r"
  by (simp_all add: push_message_def members_def split: option.split)

lemma push_message_ok:
  assumes "history_ok r"
  shows "history_ok (push_message m r)"
proof (cases "nt_id m = 0")
  case True
  then show ?thesis using assms by (simp add: push_message_def)
next
  case new: False
  have ix: "map_of (wr_index r) k = Some j \<longleftrightarrow> j < length (wr_msgs r) \<and> nt_id (wr_msgs r ! j) = k" for k j
    using assms by (simp add: history_ok_def)
  have nz: "\<forall>x \<in> set (wr_msgs r). nt_id x \<noteq> 0" using assms by (simp add: history_ok_def)
  show ?thesis
  proof (cases "map_of (wr_index r) (nt_id m)")
    case (Some i)
    then have i: "i < length (wr_msgs r)" "nt_id (wr_msgs r ! i) = nt_id m" using ix by blast+
    have "\<forall>x \<in> set ((wr_msgs r)[i := m]). nt_id x \<noteq> 0"
      using nz new set_update_subset_insert [of "wr_msgs r" i m] by auto
    moreover have "push_message m r = r\<lparr>wr_msgs := (wr_msgs r)[i := m]\<rparr>" using new Some by (simp add: push_message_def)
    moreover have "j < length (wr_msgs r) \<and> nt_id (wr_msgs r ! j) = k \<longleftrightarrow>
        j < length ((wr_msgs r)[i := m]) \<and> nt_id ((wr_msgs r)[i := m] ! j) = k" for k j
      using i by (auto simp: nth_list_update)
    ultimately show ?thesis using ix assms by (simp add: history_ok_def)
  next
    case None
    then have no: "nt_id x \<noteq> nt_id m" if "x \<in> set (wr_msgs r)" for x
      using ix [of "nt_id m"] that by (metis in_set_conv_nth option.distinct(1))
    have "map_of (AList.update (nt_id m) (length (wr_msgs r)) (wr_index r)) k = Some j \<longleftrightarrow>
        j < length (wr_msgs r @ [m]) \<and> nt_id ((wr_msgs r @ [m]) ! j) = k" for k j
      using ix [of k j] no None by (auto simp: update_conv' nth_append less_Suc_eq)
    then show ?thesis using new None assms by (simp add: push_message_def history_ok_def)
  qed
qed

text \<open>The ids of a history are distinct.\<close>

lemma history_distinct: "history_ok r \<Longrightarrow> distinct (map nt_id (wr_msgs r))"
  unfolding history_ok_def distinct_conv_nth by (metis length_map nth_map option.inject)

section \<open>The buffer and frames\<close>

lemma write_buffer_room:
  assumes "write_buffer s r = (sl, r')"
  shows "\<exists>x y. r' = r\<lparr>wr_arrays := x, wr_buf := y\<rparr> \<and> (wr_buf r < length (wr_arrays r) \<longrightarrow> y < length x)"
proof (cases "length s \<le> length (wr_arrays r ! wr_buf r)")
  case True
  then have "r' = r\<lparr>wr_arrays := wr_arrays r', wr_buf := wr_buf r\<rparr>" "length (wr_arrays r') = length (wr_arrays r)"
    using assms by (auto simp: write_buffer_def Let_def)
  then show ?thesis by metis
next
  case False
  then have "r' = r\<lparr>wr_arrays := wr_arrays r', wr_buf := wr_buf r'\<rparr> \<and> wr_buf r' < length (wr_arrays r')"
    using assms by (auto simp: write_buffer_def Let_def)
  then show ?thesis by blast
qed

lemma encode_json_room:
  assumes "encode_json J b r = (sl, ok, r')"
  shows "\<exists>x y. r' = r\<lparr>wr_arrays := x, wr_buf := y\<rparr> \<and> (wr_buf r < length (wr_arrays r) \<longrightarrow> y < length x)"
proof -
  have same: "r = r\<lparr>wr_arrays := wr_arrays r, wr_buf := wr_buf r\<rparr>" by simp
  have "r' = r \<or> (\<exists>s. write_buffer s r = (sl, r'))"
    using assms by (auto simp: encode_json_def split: sum.splits prod.splits)
  then show ?thesis using same write_buffer_room by metis
qed

lemma encode_calm:
  assumes "encode_in J i b w = (sl, ok, w')"
  shows "calm w w' \<and> wr_conn (room i w') = wr_conn (room i w) \<and> wr_queue (room i w') = wr_queue (room i w) \<and>
    ww_bot w' = ww_bot w \<and> ww_frames w' = ww_frames w \<and> ww_gone w' = ww_gone w \<and> ww_faults w' = ww_faults w \<and>
    ww_readers w' = ww_readers w \<and> ww_panics w' = ww_panics w \<and> ww_joins w' = ww_joins w"
proof -
  obtain r where r: "encode_json J b (room i w) = (sl, ok, r)" "w' = set_room i r w"
    using assms by (auto simp: encode_in_def split: prod.splits)
  obtain x y where e: "r = (room i w)\<lparr>wr_arrays := x, wr_buf := y\<rparr>" "wr_buf (room i w) < length (wr_arrays (room i w)) \<longrightarrow> y < length x" using encode_json_room [OF r(1)] by blast
  have "calm w w'" unfolding r(2) by (rule calm_set_room) (simp_all add: e members_def history_ok_def)
  then show ?thesis by (simp add: r(2) room_set_room e)
qed

lemma close_conn_calm [simp]: "calm w (close_conn c w)" "room i (close_conn c w) = room i w"
  "ww_rooms (close_conn c w) = ww_rooms w" "ww_frames (close_conn c w) = ww_frames w" "c \<in> set (ww_gone (close_conn c w))"
  by (simp_all add: close_conn_def calm_same room_def)

lemma write_conn_calm:
  assumes "write_conn c f w = (ok, w')"
  shows "calm w w' \<and> ww_rooms w' = ww_rooms w \<and> ww_gone w' = ww_gone w \<and> ww_bot w' = ww_bot w \<and>
    ww_frames w' = ww_frames w @ (if ok then [(c, f)] else [])"
  using assms by (auto simp: write_conn_def Let_def intro!: calm_same split: if_splits)

lemma members_remove: "members (r\<lparr>wr_conn := remove1 c (wr_conn r)\<rparr>) \<subseteq># members r"
  by (simp add: members_def mset_remove1)

lemma send_frame_calm:
  assumes "send_frame i c s w = (ok, w')"
  shows "calm w w'"
proof -
  obtain b v where v: "write_conn c (TextFrame (slice_bytes s (room i w))) w = (b, v)" by fastforce
  note k = write_conn_calm [OF v]
  have "calm v (set_room i ((room i v)\<lparr>wr_conn := remove1 c (wr_conn (room i v))\<rparr>) v)"
    by (rule calm_set_room [OF members_remove]) (simp add: history_ok_def)
  then have "calm v (close_conn c (set_room i ((room i v)\<lparr>wr_conn := remove1 c (wr_conn (room i v))\<rparr>) v))"
    using calm_trans close_conn_calm(1) by blast
  then show ?thesis using assms v k calm_trans by (auto simp: send_frame_def split: if_splits)
qed

text \<open>A member of a room may leave it.\<close>

lemma calm_leave:
  assumes "mset xs \<subseteq># mset (wr_conn (room i w))"
  shows "calm w (set_room i ((room i w)\<lparr>wr_conn := xs\<rparr>) w)" "calm w (set_room i ((room i w)\<lparr>wr_conn := xs, wr_closed := b\<rparr>) w)"
  using assms by (auto intro!: calm_set_room simp: members_def history_ok_def)

lemma calm_flag:
  "calm w (set_room i ((room i w)\<lparr>wr_closed := b\<rparr>) w)" "calm w (set_room i ((room i w)\<lparr>wr_writer := b\<rparr>) w)"
  "calm w (set_room i ((room i w)\<lparr>wr_shut := b\<rparr>) w)"
  by (rule calm_set_room; simp add: members_def history_ok_def)+

lemma broadcast_below_calm: "calm w (broadcast_below i s k w)"
proof (induction k arbitrary: w)
  case (Suc k)
  obtain ok v where v: "send_frame i (wr_conn (room i w) ! k) s w = (ok, v)" by fastforce
  show ?case using calm_trans [OF send_frame_calm [OF v] Suc.IH] v by simp
qed simp

lemma broadcast_calm: "calm w (broadcast J i b w)"
proof -
  obtain s ok v where v: "encode_in J i b w = (s, ok, v)" by (metis prod_cases3)
  show ?thesis using calm_trans [OF conjunct1 [OF encode_calm [OF v]] broadcast_below_calm] v by (simp add: broadcast_def)
qed

lemma push_calm: "calm w (set_room i (push_message m (room i w)) w)"
  by (rule calm_set_room) (simp_all add: push_message_ok)

lemma note_below_calm: "calm w (note_below J i self m s k w)"
proof (induction k arbitrary: s w)
  case (Suc k)
  let ?p = "wr_conn (room i w) ! k"
  obtain sl v where v: "(case s of Some sl \<Rightarrow> (sl, w) | None \<Rightarrow> (let (sl, _, w) = encode_in J i (update_body m) w in (sl, w))) = (sl, v)"
    by fastforce
  have "calm w v" using v by (auto split: option.splits prod.splits dest: encode_calm)
  moreover obtain ok u where u: "send_frame i ?p sl v = (ok, u)" by fastforce
  ultimately show ?case
    using Suc.IH v calm_trans send_frame_calm [OF u] by (auto simp: Let_def)
qed simp

lemma bye_calm: "calm w (bye_conn c w) \<and> ww_rooms (bye_conn c w) = ww_rooms w"
proof -
  obtain ok v where v: "write_conn c ByeFrame w = (ok, v)" by fastforce
  show ?thesis using write_conn_calm [OF v] v calm_trans close_conn_calm by (auto simp: bye_conn_def)
qed

lemma byes_calm: "calm w (fold bye_conn cs w) \<and> ww_rooms (fold bye_conn cs w) = ww_rooms w"
proof (induction cs arbitrary: w)
  case (Cons c cs)
  show ?case using Cons.IH [of "bye_conn c w"] bye_calm [of w c] calm_trans by auto
qed simp

lemma byes_leave_calm: "calm w (let v = fold bye_conn cs w in set_room i ((room i v)\<lparr>wr_conn := [], wr_closed := True\<rparr>) v)"
  using byes_calm [of w cs] calm_trans [OF _ calm_leave(2) [of "[]" i "fold bye_conn cs w" True]] by (simp add: Let_def)

text \<open>A task, taken from the queue: the connection of its entry, if it has one, may enter the room now.\<close>

definition enters :: "nat \<Rightarrow> nat list \<Rightarrow> web_world \<Rightarrow> web_world \<Rightarrow> bool" where
  "enters i cs w w' \<longleftrightarrow> (\<exists>v. calm w v \<and> (w' = v \<or>
     (\<exists>c. cs = [c] \<and> w' = set_room i ((room i v)\<lparr>wr_conn := wr_conn (room i v) @ [c]\<rparr>) v)))"

lemma calm_enters: "calm w w' \<Longrightarrow> enters i cs w w'"
  by (auto simp: enters_def)

lemma run_task_enters: "enters i (task_entry t) w (run_task J opts i t w)"
proof (cases t)
  case (TaskInfo c)
  let ?b = "InfoBody (bc_id (chan (wr_channel (room i w)) (ww_bot w))) (bc_account (chan (wr_channel (room i w)) (ww_bot w)))
      (wr_msgs (room i w)) (to_int32 (wo_write_timeout opts)) (wo_media_max opts)"
  obtain s ok v where v: "encode_in J i ?b w = (s, ok, v)" by (metis prod_cases3)
  obtain sent u where u: "send_frame i c s v = (sent, u)" by fastforce
  have "calm w u" using calm_trans [OF conjunct1 [OF encode_calm [OF v]] send_frame_calm [OF u]] .
  then show ?thesis using v u TaskInfo by (auto simp: run_info_def Let_def enters_def)
next
  case (TaskUpdate m)
  then show ?thesis using calm_trans [OF push_calm broadcast_calm] by (simp add: run_update_def calm_enters)
next
  case TaskBye
  then show ?thesis using byes_leave_calm by (auto simp: run_bye_def calm_enters)
next
  case (TaskRemove c)
  then show ?thesis by (auto simp: run_remove_def intro!: calm_enters calm_leave simp: mset_remove1)
next
  case (TaskReply c res s)
  show ?thesis
  proof (cases res)
    case (Inl e)
    obtain ok v where "send_frame i c s w = (ok, v)" by fastforce
    then show ?thesis using Inl TaskReply send_frame_calm by (auto simp: run_reply_def calm_enters)
  next
    case (Inr m)
    obtain ok v where v: "send_frame i c s (set_room i (push_message m (room i w)) w) = (ok, v)" by fastforce
    show ?thesis using Inr TaskReply v calm_trans [OF calm_trans [OF push_calm send_frame_calm [OF v]] note_below_calm]
      by (simp add: run_reply_def calm_enters)
  qed
qed

lemma enters_holders:
  assumes "enters i cs w w'" "i < length (ww_rooms w)"
  shows "holders j w' \<subseteq># holders j w + (if j = i then mset cs else {#})" "ww_owner w' = ww_owner w"
    "length (ww_rooms w') = length (ww_rooms w)"
    "\<forall>r \<in> set (ww_rooms w). history_ok r \<Longrightarrow> \<forall>r \<in> set (ww_rooms w'). history_ok r" "web_bound w \<Longrightarrow> web_bound w'"
proof -
  obtain v where v: "calm w v" "w' = v \<or> (\<exists>c. cs = [c] \<and> w' = set_room i ((room i v)\<lparr>wr_conn := wr_conn (room i v) @ [c]\<rparr>) v)"
    using assms(1) by (auto simp: enters_def)
  have l: "length (ww_rooms v) = length (ww_rooms w)" and h: "holders j v \<subseteq># holders j w" using v(1) by (simp_all add: calm_def)
  have "holders j (set_room i ((room i v)\<lparr>wr_conn := wr_conn (room i v) @ [c]\<rparr>) v) =
      holders j v + (if j = i then {#c#} else {#})" for c
    using assms(2) l by (simp add: holders_def joining_def room_set_room members_def)
  then show "holders j w' \<subseteq># holders j w + (if j = i then mset cs else {#})"
    using v(2) h by (auto intro: subset_mset.order_trans)
  show "ww_owner w' = ww_owner w" "length (ww_rooms w') = length (ww_rooms w)" "web_bound w \<Longrightarrow> web_bound w'"
    using v by (auto simp: calm_def bound_set_room)
  show "\<forall>r \<in> set (ww_rooms w'). history_ok r" if "\<forall>r \<in> set (ww_rooms w). history_ok r"
  proof -
    have hv: "\<forall>r \<in> set (ww_rooms v). history_ok r" using that v(1) by (simp add: calm_def)
    have "history_ok (room i v)" using hv assms(2) l by (simp add: room_def)
    then have "history_ok ((room i v)\<lparr>wr_conn := x\<rparr>)" for x by (simp add: history_ok_def)
    then show ?thesis using v(2) hv set_update_subset_insert [of "ww_rooms v" i] by (fastforce simp: set_room_def)
  qed
qed

section \<open>The steps\<close>

lemma bound_delete_chat: "web_bound w \<Longrightarrow> web_bound (w\<lparr>ww_chat := AList.delete k (ww_chat w)\<rparr>)"
  using set_delete_subset [of k "ww_chat w"] by (auto simp: web_bound_def)

lemma writer_exit_calm: "calm w (writer_exit now ats i w)"
proof -
  have d: "calm v (v\<lparr>ww_chat := AList.delete k (ww_chat v)\<rparr>)" for k v
    by (rule calm_outer) (simp_all add: bound_delete_chat)
  have b: "calm v (v\<lparr>ww_bot := x\<rparr>)" for x v by (rule calm_same) simp_all
  show ?thesis unfolding writer_exit_def Let_def
    by (intro calm_trans [OF _ calm_flag(2)]) (auto intro: d b calm_trans [OF d b])
qed

lemma writer_check_calm: "calm w (writer_check now ats i w)"
  by (simp add: writer_check_def writer_exit_calm)

lemma writer_recv_ok:
  assumes "writer_recv J opts now ats i w = Some w'" "i < length (ww_rooms w)" "web_ok w" "web_bound w"
  shows "web_ok w' \<and> web_bound w'"
proof (cases "wr_queue (room i w)")
  case Nil
  let ?v = "let v = fold bye_conn (wr_conn (room i w)) w in set_room i ((room i v)\<lparr>wr_conn := [], wr_closed := True\<rparr>) v"
  have "w' = writer_check now ats i ?v" using assms(1) Nil by (auto simp: writer_recv_def Let_def split: if_splits)
  moreover have "calm w (writer_check now ats i ?v)" by (rule calm_trans [OF byes_leave_calm writer_check_calm])
  ultimately show ?thesis using calm_ok assms(3,4) by (auto simp: calm_def)
next
  case (Cons t q)
  let ?v = "set_room i ((room i w)\<lparr>wr_queue := q\<rparr>) w"
  let ?u = "run_task J opts i t ?v"
  have w': "w' = writer_check now ats i ?u" using assms(1) Cons by (simp add: writer_recv_def)
  have l: "i < length (ww_rooms ?v)" using assms(2) by simp
  note e = enters_holders [OF run_task_enters [of i t ?v J opts] l]
  have q: "holders j w = holders j ?v + (if j = i then mset (task_entry t) else {#})" for j
    using assms(2) Cons by (simp add: holders_def joining_def room_set_room members_def)
  have "\<forall>r \<in> set (ww_rooms ?v). history_ok r"
    using assms(2,3) set_update_subset_insert [of "ww_rooms w" i] by (fastforce simp: web_ok_def set_room_def room_def history_ok_def)
  moreover have "web_bound w \<longrightarrow> web_bound ?v" by (simp add: web_bound_def)
  ultimately have "calm w ?u" using e q by (simp add: calm_def)
  then have "calm w w'" unfolding w' by (rule calm_trans [OF _ writer_check_calm])
  then show ?thesis using calm_ok assms(3,4) by (auto simp: calm_def)
qed

lemma ping_below_calm: "calm w (ping_below i k w)"
proof (induction k arbitrary: w)
  case (Suc k)
  obtain ok v where v: "write_conn (wr_conn (room i w) ! k) PingFrame w = (ok, v)" by fastforce
  have c: "calm w v" using write_conn_calm [OF v] by simp
  have "mset (take k xs @ drop (Suc k) xs) \<subseteq># mset xs" for xs :: "nat list"
  proof -
    have "mset (drop (Suc k) xs) \<subseteq># mset (drop k xs)" by (cases "drop k xs") (simp_all add: drop_Suc flip: tl_drop)
    then have "mset (take k xs) + mset (drop (Suc k) xs) \<subseteq># mset (take k xs) + mset (drop k xs)" by (rule subset_mset.add_left_mono)
    then show ?thesis by (simp flip: mset_append)
  qed
  then have "calm v (set_room i ((room i v)\<lparr>wr_conn := take k (wr_conn (room i v)) @ drop (Suc k) (wr_conn (room i v))\<rparr>) v)"
    by (rule calm_leave(1))
  then show ?case using v c Suc.IH calm_trans by (auto simp: Let_def)
qed simp

lemma writer_tick_calm: "calm w (writer_tick now ats i w)"
  using ping_below_calm [of w i "length (wr_conn (room i w))"] calm_flag(1) calm_trans writer_check_calm
  by (simp add: writer_tick_def Let_def) (metis (no_types))

lemma post_task_calm:
  assumes "post_task i t w = (p, w')" "task_entry t = []"
  shows "calm w w'"
  using assms by (auto simp: post_task_def members_def history_ok_def intro!: calm_same calm_set_room split: if_splits)

lemma reader_exit_calm: "calm w (reader_exit c i w)"
proof -
  let ?w = "w\<lparr>ww_readers := AList.delete c (ww_readers w)\<rparr>"
  note r = calm_no_reader [of w c]
  obtain p v where p: "post_task i (TaskRemove c) ?w = (p, v)" by fastforce
  have "calm ?w v" by (rule post_task_calm [OF p]) simp
  then show ?thesis using p calm_trans [OF r] calm_trans close_conn_calm(1)
    by (cases p) (auto simp: reader_exit_def)
qed

lemma shut_all_calm: "calm w (fold (\<lambda>p. shut_room (snd p)) ps w)"
proof (induction ps arbitrary: w)
  case (Cons p ps)
  have "calm w (shut_room (snd p) w)" by (auto simp: shut_room_def intro: calm_same calm_flag)
  then show ?case using calm_trans Cons.IH by fastforce
qed simp

lemma sender_post_calm:
  assumes "sender_post k w = Some w'" "web_bound w" "k < length (ww_senders w)"
  shows "calm w w'"
proof -
  obtain i t ts where k: "ww_senders w ! k = (i, t # ts)"
    using assms(1) by (auto simp: sender_post_def split: prod.splits list.splits)
  then have t: "\<forall>x \<in> set (t # ts). task_entry x = []" using assms(2,3) nth_mem [of k "ww_senders w"] by (fastforce simp: web_bound_def)
  obtain p v where p: "post_task i t w = (p, v)" by fastforce
  have c: "calm w v" using t by (intro post_task_calm [OF p]) simp
  have "calm v (v\<lparr>ww_senders := (ww_senders v)[k := (i, ts')]\<rparr>)" if "set ts' \<subseteq> set ts" for ts'
    using that t set_update_subset_insert [of "ww_senders v" k "(i, ts')"]
    by (intro calm_outer) (fastforce simp: web_bound_def)+
  from this [of ts] this [of "[]"] show ?thesis
    using assms(1) k p calm_trans [OF c] by (auto simp: sender_post_def split: post.splits)
qed

lemma join_post_calm:
  assumes "join_post k w = Some w'" "k < length (ww_joins w)" "web_bound w"
  shows "calm w w'"
proof -
  obtain c i p where k: "ww_joins w ! k = (c, i, p, False)"
    using assms(1) by (auto simp: join_post_def split: prod.splits if_splits bool.splits)
  have i: "i < length (ww_rooms w)" using assms(2,3) k nth_mem [OF assms(2)] by (fastforce simp: web_bound_def)
  let ?xs = "take k (ww_joins w)" and ?ys = "drop (Suc k) (ww_joins w)"
  have s: "ww_joins w = ?xs @ (c, i, p, False) # ?ys" using id_take_nth_drop [OF assms(2)] k by simp
  let ?un = "\<lambda>j js. mset (map fst (filter (\<lambda>(c, j', p, b). j' = j \<and> \<not> b) js)) :: nat multiset"
  have u: "?un j (ww_joins w) = ?un j ?xs + (if j = i then {#c#} else {#}) + ?un j ?ys" for j by (subst s) simp
  have up: "(ww_joins w)[k := x] = ?xs @ x # ?ys" for x by (rule upd_conv_take_nth_drop [OF assms(2)])
  obtain q v where q: "post_task i (TaskInfo c) w = (q, v)" by fastforce
  consider (panic) "q = PostPanic" "v = w\<lparr>ww_panics := Suc (ww_panics w)\<rparr>" "w' = v\<lparr>ww_joins := ?xs @ ?ys\<rparr>"
    | (ok) "q = Posted" "v = set_room i ((room i w)\<lparr>wr_queue := wr_queue (room i w) @ [TaskInfo c]\<rparr>) w"
        "w' = v\<lparr>ww_joins := ?xs @ (c, i, p, True) # ?ys\<rparr>"
    using assms(1) k q by (auto simp: join_post_def post_task_def up split: if_splits)
  then show ?thesis
  proof cases
    case panic
    have "joining j w = joining j w' + (if j = i then {#c#} else {#})" for j
      using u [of j] panic by (simp add: joining_def)
    moreover have "set (?xs @ ?ys) \<subseteq> set (ww_joins w)" by (auto dest: in_set_takeD in_set_dropD)
    then have "web_bound w'" using panic assms(3) by (auto simp: web_bound_def)
    ultimately show ?thesis using panic by (simp add: calm_def holders_def room_def)
  next
    case ok
    have "joining j w = joining j w' + (if j = i then {#c#} else {#})" for j
      using u [of j] ok by (simp add: joining_def)
    moreover have "room j w' = (if j = i then (room i w)\<lparr>wr_queue := wr_queue (room i w) @ [TaskInfo c]\<rparr> else room j w)" for j
      using ok i by (simp add: room_def set_room_def nth_list_update)
    ultimately have h: "holders j w' = holders j w" for j using ok i by (simp add: holders_def members_def)
    have "\<forall>r \<in> set (ww_rooms w'). history_ok r" if "\<forall>r \<in> set (ww_rooms w). history_ok r"
      using that i set_update_subset_insert [of "ww_rooms w" i] ok(2,3)
      by (fastforce simp: set_room_def room_def history_ok_def)
    moreover have "set (?xs @ (c, i, p, True) # ?ys) \<subseteq> insert (c, i, p, True) (set (ww_joins w))"
      by (auto dest: in_set_takeD in_set_dropD)
    then have "web_bound w'" using ok assms(3) i by (auto simp: web_bound_def)
    ultimately show ?thesis using h ok by (simp add: calm_def)
  qed
qed

lemma join_enter_calm:
  assumes "join_enter T now k R w = Some w'" "k < length (ww_joins w)" "web_bound w"
  shows "calm w w'"
proof -
  obtain c i p where k: "ww_joins w ! k = (c, i, p, True)"
    using assms(1) by (auto simp: join_enter_def split: prod.splits if_splits bool.splits)
  then have i: "i < length (ww_rooms w)" using assms(2,3) nth_mem [OF assms(2)] by (fastforce simp: web_bound_def)
  let ?w = "w\<lparr>ww_joins := take k (ww_joins w) @ drop (Suc k) (ww_joins w)\<rparr>"
  have "filter P (ww_joins w) = filter P (take k (ww_joins w) @ drop (Suc k) (ww_joins w))" if "\<not> P (c, i, p, True)" for P
    using that k by (subst (1) id_take_nth_drop [OF assms(2)]) simp
  moreover have "set (take k (ww_joins w) @ drop (Suc k) (ww_joins w)) \<subseteq> set (ww_joins w)" by (auto dest: in_set_takeD in_set_dropD)
  then have "web_bound ?w" using assms(3) by (auto simp: web_bound_def)
  ultimately have w: "calm w ?w" by (simp add: calm_def holders_def joining_def room_def)
  have chat: "calm v (v\<lparr>ww_chat := AList.update ch i (ww_chat v)\<rparr>)" if "i < length (ww_rooms v)" for v ch
    using that set_update_subset [of ch i "ww_chat v"] by (intro calm_outer) (auto simp: web_bound_def)
  have bot: "calm v (if P then v\<lparr>ww_bot := b\<rparr> else v)" "calm v (if P then set_room i ((room i v)\<lparr>wr_writer := True\<rparr>) v else v)"
    "calm v (v\<lparr>ww_panics := n\<rparr>)" for v P b n
    by (auto intro: calm_same calm_flag)
  define a where "a = wr_channel (room i w)"
  define ch where "ch = bc_chat (chan a (ww_bot w))"
  define P where "P = (p \<and> map_of (ww_chat w) ch = None)"
  define w1 where "w1 = ?w\<lparr>ww_chat := AList.update ch i (ww_chat w)\<rparr>"
  define w2 where "w2 = (if P \<and> is_new (chan a (ww_bot w))
      then w1\<lparr>ww_bot := snd (snd (read_update T now (bc_gate (chan a (ww_bot w))) a (Some (bc_account (chan a (ww_bot w)))) start_update R (ww_bot w)))\<rparr>
      else w1)"
  define w3 where "w3 = (if P then set_room i ((room i w2)\<lparr>wr_writer := True\<rparr>) w2 else w2)"
  have "w' = ?w\<lparr>ww_panics := Suc (ww_panics w)\<rparr> \<or> w' = w3\<lparr>ww_readers := AList.update c (Listening i) (ww_readers w3)\<rparr>"
    using assms(1) k by (auto simp: join_enter_def Let_def a_def ch_def P_def w1_def w2_def w3_def split: if_splits)
  moreover have "calm w (?w\<lparr>ww_panics := Suc (ww_panics w)\<rparr>)" using calm_trans [OF w bot(3)] .
  moreover have c1: "calm w w1" using calm_trans [OF w chat [of ?w]] i by (simp add: w1_def)
  have c3: "calm w w3" unfolding w3_def w2_def using calm_trans [OF calm_trans [OF c1 bot(1)] bot(2)] by blast
  then have "length (ww_rooms w3) = length (ww_rooms w)" by (simp add: calm_def)
  then have "calm w3 (w3\<lparr>ww_readers := AList.update c (Listening i) (ww_readers w3)\<rparr>)" using i by (intro calm_reader) simp
  then have "calm w (w3\<lparr>ww_readers := AList.update c (Listening i) (ww_readers w3)\<rparr>)" by (rule calm_trans [OF c3])
  ultimately show ?thesis by (elim disjE) simp_all
qed

lemma reader_recv_calm:
  assumes "map_of (ww_readers w) c = Some (Listening i)" "web_bound w"
  shows "calm w (reader_recv J E T now c i q R w)"
proof -
  have i: "i < length (ww_rooms w)" using map_of_SomeD [OF assms(1)] assms(2) by (fastforce simp: web_bound_def)
  have "calm v (v\<lparr>ww_bot := b\<rparr>)" for v b by (rule calm_same) simp_all
  then have r: "calm w (snd (case method_refusal q of
               Some e \<Rightarrow> (Fail e, w)
             | None \<Rightarrow>
                 (case read_update T now (wr_gate (room i w)) (wr_channel (room i w))
                         (Some (bc_account (chan (wr_channel (room i w)) (ww_bot w)))) (the (wq_message q)) R (ww_bot w) of
                    (Some e, _, b) \<Rightarrow> (Fail (E e), w\<lparr>ww_bot := b\<rparr>)
                  | (None, m, b) \<Rightarrow> (Ok m, w\<lparr>ww_bot := b\<rparr>))))"
    by (auto split: option.split prod.split)
  obtain res u where u: "(case method_refusal q of
               Some e \<Rightarrow> (Fail e, w)
             | None \<Rightarrow>
                 (case read_update T now (wr_gate (room i w)) (wr_channel (room i w))
                         (Some (bc_account (chan (wr_channel (room i w)) (ww_bot w)))) (the (wq_message q)) R (ww_bot w) of
                    (Some e, _, b) \<Rightarrow> (Fail (E e), w\<lparr>ww_bot := b\<rparr>)
                  | (None, m, b) \<Rightarrow> (Ok m, w\<lparr>ww_bot := b\<rparr>))) = (res, u)" by (rule prod.exhaust)
  let ?b = "case res of Fail e \<Rightarrow> ReplyBody (wq_seq q) e None | Ok m \<Rightarrow> ReplyBody (wq_seq q) [] (Some m)"
  obtain s ok v where v: "encode_in J i ?b u = (s, ok, v)" by (metis prod_cases3)
  have w': "reader_recv J E T now c i q R w = v\<lparr>ww_readers := AList.update c (Answering i (TaskReply c res s)) (ww_readers v)\<rparr>"
    unfolding reader_recv_def Let_def u by (simp add: v)
  have wv: "calm w v" using r u encode_calm [OF v] calm_trans by simp
  then have "length (ww_rooms v) = length (ww_rooms w)" by (simp add: calm_def)
  then show ?thesis unfolding w' using i by (intro calm_trans [OF wv] calm_reader) simp
qed

lemma reader_post_calm:
  assumes "map_of (ww_readers w) c = Some (Answering i t)" "web_bound w"
  shows "calm w (reader_post c i t w)"
proof -
  have i: "i < length (ww_rooms w)" "task_entry t = []" using map_of_SomeD [OF assms(1)] assms(2) by (fastforce simp: web_bound_def)+
  obtain p v where p: "post_task i t w = (p, v)" by fastforce
  have v: "calm w v" "length (ww_rooms v) = length (ww_rooms w)" using post_task_calm [OF p i(2)] by (simp_all add: calm_def)
  have "calm v (v\<lparr>ww_readers := AList.update c (Listening i) (ww_readers v)\<rparr>)"
    using v(2) i by (intro calm_reader) simp
  then show ?thesis using p v(1) calm_trans reader_exit_calm by (auto simp: reader_post_def split: post.split)
qed

lemma send_web_notice_calm:
  assumes "send_web_notice T now g a m R w = (e, w')"
  shows "calm w w'"
proof -
  have b: "calm w (w\<lparr>ww_bot := b\<rparr>)" "calm w (w\<lparr>ww_panics := n\<rparr>)" for b n by (rule calm_same; simp)+
  have "calm w (w\<lparr>ww_senders := ww_senders w @ [(i, ts)]\<rparr>)" if "notice_tasks T now g c m = NoticeTasks ts" for i ts c
  proof -
    have "\<forall>t \<in> set ts. task_entry t = []" using that by (auto simp: notice_tasks_def Let_def split: if_splits list.splits)
    then show ?thesis by (intro calm_outer) (auto simp: web_bound_def)
  qed
  then show ?thesis using assms b
    by (auto simp: send_web_notice_def Let_def split: option.splits web_notice.splits prod.splits if_splits)
qed

text \<open>A connection that is new is of no room yet.\<close>

lemma connect_room_ok:
  assumes "connect_room T g n device known up R w = (e, w')" "web_ok w" "web_bound w"
  shows "web_ok w' \<and> web_bound w'"
proof -
  obtain r v where r: "find_room T g n device known R w = (r, v)" by fastforce
  have ok: "web_ok (w\<lparr>ww_bot := b\<rparr>)" "web_bound (w\<lparr>ww_bot := b\<rparr>)" for b
    using calm_same [of "w\<lparr>ww_bot := b\<rparr>" w] calm_ok assms(2,3) by (auto simp: web_bound_def)
  have new: "web_ok (w\<lparr>ww_bot := b, ww_rooms := ww_rooms w @ [new_room a g n]\<rparr>) \<and>
      web_bound (w\<lparr>ww_bot := b, ww_rooms := ww_rooms w @ [new_room a g n]\<rparr>)" for a b
  proof -
    let ?u = "w\<lparr>ww_bot := b, ww_rooms := ww_rooms w @ [new_room a g n]\<rparr>"
    have "room j ?u = room j w" if "j < length (ww_rooms w)" for j using that by (simp add: room_def nth_append)
    moreover have "members (new_room a g n) = {#}" "history_ok (new_room a g n)"
      by (simp_all add: members_def new_room_def history_ok_def)
    ultimately have "holders j ?u = holders j w" for j
      by (cases "j < length (ww_rooms w)") (auto simp: holders_def joining_def room_def nth_append less_Suc_eq)
    moreover have "reader_bound m x \<Longrightarrow> reader_bound (Suc m) x" for m x by (cases x) simp_all
    ultimately show ?thesis
      using assms(2,3) \<open>history_ok (new_room a g n)\<close> by (fastforce simp: web_ok_def owned_def web_bound_def)
  qed
  consider (old) i where "map_of (ww_chat w) device = Some i" "r = Ok i" "v = w"
    | (no) e b where "r = Fail e" "v = w\<lparr>ww_bot := b\<rparr>"
    | (fresh) a b where "r = Ok (length (ww_rooms w))" "v = w\<lparr>ww_bot := b, ww_rooms := ww_rooms w @ [new_room a g n]\<rparr>"
    using r by (fastforce simp: find_room_def split: option.splits prod.splits sum.splits if_splits)
  then have v: "web_ok v \<and> web_bound v \<and> (\<forall>i. r = Ok i \<longrightarrow> i < length (ww_rooms v))"
  proof cases
    case old
    then have "i < length (ww_rooms w)" using assms(3) map_of_SomeD [OF old(1)] unfolding web_bound_def by fast
    then show ?thesis using old assms(2,3) by simp
  next
    case no
    then show ?thesis using ok by simp
  next
    case fresh
    then show ?thesis using new by simp
  qed
  show ?thesis
  proof (cases "up \<and> (\<exists>i. r = Ok i)")
    case False
    then show ?thesis using assms(1) r v by (auto simp: connect_room_def split: sum.splits if_splits)
  next
    case True
    then obtain i where i: "r = Ok i" by blast
    let ?c = "length (ww_owner v)"
    let ?u = "v\<lparr>ww_joins := ww_joins v @ [(?c, i, wr_conn (room i v) = [], False)], ww_owner := ww_owner v @ [i]\<rparr>"
    have u: "w' = ?u" using assms(1) r True i by (simp add: connect_room_def)
    have h: "holders j ?u = holders j v + (if j = i then {#?c#} else {#})" for j
      by (simp add: holders_def joining_def room_def)
    have "owned j ?u" for j
    proof -
      have o: "owned j v" using v by (simp add: web_ok_def)
      then have "count (holders j v) ?c = 0" by (metis owned_def count_inI less_irrefl)
      then show ?thesis using o unfolding owned_def h by (auto simp: nth_append less_Suc_eq)
    qed
    then show ?thesis using u v i by (auto simp: web_ok_def web_bound_def)
  qed
qed

lemma web_step_ok:
  assumes "web_step J E T opts w w'" "web_ok w" "web_bound w"
  shows "web_ok w' \<and> web_bound w'"
proof -
  have calm: "calm w w' \<Longrightarrow> web_ok w' \<and> web_bound w'" using calm_ok assms(2,3) by (auto simp: calm_def)
  from assms(1) show ?thesis
  proof cases
    case Connected
    then show ?thesis using connect_room_ok assms(2,3) by blast
  next
    case Wrote
    then show ?thesis using writer_recv_ok assms(2,3) by blast
  next
    case Notified
    then show ?thesis by (intro calm send_web_notice_calm)
  next
    case Sent
    then show ?thesis by (intro calm sender_post_calm assms(3))
  next
    case JoinPosted
    then show ?thesis by (intro calm join_post_calm assms(3))
  next
    case JoinEntered
    then show ?thesis by (intro calm join_enter_calm assms(3))
  next
    case Received
    then show ?thesis using reader_recv_calm assms(3) by (intro calm) simp
  next
    case Answered
    then show ?thesis using reader_post_calm assms(3) by (intro calm) simp
  next
    case Hung
    then show ?thesis using reader_exit_calm by (intro calm) simp
  next
    case Ticked
    then show ?thesis using writer_tick_calm by (intro calm) simp
  next
    case Shut
    then show ?thesis using shut_all_calm by (intro calm) (simp add: close_web_def)
  next
    case Elsewhere
    then show ?thesis by (intro calm calm_same) simp_all
  qed
qed

lemma web_reach_ok: "web_reach J E T opts b w \<Longrightarrow> web_ok w \<and> web_bound w"
  unfolding web_reach_def
proof (induction rule: rtranclp_induct)
  case base
  show ?case by (simp add: web_ok_def owned_def holders_def joining_def web_bound_def new_web_world_def)
next
  case (step u v)
  then show ?case using web_step_ok by blast
qed

lemma web_rooms_sound_conns:
  assumes "web_reach J E T opts b w" "i < length (ww_rooms w)"
  shows "distinct (wr_conn (room i w))"
proof -
  have "owned i w" using web_reach_ok [OF assms(1)] by (simp add: web_ok_def)
  then have "count (mset (wr_conn (room i w))) c \<le> 1" for c
    using assms(2) by (simp add: owned_def holders_def members_def) (metis add_leD1)
  then have "count (mset (wr_conn (room i w))) c = (if c \<in> set (wr_conn (room i w)) then 1 else 0)" for c
    by (simp add: le_antisym Suc_leI count_eq_zero_iff)
  then show ?thesis unfolding distinct_count_atmost_1 by blast
qed

text \<open>C1: In every reachable state of the web chat the history of a room holds every message once, by its id, and a
  connection takes part in one room only, and once: an update goes to it once.\<close>

theorem web_rooms_sound:
  assumes "web_reach J E T opts b w" "i < length (ww_rooms w)"
  shows "distinct (map nt_id (wr_msgs (room i w))) \<and> distinct (wr_conn (room i w)) \<and>
    (\<forall>j c. j < length (ww_rooms w) \<and> c \<in> set (wr_conn (room i w)) \<and> c \<in> set (wr_conn (room j w)) \<longrightarrow> j = i)"
proof -
  have ok: "web_ok w" using web_reach_ok [OF assms(1)] ..
  then have h: "history_ok (room i w)" using assms(2) by (simp add: web_ok_def room_def)
  have "ww_owner w ! c = j" if "j < length (ww_rooms w)" "c \<in> set (wr_conn (room j w))" for j c
  proof -
    have "c \<in># holders j w" using that by (simp add: holders_def members_def)
    then show ?thesis using ok by (simp add: web_ok_def owned_def)
  qed
  then have "\<forall>j c. j < length (ww_rooms w) \<and> c \<in> set (wr_conn (room i w)) \<and> c \<in> set (wr_conn (room j w)) \<longrightarrow> j = i"
    using assms(2) by metis
  then show ?thesis using history_distinct [OF h] web_rooms_sound_conns [OF assms] by blast
qed

end
