(* ===== verification/Web_Effects.thy ===== *)
theory Web_Effects
  imports Web_Safety
begin

text \<open>
  What the tasks and the routines of the web chat do: whom an update reaches, what becomes of an answer when
  two readers encode at once or the channel of the room is full, and what the close of the provider does.
\<close>

section \<open>Updates\<close>

lemma write_buffer_bytes:
  assumes "write_buffer s r = (sl, r')" "wr_buf r < length (wr_arrays r)"
  shows "slice_bytes sl r' = s" "snd sl = length s"
  using assms by (auto simp: write_buffer_def slice_bytes_def Let_def nth_append split: if_splits)

lemma write_buffer_place:
  assumes "write_buffer s r = (sl, r')" "wr_buf r < length (wr_arrays r)"
  shows "fst sl = wr_buf r'" "wr_buf r' < length (wr_arrays r')"
  using assms by (auto simp: write_buffer_def Let_def split: if_splits)

lemma encode_in_ok:
  assumes "encode_in J i b w = (sl, ok, w')" "J b = Ok s" "i < length (ww_rooms w)" "history_ok (room i w)"
  shows "slice_bytes sl (room i w') = s" "ok"
proof -
  obtain r' where r: "write_buffer s (room i w) = (sl, r')" "ok" "w' = set_room i r' w"
    using assms(1,2) by (auto simp: encode_in_def encode_json_def split: prod.splits)
  have "wr_buf (room i w) < length (wr_arrays (room i w))" using assms(4) by (simp add: history_ok_def)
  then show "slice_bytes sl (room i w') = s" "ok" using write_buffer_bytes(1) [OF r(1)] r(2,3) assms(3) by simp_all
qed

lemma send_frame_ok:
  assumes "send_frame i c s w = (True, w')"
  shows "ww_frames w' = ww_frames w @ [(c, TextFrame (slice_bytes s (room i w)))]" "ww_rooms w' = ww_rooms w" "ww_gone w' = ww_gone w"
  using assms by (auto simp: send_frame_def write_conn_def Let_def split: if_splits)

lemma send_frame_failed:
  assumes "send_frame i c s w = (False, w')" "i < length (ww_rooms w)"
  shows "ww_frames w' = ww_frames w" "room i w' = (room i w)\<lparr>wr_conn := remove1 c (wr_conn (room i w))\<rparr>"
    "length (ww_rooms w') = length (ww_rooms w)" "c \<in> set (ww_gone w')" "set (ww_gone w) \<subseteq> set (ww_gone w')"
  using assms by (auto simp: send_frame_def write_conn_def Let_def close_conn_def room_def set_room_def split: if_splits)

lemma broadcast_below_effect:
  assumes "wr_conn (room i w) = xs @ ys" "distinct (xs @ ys)" "i < length (ww_rooms w)"
  shows "\<exists>lost. set lost \<subseteq> set xs \<and> wr_conn (room i (broadcast_below i s (length xs) w)) = filter (\<lambda>c. c \<notin> set lost) xs @ ys \<and>
    ww_frames (broadcast_below i s (length xs) w) =
      ww_frames w @ map (\<lambda>c. (c, TextFrame (slice_bytes s (room i w)))) (rev (filter (\<lambda>c. c \<notin> set lost) xs)) \<and>
    set (ww_gone w) \<union> set lost \<subseteq> set (ww_gone (broadcast_below i s (length xs) w)) \<and>
    wr_msgs (room i (broadcast_below i s (length xs) w)) = wr_msgs (room i w)"
  using assms
proof (induction xs arbitrary: ys w rule: rev_induct)
  case Nil
  show ?case using Nil(1) by (intro exI [of _ "[]"]) simp
next
  case (snoc c xs)
  let ?b = "slice_bytes s (room i w)"
  obtain ok v where v: "send_frame i c s w = (ok, v)" by fastforce
  have c: "wr_conn (room i w) ! length xs = c" using snoc.prems(1) by (simp add: nth_append)
  have b: "broadcast_below i s (length (xs @ [c])) w = broadcast_below i s (length xs) v" by (simp add: c v)
  show ?case
  proof (cases ok)
    case True
    with v have v1: "send_frame i c s w = (True, v)" by simp
    note e = send_frame_ok [OF v1]
    have r: "room i v = room i w" using e(2) by (simp add: room_def)
    have 1: "wr_conn (room i v) = xs @ c # ys" using snoc.prems(1) r by simp
    have 2: "distinct (xs @ c # ys)" "i < length (ww_rooms v)" using snoc.prems(2,3) e(2) by auto
    obtain lost where l: "set lost \<subseteq> set xs" "wr_conn (room i (broadcast_below i s (length xs) v)) = filter (\<lambda>c. c \<notin> set lost) xs @ c # ys"
        "ww_frames (broadcast_below i s (length xs) v) = ww_frames v @ map (\<lambda>c. (c, TextFrame ?b)) (rev (filter (\<lambda>c. c \<notin> set lost) xs))"
        "set (ww_gone v) \<union> set lost \<subseteq> set (ww_gone (broadcast_below i s (length xs) v))"
        "wr_msgs (room i (broadcast_below i s (length xs) v)) = wr_msgs (room i w)"
      using snoc.IH [OF 1 2] unfolding r by blast
    have "c \<notin> set lost" using l(1) 2(1) by auto
    then show ?thesis unfolding b using l e by (intro exI [of _ lost]) auto
  next
    case False
    with v have v1: "send_frame i c s w = (False, v)" by simp
    note e = send_frame_failed [OF v1 snoc.prems(3)]
    have nc: "c \<notin> set xs" using snoc.prems(2) by auto
    have 1: "wr_conn (room i v) = xs @ ys" using e(2) snoc.prems(1) nc by (simp add: remove1_append)
    have 2: "distinct (xs @ ys)" "i < length (ww_rooms v)" using snoc.prems(2,3) e(3) by auto
    have r: "slice_bytes s (room i v) = ?b" "wr_msgs (room i v) = wr_msgs (room i w)" using e(2) by (simp_all add: slice_bytes_def)
    obtain lost where l: "set lost \<subseteq> set xs" "wr_conn (room i (broadcast_below i s (length xs) v)) = filter (\<lambda>c. c \<notin> set lost) xs @ ys"
        "ww_frames (broadcast_below i s (length xs) v) = ww_frames v @ map (\<lambda>c. (c, TextFrame ?b)) (rev (filter (\<lambda>c. c \<notin> set lost) xs))"
        "set (ww_gone v) \<union> set lost \<subseteq> set (ww_gone (broadcast_below i s (length xs) v))"
        "wr_msgs (room i (broadcast_below i s (length xs) v)) = wr_msgs (room i w)"
      using snoc.IH [OF 1 2] unfolding r by blast
    have "filter (\<lambda>x. x \<notin> set (c # lost)) (xs @ [c]) = filter (\<lambda>x. x \<notin> set lost) xs" using nc by (auto intro!: filter_cong)
    then show ?thesis unfolding b using l e by (intro exI [of _ "c # lost"]) auto
  qed
qed

text \<open>C2: An update from the chat service goes once to every connection of the room, the youngest first: those that
  could not be written to have left the room and are closed, all others got it; and it is in the history.\<close>

theorem update_reaches_room:
  assumes "web_reach J E T opts b w" "i < length (ww_rooms w)" "J (update_body m) = Ok s"
  shows "\<exists>lost. wr_conn (room i (run_task J opts i (TaskUpdate m) w)) = filter (\<lambda>c. c \<notin> set lost) (wr_conn (room i w)) \<and>
    ww_frames (run_task J opts i (TaskUpdate m) w) =
      ww_frames w @ map (\<lambda>c. (c, TextFrame s)) (rev (wr_conn (room i (run_task J opts i (TaskUpdate m) w)))) \<and>
    set lost \<subseteq> set (ww_gone (run_task J opts i (TaskUpdate m) w)) \<and>
    (nt_id m \<noteq> 0 \<longrightarrow> m \<in> set (wr_msgs (room i (run_task J opts i (TaskUpdate m) w))))"
proof -
  let ?v = "set_room i (push_message m (room i w)) w"
  obtain sl ok u where u: "encode_in J i (update_body m) ?v = (sl, ok, u)" by (metis prod_cases3)
  have h: "history_ok (room i w)" using web_reach_ok [OF assms(1)] assms(2) by (simp add: web_ok_def room_def)
  have d: "distinct (wr_conn (room i w))" using web_rooms_sound_conns [OF assms(1,2)] .
  have rv: "room i ?v = push_message m (room i w)" using assms(2) by simp
  have b: "slice_bytes sl (room i u) = s"
    using encode_in_ok(1) [OF u assms(3)] assms(2) push_message_ok [OF h] rv by simp
  have c: "wr_conn (room i u) = wr_conn (room i w)" "ww_frames u = ww_frames w" "i < length (ww_rooms u)"
    using encode_calm [OF u] rv assms(2) by (auto simp: calm_def)
  obtain r' where r': "u = set_room i r' ?v" "encode_json J (update_body m) (room i ?v) = (sl, ok, r')"
    using u by (auto simp: encode_in_def split: prod.splits)
  have "wr_msgs (room i u) = wr_msgs (push_message m (room i w))"
    using encode_json_room [OF r'(2)] r'(1) assms(2) rv by auto
  moreover have "nt_id m \<noteq> 0 \<Longrightarrow> m \<in> set (wr_msgs (push_message m (room i w)))"
    using h by (auto simp: push_message_def history_ok_def set_update_memI split: option.split)
  moreover obtain lost where "set lost \<subseteq> set (wr_conn (room i w))"
      "wr_conn (room i (broadcast_below i sl (length (wr_conn (room i w))) u)) = filter (\<lambda>c. c \<notin> set lost) (wr_conn (room i w))"
      "ww_frames (broadcast_below i sl (length (wr_conn (room i w))) u) =
        ww_frames u @ map (\<lambda>c. (c, TextFrame (slice_bytes sl (room i u)))) (rev (filter (\<lambda>c. c \<notin> set lost) (wr_conn (room i w))))"
      "set (ww_gone u) \<union> set lost \<subseteq> set (ww_gone (broadcast_below i sl (length (wr_conn (room i w))) u))"
      "wr_msgs (room i (broadcast_below i sl (length (wr_conn (room i w))) u)) = wr_msgs (room i u)"
    using broadcast_below_effect [of i u "wr_conn (room i w)" "[]" sl] c d by auto
  moreover have "run_task J opts i (TaskUpdate m) w = broadcast_below i sl (length (wr_conn (room i w))) u"
    using u c(1) by (simp add: run_update_def broadcast_def)
  ultimately show ?thesis using b c(2) by (intro exI [of _ lost]) auto
qed

section \<open>Answers\<close>

text \<open>The frame of the answer c gets is what the buffer holds when the writer runs the task.\<close>

lemma run_reply_frames:
  assumes "ww_faults w = []" "c \<notin> set (ww_gone w)" "i < length (ww_rooms w)"
  shows "\<exists>es. ww_frames (run_task J opts i (TaskReply c res s) w) = ww_frames w @ (c, TextFrame (slice_bytes s (room i w))) # es"
proof -
  have sent: "send_frame i c s v = (True, v\<lparr>ww_frames := ww_frames v @ [(c, TextFrame (slice_bytes s (room i v)))], ww_faults := []\<rparr>)"
    if "ww_faults v = []" "c \<notin> set (ww_gone v)" for v
    using that by (simp add: send_frame_def write_conn_def)
  have grow: "\<exists>es. ww_frames (note_below J i self m sl k v) = ww_frames v @ es" for self m sl k v
  proof (induction k arbitrary: sl v)
    case (Suc k)
    obtain x u where u: "(case sl of Some sl \<Rightarrow> (sl, v) | None \<Rightarrow> (let (sl, _, w) = encode_in J i (update_body m) v in (sl, w))) = (x, u)"
      by fastforce
    have fu: "ww_frames u = ww_frames v" using u by (auto split: option.splits prod.splits dest: encode_calm)
    obtain ok t where t: "send_frame i (wr_conn (room i v) ! k) x u = (ok, t)" by fastforce
    have "\<exists>es. ww_frames t = ww_frames u @ es"
      using t by (auto simp: send_frame_def write_conn_def close_conn_def Let_def split: if_splits)
    moreover have "\<exists>es. ww_frames (note_below J i self m sl' k t) = ww_frames t @ es" for sl' by (rule Suc.IH)
    ultimately have "\<exists>es. ww_frames (note_below J i self m sl' k t) = ww_frames v @ es" for sl' using fu by (metis append.assoc)
    then show ?case using u t Suc.IH [of sl v] by (simp add: Let_def)
  qed simp
  show ?thesis
  proof (cases res)
    case (Inl e)
    then show ?thesis using sent [OF assms(1,2)] by (simp add: run_reply_def)
  next
    case (Inr m)
    let ?v = "set_room i (push_message m (room i w)) w"
    let ?u = "?v\<lparr>ww_frames := ww_frames ?v @ [(c, TextFrame (slice_bytes s (room i ?v)))], ww_faults := []\<rparr>"
    have u: "send_frame i c s ?v = (True, ?u)" using assms by (intro sent) simp_all
    have sl: "slice_bytes s (room i ?v) = slice_bytes s (room i w)" using assms(3) by (simp add: slice_bytes_def)
    obtain es where es: "ww_frames (note_below J i c m None (length (wr_conn (room i ?u))) ?u) = ww_frames ?u @ es" using grow by blast
    have "run_task J opts i (TaskReply c res s) w = note_below J i c m None (length (wr_conn (room i ?u))) ?u"
      using Inr u by (simp only: run_task.simps run_reply_def sum.case Let_def snd_conv)
    moreover have "ww_frames ?u = ww_frames w @ [(c, TextFrame (slice_bytes s (room i w)))]" using sl by simp
    ultimately show ?thesis using es by simp
  qed
qed

text \<open>A reader writes its answer to the buffer of its room.\<close>

lemma reader_recv_room:
  assumes "\<forall>b. \<exists>t. J b = Ok t" "i < length (ww_rooms w)"
  shows "\<exists>t sl r res. write_buffer t (room i w) = (sl, r) \<and> room i (reader_recv J E T now c i q R w) = r \<and>
    map_of (ww_readers (reader_recv J E T now c i q R w)) c = Some (Answering i (TaskReply c res sl)) \<and>
    length (ww_rooms (reader_recv J E T now c i q R w)) = length (ww_rooms w)"
proof -
  obtain res u where u: "(case method_refusal q of
               Some e \<Rightarrow> (Fail e, w)
             | None \<Rightarrow>
                 (case read_update T now (wr_gate (room i w)) (wr_channel (room i w))
                         (Some (bc_account (chan (wr_channel (room i w)) (ww_bot w)))) (the (wq_message q)) R (ww_bot w) of
                    (Some e, _, b) \<Rightarrow> (Fail (E e), w\<lparr>ww_bot := b\<rparr>)
                  | (None, m, b) \<Rightarrow> (Ok m, w\<lparr>ww_bot := b\<rparr>))) = (res, u)" by (rule prod.exhaust)
  have ru: "room j u = room j w" "length (ww_rooms u) = length (ww_rooms w)" for j
    using u by (auto simp: room_def split: option.splits prod.splits)
  let ?b = "case res of Fail e \<Rightarrow> ReplyBody (wq_seq q) e None | Ok m \<Rightarrow> ReplyBody (wq_seq q) [] (Some m)"
  obtain t where t: "J ?b = Ok t" using assms(1) by blast
  obtain sl r where r: "write_buffer t (room i w) = (sl, r)" by fastforce
  have v: "encode_in J i ?b u = (sl, True, set_room i r u)" using t r ru by (simp add: encode_in_def encode_json_def)
  have w': "reader_recv J E T now c i q R w =
      (set_room i r u)\<lparr>ww_readers := AList.update c (Answering i (TaskReply c res sl)) (ww_readers u)\<rparr>"
    unfolding reader_recv_def Let_def u by (simp add: v)
  have "room i (v\<lparr>ww_readers := x\<rparr>) = room i v" for v x by (simp add: room_def)
  then show ?thesis unfolding w' using r assms(2) ru by (intro exI [of _ t] exI [of _ sl] exI [of _ r] exI [of _ res]) (simp add: update_conv')
qed

text \<open>C3: The answer of one connection may be overwritten by that of another.  Both readers encode into the one buffer of
  the room before they post their answers; when the second is no shorter and fits into it, the first connection
  is sent the beginning of the answer of the second instead of its own.\<close>

theorem answer_overwritten:
  assumes "web_reach J E T opts b w" "i < length (ww_rooms w)" "\<forall>b. \<exists>t. J b = Ok t" "c \<noteq> c'"
    and "w1 = reader_recv J E T now c i q R w" "w2 = reader_recv J E T now' c' i q' R' w1"
    and "map_of (ww_readers w1) c = Some (Answering i (TaskReply c res s))"
    and "map_of (ww_readers w2) c' = Some (Answering i (TaskReply c' res' s'))"
    and "snd s \<le> snd s'" "snd s' \<le> length (wr_arrays (room i w1) ! wr_buf (room i w1))"
    and "ww_faults w2 = []" "c \<notin> set (ww_gone w2)"
  shows "\<exists>es. ww_frames (run_task J opts i (TaskReply c res s) w2) =
    ww_frames w2 @ (c, TextFrame (take (snd s) (slice_bytes s' (room i w2)))) # es"
proof -
  have h: "history_ok (room i w)" using web_reach_ok [OF assms(1)] assms(2) by (simp add: web_ok_def room_def)
  then have buf: "wr_buf (room i w) < length (wr_arrays (room i w))" by (simp add: history_ok_def)
  obtain t where t: "write_buffer t (room i w) = (s, room i w1)" "length (ww_rooms w1) = length (ww_rooms w)"
    using reader_recv_room [OF assms(3,2), of E T now c q R] assms(5,7) by auto
  then have "i < length (ww_rooms w1)" using assms(2) by simp
  from reader_recv_room [OF assms(3) this, of E T now' c' q' R'] obtain t' where
      t': "write_buffer t' (room i w1) = (s', room i w2)" "length (ww_rooms w2) = length (ww_rooms w1)"
    using assms(6,8) by auto
  have s: "fst s = wr_buf (room i w1)" "wr_buf (room i w1) < length (wr_arrays (room i w1))"
    using write_buffer_place [OF t(1) buf] by simp_all
  have n: "snd s' = length t'" using write_buffer_bytes(2) [OF t'(1) s(2)] .
  then have "room i w2 = (room i w1)\<lparr>wr_arrays := (wr_arrays (room i w1))[wr_buf (room i w1) :=
      t' @ drop (length t') (wr_arrays (room i w1) ! wr_buf (room i w1))]\<rparr>"
    using t'(1) assms(10) by (simp add: write_buffer_def Let_def)
  then have "slice_bytes s (room i w2) = take (snd s) t'" using s n assms(9) by (simp add: slice_bytes_def)
  moreover have "slice_bytes s' (room i w2) = t'" by (rule write_buffer_bytes(1) [OF t'(1) s(2)])
  moreover have "i < length (ww_rooms w2)" using t' t assms(2) by simp
  ultimately show ?thesis using run_reply_frames [OF assms(11,12), of i J opts res s] by simp
qed

section \<open>A full channel\<close>

text \<open>The message that a customer sends while the channel of the room holds a task is given to the chat, and is lost to
  the room: no answer, no place in the history, no note to the other connections; its connection is closed, and yet the
  room keeps it until a write to it fails.\<close>

theorem full_channel_drops_answer:
  assumes "reader_post c i (TaskReply c res s) w = w'" "\<not> wr_shut (room i w)" "wr_queue (room i w) \<noteq> []"
  shows "room i w' = room i w \<and> c \<in> set (ww_gone w') \<and> map_of (ww_readers w') c = None \<and> ww_frames w' = ww_frames w"
proof -
  have r: "room i (w\<lparr>ww_readers := x\<rparr>) = room i w" for x by (simp add: room_def)
  have "w' = close_conn c (w\<lparr>ww_readers := AList.delete c (ww_readers w)\<rparr>)"
    using assms by (simp add: reader_post_def reader_exit_def post_task_def r)
  then show ?thesis using r by (simp add: close_conn_def room_def delete_conv')
qed

section \<open>The close of the provider\<close>

lemma shut_all_shut:
  assumes "i < length (ww_rooms w)" "i \<in> snd ` set ps \<or> wr_shut (room i w)"
  shows "wr_shut (room i (fold (\<lambda>p. shut_room (snd p)) ps w))"
  using assms
proof (induction ps arbitrary: w)
  case (Cons p ps)
  have k: "wr_shut (room j (shut_room k w)) \<longleftrightarrow> wr_shut (room j w) \<or> j = k \<and> k < length (ww_rooms w)" for j k
    by (auto simp: shut_room_def room_set_room) (auto simp: room_def)
  have l: "length (ww_rooms (shut_room k w)) = length (ww_rooms w)" for k by (simp add: shut_room_def)
  show ?case using Cons.IH [of "shut_room (snd p) w"] Cons.prems by (auto simp: k l)
qed simp

lemma shut_all_same: "ww_readers (fold (\<lambda>p. shut_room (snd p)) ps w) = ww_readers w"
proof (induction ps arbitrary: w)
  case (Cons p ps)
  show ?case using Cons.IH [of "shut_room (snd p) w"] by (simp add: shut_room_def)
qed simp

text \<open>C4: After the provider was closed every read routine of a room in the index that ends, which the write routine makes them do as it
  closes the connections, panics at the send over the closed channel; nothing recovers there.\<close>

theorem close_panics_readers:
  assumes "web_reach J E T opts b w" "(chat, i) \<in> set (ww_chat w)" "map_of (ww_readers w) c = Some (Listening i)"
  shows "web_step J E T opts w (close_web w) \<and> map_of (ww_readers (close_web w)) c = Some (Listening i) \<and>
    ww_panics (reader_exit c i (close_web w)) = Suc (ww_panics (close_web w))"
proof (intro conjI)
  have i: "i < length (ww_rooms w)" using web_reach_ok [OF assms(1)] assms(2) by (auto simp: web_bound_def)
  then have "wr_shut (room i (close_web w))" unfolding close_web_def using assms(2) by (intro shut_all_shut) force+
  moreover have "room i (w\<lparr>ww_readers := x\<rparr>) = room i w" for w x by (simp add: room_def)
  ultimately show "ww_panics (reader_exit c i (close_web w)) = Suc (ww_panics (close_web w))"
    by (simp add: reader_exit_def post_task_def)
  show "map_of (ww_readers (close_web w)) c = Some (Listening i)" using assms(3) by (simp add: close_web_def shut_all_same)
  show "web_step J E T opts w (close_web w)" by (rule Shut)
qed

section \<open>An empty room\<close>

text \<open>The ping ends a room without connections: the room leaves the index, its writer stops, and the chat is
  closed if it was not.\<close>

theorem empty_room_ends:
  assumes "wr_conn (room i w) = []" "i < length (ww_rooms w)" "a = wr_channel (room i w)"
  shows "map_of (ww_chat (writer_tick now ats i w)) (bc_chat (chan a (ww_bot w))) \<noteq> Some i \<and>
    \<not> wr_writer (room i (writer_tick now ats i w)) \<and>
    ww_bot (writer_tick now ats i w) = (if bc_closed (chan a (ww_bot w)) = 0 then snd (close_bot_channel now ats a (ww_bot w)) else ww_bot w)"
proof -
  let ?v = "set_room i ((room i w)\<lparr>wr_closed := True\<rparr>) w"
  have "writer_tick now ats i w = writer_exit now ats i ?v"
    using assms(1,2) by (simp add: writer_tick_def writer_check_def Let_def)
  moreover have "room i (u\<lparr>ww_chat := x\<rparr>) = room i u" "room i (u\<lparr>ww_bot := y\<rparr>) = room i u" for u x y by (simp_all add: room_def)
  ultimately show ?thesis using assms(2,3)
    by (simp add: writer_exit_def Let_def delete_conv')
qed

end
