(* ===== verification/Web_Examples.thy ===== *)
theory Web_Examples
  imports Web_Effects
begin

text \<open>
  A run of the web chat: two connections of one device join the room of their chat, and both send a
  message.  The theorems on rooms are applied to its states.
\<close>

definition plain_json :: web_json where
  "plain_json b =
     Ok (case b of InfoBody chat user msgs timeout limit \<Rightarrow> ''info'' | ReplyBody seq e m \<Rightarrow> (case m of None \<Rightarrow> e | Some n \<Rightarrow> nt_text n))"

definition no_text :: "bot_error \<Rightarrow> string" where "no_text e = []"

definition example_options :: web_options where "example_options = \<lparr>wo_write_timeout = 10, wo_media_max = 1000\<rparr>"

text \<open>The bot of the site, with a chat that the device ''77'' opened before.\<close>

definition web_bots :: bot_world where
  "web_bots =
     \<lparr>bw_channels = [\<lparr>bc_host = ''n1'', bc_title = ''Web'', bc_chat = ''77'', bc_account = (web_user ''77'')\<lparr>bn_id := 8\<rparr>, bc_id = ''ch1'',
        bc_session = ''cv1'', bc_props = NoProps, bc_closed = 0, bc_gate = 0\<rparr>],
      bw_gates = [\<lparr>bg_id = 3, bg_uri = ''/site'', bg_enabled = True, bg_provider = ''webchat'', bg_domain = 1, bg_flow = 4,
        bg_name = ''site'', bg_meta = [], bg_updates = None, bg_deleted = False, bg_cache = 0\<rparr>],
      bw_caches = [\<lparr>cx_external = [(''77'', 0)], cx_internal = [(8, 0)]\<rparr>], bw_profiles = [(3, 0)], bw_uris = [(''/site'', 3)],
      bw_events = []\<rparr>"

abbreviation example_reach :: "web_world \<Rightarrow> bool" where
  "example_reach w \<equiv> web_reach plain_json no_text plain_template example_options web_bots w"

definition web_opened :: web_world where
  "web_opened = snd (connect_room plain_template 0 16 ''77'' True True example_bot_replies (new_web_world web_bots))"

definition web_posted :: web_world where "web_posted = the (join_post 0 web_opened)"

definition web_entered :: web_world where "web_entered = the (join_enter plain_template 9 0 example_bot_replies web_posted)"

definition web_joined :: web_world where "web_joined = the (writer_recv plain_json example_options 9 [] 0 web_entered)"

definition web_opened2 :: web_world where
  "web_opened2 = snd (connect_room plain_template 0 16 ''77'' True True example_bot_replies web_joined)"

definition web_posted2 :: web_world where "web_posted2 = the (join_post 0 web_opened2)"

definition web_entered2 :: web_world where "web_entered2 = the (join_enter plain_template 9 0 example_bot_replies web_posted2)"

definition web_joined2 :: web_world where "web_joined2 = the (writer_recv plain_json example_options 9 [] 0 web_entered2)"

lemma web_reach_step: "web_reach J E T opts b w \<Longrightarrow> web_step J E T opts w w' \<Longrightarrow> web_reach J E T opts b w'"
  unfolding web_reach_def by (rule rtranclp.rtrancl_into_rtrancl)

lemma the_some: "x \<noteq> None \<Longrightarrow> x = Some (the x)"
  by simp

lemma example_web_reached: "example_reach web_joined" "example_reach web_joined2"
proof -
  have "example_reach (new_web_world web_bots)" by (simp add: web_reach_def)
  then have 1: "example_reach web_opened"
    unfolding web_opened_def by (rule web_reach_step [OF _ Connected [OF prod.collapse [symmetric]]])
  have "0 < length (ww_joins web_opened)" "join_post 0 web_opened \<noteq> None" by code_simp+
  then have 2: "example_reach web_posted"
    unfolding web_posted_def using web_reach_step [OF 1 JoinPosted [OF _ the_some]] by blast
  have "0 < length (ww_joins web_posted)" "join_enter plain_template 9 0 example_bot_replies web_posted \<noteq> None" by code_simp+
  then have 3: "example_reach web_entered"
    unfolding web_entered_def using web_reach_step [OF 2 JoinEntered [OF _ the_some]] by blast
  have "0 < length (ww_rooms web_entered)" "wr_writer (room 0 web_entered)"
      "writer_recv plain_json example_options 9 [] 0 web_entered \<noteq> None" by code_simp+
  then show 4: "example_reach web_joined"
    unfolding web_joined_def using web_reach_step [OF 3 Wrote [OF _ _ the_some]] by blast
  have 5: "example_reach web_opened2"
    unfolding web_opened2_def by (rule web_reach_step [OF 4 Connected [OF prod.collapse [symmetric]]])
  have "0 < length (ww_joins web_opened2)" "join_post 0 web_opened2 \<noteq> None" by code_simp+
  then have 6: "example_reach web_posted2"
    unfolding web_posted2_def using web_reach_step [OF 5 JoinPosted [OF _ the_some]] by blast
  have "0 < length (ww_joins web_posted2)" "join_enter plain_template 9 0 example_bot_replies web_posted2 \<noteq> None" by code_simp+
  then have 7: "example_reach web_entered2"
    unfolding web_entered2_def using web_reach_step [OF 6 JoinEntered [OF _ the_some]] by blast
  have "0 < length (ww_rooms web_entered2)" "wr_writer (room 0 web_entered2)"
      "writer_recv plain_json example_options 9 [] 0 web_entered2 \<noteq> None" by code_simp+
  then show "example_reach web_joined2"
    unfolding web_joined2_def using web_reach_step [OF 7 Wrote [OF _ _ the_some]] by blast
qed

lemma web_rooms_sound_witness: "distinct (wr_conn (room 0 web_joined2)) \<and> length (wr_conn (room 0 web_joined2)) = 2"
proof -
  have "0 < length (ww_rooms web_joined2)" "length (wr_conn (room 0 web_joined2)) = 2" by code_simp+
  then show ?thesis using web_rooms_sound [OF example_web_reached(2), of 0] by simp
qed

abbreviation hello :: notice where "hello \<equiv> zero_notice\<lparr>nt_id := 5, nt_type := ''text'', nt_text := ''hello''\<rparr>"

lemma update_reaches_room_witness:
  "hello \<in> set (wr_msgs (room 0 (run_task plain_json example_options 0 (TaskUpdate hello) web_joined2)))"
proof -
  have "0 < length (ww_rooms web_joined2)" "plain_json (update_body hello) = Ok ''hello''" by code_simp+
  from update_reaches_room [OF example_web_reached(2) this] show ?thesis by (auto simp del: run_task.simps)
qed

abbreviation bare_frame :: "string \<Rightarrow> web_request" where
  "bare_frame m \<equiv> \<lparr>wq_error = None, wq_seq = None, wq_method = m, wq_message = None\<rparr>"

definition web_answering :: web_world where
  "web_answering = reader_recv plain_json no_text plain_template 9 0 0 (bare_frame ''send'') example_bot_replies web_joined2"

definition web_answering2 :: web_world where
  "web_answering2 = reader_recv plain_json no_text plain_template 9 1 0 (bare_frame ''forward'') example_bot_replies web_answering"

lemma answer_overwritten_witness:
  "(0, TextFrame (''method='' @ [CHR 0x22] @ ''forward'' @ [CHR 0x22] @ '' not all'')) \<in> set (ww_frames (run_task plain_json example_options 0
    (TaskReply 0 (Fail ''send: message is missing'') (1, 24)) web_answering2))"
proof -
  have l: "0 < length (ww_rooms web_joined2)" "(0::nat) \<noteq> 1" by code_simp+
  have j: "\<forall>b. \<exists>t. plain_json b = Ok t" by (simp add: plain_json_def)
  have a: "map_of (ww_readers web_answering) 0 = Some (Answering 0 (TaskReply 0 (Fail ''send: message is missing'') (1, 24)))" by code_simp
  have b: "map_of (ww_readers web_answering2) 1 = Some (Answering 0 (TaskReply 1 (Fail (''method='' @ [CHR 0x22] @ ''forward'' @ [CHR 0x22] @ '' not allowed'')) (1, 28)))" by code_simp
  have c: "snd ((1, 24) :: web_slice) \<le> snd ((1, 28) :: web_slice)" by simp
  have d: "snd ((1, 28) :: web_slice) \<le> length (wr_arrays (room 0 web_answering) ! wr_buf (room 0 web_answering))" by code_simp
  have e: "ww_faults web_answering2 = []" by code_simp
  have f: "0 \<notin> set (ww_gone web_answering2)" by code_simp
  have t: "take (snd ((1, 24) :: web_slice)) (slice_bytes (1, 28) (room 0 web_answering2)) = ''method='' @ [CHR 0x22] @ ''forward'' @ [CHR 0x22] @ '' not all''" by code_simp
  obtain es where "ww_frames (run_task plain_json example_options 0 (TaskReply 0 (Fail ''send: message is missing'') (1, 24)) web_answering2) =
      ww_frames web_answering2 @ (0, TextFrame (take (snd ((1, 24) :: web_slice)) (slice_bytes (1, 28) (room 0 web_answering2)))) # es"
    using answer_overwritten [OF example_web_reached(2) l(1) j l(2) web_answering_def web_answering2_def a b c d e f] by blast
  then show ?thesis unfolding t by (simp only: set_append list.set Un_iff insert_iff simp_thms)
qed

lemma full_channel_drops_answer_witness:
  "0 \<in> set (ww_gone (reader_post 0 0 (TaskReply 0 (Fail []) (0, 0)) web_entered2))"
proof -
  have "\<not> wr_shut (room 0 web_entered2)" "wr_queue (room 0 web_entered2) \<noteq> []" by code_simp+
  from full_channel_drops_answer [OF refl this] show ?thesis by blast
qed

lemma close_panics_readers_witness: "ww_panics (reader_exit 0 0 (close_web web_joined)) = Suc (ww_panics (close_web web_joined))"
proof -
  have "(''77'', 0) \<in> set (ww_chat web_joined)" "map_of (ww_readers web_joined) 0 = Some (Listening 0)" by code_simp+
  from close_panics_readers [OF example_web_reached(1) this] show ?thesis by blast
qed

lemma empty_room_ends_witness: "\<not> wr_writer (room 0 (writer_tick 9 [answered ()] 0 (run_remove 0 0 web_joined)))"
proof -
  have "wr_conn (room 0 (run_remove 0 0 web_joined)) = []" "0 < length (ww_rooms (run_remove 0 0 web_joined))" by code_simp+
  from empty_room_ends [OF this refl] show ?thesis by blast
qed

end
