(* ===== verification/Bot_Upload.thy ===== *)
theory Bot_Upload
  imports Chat_Start
begin

text \<open>
  Files that a provider passes on to the storage service: Gateway.UploadFile (bot/gateway.go) and the
  reader with a limit of the web chat (bot/webchat/webchat.go).  The sources of bytes share an
  interface, the contract of io.Reader, under which the loop is shown to end and to send what it reads.
\<close>

section \<open>Sources of bytes\<close>

datatype upload_error = UploadText string | UploadGrpc nat string | UploadPolicy | UploadTooLarge | UploadPanic

datatype read_status = ReadMore | ReadEof | ReadError upload_error | ReadPanic

abbreviation read_ok :: "read_status \<Rightarrow> bool" where
  "read_ok st \<equiv> st = ReadMore \<or> st = ReadEof"

text \<open>A body: its bytes, how many at most each read gives (and at least one), whether its end is told
  with the last bytes, and the error with which it ends.\<close>

record byte_reader =
  rd_rest :: string
  rd_plan :: "nat list"
  rd_early :: bool
  rd_error :: "upload_error option"

definition read_end :: "byte_reader \<Rightarrow> read_status" where
  "read_end r = (case rd_error r of None \<Rightarrow> ReadEof | Some e \<Rightarrow> ReadError e)"

definition read_bytes :: "nat \<Rightarrow> byte_reader \<Rightarrow> string \<times> read_status \<times> byte_reader" where
  "read_bytes k r =
     (if rd_rest r = [] then ([], read_end r, r)
      else
        (let n = (case rd_plan r of [] \<Rightarrow> k | p # _ \<Rightarrow> min k (max 1 p)); rest = drop n (rd_rest r) in
         (take n (rd_rest r), (if rest = [] \<and> rd_early r then read_end r else ReadMore),
          r\<lparr>rd_rest := rest, rd_plan := tl (rd_plan r)\<rparr>)))"

text \<open>limitedReader: one byte more than is left is asked for, to see that there is one.  That number is an int64: for
  the greatest of them it wraps, and the buffer is then cut at a negative length, which panics.\<close>

record limited_reader =
  lr_left :: int
  lr_inner :: byte_reader

definition limited_read :: "nat \<Rightarrow> limited_reader \<Rightarrow> string \<times> read_status \<times> limited_reader" where
  "limited_read k l =
     (if lr_left l < 0 then ([], ReadError UploadTooLarge, l)
      else
        (let more = to_int64 (lr_left l + 1) in
         if int k > more \<and> more < 0 then ([], ReadPanic, l)
         else
           (let (bs, st, r) = read_bytes (if int k > more then nat more else k) (lr_inner l);
                l = l\<lparr>lr_left := lr_left l - int (List.length bs), lr_inner := r\<rparr>
            in if lr_left l < 0 then ([], ReadError UploadTooLarge, l) else (bs, st, l))))"

section \<open>The upload\<close>

definition chunk_size :: nat where "chunk_size = 4096"

text \<open>The loop over the body: None until a chunk was sent that is empty, or with the error.  Which sends of
  the stream fail is data.\<close>

partial_function (option) upload_loop ::
  "(nat \<Rightarrow> 'r \<Rightarrow> string \<times> read_status \<times> 'r) \<Rightarrow> upload_error option list \<Rightarrow> 'r \<Rightarrow> string list \<Rightarrow>
   (upload_error option \<times> string list) option" where
  "upload_loop read faults r sent =
     (case read chunk_size r of
        (bs, ReadError e, r) \<Rightarrow> Some (Some e, sent)
      | (bs, ReadPanic, r) \<Rightarrow> Some (Some UploadPanic, sent)
      | (bs, st, r) \<Rightarrow>
          (case (case faults of [] \<Rightarrow> None | f # _ \<Rightarrow> f) of
             Some e \<Rightarrow> Some (Some e, sent)
           | None \<Rightarrow>
               if bs = [] then Some (None, sent @ [bs])
               else upload_loop read (tl faults) r (sent @ [bs])))"

declare upload_loop.simps [code]

record stored_reply =
  up_id :: int
  up_url :: string
  up_size :: int
  up_code :: int
  up_malware :: bool

text \<open>The stream of the storage service: its opening, the send of the metadata, those of the chunks, and the
  answer when it is closed.\<close>

record upload_env =
  ue_open :: "upload_error option"
  ue_meta :: "upload_error option"
  ue_faults :: "upload_error option list"
  ue_close :: "(upload_error, stored_reply) result"

text \<open>uploadFile, with the chunks that were sent and whether the stream was closed, which is how the service
  knows that the file is complete.  A panic of a read leaves it open.\<close>

definition upload_file ::
  "(nat \<Rightarrow> 'r \<Rightarrow> string \<times> read_status \<times> 'r) \<Rightarrow> upload_env \<Rightarrow> 'r option \<Rightarrow>
   ((upload_error, stored_reply) result \<times> string list \<times> bool) option" where
  "upload_file read env body =
     (case body of
        None \<Rightarrow> Some (Fail (UploadText ''upload: body is nil''), [], False)
      | Some r \<Rightarrow>
          (case ue_open env of
             Some e \<Rightarrow> Some (Fail e, [], False)
           | None \<Rightarrow>
               (case ue_meta env of
                  Some e \<Rightarrow> Some (Fail e, [], False)
                | None \<Rightarrow>
                    (case upload_loop read (ue_faults env) r [] of
                       None \<Rightarrow> None
                     | Some (Some UploadPanic, sent) \<Rightarrow> Some (Fail UploadPanic, sent, False)
                     | Some (err, sent) \<Rightarrow>
                         Some ((case ue_close env of
                                  Fail e \<Rightarrow> Fail e
                                | Ok u \<Rightarrow> (case err of Some e \<Rightarrow> Fail e | None \<Rightarrow> Ok u)), sent, True)))))"

text \<open>HandleFileUploadError: the code FailedPrecondition is a violation of the file policy.\<close>

definition failed_precondition :: nat where "failed_precondition = 9"

definition handle_upload_error :: "upload_error \<Rightarrow> upload_error" where
  "handle_upload_error e = (case e of UploadGrpc c _ \<Rightarrow> if c = failed_precondition then UploadPolicy else e | _ \<Rightarrow> e)"

text \<open>UploadFile: the URL of the file on the host of the service; P resolves a reference.\<close>

definition gateway_upload ::
  "web_lib \<Rightarrow> (parsed_url \<Rightarrow> string \<Rightarrow> string option) \<Rightarrow> string \<Rightarrow> (nat \<Rightarrow> 'r \<Rightarrow> string \<times> read_status \<times> 'r) \<Rightarrow> upload_env \<Rightarrow>
   'r option \<Rightarrow> ((upload_error, stored_reply) result \<times> string list \<times> bool) option" where
  "gateway_upload W P host read env body =
     map_option (\<lambda>(res, sent, closed).
       (case res of
          Fail e \<Rightarrow> Fail (handle_upload_error e)
        | Ok u \<Rightarrow>
            (case wl_request_uri W host of
               None \<Rightarrow> Fail (UploadText ''parse'')
             | Some h \<Rightarrow>
                 (case P \<lparr>pu_scheme = pu_scheme h, pu_host = pu_host h, pu_path = [], pu_query = [], pu_more = []\<rparr> (up_url u) of
                    None \<Rightarrow> Fail (UploadText ''parse'')
                  | Some s \<Rightarrow> Ok (u\<lparr>up_url := s\<rparr>))), sent, closed))
       (upload_file read env body)"

section \<open>The contract of a source\<close>

locale byte_source =
  fixes read :: "nat \<Rightarrow> 'r \<Rightarrow> string \<times> read_status \<times> 'r" and rest :: "'r \<Rightarrow> string" and valid :: "'r \<Rightarrow> bool"
  assumes read_length: "read k r = (bs, st, r') \<Longrightarrow> length bs \<le> k"
    and read_prefix: "read k r = (bs, st, r') \<Longrightarrow> read_ok st \<Longrightarrow> rest r = bs @ rest r'"
    and read_progress: "read k r = (bs, st, r') \<Longrightarrow> read_ok st \<Longrightarrow> valid r \<Longrightarrow> 0 < k \<Longrightarrow> bs = [] \<Longrightarrow> rest r = []"
    and read_valid: "read k r = (bs, st, r') \<Longrightarrow> read_ok st \<Longrightarrow> valid r \<Longrightarrow> valid r'"
begin

text \<open>The loop ends, and sends a prefix of the body in chunks that fit the buffer; all of it when there is no
  error.\<close>

lemma upload_sends:
  "\<exists>err new. upload_loop read faults r sent = Some (err, sent @ new) \<and> (\<forall>c \<in> set new. length c \<le> chunk_size) \<and>
    (err = None \<and> valid r \<longrightarrow> concat new = rest r) \<and> (\<exists>x. rest r = concat new @ x)"
proof (induction "length (rest r)" arbitrary: faults r sent rule: less_induct)
  case less
  obtain bs st r' where r: "read chunk_size r = (bs, st, r')" by (metis prod_cases3)
  let ?f = "case faults of [] \<Rightarrow> None | f # _ \<Rightarrow> f"
  have k: "0 < chunk_size" by (simp add: chunk_size_def)
  show ?case
  proof (cases "read_ok st \<and> ?f = None")
    case False
    then have "\<exists>e. upload_loop read faults r sent = Some (Some e, sent)"
      using r by (subst upload_loop.simps) (auto split: read_status.split option.split)
    then obtain e where "upload_loop read faults r sent = Some (Some e, sent)" by blast
    then show ?thesis by (intro exI [of _ "Some e"] exI [of _ "[]"]) simp
  next
    case True
    then have ok: "read_ok st" "?f = None" by auto
    note p = read_prefix [OF r ok(1)] and n = read_length [OF r]
    show ?thesis
    proof (cases "bs = []")
      case True
      then have "upload_loop read faults r sent = Some (None, sent @ [[]])"
        using r ok by (subst upload_loop.simps) (auto split: read_status.split)
      then show ?thesis using read_progress [OF r ok(1) _ k True] by (intro exI [of _ None] exI [of _ "[[]]"]) simp
    next
      case more: False
      then have "upload_loop read faults r sent = upload_loop read (tl faults) r' (sent @ [bs])"
        using r ok by (subst upload_loop.simps) (auto split: read_status.split)
      moreover have "length (rest r') < length (rest r)" using p more by simp
      from less [OF this, of "tl faults" "sent @ [bs]"] obtain err new where
          "upload_loop read (tl faults) r' (sent @ [bs]) = Some (err, (sent @ [bs]) @ new)" "\<forall>c \<in> set new. length c \<le> chunk_size"
          "err = None \<and> valid r' \<longrightarrow> concat new = rest r'" "\<exists>x. rest r' = concat new @ x" by blast
      ultimately show ?thesis using p n read_valid [OF r ok(1)] by (intro exI [of _ err] exI [of _ "bs # new"]) auto
    qed
  qed
qed

text \<open>A source without errors is sent completely, when no send fails.\<close>

lemma upload_all:
  assumes "\<And>r bs st r'. I r \<Longrightarrow> read chunk_size r = (bs, st, r') \<Longrightarrow> read_ok st \<and> I r'" "I r" "valid r"
  shows "\<exists>new. upload_loop read [] r sent = Some (None, sent @ new) \<and> concat new = rest r"
proof -
  have "\<exists>s. upload_loop read [] r sent = Some (None, s)" using assms(2)
  proof (induction "length (rest r)" arbitrary: r sent rule: less_induct)
    case less
    obtain bs st r' where r: "read chunk_size r = (bs, st, r')" by (metis prod_cases3)
    note ok = assms(1) [OF less.prems r]
    then have step: "upload_loop read [] r sent =
        (if bs = [] then Some (None, sent @ [bs]) else upload_loop read [] r' (sent @ [bs]))"
      using r by (subst upload_loop.simps) (auto split: read_status.split)
    show ?case
    proof (cases "bs = []")
      case False
      then have "length (rest r') < length (rest r)" using read_prefix [OF r conjunct1 [OF ok]] by simp
      from less.hyps [OF this conjunct2 [OF ok]] show ?thesis using step False by simp
    qed (use step in simp)
  qed
  then show ?thesis using upload_sends [of "[]" r sent] assms(3) by auto
qed

end

lemma read_bytes_effect:
  assumes "read_bytes k r = (bs, st, r')"
  shows "length bs \<le> k \<and> rd_rest r = bs @ rd_rest r' \<and> (0 < k \<and> bs = [] \<longrightarrow> rd_rest r = []) \<and> rd_error r' = rd_error r \<and>
    (rd_rest r = [] \<longrightarrow> st = read_end r)"
  using assms by (auto simp: read_bytes_def Let_def min_def split: if_splits list.splits)

interpretation plain: byte_source read_bytes rd_rest "\<lambda>r. True"
  by unfold_locales (auto dest: read_bytes_effect)

text \<open>The number of bytes that is asked for, when it does not wrap.\<close>

lemma one_more_int64:
  assumes "0 \<le> n" "is_int64 n"
  shows "to_int64 (n + 1) = (if n = 2 ^ 63 - 1 then - (2 ^ 63) else n + 1)"
proof (cases "n = 2 ^ 63 - 1")
  case True
  then show ?thesis by (simp add: to_int64_def)
next
  case False
  then have "is_int64 (n + 1)" using assms by (simp add: is_int64_def)
  then show ?thesis using False by simp
qed

lemma to_int64_max: "to_int64 9223372036854775808 = - 9223372036854775808"
  by (simp add: to_int64_def)

lemma limited_read_effect:
  assumes "limited_read k l = (bs, st, l')"
  shows "length bs \<le> k \<and> rd_error (lr_inner l') = rd_error (lr_inner l) \<and>
    (read_ok st \<longrightarrow> rd_rest (lr_inner l) = bs @ rd_rest (lr_inner l') \<and> lr_left l' = lr_left l - int (length bs) \<and> 0 \<le> lr_left l' \<and>
      (is_int64 (lr_left l) \<and> 0 < k \<and> bs = [] \<longrightarrow> rd_rest (lr_inner l) = []))"
proof (cases "lr_left l < 0 \<or> int k > to_int64 (lr_left l + 1) \<and> to_int64 (lr_left l + 1) < 0")
  case True
  then have "bs = [] \<and> l' = l \<and> \<not> read_ok st"
    using assms by (cases "lr_left l < 0") (auto simp: limited_read_def Let_def)
  then show ?thesis by simp
next
  case False
  let ?m = "to_int64 (lr_left l + 1)"
  let ?k = "if int k > ?m then nat ?m else k"
  obtain cs st' r where r: "read_bytes ?k (lr_inner l) = (cs, st', r)" by (metis prod_cases3)
  note e = read_bytes_effect [OF r]
  have v: "(bs, st, l') = (let v = l\<lparr>lr_left := lr_left l - int (length cs), lr_inner := r\<rparr> in
      if lr_left v < 0 then ([], ReadError UploadTooLarge, v) else (cs, st', v))"
    using assms False r by (auto simp: limited_read_def Let_def)
  have k: "?k \<le> k" by auto
  have p: "0 < ?k" if i: "is_int64 (lr_left l)" "0 < k"
    using False one_more_int64 [OF _ i(1)] i(2) by (auto split: if_splits)
  show ?thesis
  proof (cases "lr_left l - int (length cs) < 0")
    case True
    then show ?thesis using v e by (simp add: Let_def)
  next
    case False
    then have "bs = cs" "st = st'" "l' = l\<lparr>lr_left := lr_left l - int (length cs), lr_inner := r\<rparr>" using v by (simp_all add: Let_def)
    moreover have "length cs \<le> k" using e k by linarith
    moreover have "rd_rest r = []" if "is_int64 (lr_left l)" "0 < k" "cs = []" using e p [OF that(1,2)] that(3) by (metis append_Nil)
    ultimately show ?thesis using e False by simp
  qed
qed

interpretation limited: byte_source limited_read "\<lambda>l. rd_rest (lr_inner l)" "\<lambda>l. is_int64 (lr_left l)"
  by unfold_locales (auto dest: limited_read_effect simp: is_int64_def)

text \<open>A read of the limited reader, when the body itself has no error.\<close>

lemma limited_read_more:
  assumes "0 \<le> lr_left l" "lr_left l < 2 ^ 63 - 1" "rd_error (lr_inner l) = None" "0 < k"
  shows "(\<exists>l'. limited_read k l = ([], ReadError UploadTooLarge, l') \<and> lr_left l < int (length (rd_rest (lr_inner l)))) \<or>
    (\<exists>bs st l'. limited_read k l = (bs, st, l') \<and> read_ok st)"
proof -
  have m: "to_int64 (lr_left l + 1) = lr_left l + 1" using one_more_int64 [of "lr_left l"] assms(1,2) by (simp add: is_int64_def)
  let ?k = "if int k > lr_left l + 1 then nat (lr_left l + 1) else k"
  obtain cs st r where r: "read_bytes ?k (lr_inner l) = (cs, st, r)" by (metis prod_cases3)
  have "st = ReadEof \<or> st = ReadMore"
    using r assms(3) by (auto simp: read_bytes_def read_end_def Let_def split: if_splits)
  moreover have "length cs \<le> length (rd_rest (lr_inner l))" using read_bytes_effect [OF r] by simp
  ultimately show ?thesis using assms(1) r by (auto simp: limited_read_def Let_def m)
qed

lemma limited_loop:
  assumes "0 \<le> lr_left l" "lr_left l < 2 ^ 63 - 1" "rd_error (lr_inner l) = None"
  shows "\<exists>new. upload_loop limited_read [] l sent =
      Some (if int (length (rd_rest (lr_inner l))) \<le> lr_left l then None else Some UploadTooLarge, sent @ new) \<and>
    int (length (concat new)) \<le> lr_left l"
  using assms
proof (induction "length (rd_rest (lr_inner l))" arbitrary: l sent rule: less_induct)
  case less
  have k: "0 < chunk_size" by (simp add: chunk_size_def)
  from limited_read_more [OF less.prems k] consider
      (large) l' where "limited_read chunk_size l = ([], ReadError UploadTooLarge, l')" "lr_left l < int (length (rd_rest (lr_inner l)))"
    | (more) bs st l' where "limited_read chunk_size l = (bs, st, l')" "read_ok st" by blast
  then show ?case
  proof cases
    case (large l')
    note r = large(1) and n = large(2)
    have "upload_loop limited_read [] l sent = Some (Some UploadTooLarge, sent)" by (subst upload_loop.simps) (simp add: r)
    then show ?thesis using n less.prems(1) by (intro exI [of _ "[]"]) simp
  next
    case (more bs st l')
    note r = more(1) and st = more(2)
    have i: "is_int64 (lr_left l)" using less.prems(1,2) by (simp add: is_int64_def)
    have e: "rd_rest (lr_inner l) = bs @ rd_rest (lr_inner l')" "bs = [] \<Longrightarrow> rd_rest (lr_inner l) = []"
        "lr_left l' = lr_left l - int (length bs)" "0 \<le> lr_left l'" "rd_error (lr_inner l') = None"
      using limited_read_effect [OF r] st k less.prems(3) i by auto
    have small: "lr_left l' < 2 ^ 63 - 1" using e(3) less.prems(2) by linarith
    have step: "upload_loop limited_read [] l sent =
        (if bs = [] then Some (None, sent @ [bs]) else upload_loop limited_read [] l' (sent @ [bs]))"
      using st by (subst upload_loop.simps) (auto simp: r split: read_status.split)
    show ?thesis
    proof (cases "bs = []")
      case True
      then show ?thesis using step e(2) less.prems(1) by (intro exI [of _ "[[]]"]) simp
    next
      case False
      then have "length (rd_rest (lr_inner l')) < length (rd_rest (lr_inner l))" using e(1) by simp
      from less.hyps [OF this e(4) small e(5), of "sent @ [bs]"] obtain new where
          n: "upload_loop limited_read [] l' (sent @ [bs]) =
            Some (if int (length (rd_rest (lr_inner l'))) \<le> lr_left l' then None else Some UploadTooLarge, (sent @ [bs]) @ new)"
            "int (length (concat new)) \<le> lr_left l'" by blast
      have "int (length (rd_rest (lr_inner l'))) \<le> lr_left l' \<longleftrightarrow> int (length (rd_rest (lr_inner l))) \<le> lr_left l"
        using e(1,3) by (simp, linarith)
      then show ?thesis using step False n e(3) by (intro exI [of _ "bs # new"]) simp
    qed
  qed
qed

text \<open>Whatever fails, no more bytes are sent than the limit.\<close>

lemma limited_total:
  assumes "0 \<le> lr_left l" "upload_loop limited_read faults l sent = Some (err, sent @ new)"
  shows "int (length (concat new)) \<le> lr_left l"
  using assms
proof (induction "length (rd_rest (lr_inner l))" arbitrary: l faults sent err new rule: less_induct)
  case less
  obtain bs st l' where r: "limited_read chunk_size l = (bs, st, l')" by (metis prod_cases3)
  let ?f = "case faults of [] \<Rightarrow> None | f # _ \<Rightarrow> f"
  show ?case
  proof (cases "read_ok st \<and> ?f = None")
    case False
    then have "\<exists>e. upload_loop limited_read faults l sent = Some (Some e, sent)"
      using r by (subst upload_loop.simps) (auto split: read_status.split option.split)
    then show ?thesis using less.prems by auto
  next
    case True
    then have st: "read_ok st" by blast
    have e: "rd_rest (lr_inner l) = bs @ rd_rest (lr_inner l')" "lr_left l' = lr_left l - int (length bs)" "0 \<le> lr_left l'"
      using limited_read_effect [OF r] st by auto
    have step: "upload_loop limited_read faults l sent =
        (if bs = [] then Some (None, sent @ [bs]) else upload_loop limited_read (tl faults) l' (sent @ [bs]))"
      using True r by (subst upload_loop.simps) (auto split: read_status.split)
    show ?thesis
    proof (cases "bs = []")
      case True
      then show ?thesis using step less.prems by auto
    next
      case False
      then have n: "length (rd_rest (lr_inner l')) < length (rd_rest (lr_inner l))" using e(1) by simp
      obtain err' more where m: "upload_loop limited_read (tl faults) l' (sent @ [bs]) = Some (err', (sent @ [bs]) @ more)"
        using limited.upload_sends by blast
      then have "new = bs # more" using step less.prems(2) False by simp
      then show ?thesis using less.hyps [OF n e(3) m] e(2) by simp
    qed
  qed
qed

section \<open>Uploads with a limit\<close>

text \<open>C6: For every limit from 0 that an int64 holds: a file of a web page that keeps it is sent to the storage service as
  it is, in chunks of at most 4096 bytes.  One that does not is refused, but not before its beginning was sent and
  the stream closed the way it is closed after a whole file: the service keeps a file that is cut off, which nobody
  gets to know of.  The exception is the greatest limit, 2 ^ 63 - 1, which means no limit at all: with it the number
  of bytes to ask for wraps, and every upload panics before a byte is sent.\<close>

theorem limited_upload:
  assumes "rd_error body = None" "0 \<le> limit" "is_int64 limit" "ue_open env = None" "ue_meta env = None" "ue_faults env = []" "ue_close env = Ok u"
  shows "if limit = 2 ^ 63 - 1
    then upload_file limited_read env (Some \<lparr>lr_left = limit, lr_inner = body\<rparr>) = Some (Fail UploadPanic, [], False)
    else \<exists>sent. upload_file limited_read env (Some \<lparr>lr_left = limit, lr_inner = body\<rparr>) =
      Some (if int (length (rd_rest body)) \<le> limit then Ok u else Fail UploadTooLarge, sent, True) \<and>
    (\<forall>c \<in> set sent. length c \<le> 4096) \<and> int (length (concat sent)) \<le> limit \<and>
    (if int (length (rd_rest body)) \<le> limit then concat sent = rd_rest body else \<exists>x. rd_rest body = concat sent @ x \<and> x \<noteq> [])"
proof (cases "limit = 2 ^ 63 - 1")
  case True
  then have "limited_read chunk_size \<lparr>lr_left = limit, lr_inner = body\<rparr> = ([], ReadPanic, \<lparr>lr_left = limit, lr_inner = body\<rparr>)"
    by (simp add: limited_read_def to_int64_max Let_def)
  then have "upload_loop limited_read [] \<lparr>lr_left = limit, lr_inner = body\<rparr> [] = Some (Some UploadPanic, [])"
    by (subst upload_loop.simps) simp
  then show ?thesis using True assms(4-6) by (simp add: upload_file_def)
next
  case limit: False
  have small: "limit < 2 ^ 63 - 1" using limit assms(3) by (simp add: is_int64_def)
  let ?l = "\<lparr>lr_left = limit, lr_inner = body\<rparr>"
  obtain new where n: "upload_loop limited_read [] ?l [] =
      Some (if int (length (rd_rest body)) \<le> limit then None else Some UploadTooLarge, new)" "int (length (concat new)) \<le> limit"
    using limited_loop [of ?l "[]"] assms(1,2) small unfolding append.simps limited_reader.simps by blast
  obtain x where s: "\<forall>c \<in> set new. length c \<le> 4096" "rd_rest body = concat new @ x"
      "int (length (rd_rest body)) \<le> limit \<Longrightarrow> concat new = rd_rest body"
  proof -
    obtain err new' where m: "upload_loop limited_read [] ?l [] = Some (err, new')" "\<forall>c \<in> set new'. length c \<le> chunk_size"
        "err = None \<and> is_int64 limit \<longrightarrow> concat new' = rd_rest body" "\<exists>x. rd_rest body = concat new' @ x"
      using limited.upload_sends [of "[]" ?l "[]"] unfolding append.simps limited_reader.simps by blast
    have r: "new' = new" "err = (if int (length (rd_rest body)) \<le> limit then None else Some UploadTooLarge)"
      using trans [OF m(1) [symmetric] n(1)] by simp_all
    obtain x where x: "rd_rest body = concat new @ x" using m(4) r(1) by blast
    show thesis
    proof (rule that)
      show "\<forall>c \<in> set new. length c \<le> 4096" using m(2) r(1) by (simp add: chunk_size_def)
      show "concat new = rd_rest body" if "int (length (rd_rest body)) \<le> limit" using m(3) r that assms(3) by simp
    qed (rule x)
  qed
  have u: "upload_file limited_read env (Some ?l) =
      Some (if int (length (rd_rest body)) \<le> limit then Ok u else Fail UploadTooLarge, new, True)"
    using n(1) assms(4-7) by (simp add: upload_file_def)
  show ?thesis
  proof (cases "int (length (rd_rest body)) \<le> limit")
    case True
    then show ?thesis unfolding if_not_P [OF limit] using u n(2) s(1,3) by (intro exI [of _ new]) simp
  next
    case False
    then have "x \<noteq> []" using n(2) s(2) by auto
    then show ?thesis unfolding if_not_P [OF limit] using False u n(2) s(1,2) by (intro exI [of _ new]) simp
  qed
qed

definition cut_env :: upload_env where
  "cut_env = \<lparr>ue_open = None, ue_meta = None, ue_faults = [], ue_close = Ok \<lparr>up_id = 7, up_url = ''/f'', up_size = 3, up_code = 0, up_malware = False\<rparr>\<rparr>"

definition cut_body :: byte_reader where
  "cut_body = \<lparr>rd_rest = ''abcde'', rd_plan = [2, 1], rd_early = True, rd_error = None\<rparr>"

lemma limited_upload_witness:
  "\<exists>sent. fst (the (upload_file limited_read cut_env (Some \<lparr>lr_left = 3, lr_inner = cut_body\<rparr>))) = Fail UploadTooLarge \<and>
    length (concat sent) \<le> 3 \<and> (\<exists>x. ''abcde'' = concat sent @ x \<and> x \<noteq> [])"
proof -
  have b: "rd_error cut_body = None" "rd_rest cut_body = ''abcde''" by (simp_all add: cut_body_def)
  have e: "ue_open cut_env = None" "ue_meta cut_env = None" "ue_faults cut_env = []"
      "ue_close cut_env = Ok \<lparr>up_id = 7, up_url = ''/f'', up_size = 3, up_code = 0, up_malware = False\<rparr>" by (simp_all add: cut_env_def)
  have n: "\<not> int (length (rd_rest cut_body)) \<le> 3" by (simp add: b)
  obtain sent where s: "upload_file limited_read cut_env (Some \<lparr>lr_left = 3, lr_inner = cut_body\<rparr>) = Some (Fail UploadTooLarge, sent, True)"
      "int (length (concat sent)) \<le> 3" "\<exists>x. rd_rest cut_body = concat sent @ x \<and> x \<noteq> []"
    using limited_upload [OF b(1) _ _ e, of 3] unfolding if_not_P [OF n] by (auto simp: is_int64_def)
  then show ?thesis unfolding b(2) by (intro exI [of _ sent]) simp
qed

end
