(* ===== verification/Web_Bot.thy ===== *)
theory Web_Bot
  imports Complex_Main Web_Chat Bot_Upload
begin

text \<open>
  The provider of the web chat towards the site: its settings and the origins that it allows (New of
  bot/webchat/webchat.go), the requests (WebHook) with the uploads of media (uploadMultiMedia), and the
  check of a captcha (bot/webchat/recaptcha.go).
\<close>

section \<open>Origins\<close>

datatype origin_pattern = OriginAny bool | OriginString string | OriginWildcard string string

definition has_suffix :: "string \<Rightarrow> string \<Rightarrow> bool" where
  "has_suffix s p \<longleftrightarrow> has_prefix (rev s) (rev p)"

fun origin_match :: "origin_pattern \<Rightarrow> string \<Rightarrow> bool" where
  "origin_match (OriginAny b) origin \<longleftrightarrow> origin \<noteq> [] \<and> b"
| "origin_match (OriginString s) origin \<longleftrightarrow> s = origin"
| "origin_match (OriginWildcard pre suf) origin \<longleftrightarrow>
     List.length pre + List.length suf \<le> List.length origin \<and> has_prefix origin pre \<and> has_suffix origin suf"

text \<open>The patterns of the setting allow_origin; one of a single star takes the place of all before it and ends the
  loop.\<close>

fun parse_origins :: "origin_pattern list \<Rightarrow> string list \<Rightarrow> origin_pattern list" where
  "parse_origins acc [] = acc"
| "parse_origins acc (x # xs) =
     (let p = to_lower x in
      if p = ''*'' then [OriginAny True]
      else
        (case index_of p ''*'' of
           Some i \<Rightarrow> parse_origins (acc @ [OriginWildcard (take i p) (drop (Suc i) p)]) xs
         | None \<Rightarrow> parse_origins (if p = [] then acc else acc @ [OriginString p]) xs))"

definition allowed_origins :: "string \<Rightarrow> origin_pattern list" where
  "allowed_origins allow = parse_origins [] (split_on (CHR '','') allow)"

text \<open>CheckOrigin: without patterns there is no check.\<close>

definition check_origin :: "origin_pattern list \<Rightarrow> string \<Rightarrow> bool" where
  "check_origin ps origin \<longleftrightarrow> ps = [] \<or> list_ex (\<lambda>p. origin_match p (to_lower origin)) ps"

section \<open>Captcha\<close>

text \<open>A decimal number of JSON is a fraction.\<close>

record captcha_settings =
  cs_enabled :: bool
  cs_secret :: string
  cs_threshold :: "rat option"

definition default_threshold :: rat where "default_threshold = 1 / 2"

text \<open>Normalize.\<close>

definition normalize_captcha :: "captcha_settings \<Rightarrow> (string, captcha_settings) result" where
  "normalize_captcha s =
     (if cs_secret s = [] then Fail ''recaptcha secret should not be empty''
      else Ok (s\<lparr>cs_threshold := Some (case cs_threshold s of None \<Rightarrow> default_threshold | Some t \<Rightarrow> t)\<rparr>))"

text \<open>NewRecaptchaHandler; C decodes the settings.\<close>

definition new_captcha :: "(string \<Rightarrow> (string, captcha_settings) result) \<Rightarrow> string \<Rightarrow> (string, captcha_settings) result" where
  "new_captcha C s = (case C s of Fail e \<Rightarrow> Fail e | Ok c \<Rightarrow> normalize_captcha c)"

text \<open>The request to Google, and how it ends.\<close>

datatype captcha_check = NoCheckRequest string | CheckFailed string | CheckMalformed string | Checked bool "string list" rat

datatype captcha_answer = CaptchaResult bool | CaptchaError string

definition format_captcha_error :: "string \<Rightarrow> string" where
  "format_captcha_error e = ''captcha: '' @ e"

definition captcha_params :: "captcha_settings \<Rightarrow> string \<Rightarrow> string \<Rightarrow> (string \<times> string) list" where
  "captcha_params s response remoteip = [(''secret'', cs_secret s), (''response'', response), (''remoteip'', remoteip)]"

definition handle_captcha :: "captcha_settings \<Rightarrow> captcha_check \<Rightarrow> nat \<times> captcha_answer" where
  "handle_captcha s k =
     (case k of
        NoCheckRequest e \<Rightarrow> (500, CaptchaError (format_captcha_error (''can't create Google request ('' @ e @ '')'')))
      | CheckFailed e \<Rightarrow> (500, CaptchaError (format_captcha_error (''request to Google failed ('' @ e @ '')'')))
      | CheckMalformed e \<Rightarrow> (500, CaptchaError (format_captcha_error (''can't unmarshal google response ('' @ e @ '')'')))
      | Checked ok codes score \<Rightarrow>
          if \<not> ok then (400, CaptchaError (format_captcha_error (join_with '';'' codes)))
          else (200, CaptchaResult (case cs_threshold s of None \<Rightarrow> False | Some t \<Rightarrow> t < score)))"

section \<open>Settings\<close>

text \<open>Durations are in nanoseconds.\<close>

definition second :: int where "second = 1000000000"
definition minute :: int where "minute = 60 * second"

record web_settings =
  ws_handshake :: int
  ws_buffer :: int
  ws_message_max :: int
  ws_media_max :: int
  ws_write :: int
  ws_read :: int
  ws_captcha :: "captcha_settings option"
  ws_origins :: "origin_pattern list"

definition default_settings :: web_settings where
  "default_settings =
     \<lparr>ws_handshake = 10 * second, ws_buffer = 4096, ws_message_max = 4096, ws_media_max = 10 * 1024 * 1024,
      ws_write = 10 * second, ws_read = 30 * second, ws_captcha = None, ws_origins = []\<rparr>"

text \<open>A setting that is not positive is passed over, one out of its bounds is moved to the nearest.\<close>

definition bounded_setting :: "int \<Rightarrow> int \<Rightarrow> int \<Rightarrow> int option" where
  "bounded_setting least greatest v =
     (if v > 0 then (let v = (if v < least then least else v) in Some (if v > greatest then greatest else v)) else None)"

text \<open>D is time.ParseDuration.  The result of read_setting: None for the default.\<close>

definition read_setting :: "('v \<Rightarrow> 'w option) \<Rightarrow> (string \<Rightarrow> 'v option) \<Rightarrow> string \<Rightarrow> vars \<Rightarrow> (string, 'w option) result" where
  "read_setting bound parse key profile =
     (let s = vget profile key in
      if s = [] then Ok None else (case parse s of None \<Rightarrow> Fail key | Some v \<Rightarrow> Ok (bound v)))"

definition parse_number :: "string \<Rightarrow> int option" where
  "parse_number s = (case parse_int s of (i, None) \<Rightarrow> Some i | (_, Some _) \<Rightarrow> None)"

text \<open>New; the templates of the bot come with their own check.  An error names the setting.\<close>

definition new_web_settings ::
  "(string \<Rightarrow> int option) \<Rightarrow> (string \<Rightarrow> (string, captcha_settings) result) \<Rightarrow> bool \<Rightarrow> vars \<Rightarrow> (string, web_settings) result" where
  "new_web_settings D C templates_ok profile =
     (if \<not> templates_ok then Fail ''updates'' else
      case read_setting (bounded_setting second minute) D ''handshake_timeout'' profile of Fail e \<Rightarrow> Fail e | Ok handshake \<Rightarrow>
      (case read_setting (bounded_setting 1024 8192) parse_number ''message_max_size'' profile of Fail e \<Rightarrow> Fail e | Ok message \<Rightarrow>
      (case read_setting (\<lambda>v. if v > 0 then Some v else None) parse_number ''media_max_size'' profile of Fail e \<Rightarrow> Fail e | Ok media \<Rightarrow>
      (case read_setting (bounded_setting second minute) D ''write_timeout'' profile of Fail e \<Rightarrow> Fail e | Ok write \<Rightarrow>
      (case read_setting (bounded_setting (10 * second) (10 * minute)) D ''read_timeout'' profile of Fail e \<Rightarrow> Fail e | Ok read \<Rightarrow>
      (case (if vget profile ''captcha'' = [] then Ok None
             else case new_captcha C (vget profile ''captcha'') of Fail e \<Rightarrow> Fail ''captcha'' | Ok c \<Rightarrow> Ok (Some c)) of
         Fail e \<Rightarrow> Fail e
       | Ok captcha \<Rightarrow>
           (let given = (\<lambda>x v. case x of None \<Rightarrow> v | Some y \<Rightarrow> y); d = default_settings in
            Ok \<lparr>ws_handshake = given handshake (ws_handshake d), ws_buffer = given message (ws_buffer d),
                ws_message_max = given message (ws_message_max d), ws_media_max = given media (ws_media_max d),
                ws_write = given write (ws_write d), ws_read = given read (ws_read d), ws_captcha = captcha,
                ws_origins = allowed_origins (vget profile ''allow_origin'')\<rparr>)))))))"

section \<open>Requests\<close>

record web_file =
  wf_id :: int
  wf_url :: string
  wf_name :: string
  wf_mime :: string
  wf_size :: int
  wf_malware :: bool

record web_part =
  wp_name :: string
  wp_mime :: string
  wp_body :: byte_reader

text \<open>The body of a POST: that of a form in parts, which may end with an error, or one file.  A length that
  is not known is -1.\<close>

datatype web_content = BadType | FormParts "web_part list" "upload_error option" | OneFile string byte_reader

text \<open>The headers are empty when they are missing; the host of the peer when its address can be split.  The fresh
  id is what the random generator gives.\<close>

record web_call =
  wc_method :: string
  wc_origin :: string
  wc_path :: string
  wc_cookie :: "string option"
  wc_forwarded_proto :: string
  wc_scheme :: string
  wc_forwarded_for :: string
  wc_real_ip :: string
  wc_peer :: "string option"
  wc_upgrade :: bool
  wc_upgraded :: bool
  wc_fresh :: string
  wc_filename :: string
  wc_length :: int
  wc_content :: web_content
  wc_check :: captcha_check

definition http_is_secure :: "web_call \<Rightarrow> bool" where
  "http_is_secure q =
     (let p = trim_space (wc_forwarded_proto q) in
      if p \<noteq> [] then to_lower p = ''https'' else to_lower (wc_scheme q) = ''https'')"

definition remote_ip :: "web_call \<Rightarrow> string" where
  "remote_ip q =
     (let f = trim_space (wc_forwarded_for q); r = trim_space (wc_real_ip q);
          rest = (if r \<noteq> [] then r else (case wc_peer q of None \<Rightarrow> [] | Some h \<Rightarrow> h))
      in if f = [] then rest
         else (case index_of f '','' of None \<Rightarrow> rest | Some i \<Rightarrow> if 3 < i then trim_space (take i f) else rest))"

definition device_id :: "web_call \<Rightarrow> string \<times> bool" where
  "device_id q = (case wc_cookie q of None \<Rightarrow> ([], False) | Some v \<Rightarrow> (v, v \<noteq> []))"

section \<open>Media\<close>

text \<open>uploadMediaFile, with what was sent; the environment of one upload is its storage service.\<close>

definition upload_media_file ::
  "web_lib \<Rightarrow> (parsed_url \<Rightarrow> string \<Rightarrow> string option) \<Rightarrow> string \<Rightarrow> (nat \<Rightarrow> 'r \<Rightarrow> string \<times> read_status \<times> 'r) \<Rightarrow> upload_env \<Rightarrow>
   web_file \<Rightarrow> 'r \<Rightarrow> ((upload_error, web_file) result \<times> string list \<times> bool) option" where
  "upload_media_file W P host read env m body =
     map_option (\<lambda>(res, sent, ended).
       (map_sum id (\<lambda>u. m\<lparr>wf_name := trim_space (wf_name m), wf_id := up_id u, wf_url := up_url u, wf_size := up_size u, wf_malware := up_malware u\<rparr>)
          res, sent, ended))
       (gateway_upload W P host read env (Some body))"

text \<open>The parts of a form, each with the limit; the first error ends the loop.  Also what was sent of each file.  Every part has
  its environment.\<close>

fun upload_parts ::
  "web_lib \<Rightarrow> (parsed_url \<Rightarrow> string \<Rightarrow> string option) \<Rightarrow> string \<Rightarrow> int \<Rightarrow> upload_error option \<Rightarrow> web_part list \<Rightarrow> upload_env list \<Rightarrow>
   ((upload_error, web_file list) result \<times> (string list \<times> bool) list) option" where
  "upload_parts W P host limit broken (p # ps) (env # envs) =
     (case upload_media_file W P host limited_read env
             \<lparr>wf_id = 0, wf_url = [], wf_name = wp_name p, wf_mime = wp_mime p, wf_size = 0, wf_malware = False\<rparr>
             \<lparr>lr_left = limit, lr_inner = wp_body p\<rparr> of
        None \<Rightarrow> None
      | Some (Fail e, sent, ended) \<Rightarrow> Some (Fail e, [(sent, ended)])
      | Some (Ok m, sent, ended) \<Rightarrow>
          map_option (\<lambda>(res, more). (map_sum id ((#) m) res, (sent, ended) # more)) (upload_parts W P host limit broken ps envs))"
| "upload_parts W P host limit broken ps envs = Some (case broken of None \<Rightarrow> Ok [] | Some e \<Rightarrow> Fail e, [])"

text \<open>A panic ends the request without an answer.\<close>

datatype media_answer = MediaRefused nat | MediaFailed upload_error | MediaAborted | MediaFiles "web_file list"

definition upload_multi_media ::
  "web_lib \<Rightarrow> (parsed_url \<Rightarrow> string \<Rightarrow> string option) \<Rightarrow> string \<Rightarrow> web_settings \<Rightarrow> upload_env list \<Rightarrow> web_call \<Rightarrow> web_world \<Rightarrow>
   (media_answer \<times> (string list \<times> bool) list) option" where
  "upload_multi_media W P host S envs q w =
     (let cid = (case wc_cookie q of None \<Rightarrow> [] | Some v \<Rightarrow> v);
          answer = (\<lambda>res. case res of Fail e \<Rightarrow> if e = UploadPanic then MediaAborted else MediaFailed e | Ok ms \<Rightarrow> MediaFiles ms) in
      if cid = [] then Some (MediaRefused 401, [])
      else if map_of (ww_chat w) cid = None then Some (MediaRefused 401, [])
      else
        (case wc_content q of
           BadType \<Rightarrow> Some (MediaRefused 400, [])
         | FormParts ps broken \<Rightarrow>
             map_option (\<lambda>(res, sent). (answer res, sent)) (upload_parts W P host (ws_media_max S) broken ps envs)
         | OneFile mime body \<Rightarrow>
             if ws_media_max S < wc_length q then Some (MediaRefused 413, [])
             else
               map_option (\<lambda>(res, sent, ended). (answer (map_sum id (\<lambda>m. [m]) res), [(sent, ended)]))
                 (upload_media_file W P host read_bytes (hd envs)
                    \<lparr>wf_id = 0, wf_url = [], wf_name = wc_filename q, wf_mime = mime, wf_size = wc_length q, wf_malware = False\<rparr> body)))"

section \<open>The handler\<close>

record web_cookie =
  ck_value :: string
  ck_path :: string
  ck_secure :: bool
  ck_lax :: bool

text \<open>The cookie for a device that has none; its path is behind that of the public URL of the service.\<close>

definition trim_right_slashes :: "string \<Rightarrow> string" where
  "trim_right_slashes s = rev (dropWhile (\<lambda>c. c = CHR ''/'') (rev s))"

definition device_cookie :: "web_lib \<Rightarrow> string \<Rightarrow> web_call \<Rightarrow> string \<Rightarrow> web_cookie" where
  "device_cookie W url q device =
     \<lparr>ck_value = device,
      ck_path = trim_right_slashes (case wl_parse W url of None \<Rightarrow> ''/'' | Some u \<Rightarrow> pu_path u) @ wc_path q,
      ck_secure = http_is_secure q, ck_lax = (\<not> http_is_secure q)\<rparr>"

datatype web_reply =
    WebStatus nat
  | WebCaptcha nat captcha_answer
  | WebMedia media_answer "(string list \<times> bool) list"
  | WebFailed bot_error
  | WebSocket "web_cookie option"

definition web_hook ::
  "web_lib \<Rightarrow> (parsed_url \<Rightarrow> string \<Rightarrow> string option) \<Rightarrow> string \<Rightarrow> string \<Rightarrow> web_settings \<Rightarrow> bot_template \<Rightarrow> nat \<Rightarrow> upload_env list \<Rightarrow> bot_replies \<Rightarrow>
   web_call \<Rightarrow> web_world \<Rightarrow> (web_reply \<times> web_world) option" where
  "web_hook W P host url S T g envs R q w =
     (if wc_method q \<noteq> ''POST'' \<and> wc_method q \<noteq> ''GET'' then Some (WebStatus 405, w)
      else if \<not> check_origin (ws_origins S) (wc_origin q) then Some (WebStatus 403, w)
      else if has_suffix (wc_path q) ''/captcha'' then
        Some (case ws_captcha S of
                None \<Rightarrow> (WebStatus 501, w)
              | Some c \<Rightarrow>
                  if \<not> cs_enabled c then (WebStatus 501, w)
                  else if wc_method q \<noteq> ''GET'' then (WebStatus 405, w)
                  else (let (code, a) = handle_captcha c (wc_check q) in (WebCaptcha code a, w)))
      else if wc_method q = ''POST'' then
        map_option (\<lambda>(a, sent). (WebMedia a sent, w)) (upload_multi_media W P host S envs q w)
      else if \<not> wc_upgrade q then Some (WebStatus 400, w)
      else
        (let (cid, known) = device_id q; device = (if known then cid else wc_fresh q);
             (e, w) = connect_room T g (nat (ws_buffer S)) device known (wc_upgraded q) R w
         in Some (case e of
                    Some x \<Rightarrow> (WebFailed x, w)
                  | None \<Rightarrow> (WebSocket (if known then None else Some (device_cookie W url q device)), w))))"

section \<open>What holds\<close>

text \<open>Settings.\<close>

lemma bounded_setting_bounds: "least \<le> greatest \<Longrightarrow> bounded_setting least greatest v = Some u \<Longrightarrow> least \<le> u \<and> u \<le> greatest"
  by (auto simp: bounded_setting_def Let_def split: if_splits)

lemma read_setting_ok:
  "read_setting bound parse key profile = Ok (Some u) \<Longrightarrow> \<exists>v. parse (vget profile key) = Some v \<and> bound v = Some u"
  by (auto simp: read_setting_def Let_def split: if_splits option.splits)

lemma ok_caseE:
  assumes "(case r of Fail e \<Rightarrow> Fail e | Ok x \<Rightarrow> f x) = Ok s"
  obtains x where "r = Ok x" "f x = Ok s"
  using assms by (cases r) auto

text \<open>C8: Whatever the profile of the bot says, the settings that are accepted are within their bounds: timeouts of one second to
  one minute, of ten seconds to ten minutes for a read, a message of 1 to 8 kilobytes with buffers of its size, a
  positive limit for media; and a captcha has a secret and a threshold.\<close>

theorem web_settings_bounded:
  assumes "new_web_settings D C templates_ok profile = Ok s"
  shows "ws_handshake s \<in> {second..minute} \<and> ws_write s \<in> {second..minute} \<and> ws_read s \<in> {10 * second..10 * minute} \<and>
    ws_message_max s \<in> {1024..8192} \<and> ws_buffer s = ws_message_max s \<and> 0 < ws_media_max s \<and>
    (\<forall>c. ws_captcha s = Some c \<longrightarrow> cs_secret c \<noteq> [] \<and> cs_threshold c \<noteq> None)"
proof -
  let ?given = "\<lambda>x v. case x of None \<Rightarrow> v | Some y \<Rightarrow> (y :: int)"
  obtain handshake message media written read captcha where
      r: "read_setting (bounded_setting second minute) D ''handshake_timeout'' profile = Ok handshake"
        "read_setting (bounded_setting 1024 8192) parse_number ''message_max_size'' profile = Ok message"
        "read_setting (\<lambda>v. if v > 0 then Some v else None) parse_number ''media_max_size'' profile = Ok media"
        "read_setting (bounded_setting second minute) D ''write_timeout'' profile = Ok written"
        "read_setting (bounded_setting (10 * second) (10 * minute)) D ''read_timeout'' profile = Ok read"
      and c: "(if vget profile ''captcha'' = [] then Ok None
          else case new_captcha C (vget profile ''captcha'') of Fail e \<Rightarrow> Fail ''captcha'' | Ok c \<Rightarrow> Ok (Some c)) = Ok captcha"
      and s: "s = \<lparr>ws_handshake = ?given handshake (10 * second), ws_buffer = ?given message 4096, ws_message_max = ?given message 4096,
          ws_media_max = ?given media (10 * 1024 * 1024), ws_write = ?given written (10 * second), ws_read = ?given read (30 * second),
          ws_captcha = captcha, ws_origins = allowed_origins (vget profile ''allow_origin'')\<rparr>"
  proof -
    have t: "templates_ok" using assms by (cases templates_ok) (simp_all only: new_web_settings_def if_P not_False_eq_True sum.distinct)
    show thesis
      using assms unfolding new_web_settings_def if_not_P [OF iffD2 [OF not_not t]]
      by (elim ok_caseE) (rule that, assumption+, simp only: Let_def default_settings_def web_settings.simps sum.inject)
  qed
  have h: "\<And>u. handshake = Some u \<Longrightarrow> second \<le> u \<and> u \<le> minute" "\<And>u. written = Some u \<Longrightarrow> second \<le> u \<and> u \<le> minute"
      "\<And>u. read = Some u \<Longrightarrow> 10 * second \<le> u \<and> u \<le> 10 * minute" "\<And>u. message = Some u \<Longrightarrow> 1024 \<le> u \<and> u \<le> 8192"
    using r(1,2,4,5) by (auto dest!: read_setting_ok simp: second_def minute_def dest: bounded_setting_bounds [rotated])
  have m: "\<And>u. media = Some u \<Longrightarrow> 0 < u" using r(3) by (auto dest!: read_setting_ok split: if_splits)
  have k: "cs_secret k \<noteq> [] \<and> cs_threshold k \<noteq> None" if "captcha = Some k" for k
    using c that by (auto simp: new_captcha_def normalize_captcha_def split: if_splits sum.splits)
  show ?thesis unfolding s using h m k by (auto simp: second_def minute_def split: option.splits)
qed

lemma web_settings_bounded_witness:
  "ws_read (case new_web_settings (\<lambda>d. Some (7 * second)) (\<lambda>_. Fail []) True [(''read_timeout'', ''7s''), (''message_max_size'', ''99999'')] of
     Ok s \<Rightarrow> s | Fail _ \<Rightarrow> default_settings) \<in> {10 * second..10 * minute}"
proof -
  let ?r = "new_web_settings (\<lambda>d. Some (7 * second)) (\<lambda>_. Fail []) True [(''read_timeout'', ''7s''), (''message_max_size'', ''99999'')]"
  have "is_ok ?r" by code_simp
  then obtain s where s: "?r = Ok s" by (cases ?r) simp_all
  from web_settings_bounded [OF this] show ?thesis unfolding s by simp
qed

text \<open>Origins.\<close>

lemma has_prefix_iff: "has_prefix s p \<longleftrightarrow> (\<exists>x. s = p @ x)"
  by (auto simp: has_prefix_def) (metis append_take_drop_id)

lemma has_suffix_iff: "has_suffix s p \<longleftrightarrow> (\<exists>x. s = x @ p)"
  by (auto simp: has_suffix_def has_prefix_iff) (metis rev_append rev_rev_ident)

lemma wildcard_match: "origin_match (OriginWildcard pre suf) s \<longleftrightarrow> (\<exists>x. s = pre @ x @ suf)"
proof
  assume "origin_match (OriginWildcard pre suf) s"
  then have l: "length pre + length suf \<le> length s" and p: "\<exists>x. s = pre @ x" and q: "\<exists>y. s = y @ suf"
    by (simp_all add: has_prefix_iff has_suffix_iff)
  from p q obtain x y where s: "s = pre @ x" "s = y @ suf" by blast
  have "length pre \<le> length y" using l s(2) by simp
  then obtain z where "y = pre @ z" using s(1,2) by (metis append_eq_append_conv_if append_take_drop_id)
  then show "\<exists>x. s = pre @ x @ suf" using s(2) by auto
qed (auto simp: has_prefix_iff has_suffix_iff)

text \<open>What an entry of the list allows, given in small letters.\<close>

definition entry_allows :: "string \<Rightarrow> string \<Rightarrow> bool" where
  "entry_allows p s \<longleftrightarrow>
     (if p = ''*'' then s \<noteq> []
      else if CHR ''*'' \<in> set p then \<exists>x. s = takeWhile (\<lambda>c. c \<noteq> CHR ''*'') p @ x @ tl (dropWhile (\<lambda>c. c \<noteq> CHR ''*'') p)
      else p \<noteq> [] \<and> s = p)"

lemma index_of_star: "index_of s [c] = (if c \<in> set s then Some (length (takeWhile (\<lambda>x. x \<noteq> c) s)) else None)"
proof (induction s)
  case Nil
  then show ?case by (subst index_of.simps) (simp add: has_prefix_def)
next
  case (Cons x s)
  then show ?case by (subst index_of.simps) (auto simp: has_prefix_def)
qed

lemma parse_origins_match:
  "list_ex (\<lambda>p. origin_match p s) (parse_origins acc xs) \<longleftrightarrow>
    (if ''*'' \<in> to_lower ` set xs then s \<noteq> [] else list_ex (\<lambda>p. origin_match p s) acc \<or> (\<exists>x \<in> set xs. entry_allows (to_lower x) s))"
proof (induction xs arbitrary: acc)
  case (Cons x xs)
  let ?p = "to_lower x"
  show ?case
  proof (cases "?p = ''*''")
    case False
    show ?thesis
    proof (cases "CHR ''*'' \<in> set ?p")
      case True
      let ?w = "OriginWildcard (take (length (takeWhile (\<lambda>c. c \<noteq> CHR ''*'') ?p)) ?p) (drop (Suc (length (takeWhile (\<lambda>c. c \<noteq> CHR ''*'') ?p))) ?p)"
      have w: "origin_match ?w s \<longleftrightarrow> entry_allows ?p s"
        unfolding wildcard_match using True False
        by (simp add: entry_allows_def takeWhile_eq_take [symmetric] dropWhile_eq_drop drop_Suc tl_drop)
      have step: "parse_origins acc (x # xs) = parse_origins (acc @ [?w]) xs" using True False by (simp add: Let_def index_of_star)
      have star: "''*'' \<in> to_lower ` set (x # xs) \<longleftrightarrow> ''*'' \<in> to_lower ` set xs" using False by auto
      show ?thesis unfolding step Cons.IH star using w by (simp del: origin_match.simps)
    next
      case no: False
      have "entry_allows ?p s \<longleftrightarrow> ?p \<noteq> [] \<and> s = ?p" using no False by (simp add: entry_allows_def)
      then have a: "list_ex (\<lambda>p. origin_match p s) (if ?p = [] then acc else acc @ [OriginString ?p]) \<longleftrightarrow>
          list_ex (\<lambda>p. origin_match p s) acc \<or> entry_allows ?p s" by auto
      have step: "parse_origins acc (x # xs) = parse_origins (if ?p = [] then acc else acc @ [OriginString ?p]) xs"
        using no False by (simp add: Let_def index_of_star)
      have star: "''*'' \<in> to_lower ` set (x # xs) \<longleftrightarrow> ''*'' \<in> to_lower ` set xs" using False by auto
      show ?thesis unfolding step Cons.IH star a by simp
    qed
  qed simp
qed simp

lemma parse_origins_none: "parse_origins acc xs = [] \<longleftrightarrow> acc = [] \<and> (\<forall>x \<in> set xs. x = [])"
proof (induction xs arbitrary: acc)
  case (Cons x xs)
  then show ?case by (auto simp: Let_def to_lower_def index_of_star)
qed simp

lemma lower_char_star: "lower_char c = CHR ''*'' \<longleftrightarrow> c = CHR ''*''"
proof (cases "65 \<le> (of_char c :: nat) \<and> (of_char c :: nat) \<le> 90")
  case True
  then have "of_char (lower_char c) = (of_char c + 32 :: nat)" by (simp add: lower_char_def of_char_of)
  then have "lower_char c \<noteq> CHR ''*''" using True by (intro notI) simp
  moreover have "c \<noteq> CHR ''*''" using True by (intro notI) simp
  ultimately show ?thesis by simp
next
  case False
  then show ?thesis by (simp only: lower_char_def Let_def if_False)
qed

lemma lower_star: "to_lower x = ''*'' \<longleftrightarrow> x = ''*''"
  by (auto simp: to_lower_def map_eq_Cons_conv lower_char_star)

lemma lower_stars: "''*'' \<in> to_lower ` A \<longleftrightarrow> ''*'' \<in> A"
  by (metis (no_types, lifting) image_iff lower_star)

text \<open>C7: The check of an origin means what its setting says: without entries every request is let in; else an entry of
  a star alone lets in every request that names its origin, one with a star those whose origin is the text before
  and behind the first star with any text between, and another one its own origin; in small letters all of them.\<close>

theorem origins_allowed:
  "check_origin (allowed_origins allow) origin \<longleftrightarrow>
    (\<forall>x \<in> set (split_on (CHR '','') allow). x = []) \<or>
    (if ''*'' \<in> set (split_on (CHR '','') allow) then origin \<noteq> []
     else \<exists>x \<in> set (split_on (CHR '','') allow). entry_allows (to_lower x) (to_lower origin))"
proof -
  have "to_lower origin = [] \<longleftrightarrow> origin = []" by (simp add: to_lower_def)
  then show ?thesis unfolding check_origin_def allowed_origins_def parse_origins_match parse_origins_none lower_stars by simp
qed

lemma origins_allowed_witness:
  "check_origin (allowed_origins ''https://a.com,https://*.b.com'') ''https://Chat.b.com'' \<and>
   \<not> check_origin (allowed_origins ''https://a.com,https://*.b.com'') ''https://b.com''"
proof -
  let ?a = "''https://a.com,https://*.b.com''"
  have s: "split_on (CHR '','') ?a = [''https://a.com'', ''https://*.b.com'']" by code_simp
  have e: "takeWhile (\<lambda>c. c \<noteq> CHR ''*'') (to_lower ''https://*.b.com'') = ''https://''"
      "tl (dropWhile (\<lambda>c. c \<noteq> CHR ''*'') (to_lower ''https://*.b.com'')) = ''.b.com''"
      "CHR ''*'' \<in> set (to_lower ''https://*.b.com'')" "to_lower ''https://*.b.com'' \<noteq> ''*''"
      "to_lower ''https://a.com'' = ''https://a.com''" "CHR ''*'' \<notin> set (''https://a.com'')"
      "to_lower ''https://Chat.b.com'' = ''https://'' @ ''chat'' @ ''.b.com''"
      "to_lower ''https://b.com'' = ''https://b.com''" by code_simp+
  have y: "entry_allows (to_lower ''https://*.b.com'') (to_lower ''https://Chat.b.com'')"
    using e by (auto simp: entry_allows_def intro: exI [of _ "''chat''"])
  have n: "\<not> entry_allows (to_lower ''https://*.b.com'') (to_lower ''https://b.com'')"
    using e by (auto simp: entry_allows_def Cons_eq_append_conv)
  have m: "\<not> entry_allows (to_lower ''https://a.com'') (to_lower ''https://b.com'')" using e by (simp add: entry_allows_def)
  show ?thesis unfolding origins_allowed [of ?a] s using y n m by simp
qed

section \<open>The limit for media\<close>

lemma upload_file_sent:
  assumes "gateway_upload W P host read env (Some r) = Some (res, sent, ended)"
  shows "sent = [] \<or> (\<exists>err. upload_loop read (ue_faults env) r [] = Some (err, sent))"
  using assms by (auto simp: gateway_upload_def upload_file_def split: option.splits prod.splits upload_error.splits)

lemma upload_parts_limit:
  assumes "0 \<le> limit" "upload_parts W P host limit broken ps envs = Some (res, sents)"
  shows "\<forall>x \<in> set sents. int (length (concat (fst x))) \<le> limit"
  using assms
proof (induction W P host limit broken ps envs arbitrary: res sents rule: upload_parts.induct)
  case (1 W P host limit broken p ps env envs)
  let ?m = "\<lparr>wf_id = 0, wf_url = [], wf_name = wp_name p, wf_mime = wp_mime p, wf_size = 0, wf_malware = False\<rparr>"
  let ?l = "\<lparr>lr_left = limit, lr_inner = wp_body p\<rparr>"
  obtain r sent ended where u: "upload_media_file W P host limited_read env ?m ?l = Some (r, sent, ended)"
    using 1(3) by (auto split: option.splits)
  obtain r' where g: "gateway_upload W P host limited_read env (Some ?l) = Some (r', sent, ended)"
    using u by (auto simp: upload_media_file_def)
  from upload_file_sent [OF g] have s: "int (length (concat sent)) \<le> limit"
  proof
    assume "\<exists>err. upload_loop limited_read (ue_faults env) ?l [] = Some (err, sent)"
    then obtain err where "upload_loop limited_read (ue_faults env) ?l [] = Some (err, [] @ sent)" by auto
    from limited_total [OF _ this] show ?thesis using 1(2) by simp
  qed (use 1(2) in simp)
  show ?case
  proof (cases r)
    case (Inl e)
    then show ?thesis using 1(3) u s by auto
  next
    case (Inr m)
    then obtain x where x: "upload_parts W P host limit broken ps envs = Some x" "sents = (sent, ended) # snd x"
      using 1(3) u by (auto split: prod.splits)
    then have "upload_parts W P host limit broken ps envs = Some (fst x, snd x)" by simp
    from 1(1) [OF u [unfolded Inr] refl refl refl 1(2) this] show ?thesis using x(2) s by simp
  qed
qed auto

text \<open>C5: The limit for media binds the files of a form, whatever becomes of them: never more bytes of one are sent to the storage
  service.  It does not bind a file that is the body of its request and comes without a length: it is sent as a
  whole, however large it is, and its stream is closed as after a file that was accepted.\<close>

theorem media_limit:
  assumes "0 \<le> ws_media_max S"
  shows "(\<forall>ps broken a sents. wc_content q = FormParts ps broken \<and> upload_multi_media W P host S envs q w = Some (a, sents) \<longrightarrow>
      (\<forall>x \<in> set sents. int (length (concat (fst x))) \<le> ws_media_max S)) \<and>
    (\<forall>mime body cid env u. wc_content q = OneFile mime body \<and> wc_length q = -1 \<and> wc_cookie q = Some cid \<and> cid \<noteq> [] \<and>
      map_of (ww_chat w) cid \<noteq> None \<and> rd_error body = None \<and> hd envs = env \<and>
      ue_open env = None \<and> ue_meta env = None \<and> ue_faults env = [] \<and> ue_close env = Ok u \<longrightarrow>
      (\<exists>a sent. upload_multi_media W P host S envs q w = Some (a, [(sent, True)]) \<and> concat sent = rd_rest body))"
proof (intro conjI allI impI)
  fix ps broken a sents
  assume "wc_content q = FormParts ps broken \<and> upload_multi_media W P host S envs q w = Some (a, sents)"
  then have "sents = [] \<or> (\<exists>res. upload_parts W P host (ws_media_max S) broken ps envs = Some (res, sents))"
    by (auto simp: upload_multi_media_def Let_def split: if_splits)
  then show "\<forall>x \<in> set sents. int (length (concat (fst x))) \<le> ws_media_max S" using upload_parts_limit [OF assms] by fastforce
next
  fix mime body cid env u
  assume h: "wc_content q = OneFile mime body \<and> wc_length q = -1 \<and> wc_cookie q = Some cid \<and> cid \<noteq> [] \<and>
      map_of (ww_chat w) cid \<noteq> None \<and> rd_error body = None \<and> hd envs = env \<and>
      ue_open env = None \<and> ue_meta env = None \<and> ue_faults env = [] \<and> ue_close env = Ok u"
  have e: "read_ok st \<and> rd_error r' = None" if "rd_error r = None" "read_bytes chunk_size r = (bs, st, r')" for r bs st r'
    using that by (auto simp: read_bytes_def read_end_def Let_def split: if_splits)
  have "\<exists>new. upload_loop read_bytes [] body [] = Some (None, [] @ new) \<and> concat new = rd_rest body"
  proof (rule plain.upload_all [where I = "\<lambda>r. rd_error r = None"])
    show "rd_error body = None" using h by blast
  qed (rule e TrueI | assumption)+
  then obtain new where "upload_loop read_bytes [] body [] = Some (None, new)" "concat new = rd_rest body" by auto
  then show "\<exists>a sent. upload_multi_media W P host S envs q w = Some (a, [(sent, True)]) \<and> concat sent = rd_rest body"
    using h assms by (simp add: upload_multi_media_def Let_def upload_media_file_def gateway_upload_def upload_file_def)
qed

definition unsized_upload :: web_call where
  "unsized_upload =
     \<lparr>wc_method = ''POST'', wc_origin = ''https://a.com'', wc_path = ''/site/media'', wc_cookie = Some ''77'', wc_forwarded_proto = [],
      wc_scheme = ''https'', wc_forwarded_for = [], wc_real_ip = [], wc_peer = None, wc_upgrade = False, wc_upgraded = False,
      wc_fresh = [], wc_filename = ''f'', wc_length = -1, wc_content = OneFile ''text/plain'' cut_body, wc_check = CheckFailed []\<rparr>"

definition small_limit :: web_settings where
  "small_limit = default_settings\<lparr>ws_media_max := 3\<rparr>"

lemma media_limit_witness:
  "\<exists>a sent. upload_multi_media example_web (\<lambda>u s. Some s) ''http://h'' small_limit [cut_env] unsized_upload
      ((new_web_world new_bot_world)\<lparr>ww_chat := [(''77'', 0)]\<rparr>) = Some (a, [(sent, True)]) \<and> concat sent = ''abcde''"
proof -
  let ?u = "\<lparr>up_id = 7, up_url = ''/f'', up_size = 3, up_code = 0, up_malware = False\<rparr>"
  let ?w = "(new_web_world new_bot_world)\<lparr>ww_chat := [(''77'', 0)]\<rparr>"
  have h: "wc_content unsized_upload = OneFile ''text/plain'' cut_body \<and> wc_length unsized_upload = -1 \<and>
      wc_cookie unsized_upload = Some ''77'' \<and> ''77'' \<noteq> [] \<and> map_of (ww_chat ?w) ''77'' \<noteq> None \<and> rd_error cut_body = None \<and>
      hd [cut_env] = cut_env \<and> ue_open cut_env = None \<and> ue_meta cut_env = None \<and> ue_faults cut_env = [] \<and> ue_close cut_env = Ok ?u"
    by (simp add: unsized_upload_def cut_env_def cut_body_def)
  have "0 \<le> ws_media_max small_limit" by (simp add: small_limit_def)
  from conjunct2 [OF media_limit [OF this], THEN spec, THEN spec, THEN spec, THEN spec, THEN spec, THEN mp, OF h,
      of example_web "\<lambda>u s. Some s" "''http://h''"]
  show ?thesis by (simp add: cut_body_def)
qed

end
