(* ===== verification/Spec2Isabelle.thy ===== *)
theory Spec2Isabelle
  imports App_Strings App_Fields Flow_Agent Flow_Race Auth_Race Chat_Start Web_Examples Web_Bot
begin

text \<open>
  A model of webitel/chat_manager, the chat services of the Webitel platform, and what makes it correct.

  \<^bold>\<open>The program.\<close>  Two services talk to each other.  The bot service (bot/) keeps gateways to the
  providers of messengers, one of which is the chat of a web site (bot/webchat).  A gateway holds a channel for
  every customer who writes to it, and calls the chat service.  The chat service (cmd/chat) stores conversations,
  their channels, invites and messages in PostgreSQL (internal/repo/sqlx), tells the members of a conversation what
  happens in it (internal/event_router) by the broker, by gateways and by the portal, and runs a schema in it by the
  workflow service (internal/flow).  The authorization of requests and their search options are shared (auth, app).

  \<^bold>\<open>Application and authorization.\<close>
  Chat_Prelude: integers of 64 and 32 bits with their wrap-around, strings, splitting, numbers as text, variables.
  App_Strings (app/strings.go): the patterns of filters, Match against its specification glob, and Value against
  the meaning of LIKE.  App_Fields (app/fields.go, app/search.go): MergeFields, SelectFields, FieldsFunc, FieldsMask.
  App_Time (app/datetime.go): conversion of times and its round trips.  App_Contact (internal/contact) and App_Model
  (app/channel.go, app/session.go): contacts, channels, sessions.
  Auth_Access (auth/auth.go, auth/mode.go, app/context.go, app/controls.go): access rights and the controls of a
  request.  Auth_Cache (auth/cache.go): the cache of list cells and map refines a list ordered by use.  Auth_Client
  (auth/client.go, internal/auth/client.go): verification of tokens and the notices that revoke them, one after the
  other; Auth_Race: the same with every call and notice in steps that interleave.

  \<^bold>\<open>Workflow.\<close>
  Repo_Cache (internal/repo/sqlx/models.go, cache.go, BindChannel of channel.go): the rows and tables of the workflow
  client.  Flow_Channel (internal/flow/channel.go): selection of a host, the wrapped call, Send, Start, Close,
  BreakBridge and the transfers.  Flow_Delivery: what Send does with the token of the waiting schema.  Flow_Race: Send and
  WaitMessage at the same time.  Flow_Sticky: a chat stays on the host that answered.  Flow_Transfer: the
  effects of a transfer.  Flow_Agent (internal/flow/client.go): the agent with its map of channels, an invariant of
  all runs, the delivery of a message that was waited for, and GetChannel with its two locks.

  \<^bold>\<open>Chat service.\<close>
  Chat_Store (internal/repo/sqlx/conversation.go, channel.go, invite.go, client.go, tx.go): the tables with the
  constraints of store/migration, and every statement that changes them.  Chat_Router (internal/event_router): notices
  about invites and members.  Chat_Service (cmd/chat/service.go): InviteToConversation and its timer,
  JoinConversation, DeclineInvitation, LeaveConversation, WaitMessage.  Chat_Invitation: a step relation over these
  handlers, split where others run in between, and the invariant that an invite has at most one outcome of each kind.
  Chat_Lifecycle: failed invitations, titles, closed conversations.  Chat_Session (v1.session.go, service.go): the room
  of a chat and the delivery of messages; Chat_Room: who gets what.  Chat_Content, Chat_Keyboard
  (internal/keyboard): what a message carries, and its buttons.  Chat_Messages (internal/repo/sqlx/message.go, DeleteMessage): stored messages.
  Chat_Sending (service.go): saveMessage with its stages, SendMessage, SendServiceMessage.  Chat_Start: CheckSession
  and StartConversation, and a bot that finds its chat again after a restart.

  \<^bold>\<open>Bot service.\<close>
  Bot_Gateway (bot/gateway.go, bot/channel.go, bot/message.go): channels, gateways and caches as cells of a store.
  Bot_Service (bot/service.go, bot.go, store.go, api.go): the index of gateways, webhooks, profiles and licenses.
  Bot_Channels: the invariant of the indexes over all reachable states.  Bot_Lifecycle: first messages, closed
  chats, deletion, licenses, and calls of Close at the same time.  Bot_Upload (UploadFile of bot/gateway.go, limitedReader of webchat.go):
  files in chunks under the contract of io.Reader.

  \<^bold>\<open>Web chat.\<close>
  Web_Room, Web_Chat (bot/webchat/webchat.go): rooms, their write, read and join routines, split at every send over the
  channel of a room and at every lock.  Web_Safety: the invariant of rooms and connections.  Web_Effects: deliveries, the shared buffer,
  Close.  Web_Examples: a run of it.  Web_Bot (webchat.go, recaptcha.go): settings, origins, requests, uploads, captcha.

  \<^bold>\<open>Conventions.\<close>
  A struct is a record, an error a value of a sum (Ok and Fail abbreviate Inr and Inl) or of an option, a pointer
  that is shared an address into a list of cells.  A panic is an outcome of its own, or None where the text says so.  A
  loop that need not end is a partial function into an option, and the theorems about it say when it ends.  Names are
  those of the source, with a prefix where they clash.

  \<^bold>\<open>What is atomic.\<close>  A statement of SQL and a transaction are one step.  Handlers of which the
  properties depend on interleaving are step relations: invitations (Chat_Invitation), Send and
  WaitMessage (Flow_Race), the entry of a channel into the map of the agent (late_step of Flow_Agent), VerifyToken
  and the notices (Auth_Race), Close of a bot channel (close_step of Bot_Lifecycle), and the rooms of the web chat (Web_Chat).  The other theorems are
  about a handler that runs alone, and bot_step and agent_step about operations that follow each other, except that
  bot_step also has the steps of Close.

  \<^bold>\<open>Data of the environment.\<close>  What other services answer is data of the state: a list of attempts of a
  call (hosts, answer), a list of faults of coming statements (an empty list is no fault), a clock of each call.  The
  theorems hold for all of them unless a hypothesis says so, so no bound is chosen and no fuel is needed.  Parameters are the parser of UUIDs
  (U), the tables of other services, the URL parser and media types of the Go library (web_lib), the storage service,
  the encoders and decoders of JSON, templates and the drivers of providers.  Times of the database are
  microseconds, of app/datetime.go nanoseconds.

  \<^bold>\<open>Limits.\<close>  Case folding and white space are those of ASCII (predicate ascii of the prelude); the properties on
  patterns and selections say so.  A string is its bytes.  Sequence numbers of tables do not wrap.

  \<^bold>\<open>Not modelled.\<close>  The drivers of the providers other than the web chat, templates and traces of bots, the
  broadcast of the chat service, the queries behind catalog, dialogs, members, customers and cases (they build texts
  of SQL and change nothing), generated code, the drivers of broker, registry and database, logging, audit and the commands.
\<close>

end
